(* ===== verification/Prelude.thy ===== *)
theory Prelude
  imports Main "HOL-Library.Word" "HOL-Library.Signed_Division"
begin

text \<open>
  Shared vocabulary of the development: the failures of the C++ code as values,
  the result type every fallible operation returns, sequencing and traversal over
  results, and 64-bit signed arithmetic (\<open>util::index_t\<close> is \<open>std::ptrdiff_t\<close>).

  C++ failures are values of the datatype \<open>qerror\<close>.  \<open>Thrown_int\<close> is the
  \<open>throw 0\<close> the code uses for internal errors; \<open>Undefined_behaviour\<close> marks executions
  the C++ standard gives no meaning (signed overflow, division by zero, an out of range
  \<open>operator[]\<close>, a null dereference); \<open>Diverged\<close> is the value of a fuelled recursion
  whose fuel is exhausted, so \<open>f fuel x \<noteq> Inl Diverged\<close> states termination.
\<close>

section \<open>Collections of rules\<close>

named_theorems result_simps \<open>evaluation of sequenced results\<close>
named_theorems i64_simps \<open>evaluation of 64-bit signed arithmetic\<close>

section \<open>Errors and results\<close>

datatype qerror =
    Thrown_int
  | Bad_cast
  | Bad_function_call
  | Ambiguous_call
  | No_case_applicable
  | Out_of_range
  | Assertion_failed
  | Undefined_behaviour
  | Diverged
  | Runtime_error string
  | Parsing_error string
  | Printing_error string
  | Symbol_id_parsing_error
  | Duplicate_symbol_error string
  | Unknown_symbol_error string
  | Duplicate_module_error string
  | Missing_module_error string
  | Bad_alloc
  | Compilation_error string

type_synonym 'a result = "qerror + 'a"

fun rbind :: "'a result \<Rightarrow> ('a \<Rightarrow> 'b result) \<Rightarrow> 'b result" where
  "rbind (Inl e) f = Inl e"
| "rbind (Inr x) f = f x"

lemma rbind_cong [fundef_cong]:
  assumes "m = n" and "\<And>x. n = Inr x \<Longrightarrow> f x = g x"
  shows "rbind m f = rbind n g"
  using assms by (cases n) auto

lemma rbind_Inr_iff: "rbind m f = Inr y \<longleftrightarrow> (\<exists>x. m = Inr x \<and> f x = Inr y)"
  by (cases m) auto

lemma rbind_Inl_iff:
  "rbind m f = Inl e \<longleftrightarrow> m = Inl e \<or> (\<exists>x. m = Inr x \<and> f x = Inl e)"
  by (cases m) auto

lemma rbind_assoc: "rbind (rbind m f) g = rbind m (\<lambda>x. rbind (f x) g)"
  by (cases m) auto

lemma rbind_split:
  "P (rbind m f) \<longleftrightarrow> (\<forall>e. m = Inl e \<longrightarrow> P (Inl e)) \<and> (\<forall>x. m = Inr x \<longrightarrow> P (f x))"
  by (cases m) auto

text \<open>Running a fallible operation over a list, stopping at the first failure.\<close>

fun traverse :: "('a \<Rightarrow> 'b result) \<Rightarrow> 'a list \<Rightarrow> 'b list result" where
  "traverse f [] = Inr []"
| "traverse f (x # xs) = rbind (f x) (\<lambda>y. rbind (traverse f xs) (\<lambda>ys. Inr (y # ys)))"

lemma traverse_cong [fundef_cong]:
  "xs = ys \<Longrightarrow> (\<And>x. x \<in> set ys \<Longrightarrow> f x = g x) \<Longrightarrow> traverse f xs = traverse g ys"
  by (induction ys arbitrary: xs) auto

lemma traverse_Inr_iff:
  "traverse f xs = Inr ys \<longleftrightarrow> list_all2 (\<lambda>x y. f x = Inr y) xs ys"
  by (induction xs arbitrary: ys) (auto simp: rbind_Inr_iff list_all2_Cons1)

lemma traverse_length: "traverse f xs = Inr ys \<Longrightarrow> length ys = length xs"
  by (simp add: traverse_Inr_iff list_all2_lengthD)

lemma traverse_all_Inr:
  "(\<And>x. x \<in> set xs \<Longrightarrow> f x = Inr (g x)) \<Longrightarrow> traverse f xs = Inr (map g xs)"
  by (induction xs) auto

lemma traverse_Inr [simp]: "traverse Inr xs = Inr xs"
  by (induction xs) auto

lemma traverse_not_Inl:
  "(\<And>x. x \<in> set xs \<Longrightarrow> f x \<noteq> Inl e) \<Longrightarrow> traverse f xs \<noteq> Inl e"
  by (induction xs) (auto simp: rbind_Inl_iff)

lemma traverse_Inl_elem:
  "traverse f xs = Inl e \<Longrightarrow> \<exists>x \<in> set xs. f x = Inl e"
  by (induction xs) (auto simp: rbind_Inl_iff)

lemma traverse_mem_Inr:
  "traverse f xs = Inr ys \<Longrightarrow> x \<in> set xs \<Longrightarrow> \<exists>y \<in> set ys. f x = Inr y"
  by (induction xs arbitrary: ys) (fastforce simp: rbind_Inr_iff)+

lemma list_all2_exists: "(\<forall>x \<in> set xs. \<exists>y. P x y) \<Longrightarrow> \<exists>ys. list_all2 P xs ys"
  by (induction xs) (auto simp: list_all2_Cons1)

lemma traverse_map: "traverse f (map g xs) = traverse (\<lambda>x. f (g x)) xs"
  by (induction xs) auto

lemmas result_rules = rbind_Inr_iff rbind_Inl_iff rbind_assoc traverse_map

declare result_rules [result_simps]

lemma size_list_mem: "x \<in> set xs \<Longrightarrow> size x < Suc (size_list size xs)"
  using size_list_estimation' [of x xs "size x" size] by (simp add: less_Suc_eq_le)

section \<open>Signed 64-bit arithmetic\<close>

text \<open>
  \<open>util::index_t\<close> values are integers of the range of a 64-bit two's complement word.
  Signed overflow and division by zero have undefined behaviour in C++, so each operation
  returns a result.  Division truncates towards zero (\<open>sdiv\<close>, \<open>smod\<close>).
\<close>

definition i64_max :: int where "i64_max = 9223372036854775807"
definition i64_min :: int where "i64_min = -9223372036854775808"

definition in_i64 :: "int \<Rightarrow> bool" where
  "in_i64 x \<longleftrightarrow> i64_min \<le> x \<and> x \<le> i64_max"

definition checked_i64 :: "int \<Rightarrow> int result" where
  "checked_i64 x = (if in_i64 x then Inr x else Inl Undefined_behaviour)"

definition i64_div :: "int \<Rightarrow> int \<Rightarrow> int result" where
  "i64_div a b = (if b = 0 then Inl Undefined_behaviour else checked_i64 (a sdiv b))"

definition i64_mod :: "int \<Rightarrow> int \<Rightarrow> int result" where
  "i64_mod a b = (if b = 0 \<or> \<not> in_i64 (a sdiv b) then Inl Undefined_behaviour else Inr (a smod b))"

lemmas i64_defs = i64_max_def i64_min_def in_i64_def checked_i64_def i64_div_def i64_mod_def

declare i64_defs [i64_simps]

lemma in_i64_iff_sint: "in_i64 x \<longleftrightarrow> (\<exists>w :: 64 word. sint w = x)"
proof
  assume "in_i64 x"
  then have "sint (word_of_int x :: 64 word) = x"
    by (simp add: in_i64_def i64_min_def i64_max_def sint_sbintrunc' signed_take_bit_int_eq_self)
  then show "\<exists>w :: 64 word. sint w = x" ..
next
  assume "\<exists>w :: 64 word. sint w = x"
  then obtain w :: "64 word" where "sint w = x" ..
  then show "in_i64 x"
    using sint_range_size [of w] by (auto simp: in_i64_def i64_min_def i64_max_def word_size)
qed

lemma checked_i64_Inr: "checked_i64 x = Inr y \<longleftrightarrow> in_i64 x \<and> y = x"
  by (auto simp: checked_i64_def)

lemma smod_sgn_int: "(a::int) smod b = sgn a * (\<bar>a\<bar> mod \<bar>b\<bar>)"
  by (simp add: signed_modulo_int_def)

lemma sdiv_smod_int: "(a::int) sdiv b * b + a smod b = a"
proof -
  have "a sdiv b * b + a smod b = sgn a * ((\<bar>a\<bar> div \<bar>b\<bar>) * \<bar>b\<bar> + \<bar>a\<bar> mod \<bar>b\<bar>)"
    by (simp add: signed_divide_int_def signed_modulo_int_def abs_sgn algebra_simps)
  then show ?thesis by (simp add: sgn_mult_abs)
qed

lemma smod_nonneg_int: "0 \<le> (a::int) \<Longrightarrow> 0 < b \<Longrightarrow> a smod b = a mod b"
  by (cases "a = 0") (simp_all add: smod_sgn_int)

section \<open>Decimal numerals (\<open>std::to_string\<close>)\<close>

definition digit :: "nat \<Rightarrow> char" where
  "digit n = char_of (48 + n mod 10)"

fun to_string :: "nat \<Rightarrow> string" where
  "to_string n = (if n < 10 then [digit n] else to_string (n div 10) @ [digit n])"

declare to_string.simps [simp del]

lemma digit_inj: "m < 10 \<Longrightarrow> n < 10 \<Longrightarrow> digit m = digit n \<Longrightarrow> m = n"
proof -
  assume "m < 10" "n < 10" "digit m = digit n"
  then have "of_char (char_of (48 + m) :: char) = (of_char (char_of (48 + n) :: char) :: nat)"
    by (simp add: digit_def)
  with \<open>m < 10\<close> \<open>n < 10\<close> show "m = n" by simp
qed

lemma digit_0: "digit 0 = CHR ''0''"
  by code_simp

lemma to_string_inj: "to_string m = to_string n \<Longrightarrow> m = n"
proof (induction m arbitrary: n rule: to_string.induct)
  case (1 m)
  have ne: "to_string k \<noteq> []" for k by (subst to_string.simps) simp
  have last: "last (to_string k) = digit (k mod 10)" for k
    by (subst to_string.simps) (simp add: digit_def)
  have "digit (m mod 10) = digit (n mod 10)" using 1(2) last by metis
  then have mod: "m mod 10 = n mod 10" by (intro digit_inj) auto
  show ?case
  proof (cases "m < 10 \<or> n < 10")
    case True
    then have "m < 10 \<and> n < 10"
      using 1(2) ne ne [symmetric] by (subst (asm) (1 2) to_string.simps) (auto split: if_splits)
    with mod show ?thesis by simp
  next
    case False
    then have "to_string (m div 10) = to_string (n div 10)"
      using 1(2) by (subst (asm) (1 2) to_string.simps) auto
    with 1(1) False have "m div 10 = n div 10" by simp
    with mod show ?thesis by (metis div_mult_mod_eq)
  qed
qed

end
