(* ===== verification/Types.thy ===== *)
theory Types
  imports Prelude
begin

text \<open>
  The types of the Qubus intermediate representation (\<open>qubus/include/qubus/IR/type.hpp\<close>,
  \<open>qubus/src/IR/type.cpp\<close>).  The polymorphic \<open>qubus::type\<close> with its implementation
  classes in \<open>qubus::types\<close> is the datatype \<open>qtype\<close>, one constructor per class; a struct
  member is a pair of its type and its name.  The theory models type equality (a multi method whose
  fallback answers \<open>false\<close>), the hash, member lookup and the element type of arrays.
\<close>

unbundle bit_operations_syntax

section \<open>The type language\<close>

datatype qtype =
    Unknown_t
  | Double_t
  | Float_t
  | Integer_t
  | Bool_t
  | Index_t
  | Multi_index_t int
  | Complex_t qtype
  | Integer_range_t
  | Array_t qtype int
  | Array_slice_t qtype int
  | Struct_t string "(qtype \<times> string) list"

type_synonym member = "qtype \<times> string"

fun is_primitive :: "qtype \<Rightarrow> bool" where
  "is_primitive (Array_t _ _) = False"
| "is_primitive (Array_slice_t _ _) = False"
| "is_primitive (Struct_t _ _) = False"
| "is_primitive _ = True"

section \<open>Equality\<close>

text \<open>
  \<open>operator==\<close> on types dispatches on the pair of dynamic types; pairs without a
  specialisation, among them \<open>unknown\<close> and \<open>multi_index\<close> with themselves, fall back to
  \<open>false\<close>.  Structs are compared by their name only.
\<close>

fun type_eq :: "qtype \<Rightarrow> qtype \<Rightarrow> bool" where
  "type_eq Double_t t = (t = Double_t)"
| "type_eq Float_t t = (t = Float_t)"
| "type_eq Integer_t t = (t = Integer_t)"
| "type_eq Bool_t t = (t = Bool_t)"
| "type_eq Index_t t = (t = Index_t)"
| "type_eq (Complex_t a) t = (case t of Complex_t b \<Rightarrow> type_eq a b | _ \<Rightarrow> False)"
| "type_eq Integer_range_t t = (t = Integer_range_t)"
| "type_eq (Array_t a r) t = (case t of Array_t b s \<Rightarrow> type_eq a b \<and> r = s | _ \<Rightarrow> False)"
| "type_eq (Array_slice_t a r) t =
     (case t of Array_slice_t b s \<Rightarrow> type_eq a b \<and> r = s | _ \<Rightarrow> False)"
| "type_eq (Struct_t i ms) t = (case t of Struct_t j ns \<Rightarrow> i = j | _ \<Rightarrow> False)"
| "type_eq Unknown_t t = False"
| "type_eq (Multi_index_t r) t = False"

definition type_neq :: "qtype \<Rightarrow> qtype \<Rightarrow> bool" where
  "type_neq a b = (\<not> type_eq a b)"

text \<open>\<open>std::vector<type>\<close> is compared element by element.\<close>

definition types_eq :: "qtype list \<Rightarrow> qtype list \<Rightarrow> bool" where
  "types_eq as bs = list_all2 type_eq as bs"

text \<open>The types on which the equality of the code is reflexive.\<close>

fun comparable :: "qtype \<Rightarrow> bool" where
  "comparable Unknown_t = False"
| "comparable (Multi_index_t _) = False"
| "comparable (Complex_t a) = comparable a"
| "comparable (Array_t a _) = comparable a"
| "comparable (Array_slice_t a _) = comparable a"
| "comparable _ = True"

lemma type_eq_sym: "type_eq a b = type_eq b a"
  by (induction a arbitrary: b; case_tac b; auto)

lemma type_eq_trans: "type_eq a b \<Longrightarrow> type_eq b c \<Longrightarrow> type_eq a c"
  by (induction a arbitrary: b c) (auto split: qtype.splits)

lemma type_eq_refl [simp]: "type_eq a a = comparable a"
  by (induction a) auto

text \<open>Type equality is a partial equivalence: symmetric, transitive, and reflexive on
  exactly those types that hold neither \<open>unknown\<close> nor \<open>multi_index\<close> in their
  element type; no type containing one of these equals itself.\<close>
lemma type_eq_partial_equivalence:
  "(type_eq a b = type_eq b a) \<and> (type_eq a b \<and> type_eq b c \<longrightarrow> type_eq a c) \<and>
   (type_eq a a = comparable a)"
  using type_eq_sym [of a b] type_eq_trans [of a b c] by simp

lemma type_eq_partial_equivalence_example:
  "type_eq (Complex_t Double_t) (Complex_t Double_t) \<and> \<not> type_eq (Array_t Unknown_t 1) (Array_t Unknown_t 1)"
  using type_eq_partial_equivalence [of "Complex_t Double_t" "Complex_t Double_t" "Complex_t Double_t"]
  by simp

lemma type_eq_base [simp]:
  "type_eq t Double_t = (t = Double_t)" "type_eq t Float_t = (t = Float_t)"
  "type_eq t Integer_t = (t = Integer_t)" "type_eq t Bool_t = (t = Bool_t)"
  "type_eq t Index_t = (t = Index_t)" "type_eq t Integer_range_t = (t = Integer_range_t)"
  "type_eq t Unknown_t = False" "type_eq t (Multi_index_t r) = False"
  by (cases t; auto)+

lemma type_neq_Integer [simp]: "type_neq t Integer_t = (t \<noteq> Integer_t)"
  by (simp add: type_neq_def)

section \<open>Hashing\<close>

text \<open>
  \<open>std::hash<qubus::type>\<close> is \<open>noexcept\<close>; where its matcher has no case
  (\<open>bool\<close>, \<open>unknown\<close>, \<open>multi_index\<close>) the \<open>std::logic_error\<close> of the matcher ends
  the program, which is the \<open>Inl\<close> value here.  The hashes of \<open>std::type_index\<close>, strings
  and integers are the standard library's and are parameters, collected in a record.
\<close>

datatype type_kind =
  Double_c | Float_c | Integer_c | Index_c | Complex_c | Integer_range_c
  | Array_c | Array_slice_c | Struct_c

record std_hashes =
  hash_type_index :: "type_kind \<Rightarrow> 64 word"
  hash_string :: "string \<Rightarrow> 64 word"
  hash_index :: "int \<Rightarrow> 64 word"

definition hash_combine :: "64 word \<Rightarrow> 64 word \<Rightarrow> 64 word" where
  "hash_combine seed h = seed XOR (h + 0x9e3779b9 + push_bit 6 seed + drop_bit 2 seed)"

fun hash_type :: "std_hashes \<Rightarrow> qtype \<Rightarrow> 64 word result" where
  "hash_type H Double_t = Inr (hash_type_index H Double_c)"
| "hash_type H Float_t = Inr (hash_type_index H Float_c)"
| "hash_type H Integer_t = Inr (hash_type_index H Integer_c)"
| "hash_type H Index_t = Inr (hash_type_index H Index_c)"
| "hash_type H (Complex_t t) =
     rbind (hash_type H t) (\<lambda>h. Inr (hash_combine (hash_combine 0 (hash_type_index H Complex_c)) h))"
| "hash_type H Integer_range_t = Inr (hash_type_index H Integer_range_c)"
| "hash_type H (Array_t t r) =
     rbind (hash_type H t) (\<lambda>h.
       Inr (hash_combine (hash_combine (hash_combine 0 (hash_type_index H Array_c)) h) (hash_index H r)))"
| "hash_type H (Array_slice_t t r) =
     rbind (hash_type H t) (\<lambda>h.
       Inr (hash_combine (hash_combine (hash_combine 0 (hash_type_index H Array_slice_c)) h)
             (hash_index H r)))"
| "hash_type H (Struct_t i ms) =
     rbind (traverse (\<lambda>m. rbind (hash_type H (fst m)) (\<lambda>h.
              Inr (hash_combine (hash_combine 0 h) (hash_string H (snd m))))) ms)
       (\<lambda>hs. Inr (foldl hash_combine
              (hash_combine (hash_combine 0 (hash_type_index H Struct_c)) (hash_string H i)) hs))"
| "hash_type H Bool_t = Inl No_case_applicable"
| "hash_type H Unknown_t = Inl No_case_applicable"
| "hash_type H (Multi_index_t r) = Inl No_case_applicable"

fun struct_free :: "qtype \<Rightarrow> bool" where
  "struct_free (Struct_t _ _) = False"
| "struct_free (Complex_t a) = struct_free a"
| "struct_free (Array_t a _) = struct_free a"
| "struct_free (Array_slice_t a _) = struct_free a"
| "struct_free _ = True"

lemma type_eq_struct_free: "type_eq a b \<Longrightarrow> struct_free a \<Longrightarrow> a = b"
  by (induction a arbitrary: b) (auto split: qtype.splits)

text \<open>The hash agrees with equality wherever no struct is involved: equal struct-free types
  have the same hash, for every choice of the standard library's hashes.\<close>
lemma hash_respects_type_eq:
  assumes "type_eq a b" and "struct_free a"
  shows "hash_type H a = hash_type H b"
  using type_eq_struct_free [OF assms] by simp

lemma hash_respects_type_eq_example:
  "hash_type \<lparr>hash_type_index = \<lambda>k. 1, hash_string = \<lambda>s. of_nat (length s), hash_index = word_of_int\<rparr>
     (Array_t (Complex_t Double_t) 2) =
   hash_type \<lparr>hash_type_index = \<lambda>k. 1, hash_string = \<lambda>s. of_nat (length s), hash_index = word_of_int\<rparr>
     (Array_t (Complex_t Double_t) (1 + 1))"
  by (rule hash_respects_type_eq) simp_all

text \<open>With structs the contract of \<open>std::hash\<close> is broken: two structs of the same name
  are equal whatever their members, while the hash mixes the members in; and the hash of every type
  holding a \<open>bool\<close> (outside of a struct's name) ends the program.\<close>
lemma hash_type_struct_and_bool:
  "(\<exists>H a b. type_eq a b \<and> hash_type H a \<noteq> hash_type H b) \<and>
   (\<forall>H r. hash_type H (Array_t Bool_t r) = Inl No_case_applicable \<and>
          hash_type H Bool_t = Inl No_case_applicable)"
proof -
  let ?H = "\<lparr>hash_type_index = (\<lambda>_. 0), hash_string = (\<lambda>_. 0), hash_index = (\<lambda>_. 0)\<rparr>"
  have "type_eq (Struct_t ''s'' []) (Struct_t ''s'' [(Integer_t, ''x'')])"
    by simp
  moreover have "hash_type ?H (Struct_t ''s'' []) \<noteq> hash_type ?H (Struct_t ''s'' [(Integer_t, ''x'')])"
    by (simp add: hash_combine_def)
  ultimately have "\<exists>H a b. type_eq a b \<and> hash_type H a \<noteq> hash_type H b"
    by blast
  then show ?thesis by simp
qed

section \<open>Struct members and element types\<close>

fun find_member :: "member list \<Rightarrow> string \<Rightarrow> member option" where
  "find_member [] i = None"
| "find_member (m # ms) i = (if snd m = i then Some m else find_member ms i)"

definition struct_member_type :: "member list \<Rightarrow> string \<Rightarrow> qtype result" where
  "struct_member_type ms i = (case find_member ms i of Some m \<Rightarrow> Inr (fst m) | None \<Rightarrow> Inl Thrown_int)"

fun find_member_index :: "member list \<Rightarrow> string \<Rightarrow> nat option" where
  "find_member_index [] i = None"
| "find_member_index (m # ms) i = (if snd m = i then Some 0 else map_option Suc (find_member_index ms i))"

definition member_index :: "member list \<Rightarrow> string \<Rightarrow> nat result" where
  "member_index ms i = (case find_member_index ms i of Some k \<Rightarrow> Inr k | None \<Rightarrow> Inl Thrown_int)"

lemma find_member_index_Some:
  "find_member_index ms i = Some k \<longleftrightarrow>
     k < length ms \<and> snd (ms ! k) = i \<and> (\<forall>j < k. snd (ms ! j) \<noteq> i)"
proof (induction ms arbitrary: k)
  case Nil
  then show ?case by simp
next
  case (Cons m ms)
  show ?case
  proof (cases k)
    case 0
    then show ?thesis by auto
  next
    case (Suc k')
    then show ?thesis
      using Cons.IH [of k'] by (auto simp: less_Suc_eq_0_disj All_less_Suc2)
  qed
qed

lemma find_member_via_index: "find_member ms i = map_option (nth ms) (find_member_index ms i)"
  by (induction ms) (auto simp: option.map_comp comp_def)

text \<open>Member lookup by name and by position agree: \<open>member_index\<close> answers the
  position of the first member of that name, \<open>operator[]\<close> the type at that position, and both fail
  exactly when no member has the name.\<close>
lemma struct_lookup_consistent:
  "(member_index ms i = Inr k \<longleftrightarrow>
      k < length ms \<and> snd (ms ! k) = i \<and> (\<forall>j < k. snd (ms ! j) \<noteq> i)) \<and>
   struct_member_type ms i = rbind (member_index ms i) (\<lambda>k. Inr (fst (ms ! k))) \<and>
   (member_index ms i = Inl Thrown_int \<longleftrightarrow> i \<notin> snd ` set ms)"
proof -
  have none: "find_member_index ms i = None \<longleftrightarrow> i \<notin> snd ` set ms"
    by (induction ms) auto
  show ?thesis
    using none
    by (auto simp: member_index_def struct_member_type_def find_member_via_index
        find_member_index_Some [symmetric] split: option.splits)
qed

lemma struct_lookup_consistent_example:
  "member_index [(Double_t, ''val''), (Integer_t, ''col'')] ''col'' = Inr 1"
  using struct_lookup_consistent
    [of "[(Double_t, ''val''), (Integer_t, ''col'')]" "''col''" 1]
  by (simp add: less_Suc_eq)

definition sparse_tensor :: "qtype \<Rightarrow> qtype" where
  "sparse_tensor v =
     Struct_t ''sparse_tensor''
       [(Struct_t ''sell_tensor''
           [(Array_t v 1, ''val''), (Array_t Integer_t 1, ''col''),
            (Array_t Integer_t 1, ''cs''), (Array_t Integer_t 1, ''cl'')], ''data''),
        (Array_t Integer_t 1, ''shape'')]"

definition value_type :: "qtype \<Rightarrow> qtype result" where
  "value_type t =
     (case t of
        Array_t v _ \<Rightarrow> Inr v
      | Array_slice_t v _ \<Rightarrow> Inr v
      | _ \<Rightarrow> Inl Thrown_int)"

end
