(* ===== verification/Expressions.thy ===== *)
theory Expressions
  imports Types
begin

text \<open>
  The expression tree of the intermediate representation (\<open>qubus/include/qubus/IR/*_expr.hpp\<close>,
  \<open>qubus/src/IR/*_expr.cpp\<close>, \<open>expression.cpp\<close>): one constructor per node class, and for each
  class the operations of the base class \<open>expression\<close>: \<open>arity\<close>, \<open>child\<close>,
  \<open>sub_expressions\<close>, \<open>substitute_subexpressions\<close>, the parent links set by
  \<open>take_over_child\<close>, the cursor, and structural equality.

  A \<open>variable_declaration\<close> is a shared pointer; it is a record with the pointer's identity
  \<open>var_id\<close>.  \<open>double\<close> and \<open>float\<close> literals are the bit patterns of IEEE binary64 and
  binary32.  Nodes are immutable, so cloning is the identity of the model.
\<close>

section \<open>Data\<close>

datatype binary_op_tag =
    Nop_b | Plus | Minus | Multiplies | Divides | Modulus | Div_floor | Assign | Plus_assign
  | Equal_to | Not_equal_to | Less | Greater | Less_equal | Greater_equal | Logical_and | Logical_or

datatype unary_op_tag = Nop_u | Plus_u | Negate | Logical_not

datatype execution_order = Sequential | Unordered | Parallel

record variable_declaration =
  var_id :: nat
  var_name :: string
  var_type :: qtype

definition var_eq :: "variable_declaration \<Rightarrow> variable_declaration \<Rightarrow> bool" where
  "var_eq a b = (var_id a = var_id b)"

datatype expr =
    Binary_operator_expr binary_op_tag expr expr
  | Unary_operator_expr unary_op_tag expr
  | Double_literal_expr "64 word"
  | Float_literal_expr "32 word"
  | Integer_literal_expr int
  | Bool_literal_expr bool
  | Compound_expr execution_order "expr list"
  | For_expr execution_order variable_declaration expr expr expr expr
  | If_expr expr expr "expr option"
  | Integer_range_expr expr expr expr
  | Macro_expr "variable_declaration list" expr
  | Subscription_expr expr "expr list"
  | Member_access_expr expr string
  | Type_conversion_expr qtype expr
  | Local_variable_def_expr variable_declaration expr
  | Construct_expr qtype "expr list"
  | Variable_ref_expr variable_declaration
  | Intrinsic_function_expr string "expr list"

text \<open>The classes derived from \<open>access_expr\<close>, and well-formed trees: what is indexed or
  accessed is an access (\<open>std::unique_ptr<access_expr>\<close>), integers fit their type.\<close>

fun is_access :: "expr \<Rightarrow> bool" where
  "is_access (Variable_ref_expr _) = True"
| "is_access (Subscription_expr _ _) = True"
| "is_access (Member_access_expr _ _) = True"
| "is_access _ = False"

fun wf_expr :: "expr \<Rightarrow> bool" where
  "wf_expr (Binary_operator_expr _ l r) = (wf_expr l \<and> wf_expr r)"
| "wf_expr (Unary_operator_expr _ a) = wf_expr a"
| "wf_expr (Double_literal_expr _) = True"
| "wf_expr (Float_literal_expr _) = True"
| "wf_expr (Integer_literal_expr n) = in_i64 n"
| "wf_expr (Bool_literal_expr _) = True"
| "wf_expr (Compound_expr _ es) = (\<forall>e \<in> set es. wf_expr e)"
| "wf_expr (For_expr _ _ l u i b) = (wf_expr l \<and> wf_expr u \<and> wf_expr i \<and> wf_expr b)"
| "wf_expr (If_expr c t None) = (wf_expr c \<and> wf_expr t)"
| "wf_expr (If_expr c t (Some e)) = (wf_expr c \<and> wf_expr t \<and> wf_expr e)"
| "wf_expr (Integer_range_expr l u s) = (wf_expr l \<and> wf_expr u \<and> wf_expr s)"
| "wf_expr (Macro_expr _ b) = wf_expr b"
| "wf_expr (Subscription_expr a is) = (is_access a \<and> wf_expr a \<and> (\<forall>e \<in> set is. wf_expr e))"
| "wf_expr (Member_access_expr a _) = (is_access a \<and> wf_expr a)"
| "wf_expr (Type_conversion_expr _ a) = wf_expr a"
| "wf_expr (Local_variable_def_expr _ i) = wf_expr i"
| "wf_expr (Construct_expr _ ps) = (\<forall>e \<in> set ps. wf_expr e)"
| "wf_expr (Variable_ref_expr _) = True"
| "wf_expr (Intrinsic_function_expr _ as) = (\<forall>e \<in> set as. wf_expr e)"

section \<open>Arity and children, per node class\<close>

fun arity :: "expr \<Rightarrow> nat" where
  "arity (Binary_operator_expr _ _ _) = 2"
| "arity (Unary_operator_expr _ _) = 1"
| "arity (Double_literal_expr _) = 0"
| "arity (Float_literal_expr _) = 0"
| "arity (Integer_literal_expr _) = 0"
| "arity (Bool_literal_expr _) = 0"
| "arity (Compound_expr _ es) = length es"
| "arity (For_expr _ _ _ _ _ _) = 4"
| "arity (If_expr _ _ e) = (if e = None then 2 else 3)"
| "arity (Integer_range_expr _ _ _) = 3"
| "arity (Macro_expr _ _) = 1"
| "arity (Subscription_expr _ is) = length is + 1"
| "arity (Member_access_expr _ _) = 1"
| "arity (Type_conversion_expr _ _) = 1"
| "arity (Local_variable_def_expr _ _) = 1"
| "arity (Construct_expr _ ps) = length ps"
| "arity (Variable_ref_expr _) = 0"
| "arity (Intrinsic_function_expr _ as) = length as"

definition binary_operator_expr_child :: "expr \<Rightarrow> expr \<Rightarrow> nat \<Rightarrow> expr result" where
  "binary_operator_expr_child l r i =
     (if i = 0 then Inr l else if i = 1 then Inr r else Inl Thrown_int)"

definition unary_operator_expr_child :: "expr \<Rightarrow> nat \<Rightarrow> expr result" where
  "unary_operator_expr_child a i = (if i = 0 then Inr a else Inl Thrown_int)"

text \<open>\<open>std::vector::at\<close> throws \<open>std::out_of_range\<close>.\<close>

definition vector_at :: "expr list \<Rightarrow> nat \<Rightarrow> expr result" where
  "vector_at es i = (if i < length es then Inr (es ! i) else Inl Out_of_range)"

definition compound_expr_child :: "expr list \<Rightarrow> nat \<Rightarrow> expr result" where
  "compound_expr_child es i = vector_at es i"

definition intrinsic_function_expr_child :: "expr list \<Rightarrow> nat \<Rightarrow> expr result" where
  "intrinsic_function_expr_child as i = vector_at as i"

definition for_expr_child :: "expr \<Rightarrow> expr \<Rightarrow> expr \<Rightarrow> expr \<Rightarrow> nat \<Rightarrow> expr result" where
  "for_expr_child l u s b i =
     (if i = 0 then Inr l else if i = 1 then Inr u else if i = 2 then Inr s
      else if i = 3 then Inr b else Inl Thrown_int)"

definition if_expr_child :: "expr \<Rightarrow> expr \<Rightarrow> expr option \<Rightarrow> nat \<Rightarrow> expr result" where
  "if_expr_child c t e i =
     (if i = 0 then Inr c
      else if i = 1 then Inr t
      else if i = 2 then (case e of Some b \<Rightarrow> Inr b | None \<Rightarrow> Inl Thrown_int)
      else Inl Thrown_int)"

definition integer_range_expr_child :: "expr \<Rightarrow> expr \<Rightarrow> expr \<Rightarrow> nat \<Rightarrow> expr result" where
  "integer_range_expr_child l u s i =
     (if i = 0 then Inr l else if i = 1 then Inr u else if i = 2 then Inr s else Inl Thrown_int)"

definition macro_expr_child :: "expr \<Rightarrow> nat \<Rightarrow> expr result" where
  "macro_expr_child b i = (if i = 0 then Inr b else Inl Thrown_int)"

definition subscription_expr_child :: "expr \<Rightarrow> expr list \<Rightarrow> nat \<Rightarrow> expr result" where
  "subscription_expr_child a is i =
     (if i = 0 then Inr a
      else if i - 1 < length is then Inr (is ! (i - 1)) else Inl Thrown_int)"

definition member_access_expr_child :: "expr \<Rightarrow> nat \<Rightarrow> expr result" where
  "member_access_expr_child a i = (if i = 0 then Inr a else Inl Thrown_int)"

definition type_conversion_expr_child :: "expr \<Rightarrow> nat \<Rightarrow> expr result" where
  "type_conversion_expr_child a i = (if i = 0 then Inr a else Inl Thrown_int)"

definition local_variable_def_expr_child :: "expr \<Rightarrow> nat \<Rightarrow> expr result" where
  "local_variable_def_expr_child a i = (if i = 0 then Inr a else Inl Thrown_int)"

text \<open>\<open>construct_expr::child\<close> tests the index but answers the first parameter for every index.\<close>

definition construct_expr_child :: "expr list \<Rightarrow> nat \<Rightarrow> expr result" where
  "construct_expr_child ps i = (if i < length ps then Inr (ps ! 0) else Inl Thrown_int)"

fun child :: "expr \<Rightarrow> nat \<Rightarrow> expr result" where
  "child (Binary_operator_expr _ l r) i = binary_operator_expr_child l r i"
| "child (Unary_operator_expr _ a) i = unary_operator_expr_child a i"
| "child (Double_literal_expr _) i = Inl Thrown_int"
| "child (Float_literal_expr _) i = Inl Thrown_int"
| "child (Integer_literal_expr _) i = Inl Thrown_int"
| "child (Bool_literal_expr _) i = Inl Thrown_int"
| "child (Compound_expr _ es) i = compound_expr_child es i"
| "child (For_expr _ _ l u s b) i = for_expr_child l u s b i"
| "child (If_expr c t e) i = if_expr_child c t e i"
| "child (Integer_range_expr l u s) i = integer_range_expr_child l u s i"
| "child (Macro_expr _ b) i = macro_expr_child b i"
| "child (Subscription_expr a is) i = subscription_expr_child a is i"
| "child (Member_access_expr a _) i = member_access_expr_child a i"
| "child (Type_conversion_expr _ a) i = type_conversion_expr_child a i"
| "child (Local_variable_def_expr _ a) i = local_variable_def_expr_child a i"
| "child (Construct_expr _ ps) i = construct_expr_child ps i"
| "child (Variable_ref_expr _) i = Inl Thrown_int"
| "child (Intrinsic_function_expr _ as) i = intrinsic_function_expr_child as i"

lemmas child_defs =
  binary_operator_expr_child_def unary_operator_expr_child_def compound_expr_child_def
  intrinsic_function_expr_child_def for_expr_child_def if_expr_child_def
  integer_range_expr_child_def macro_expr_child_def subscription_expr_child_def
  member_access_expr_child_def type_conversion_expr_child_def local_variable_def_expr_child_def
  construct_expr_child_def vector_at_def

text \<open>\<open>expression_base::sub_expressions\<close> maps \<open>child\<close> over \<open>irange(0, arity())\<close>.\<close>

definition sub_expressions :: "expr \<Rightarrow> expr list result" where
  "sub_expressions e = traverse (child e) [0..<arity e]"

text \<open>The list this yields, in closed form; note the constructor call.\<close>

fun children :: "expr \<Rightarrow> expr list" where
  "children (Binary_operator_expr _ l r) = [l, r]"
| "children (Unary_operator_expr _ a) = [a]"
| "children (Compound_expr _ es) = es"
| "children (For_expr _ _ l u s b) = [l, u, s, b]"
| "children (If_expr c t None) = [c, t]"
| "children (If_expr c t (Some e)) = [c, t, e]"
| "children (Integer_range_expr l u s) = [l, u, s]"
| "children (Macro_expr _ b) = [b]"
| "children (Subscription_expr a is) = a # is"
| "children (Member_access_expr a _) = [a]"
| "children (Type_conversion_expr _ a) = [a]"
| "children (Local_variable_def_expr _ a) = [a]"
| "children (Construct_expr _ ps) = replicate (length ps) (ps ! 0)"
| "children (Intrinsic_function_expr _ as) = as"
| "children _ = []"

lemma upt_simps [simp]: "[0..<2] = [0, Suc 0]" "[0..<3] = [0, Suc 0, 2]" "[0..<4] = [0, Suc 0, 2, 3]"
  by (simp_all add: upt_rec numeral_eq_Suc)

lemma traverse_upt_list:
  "(\<And>i. i < length es \<Longrightarrow> f i = Inr (es ! i)) \<Longrightarrow> traverse f [0..<length es] = Inr es"
  using traverse_all_Inr [of "[0..<length es]" f "nth es"] by (simp add: map_nth)

lemma sub_expressions_eq [simp]: "sub_expressions e = Inr (children e)"
proof (cases e)
  case (Compound_expr x y)
  then show ?thesis by (simp add: sub_expressions_def child_defs traverse_upt_list)
next
  case (If_expr x y z)
  then show ?thesis by (cases z) (simp_all add: sub_expressions_def child_defs)
next
  case (Subscription_expr a js)
  have "traverse (child e) [0..<length (a # js)] = Inr (a # js)"
    by (rule traverse_upt_list) (auto simp: Subscription_expr child_defs nth_Cons')
  with Subscription_expr show ?thesis by (simp add: sub_expressions_def)
next
  case (Construct_expr x ps)
  have "traverse (child e) [0..<length (replicate (length ps) (ps ! 0))]
      = Inr (replicate (length ps) (ps ! 0))"
    by (rule traverse_upt_list) (simp add: Construct_expr child_defs)
  with Construct_expr show ?thesis by (simp add: sub_expressions_def)
next
  case (Intrinsic_function_expr x y)
  then show ?thesis by (simp add: sub_expressions_def child_defs traverse_upt_list)
qed (simp_all add: sub_expressions_def child_defs)

lemma length_children [simp]: "length (children e) = arity e"
  by (cases e rule: children.cases) auto

lemma children_smaller: "x \<in> set (children e) \<Longrightarrow> size x < size e"
proof (cases e rule: children.cases)
  case (13 t ps)
  assume "x \<in> set (children e)"
  with 13 have "x \<in> set ps" by auto
  with 13 show ?thesis using size_list_mem [of x ps] by simp
qed (auto simp: less_Suc_eq_le dest!: size_list_mem)

lemma wf_children: "wf_expr e \<Longrightarrow> x \<in> set (children e) \<Longrightarrow> wf_expr x"
  by (cases e rule: children.cases) auto

end
