(* ===== verification/ExpressionOps.thy ===== *)
theory ExpressionOps
  imports Expressions
begin

text \<open>
  The operations on expression trees that rebuild, navigate and compare them:
  \<open>substitute_subexpressions\<close> of every node class, the parent links and the cursor of
  \<open>expression.cpp\<close>, and the structural equality dispatched there.
\<close>

section \<open>Replacing the children\<close>

definition binary_operator_expr_substitute :: "binary_op_tag \<Rightarrow> expr list \<Rightarrow> expr result" where
  "binary_operator_expr_substitute t cs =
     (case cs of [l, r] \<Rightarrow> Inr (Binary_operator_expr t l r) | _ \<Rightarrow> Inl Thrown_int)"

definition unary_operator_expr_substitute :: "unary_op_tag \<Rightarrow> expr list \<Rightarrow> expr result" where
  "unary_operator_expr_substitute t cs =
     (case cs of [a] \<Rightarrow> Inr (Unary_operator_expr t a) | _ \<Rightarrow> Inl Thrown_int)"

definition double_literal_expr_substitute :: "64 word \<Rightarrow> expr list \<Rightarrow> expr result" where
  "double_literal_expr_substitute v cs =
     (if cs \<noteq> [] then Inl Thrown_int else Inr (Double_literal_expr v))"

definition float_literal_expr_substitute :: "32 word \<Rightarrow> expr list \<Rightarrow> expr result" where
  "float_literal_expr_substitute v cs =
     (if cs \<noteq> [] then Inl Thrown_int else Inr (Float_literal_expr v))"

definition integer_literal_expr_substitute :: "int \<Rightarrow> expr list \<Rightarrow> expr result" where
  "integer_literal_expr_substitute v cs =
     (if cs \<noteq> [] then Inl Thrown_int else Inr (Integer_literal_expr v))"

definition bool_literal_expr_substitute :: "bool \<Rightarrow> expr list \<Rightarrow> expr result" where
  "bool_literal_expr_substitute v cs =
     (if cs \<noteq> [] then Inl Thrown_int else Inr (Bool_literal_expr v))"

definition compound_expr_substitute :: "execution_order \<Rightarrow> expr list \<Rightarrow> expr result" where
  "compound_expr_substitute ord cs = Inr (Compound_expr ord cs)"

definition for_expr_substitute ::
  "execution_order \<Rightarrow> variable_declaration \<Rightarrow> expr list \<Rightarrow> expr result" where
  "for_expr_substitute ord v cs =
     (case cs of [l, u, s, b] \<Rightarrow> Inr (For_expr ord v l u s b) | _ \<Rightarrow> Inl Thrown_int)"

definition if_expr_substitute :: "expr list \<Rightarrow> expr result" where
  "if_expr_substitute cs =
     (case cs of
        [c, t, e] \<Rightarrow> Inr (If_expr c t (Some e))
      | [c, t] \<Rightarrow> Inr (If_expr c t None)
      | _ \<Rightarrow> Inl Thrown_int)"

definition integer_range_expr_substitute :: "expr list \<Rightarrow> expr result" where
  "integer_range_expr_substitute cs =
     (case cs of [l, u, s] \<Rightarrow> Inr (Integer_range_expr l u s) | _ \<Rightarrow> Inl Thrown_int)"

definition macro_expr_substitute :: "variable_declaration list \<Rightarrow> expr list \<Rightarrow> expr result" where
  "macro_expr_substitute ps cs =
     (case cs of [b] \<Rightarrow> Inr (Macro_expr ps b) | _ \<Rightarrow> Inl Thrown_int)"

definition subscription_expr_substitute :: "expr list \<Rightarrow> expr result" where
  "subscription_expr_substitute cs =
     (case cs of
        [] \<Rightarrow> Inl Thrown_int
      | a # is \<Rightarrow> if is_access a then Inr (Subscription_expr a is) else Inl Thrown_int)"

text \<open>\<open>member_access_expr\<close> reads \<open>new_children[0]\<close> before it tests the number of children.\<close>

definition member_access_expr_substitute :: "string \<Rightarrow> expr list \<Rightarrow> expr result" where
  "member_access_expr_substitute m cs =
     (case cs of
        [] \<Rightarrow> Inl Undefined_behaviour
      | a # rest \<Rightarrow>
          if \<not> is_access a then Inl Thrown_int
          else if rest \<noteq> [] then Inl Thrown_int
          else Inr (Member_access_expr a m))"

definition type_conversion_expr_substitute :: "qtype \<Rightarrow> expr list \<Rightarrow> expr result" where
  "type_conversion_expr_substitute t cs =
     (case cs of [a] \<Rightarrow> Inr (Type_conversion_expr t a) | _ \<Rightarrow> Inl Thrown_int)"

definition local_variable_def_expr_substitute ::
  "variable_declaration \<Rightarrow> expr list \<Rightarrow> expr result" where
  "local_variable_def_expr_substitute v cs =
     (case cs of [i] \<Rightarrow> Inr (Local_variable_def_expr v i) | _ \<Rightarrow> Inl Thrown_int)"

definition construct_expr_substitute :: "qtype \<Rightarrow> expr list \<Rightarrow> expr result" where
  "construct_expr_substitute t cs = Inr (Construct_expr t cs)"

definition variable_ref_expr_substitute :: "variable_declaration \<Rightarrow> expr list \<Rightarrow> expr result" where
  "variable_ref_expr_substitute v cs =
     (if length cs \<noteq> 0 then Inl Thrown_int else Inr (Variable_ref_expr v))"

definition intrinsic_function_expr_substitute :: "string \<Rightarrow> expr list \<Rightarrow> expr result" where
  "intrinsic_function_expr_substitute f cs = Inr (Intrinsic_function_expr f cs)"

fun substitute_subexpressions :: "expr \<Rightarrow> expr list \<Rightarrow> expr result" where
  "substitute_subexpressions (Binary_operator_expr t _ _) cs = binary_operator_expr_substitute t cs"
| "substitute_subexpressions (Unary_operator_expr t _) cs = unary_operator_expr_substitute t cs"
| "substitute_subexpressions (Double_literal_expr v) cs = double_literal_expr_substitute v cs"
| "substitute_subexpressions (Float_literal_expr v) cs = float_literal_expr_substitute v cs"
| "substitute_subexpressions (Integer_literal_expr v) cs = integer_literal_expr_substitute v cs"
| "substitute_subexpressions (Bool_literal_expr v) cs = bool_literal_expr_substitute v cs"
| "substitute_subexpressions (Compound_expr ord _) cs = compound_expr_substitute ord cs"
| "substitute_subexpressions (For_expr ord v _ _ _ _) cs = for_expr_substitute ord v cs"
| "substitute_subexpressions (If_expr _ _ _) cs = if_expr_substitute cs"
| "substitute_subexpressions (Integer_range_expr _ _ _) cs = integer_range_expr_substitute cs"
| "substitute_subexpressions (Macro_expr ps _) cs = macro_expr_substitute ps cs"
| "substitute_subexpressions (Subscription_expr _ _) cs = subscription_expr_substitute cs"
| "substitute_subexpressions (Member_access_expr _ m) cs = member_access_expr_substitute m cs"
| "substitute_subexpressions (Type_conversion_expr t _) cs = type_conversion_expr_substitute t cs"
| "substitute_subexpressions (Local_variable_def_expr v _) cs =
     local_variable_def_expr_substitute v cs"
| "substitute_subexpressions (Construct_expr t _) cs = construct_expr_substitute t cs"
| "substitute_subexpressions (Variable_ref_expr v) cs = variable_ref_expr_substitute v cs"
| "substitute_subexpressions (Intrinsic_function_expr f _) cs =
     intrinsic_function_expr_substitute f cs"

lemmas substitute_defs =
  binary_operator_expr_substitute_def unary_operator_expr_substitute_def
  double_literal_expr_substitute_def float_literal_expr_substitute_def
  integer_literal_expr_substitute_def bool_literal_expr_substitute_def
  compound_expr_substitute_def for_expr_substitute_def if_expr_substitute_def
  integer_range_expr_substitute_def macro_expr_substitute_def subscription_expr_substitute_def
  member_access_expr_substitute_def type_conversion_expr_substitute_def
  local_variable_def_expr_substitute_def construct_expr_substitute_def
  variable_ref_expr_substitute_def intrinsic_function_expr_substitute_def

text \<open>A replacement by children of the same number which keeps accesses where accesses are
  required yields a node of the same class with exactly these children.\<close>

fun same_class :: "expr \<Rightarrow> expr \<Rightarrow> bool" where
  "same_class (Binary_operator_expr t _ _) e = (\<exists>l r. e = Binary_operator_expr t l r)"
| "same_class (Unary_operator_expr t _) e = (\<exists>a. e = Unary_operator_expr t a)"
| "same_class (Compound_expr ord _) e = (\<exists>es. e = Compound_expr ord es)"
| "same_class (For_expr ord v _ _ _ _) e = (\<exists>l u s b. e = For_expr ord v l u s b)"
| "same_class (If_expr _ _ _) e = (\<exists>c t b. e = If_expr c t b)"
| "same_class (Integer_range_expr _ _ _) e = (\<exists>l u s. e = Integer_range_expr l u s)"
| "same_class (Macro_expr ps _) e = (\<exists>b. e = Macro_expr ps b)"
| "same_class (Subscription_expr _ _) e = (\<exists>a js. e = Subscription_expr a js)"
| "same_class (Member_access_expr _ m) e = (\<exists>a. e = Member_access_expr a m)"
| "same_class (Type_conversion_expr t _) e = (\<exists>a. e = Type_conversion_expr t a)"
| "same_class (Local_variable_def_expr v _) e = (\<exists>i. e = Local_variable_def_expr v i)"
| "same_class (Construct_expr t _) e = (\<exists>ps. e = Construct_expr t ps)"
| "same_class (Intrinsic_function_expr f _) e = (\<exists>as. e = Intrinsic_function_expr f as)"
| "same_class a e = (a = e)"

fun access_position :: "expr \<Rightarrow> bool" where
  "access_position (Subscription_expr _ _) = True"
| "access_position (Member_access_expr _ _) = True"
| "access_position _ = False"

text \<open>The parameters of the node as stored (\<open>child\<close> is wrong about constructor calls).\<close>

fun stored_children :: "expr \<Rightarrow> expr list" where
  "stored_children (Construct_expr _ ps) = ps"
| "stored_children e = children e"

lemma substitute_exact:
  assumes "length cs = arity e" and "access_position e \<Longrightarrow> is_access (hd cs)"
  shows "\<exists>e'. substitute_subexpressions e cs = Inr e' \<and> same_class e e' \<and> stored_children e' = cs
    \<and> arity e' = arity e"
  using assms
  by (cases e) (auto simp: substitute_defs length_Suc_conv numeral_eq_Suc split: if_splits)

text \<open>Rebuilding a node from its own sub-expressions, as every rewriting pass does, gives the
  node back, for every well-formed node that is not a constructor call; replacing the children by any
  others of the same number (accesses staying accesses) keeps the node's class and holds
  exactly the new children.\<close>
lemma substitute_subexpressions_roundtrip:
  assumes "wf_expr e" and "\<forall>t ps. e \<noteq> Construct_expr t ps"
  shows "rbind (sub_expressions e) (substitute_subexpressions e) = Inr e \<and>
    (\<forall>cs. length cs = arity e \<and> (access_position e \<longrightarrow> is_access (hd cs)) \<longrightarrow>
      (\<exists>e'. substitute_subexpressions e cs = Inr e' \<and> same_class e e' \<and> children e' = cs))"
proof (intro conjI allI impI)
  show "rbind (sub_expressions e) (substitute_subexpressions e) = Inr e"
    using assms by (cases e rule: children.cases) (auto simp: substitute_defs)
next
  fix cs assume "length cs = arity e \<and> (access_position e \<longrightarrow> is_access (hd cs))"
  then obtain e' where e': "substitute_subexpressions e cs = Inr e'" "same_class e e'"
    "stored_children e' = cs"
    using substitute_exact by blast
  moreover have "stored_children e' = children e'"
    using e'(2) assms(2) by (cases e) (auto split: if_splits)
  ultimately show "\<exists>e'. substitute_subexpressions e cs = Inr e' \<and> same_class e e' \<and> children e' = cs"
    by auto
qed

lemma substitute_subexpressions_roundtrip_example:
  "rbind (sub_expressions (If_expr (Bool_literal_expr True) (Integer_literal_expr 1) None))
     (substitute_subexpressions (If_expr (Bool_literal_expr True) (Integer_literal_expr 1) None))
   = Inr (If_expr (Bool_literal_expr True) (Integer_literal_expr 1) None)"
  by (rule substitute_subexpressions_roundtrip [THEN conjunct1]) (simp_all add: i64_simps)

text \<open>A constructor call is not preserved: its sub-expressions are as many copies of the first
  parameter, and rebuilding it from them overwrites every parameter with the first one.\<close>
lemma construct_expr_loses_parameters:
  "rbind (sub_expressions (Construct_expr t ps)) (substitute_subexpressions (Construct_expr t ps))
     = Inr (Construct_expr t (replicate (length ps) (ps ! 0)))"
  by (simp add: substitute_defs)

lemma substitute_wf:
  assumes "wf_expr e" and "\<forall>c \<in> set cs. wf_expr c"
    and "substitute_subexpressions e cs = Inr e'"
  shows "wf_expr e'"
  using assms
  by (cases e) (auto simp: substitute_defs split: list.splits if_splits)

end
