(* ===== verification/Cursor.thy ===== *)
theory Cursor
  imports ExpressionOps
begin

text \<open>
  Navigation in an expression tree (\<open>expression_cursor\<close> in \<open>qubus/src/IR/expression.cpp\<close>) and
  its client \<open>static_schedule_analysis_result::get_schedule_containing\<close>.  A cursor is a pointer
  to a node, here the root and the path of child positions that leads to the node; the null pointer is
  \<open>None\<close>.  \<open>move_up\<close> follows the parent link of the node, which exists only where the
  constructor of the parent class called \<open>take_over_child\<close>: \<open>if_expr\<close>,
  \<open>integer_range_expr\<close> and \<open>macro_expr\<close> do not.
\<close>

section \<open>Positions\<close>

type_synonym cursor = "(expr \<times> nat list) option"

fun node_at :: "expr \<Rightarrow> nat list \<Rightarrow> expr option" where
  "node_at e [] = Some e"
| "node_at e (i # p) =
     (if i < length (stored_children e) then node_at (stored_children e ! i) p else None)"

lemma node_at_append:
  "node_at e (p @ q) = (case node_at e p of None \<Rightarrow> None | Some d \<Rightarrow> node_at d q)"
  by (induction p arbitrary: e) auto

text \<open>Node classes whose constructors link their children back to themselves.\<close>

fun links_children :: "expr \<Rightarrow> bool" where
  "links_children (If_expr _ _ _) = False"
| "links_children (Integer_range_expr _ _ _) = False"
| "links_children (Macro_expr _ _) = False"
| "links_children _ = True"

text \<open>The position \<open>child(index)\<close> refers to; a constructor call answers its first parameter.\<close>

fun child_position :: "expr \<Rightarrow> nat \<Rightarrow> nat" where
  "child_position (Construct_expr _ _) i = 0"
| "child_position _ i = i"

lemma child_position_valid:
  "i < arity e \<Longrightarrow> child_position e i < length (stored_children e) \<and>
     child e i = Inr (stored_children e ! child_position e i)"
proof -
  assume i: "i < arity e"
  show ?thesis
  proof (cases e)
    case (If_expr c t b)
    with i show ?thesis by (cases b) (auto simp: child_defs less_Suc_eq numeral_eq_Suc)
  next
    case (Subscription_expr a js)
    with i show ?thesis by (cases i) (auto simp: child_defs)
  qed (use i in \<open>auto simp: child_defs less_Suc_eq numeral_eq_Suc nth_Cons'\<close>)
qed

section \<open>The cursor\<close>

fun move_up :: "cursor \<Rightarrow> cursor result" where
  "move_up None = Inl Undefined_behaviour"
| "move_up (Some (root, p)) =
     (if p = [] then Inr None
      else case node_at root (butlast p) of
             None \<Rightarrow> Inl Undefined_behaviour
           | Some parent \<Rightarrow> if links_children parent then Inr (Some (root, butlast p)) else Inr None)"

fun move_down :: "cursor \<Rightarrow> nat \<Rightarrow> cursor result" where
  "move_down None i = Inl Undefined_behaviour"
| "move_down (Some (root, p)) i =
     (case node_at root p of
        None \<Rightarrow> Inl Undefined_behaviour
      | Some e \<Rightarrow> if i < arity e then Inr (Some (root, p @ [child_position e i])) else Inr None)"

text \<open>Moving a cursor down to child \<open>i\<close> reaches the node \<open>child(i)\<close>, and moving up again
  returns to where it came from if the node's class links its children; below an \<open>if\<close>, an integer
  range or a macro the cursor becomes null instead.  An index out of range gives the null cursor.\<close>
lemma cursor_down_up:
  assumes "node_at root p = Some e"
  shows "(i < arity e \<longrightarrow>
      (\<exists>q d. move_down (Some (root, p)) i = Inr (Some (root, q)) \<and> child e i = Inr d \<and>
             node_at root q = Some d \<and>
             move_up (Some (root, q)) = Inr (if links_children e then Some (root, p) else None))) \<and>
    (arity e \<le> i \<longrightarrow> move_down (Some (root, p)) i = Inr None)"
  using assms child_position_valid [of i e] by (auto simp: node_at_append)

lemma cursor_down_up_example:
  "move_down (Some (Unary_operator_expr Negate (Integer_literal_expr 1), [])) 5 = Inr None"
  using cursor_down_up [of "Unary_operator_expr Negate (Integer_literal_expr 1)" "[]"
      "Unary_operator_expr Negate (Integer_literal_expr 1)" 5]
  by simp

section \<open>The schedule that contains an expression\<close>

text \<open>\<open>get_schedule_by_root\<close> looks a node up in a table keyed by the node's address;
  \<open>get_schedule_containing\<close> climbs until a node has a schedule.  It tests the cursor before
  \<open>move_up\<close> and dereferences it after.\<close>

type_synonym 's schedule_table = "nat list \<Rightarrow> 's option"

lemma move_up_shorter: "move_up (Some (root, p)) = Inr (Some (r, q)) \<Longrightarrow> length q < length p"
  by (auto split: if_splits option.splits)

function climb :: "'s schedule_table \<Rightarrow> expr \<Rightarrow> nat list \<Rightarrow> 's option \<Rightarrow> 's option result" where
  "climb tab root p found =
     (if found \<noteq> None then Inr found
      else case move_up (Some (root, p)) of
             Inl e \<Rightarrow> Inl e
           | Inr None \<Rightarrow> Inl Undefined_behaviour
           | Inr (Some (r, q)) \<Rightarrow> climb tab r q (tab q))"
  by pat_completeness auto
termination
  by (relation "measure (\<lambda>(_, _, p, _). length p)") (simp_all only: in_measure prod.case wf_measure, metis move_up_shorter)

declare climb.simps [simp del]

definition get_schedule_containing :: "'s schedule_table \<Rightarrow> expr \<Rightarrow> nat list \<Rightarrow> 's option result" where
  "get_schedule_containing tab root p = climb tab root p (tab p)"

text \<open>The nearest enclosing scheduled node is reachable if every node strictly between it and the
  expression, and the scheduled node itself, links its children.\<close>

lemma climb_found: "climb tab root p (Some s) = Inr (Some s)"
  by (simp add: climb.simps)

lemma climb_step:
  assumes "node_at root p = Some e" and "links_children e"
  shows "climb tab root (p @ [i]) None = climb tab root p (tab p)"
  using assms by (subst climb.simps) simp

lemma climb_stuck:
  assumes "node_at root p = Some e" and "\<not> links_children e"
  shows "climb tab root (p @ [i]) None = Inl Undefined_behaviour"
  using assms by (subst climb.simps) simp

lemma climb_linked:
  assumes "tab p = Some s"
    and "\<And>k. 0 < k \<Longrightarrow> k \<le> length q \<Longrightarrow> tab (p @ take k q) = None"
    and "\<And>k. k < length q \<Longrightarrow> \<exists>e. node_at root (p @ take k q) = Some e \<and> links_children e"
  shows "climb tab root (p @ q) (tab (p @ q)) = Inr (Some s)"
  using assms(2,3)
proof (induction q rule: rev_induct)
  case Nil
  then show ?case using assms(1) by (simp add: climb_found)
next
  case (snoc i q)
  obtain e where e: "node_at root (p @ q) = Some e" "links_children e"
    using snoc.prems(2) [of "length q"] by auto
  have "tab (p @ q @ [i]) = None"
    using snoc.prems(1) [of "length (q @ [i])"] by simp
  moreover have "climb tab root (p @ q) (tab (p @ q)) = Inr (Some s)"
  proof (rule snoc.IH)
    show "tab (p @ take k q) = None" if "0 < k" "k \<le> length q" for k
      using snoc.prems(1) [of k] that by simp
    show "\<exists>e. node_at root (p @ take k q) = Some e \<and> links_children e" if "k < length q" for k
      using snoc.prems(2) [of k] that by simp
  qed
  ultimately show ?case
    using climb_step [OF e, of tab i] by simp
qed

text \<open>\<open>get_schedule_containing\<close> finds the schedule of the nearest scheduled ancestor
  provided all nodes from that ancestor down to the expression link their children.\<close>
lemma get_schedule_containing_nearest:
  assumes "tab p = Some s"
    and "\<forall>k. 0 < k \<and> k \<le> length q \<longrightarrow> tab (p @ take k q) = None"
    and "\<forall>k < length q. \<exists>e. node_at root (p @ take k q) = Some e \<and> links_children e"
  shows "get_schedule_containing tab root (p @ q) = Inr (Some s)"
  unfolding get_schedule_containing_def using assms by (intro climb_linked) auto

lemma get_schedule_containing_nearest_example:
  "get_schedule_containing (\<lambda>p. if p = [] then Some (7 :: nat) else None)
     (Unary_operator_expr Negate (Unary_operator_expr Negate (Bool_literal_expr True))) ([] @ [0, 0])
   = Inr (Some 7)"
proof (rule get_schedule_containing_nearest, goal_cases)
  case 3
  show ?case by (auto simp: less_Suc_eq numeral_eq_Suc)
qed auto

text \<open>Inside an \<open>if\<close> the search fails: with a schedule registered for an enclosing node
  only, looking up a branch of the \<open>if\<close> dereferences the null cursor.\<close>
lemma get_schedule_containing_below_if:
  assumes "node_at root p = Some (If_expr c t b)" and "tab (p @ [i]) = None"
  shows "get_schedule_containing tab root (p @ [i]) = Inl Undefined_behaviour"
  unfolding get_schedule_containing_def
  using assms climb_stuck [OF assms(1), of tab i] by simp

lemma get_schedule_containing_below_if_example:
  "get_schedule_containing (\<lambda>p. if p = [] then Some (7 :: nat) else None)
     (If_expr (Bool_literal_expr True) (Compound_expr Sequential []) None) ([] @ [1])
   = Inl Undefined_behaviour"
  by (rule get_schedule_containing_below_if) simp_all

end
