(* ===== verification/ExpressionEq.thy ===== *)
theory ExpressionEq
  imports ExpressionOps
begin

text \<open>
  Structural equality of expressions (\<open>operator==\<close> in \<open>qubus/src/IR/expression.cpp\<close> with the
  per-class operators of \<open>qubus/src/IR/*_expr.cpp\<close>).  The multi method \<open>equal\<close> has a
  specialisation for eleven node classes; all other pairs compare unequal.
\<close>

section \<open>Equality of floating point values, on their bit patterns\<close>

definition double_magnitude :: "64 word \<Rightarrow> 64 word" where
  "double_magnitude w = w AND 0x7FFFFFFFFFFFFFFF"

definition double_is_nan :: "64 word \<Rightarrow> bool" where
  "double_is_nan w = (0x7FF0000000000000 < double_magnitude w)"

definition double_eq :: "64 word \<Rightarrow> 64 word \<Rightarrow> bool" where
  "double_eq a b = (\<not> double_is_nan a \<and> \<not> double_is_nan b \<and>
     (a = b \<or> double_magnitude a = 0 \<and> double_magnitude b = 0))"

definition float_magnitude :: "32 word \<Rightarrow> 32 word" where
  "float_magnitude w = w AND 0x7FFFFFFF"

definition float_is_nan :: "32 word \<Rightarrow> bool" where
  "float_is_nan w = (0x7F800000 < float_magnitude w)"

definition float_eq :: "32 word \<Rightarrow> 32 word \<Rightarrow> bool" where
  "float_eq a b = (\<not> float_is_nan a \<and> \<not> float_is_nan b \<and>
     (a = b \<or> float_magnitude a = 0 \<and> float_magnitude b = 0))"

section \<open>Equality of expressions\<close>

fun expr_eq :: "expr \<Rightarrow> expr \<Rightarrow> bool" where
  "expr_eq (Binary_operator_expr t l r) e =
     (case e of Binary_operator_expr t' l' r' \<Rightarrow> t = t' \<and> expr_eq l l' \<and> expr_eq r r' | _ \<Rightarrow> False)"
| "expr_eq (Unary_operator_expr t a) e =
     (case e of Unary_operator_expr t' a' \<Rightarrow> t = t' \<and> expr_eq a a' | _ \<Rightarrow> False)"
| "expr_eq (Float_literal_expr v) e = (case e of Float_literal_expr v' \<Rightarrow> float_eq v v' | _ \<Rightarrow> False)"
| "expr_eq (Double_literal_expr v) e =
     (case e of Double_literal_expr v' \<Rightarrow> double_eq v v' | _ \<Rightarrow> False)"
| "expr_eq (Integer_literal_expr v) e = (case e of Integer_literal_expr v' \<Rightarrow> v = v' | _ \<Rightarrow> False)"
| "expr_eq (Compound_expr ord es) e =
     (case e of Compound_expr ord' es' \<Rightarrow> ord = ord' \<and> list_all2 expr_eq es es' | _ \<Rightarrow> False)"
| "expr_eq (For_expr ord v l u s b) e =
     (case e of
        For_expr ord' v' l' u' s' b' \<Rightarrow>
          ord = ord' \<and> var_eq v v' \<and> expr_eq l l' \<and> expr_eq u u' \<and> expr_eq s s' \<and> expr_eq b b'
      | _ \<Rightarrow> False)"
| "expr_eq (Intrinsic_function_expr f as) e =
     (case e of Intrinsic_function_expr f' as' \<Rightarrow> f = f' \<and> list_all2 expr_eq as as' | _ \<Rightarrow> False)"
| "expr_eq (Subscription_expr a is) e =
     (case e of Subscription_expr a' is' \<Rightarrow> expr_eq a a' \<and> list_all2 expr_eq is is' | _ \<Rightarrow> False)"
| "expr_eq (Type_conversion_expr t a) e =
     (case e of Type_conversion_expr t' a' \<Rightarrow> type_eq t t' \<and> expr_eq a a' | _ \<Rightarrow> False)"
| "expr_eq (Variable_ref_expr v) e = (case e of Variable_ref_expr v' \<Rightarrow> var_eq v v' | _ \<Rightarrow> False)"
| "expr_eq (Bool_literal_expr _) e = False"
| "expr_eq (If_expr _ _ _) e = False"
| "expr_eq (Integer_range_expr _ _ _) e = False"
| "expr_eq (Macro_expr _ _) e = False"
| "expr_eq (Member_access_expr _ _) e = False"
| "expr_eq (Local_variable_def_expr _ _) e = False"
| "expr_eq (Construct_expr _ _) e = False"

definition expr_neq :: "expr \<Rightarrow> expr \<Rightarrow> bool" where
  "expr_neq a b = (\<not> expr_eq a b)"

text \<open>Expressions that equal themselves: built from the eleven specialised classes, without NaN
  literals and with comparable conversion types.\<close>

fun self_equal :: "expr \<Rightarrow> bool" where
  "self_equal (Binary_operator_expr _ l r) = (self_equal l \<and> self_equal r)"
| "self_equal (Unary_operator_expr _ a) = self_equal a"
| "self_equal (Float_literal_expr v) = (\<not> float_is_nan v)"
| "self_equal (Double_literal_expr v) = (\<not> double_is_nan v)"
| "self_equal (Integer_literal_expr _) = True"
| "self_equal (Compound_expr _ es) = (\<forall>e \<in> set es. self_equal e)"
| "self_equal (For_expr _ _ l u s b) = (self_equal l \<and> self_equal u \<and> self_equal s \<and> self_equal b)"
| "self_equal (Intrinsic_function_expr _ as) = (\<forall>e \<in> set as. self_equal e)"
| "self_equal (Subscription_expr a is) = (self_equal a \<and> (\<forall>e \<in> set is. self_equal e))"
| "self_equal (Type_conversion_expr t a) = (comparable t \<and> self_equal a)"
| "self_equal (Variable_ref_expr _) = True"
| "self_equal _ = False"

lemma expr_eq_refl_iff: "expr_eq e e = self_equal e"
proof (induction e rule: self_equal.induct)
  case (6 ord es)
  then show ?case by (simp add: list_all2_same)
next
  case (8 f as)
  then show ?case by (simp add: list_all2_same)
next
  case (9 a js)
  then show ?case by (simp add: list_all2_same)
qed (auto simp: float_eq_def double_eq_def var_eq_def)

lemma expr_eq_sym: "expr_eq a b \<Longrightarrow> expr_eq b a"
proof (induction a b rule: expr_eq.induct)
  case (6 ord es e)
  then show ?case by (auto split: expr.splits simp: list_all2_conv_all_nth)
next
  case (8 f as e)
  then show ?case by (auto split: expr.splits simp: list_all2_conv_all_nth)
next
  case (9 a js e)
  then show ?case by (auto split: expr.splits simp: list_all2_conv_all_nth)
next
  case (10 t a e)
  then show ?case by (auto split: expr.splits simp: type_eq_sym)
qed (auto split: expr.splits simp: float_eq_def double_eq_def var_eq_def)

lemma expr_eq_trans: "expr_eq a b \<Longrightarrow> expr_eq b c \<Longrightarrow> expr_eq a c"
proof (induction a b arbitrary: c rule: expr_eq.induct)
  case (6 ord es e)
  then show ?case by (auto split: expr.splits simp: list_all2_conv_all_nth) (metis nth_mem)
next
  case (8 f as e)
  then show ?case by (auto split: expr.splits simp: list_all2_conv_all_nth) (metis nth_mem)
next
  case (9 a js e)
  then show ?case by (auto split: expr.splits simp: list_all2_conv_all_nth) (metis nth_mem)
next
  case (10 t a e)
  then show ?case by (auto split: expr.splits dest: type_eq_trans)
qed (auto split: expr.splits simp: float_eq_def double_eq_def var_eq_def)

text \<open>Equality of expressions is a partial equivalence: symmetric and transitive, and reflexive
  exactly on expressions built from the specialised classes.  Hence an expression containing a member
  access, an \<open>if\<close>, a boolean literal, a range, a macro, a constructor call or a local
  variable definition in a compared position is unequal to itself.\<close>
lemma expr_eq_partial_equivalence:
  "(expr_eq a b = expr_eq b a) \<and> (expr_eq a b \<and> expr_eq b c \<longrightarrow> expr_eq a c) \<and>
   (expr_eq a a = self_equal a) \<and> \<not> expr_eq (Member_access_expr x m) (Member_access_expr x m)"
  using expr_eq_sym [of a b] expr_eq_sym [of b a] expr_eq_trans [of a b c] expr_eq_refl_iff [of a]
  by auto

lemma expr_eq_partial_equivalence_example:
  "expr_eq (Integer_literal_expr 1) (Integer_literal_expr 1)"
  using expr_eq_partial_equivalence [of "Integer_literal_expr 1"] by simp

lemma expr_eq_class:
  assumes "expr_eq a b"
  shows "arity a = arity b" "list_all2 expr_eq (stored_children a) (stored_children b)"
proof -
  show "list_all2 expr_eq (stored_children a) (stored_children b)"
    using assms by (cases a) (auto split: expr.splits)
  then show "arity a = arity b"
    using assms by (cases a) (auto split: expr.splits dest: list_all2_lengthD)
qed

end
