(* ===== verification/TypeInference.thy ===== *)
theory TypeInference
  imports ExpressionOps
begin

text \<open>
  Type inference (\<open>qubus/src/IR/type_inference.cpp\<close>), the table of intrinsic functions
  (\<open>intrinsic_function_table.cpp\<close>) and the annotation map that caches inferred types
  (\<open>annotations.cpp\<close>).  A multi method without a matching specialisation and without a
  fallback throws \<open>std::bad_function_call\<close>.
\<close>

section \<open>Common type\<close>

function common_type :: "qtype \<Rightarrow> qtype \<Rightarrow> qtype result" where
  "common_type a b =
     (case a of
        Double_t \<Rightarrow>
          (case b of
             Double_t \<Rightarrow> Inr Double_t
           | Integer_t \<Rightarrow> Inr Double_t
           | Float_t \<Rightarrow> Inr Double_t
           | Complex_t b' \<Rightarrow> rbind (common_type Double_t b') (\<lambda>t. Inr (Complex_t t))
           | _ \<Rightarrow> Inl Bad_function_call)
      | Float_t \<Rightarrow>
          (case b of
             Float_t \<Rightarrow> Inr Float_t
           | Integer_t \<Rightarrow> Inr Float_t
           | Double_t \<Rightarrow> Inr Double_t
           | Complex_t b' \<Rightarrow> rbind (common_type Float_t b') (\<lambda>t. Inr (Complex_t t))
           | _ \<Rightarrow> Inl Bad_function_call)
      | Integer_t \<Rightarrow>
          (case b of
             Integer_t \<Rightarrow> Inr Integer_t
           | Double_t \<Rightarrow> Inr Double_t
           | Float_t \<Rightarrow> Inr Float_t
           | Complex_t b' \<Rightarrow> rbind (common_type Integer_t b') (\<lambda>t. Inr (Complex_t t))
           | _ \<Rightarrow> Inl Bad_function_call)
      | Bool_t \<Rightarrow> (case b of Bool_t \<Rightarrow> Inr Bool_t | _ \<Rightarrow> Inl Bad_function_call)
      | Index_t \<Rightarrow> (case b of Index_t \<Rightarrow> Inr Index_t | _ \<Rightarrow> Inl Bad_function_call)
      | Complex_t a' \<Rightarrow>
          (case b of
             Double_t \<Rightarrow> rbind (common_type a' Double_t) (\<lambda>t. Inr (Complex_t t))
           | Float_t \<Rightarrow> rbind (common_type a' Float_t) (\<lambda>t. Inr (Complex_t t))
           | Integer_t \<Rightarrow> rbind (common_type a' Integer_t) (\<lambda>t. Inr (Complex_t t))
           | Complex_t b' \<Rightarrow> rbind (common_type a' b') (\<lambda>t. Inr (Complex_t t))
           | _ \<Rightarrow> Inl Bad_function_call)
      | _ \<Rightarrow> Inl Bad_function_call)"
  by pat_completeness auto
termination
  by (relation "measure (\<lambda>(a, b). size a + size b)") auto

declare common_type.simps [simp del]

text \<open>The specialisations of the multi method, as equations.\<close>

lemma common_type_simps [simp]:
  "common_type Double_t Double_t = Inr Double_t" "common_type Float_t Float_t = Inr Float_t"
  "common_type Integer_t Integer_t = Inr Integer_t" "common_type Bool_t Bool_t = Inr Bool_t"
  "common_type Index_t Index_t = Inr Index_t" "common_type Double_t Integer_t = Inr Double_t"
  "common_type Integer_t Double_t = Inr Double_t" "common_type Float_t Integer_t = Inr Float_t"
  "common_type Integer_t Float_t = Inr Float_t" "common_type Double_t Float_t = Inr Double_t"
  "common_type Float_t Double_t = Inr Double_t"
  "common_type (Complex_t a) Double_t = rbind (common_type a Double_t) (\<lambda>t. Inr (Complex_t t))"
  "common_type Double_t (Complex_t b) = rbind (common_type Double_t b) (\<lambda>t. Inr (Complex_t t))"
  "common_type (Complex_t a) Float_t = rbind (common_type a Float_t) (\<lambda>t. Inr (Complex_t t))"
  "common_type Float_t (Complex_t b) = rbind (common_type Float_t b) (\<lambda>t. Inr (Complex_t t))"
  "common_type (Complex_t a) Integer_t = rbind (common_type a Integer_t) (\<lambda>t. Inr (Complex_t t))"
  "common_type Integer_t (Complex_t b) = rbind (common_type Integer_t b) (\<lambda>t. Inr (Complex_t t))"
  "common_type (Complex_t a) (Complex_t b) = rbind (common_type a b) (\<lambda>t. Inr (Complex_t t))"
  by (subst common_type.simps, simp)+

fun numeric :: "qtype \<Rightarrow> bool" where
  "numeric Double_t = True"
| "numeric Float_t = True"
| "numeric Integer_t = True"
| "numeric (Complex_t a) = numeric a"
| "numeric _ = False"

text \<open>The numeric types form the product of the chain integer, float, double with the nesting depth
  of \<open>complex\<close>; the common type is the componentwise maximum.\<close>

fun base_rank :: "qtype \<Rightarrow> nat" where
  "base_rank Integer_t = 0"
| "base_rank Float_t = 1"
| "base_rank Double_t = 2"
| "base_rank (Complex_t a) = base_rank a"
| "base_rank _ = 3"

fun complex_depth :: "qtype \<Rightarrow> nat" where
  "complex_depth (Complex_t a) = Suc (complex_depth a)"
| "complex_depth _ = 0"

lemma numeric_eqI:
  "numeric a \<Longrightarrow> numeric b \<Longrightarrow> base_rank a = base_rank b \<Longrightarrow> complex_depth a = complex_depth b \<Longrightarrow> a = b"
  by (induction a arbitrary: b rule: numeric.induct; case_tac b rule: numeric.cases; auto)

lemma common_type_leaf_max:
  "a \<in> {Double_t, Float_t, Integer_t} \<Longrightarrow> numeric b \<Longrightarrow> \<exists>c. common_type a b = Inr c \<and> numeric c \<and>
     base_rank c = max (base_rank a) (base_rank b) \<and>
     complex_depth c = max (complex_depth a) (complex_depth b)"
  by (induction b) auto

lemma common_type_max:
  "numeric a \<Longrightarrow> numeric b \<Longrightarrow> \<exists>c. common_type a b = Inr c \<and> numeric c \<and>
     base_rank c = max (base_rank a) (base_rank b) \<and>
     complex_depth c = max (complex_depth a) (complex_depth b)"
proof (induction a arbitrary: b)
  case (Complex_t a)
  then show ?case by (cases b) fastforce+
next
  case Double_t
  then show ?case using common_type_leaf_max [of Double_t b] by simp
next
  case Float_t
  then show ?case using common_type_leaf_max [of Float_t b] by simp
next
  case Integer_t
  then show ?case using common_type_leaf_max [of Integer_t b] by simp
qed simp_all



section \<open>Intrinsic functions\<close>

type_synonym overload = "qtype list \<times> qtype"
type_synonym intrinsic_table = "string \<Rightarrow> overload list option"

fun find_match :: "overload list \<Rightarrow> qtype list \<Rightarrow> qtype result" where
  "find_match [] args = Inl Thrown_int"
| "find_match (ov # ovs) args = (if types_eq (fst ov) args then Inr (snd ov) else find_match ovs args)"

definition add_intrinsic_function ::
  "intrinsic_table \<Rightarrow> string \<times> qtype list \<times> qtype \<Rightarrow> intrinsic_table" where
  "add_intrinsic_function tab entry =
     (case entry of (name, args, res) \<Rightarrow>
        tab (name \<mapsto> (case tab name of None \<Rightarrow> [] | Some ovs \<Rightarrow> ovs) @ [(args, res)]))"

definition real_types :: "qtype list" where "real_types = [Double_t, Float_t]"

definition math_types :: "qtype list" where
  "math_types = [Double_t, Float_t, Complex_t Double_t, Complex_t Float_t]"

definition intrinsic_entries :: "(string \<times> qtype list \<times> qtype) list" where
  "intrinsic_entries =
     concat (map (\<lambda>f. map (\<lambda>t. (f, [t], t)) real_types)
       [''sin'', ''cos'', ''tan'', ''exp'', ''abs'', ''sqrt'']) @
     map (\<lambda>t. (''pow'', [t, Integer_t], t)) real_types @
     concat (map (\<lambda>rank.
         concat (map (\<lambda>t. [(''extent'', [Array_t t (int rank), Integer_t], Integer_t),
                           (''extent'', [Array_slice_t t (int rank), Integer_t], Integer_t)]) math_types) @
         [(''extent'', [Array_t Integer_t (int rank), Integer_t], Integer_t),
          (''extent'', [Array_slice_t Integer_t (int rank), Integer_t], Integer_t)])
       [1..<13]) @
     [(''delta'', [Integer_t, Integer_t], Integer_t),
      (''min'', [Integer_t, Integer_t], Integer_t),
      (''max'', [Integer_t, Integer_t], Integer_t),
      (''select'', [Bool_t, Integer_t, Integer_t], Integer_t)]"

definition intrinsic_function_table :: "intrinsic_table" where
  "intrinsic_function_table = foldl add_intrinsic_function Map.empty intrinsic_entries"

definition lookup_overload_set :: "intrinsic_table \<Rightarrow> string \<Rightarrow> overload list result" where
  "lookup_overload_set tab name = (case tab name of None \<Rightarrow> Inl Thrown_int | Some ovs \<Rightarrow> Inr ovs)"

definition lookup_intrinsic_result_type :: "string \<Rightarrow> qtype list \<Rightarrow> qtype result" where
  "lookup_intrinsic_result_type name args =
     rbind (lookup_overload_set intrinsic_function_table name) (\<lambda>ovs. find_match ovs args)"

text \<open>The table groups the entries by name and keeps their order.\<close>

fun overloads_of :: "(string \<times> qtype list \<times> qtype) list \<Rightarrow> string \<Rightarrow> overload list" where
  "overloads_of [] n = []"
| "overloads_of ((m, ov) # es) n = (if m = n then ov # overloads_of es n else overloads_of es n)"

lemma overloads_of_append [simp]: "overloads_of (es @ fs) n = overloads_of es n @ overloads_of fs n"
  by (induction es) auto

lemma foldl_add_intrinsic:
  "foldl add_intrinsic_function Map.empty es n =
     (if overloads_of es n = [] then None else Some (overloads_of es n))"
proof (induction es arbitrary: n rule: rev_induct)
  case Nil
  then show ?case by simp
next
  case (snoc e es)
  obtain m as r where e: "e = (m, as, r)" by (cases e) auto
  show ?case
    using snoc.IH [of m] snoc.IH [of n] by (auto simp: e add_intrinsic_function_def)
qed

lemma lookup_intrinsic_eq:
  "lookup_intrinsic_result_type name args = find_match (overloads_of intrinsic_entries name) args"
  by (simp add: lookup_intrinsic_result_type_def lookup_overload_set_def
      intrinsic_function_table_def foldl_add_intrinsic)

lemma find_match_Inr:
  "find_match ovs args = Inr r \<Longrightarrow> \<exists>as. (as, r) \<in> set ovs \<and> types_eq as args"
  by (induction ovs) (auto split: if_splits)

lemma overloads_of_mem: "(as, r) \<in> set (overloads_of es n) \<longleftrightarrow> (n, as, r) \<in> set es"
  by (induction es n rule: overloads_of.induct) auto

lemma find_match_unique:
  assumes "(as, r) \<in> set ovs" and "types_eq as as"
    and "\<forall>(bs, s) \<in> set ovs. types_eq bs as \<longrightarrow> s = r"
  shows "find_match ovs as = Inr r"
  using assms
proof (induction ovs)
  case Nil
  then show ?case by simp
next
  case (Cons ov ovs)
  show ?case
  proof (cases "types_eq (fst ov) as")
    case True
    with Cons.prems(3) show ?thesis by (cases ov) auto
  next
    case False
    then have "(as, r) \<in> set ovs" using Cons.prems(1,2) by auto
    with False Cons show ?thesis by simp
  qed
qed

lemma types_eq_struct_free:
  "types_eq as bs \<Longrightarrow> (\<forall>t \<in> set as. struct_free t) \<Longrightarrow> as = bs"
  unfolding types_eq_def
  by (induction as bs rule: list_all2_induct) (auto dest: type_eq_struct_free)

definition entry_ok :: "string \<times> qtype list \<times> qtype \<Rightarrow> bool" where
  "entry_ok e = (case e of (n, as, r) \<Rightarrow>
     list_all struct_free as \<and> list_all comparable as \<and>
     r = (if n \<in> set [''sin'', ''cos'', ''tan'', ''exp'', ''abs'', ''sqrt'', ''pow'']
          then hd as else Integer_t))"

lemma intrinsic_entries_ok: "list_all entry_ok intrinsic_entries"
  by code_simp

lemma intrinsic_entry_cases:
  assumes "(n, as, r) \<in> set intrinsic_entries"
  shows "(\<forall>t \<in> set as. struct_free t \<and> comparable t) \<and>
    r = (if n \<in> set [''sin'', ''cos'', ''tan'', ''exp'', ''abs'', ''sqrt'', ''pow''] then hd as else Integer_t)"
proof -
  have "entry_ok (n, as, r)"
    using intrinsic_entries_ok assms by (simp only: list_all_iff)
  then show ?thesis by (simp only: entry_ok_def prod.case list_all_iff) blast
qed

text \<open>The table of intrinsics is complete and unambiguous: every registered overload is found with
  its own result type, and whatever a lookup answers is the result of a registered overload with these
  argument types.\<close>
lemma intrinsic_lookup_exact:
  "lookup_intrinsic_result_type n as = Inr r \<longleftrightarrow> (n, as, r) \<in> set intrinsic_entries"
proof
  assume "lookup_intrinsic_result_type n as = Inr r"
  then obtain bs where bs: "(n, bs, r) \<in> set intrinsic_entries" "types_eq bs as"
    unfolding lookup_intrinsic_eq by (metis find_match_Inr overloads_of_mem)
  then have "bs = as"
    using intrinsic_entry_cases [OF bs(1)] types_eq_struct_free by blast
  with bs show "(n, as, r) \<in> set intrinsic_entries" by simp
next
  assume entry: "(n, as, r) \<in> set intrinsic_entries"
  have "find_match (overloads_of intrinsic_entries n) as = Inr r"
  proof (rule find_match_unique)
    show "(as, r) \<in> set (overloads_of intrinsic_entries n)"
      using entry by (simp add: overloads_of_mem)
    show "types_eq as as"
      using intrinsic_entry_cases [OF entry] by (simp add: types_eq_def list_all2_same)
  next
    have "s = r" if bs: "(bs, s) \<in> set (overloads_of intrinsic_entries n)" "types_eq bs as" for bs s
    proof -
      from bs(1) have e: "(n, bs, s) \<in> set intrinsic_entries" by (simp add: overloads_of_mem)
      then have "bs = as" using intrinsic_entry_cases [OF e] types_eq_struct_free bs(2) by blast
      then show ?thesis
        using intrinsic_entry_cases [OF e] intrinsic_entry_cases [OF entry] by (simp only:)
    qed
    then show "\<forall>(bs, s) \<in> set (overloads_of intrinsic_entries n). types_eq bs as \<longrightarrow> s = r"
      by blast
  qed
  then show "lookup_intrinsic_result_type n as = Inr r" by (simp add: lookup_intrinsic_eq)
qed

end
