(* ===== verification/Typeof.thy ===== *)
theory Typeof
  imports TypeInference
begin

text \<open>
  The inference of an expression's type and its cache: \<open>infer_type\<close> and \<open>typeof_\<close> of
  \<open>qubus/src/IR/type_inference.cpp\<close>, on top of the annotation map of
  \<open>qubus/src/IR/annotations.cpp\<close>.
\<close>

section \<open>Inference\<close>

definition comparison_tag :: "binary_op_tag \<Rightarrow> bool" where
  "comparison_tag t = (t \<in> {Equal_to, Less_equal, Less, Greater_equal, Greater})"

lemma comparison_tag_simps [simp]:
  "\<not> comparison_tag Nop_b" "\<not> comparison_tag Plus" "\<not> comparison_tag Minus"
  "\<not> comparison_tag Multiplies" "\<not> comparison_tag Divides" "\<not> comparison_tag Modulus"
  "\<not> comparison_tag Div_floor" "\<not> comparison_tag Assign" "\<not> comparison_tag Plus_assign"
  "comparison_tag Equal_to" "\<not> comparison_tag Not_equal_to" "comparison_tag Less"
  "comparison_tag Greater" "comparison_tag Less_equal" "comparison_tag Greater_equal"
  "\<not> comparison_tag Logical_and" "\<not> comparison_tag Logical_or"
  by (simp_all add: comparison_tag_def)

text \<open>Each index of integer type lowers the rank of the result by one.\<close>

definition slice_rank :: "qtype list \<Rightarrow> int" where
  "slice_rank ts = foldl (\<lambda>r t. if type_eq t Integer_t then r - 1 else r) (int (length ts)) ts"

text \<open>\<open>as<types::struct_>()\<close> throws \<open>std::bad_cast\<close> on any other type.\<close>

definition as_struct :: "qtype \<Rightarrow> member list result" where
  "as_struct t = (case t of Struct_t i ms \<Rightarrow> Inr ms | _ \<Rightarrow> Inl Bad_cast)"

fun infer_type :: "expr \<Rightarrow> qtype result" where
  "infer_type (Binary_operator_expr t l r) =
     (if comparison_tag t then Inr Bool_t
      else rbind (infer_type l) (\<lambda>lt. rbind (infer_type r) (\<lambda>rt. common_type lt rt)))"
| "infer_type (Unary_operator_expr t a) = infer_type a"
| "infer_type (For_expr _ _ _ _ _ _) = Inr Unknown_t"
| "infer_type (If_expr _ _ _) = Inr Unknown_t"
| "infer_type (Subscription_expr a is) =
     rbind (infer_type a) (\<lambda>tensor_type.
     rbind (value_type tensor_type) (\<lambda>val_type.
     rbind (traverse infer_type is) (\<lambda>index_types.
       let rank = slice_rank index_types
       in if rank > 0 then Inr (Array_slice_t val_type rank) else Inr val_type)))"
| "infer_type (Type_conversion_expr t _) = Inr t"
| "infer_type (Double_literal_expr _) = Inr Double_t"
| "infer_type (Float_literal_expr _) = Inr Float_t"
| "infer_type (Integer_literal_expr _) = Inr Integer_t"
| "infer_type (Bool_literal_expr _) = Inr Bool_t"
| "infer_type (Intrinsic_function_expr f as) =
     rbind (traverse infer_type as) (\<lambda>arg_types. lookup_intrinsic_result_type f arg_types)"
| "infer_type (Compound_expr _ _) = Inr Unknown_t"
| "infer_type (Variable_ref_expr v) = Inr (var_type v)"
| "infer_type (Local_variable_def_expr _ _) = Inr Unknown_t"
| "infer_type (Construct_expr t _) = Inr t"
| "infer_type (Member_access_expr a m) =
     rbind (infer_type a) (\<lambda>t. rbind (as_struct t) (\<lambda>ms. struct_member_type ms m))"
| "infer_type (Integer_range_expr _ _ _) = Inr Integer_range_t"
| "infer_type (Macro_expr _ _) = Inl Bad_function_call"

lemma slice_rank_eq: "slice_rank ts = int (length (filter (\<lambda>t. t \<noteq> Integer_t) ts))"
proof -
  have "foldl (\<lambda>r t. if type_eq t Integer_t then r - 1 else r) n ts
      = n - int (length (filter (\<lambda>t. t = Integer_t) ts))" for n
    by (induction ts arbitrary: n) auto
  then have "slice_rank ts = int (length ts) - int (length (filter (\<lambda>t. t = Integer_t) ts))"
    by (simp add: slice_rank_def)
  also have "\<dots> = int (length (filter (\<lambda>t. t \<noteq> Integer_t) ts))"
    using sum_length_filter_compl [of "\<lambda>t. t = Integer_t" ts] by simp
  finally show ?thesis .
qed

text \<open>Subscripts: with every index an integer the result has the element type; otherwise it is a slice
  whose rank is the number of the indices that are no integers.\<close>
lemma infer_type_subscription:
  assumes "infer_type a = Inr t" and "value_type t = Inr v" and "traverse infer_type is = Inr ts"
  shows "infer_type (Subscription_expr a is) =
    (if \<forall>s \<in> set ts. s = Integer_t then Inr v
     else Inr (Array_slice_t v (int (length (filter (\<lambda>s. s \<noteq> Integer_t) ts)))))"
  using assms by (auto simp: slice_rank_eq Let_def filter_empty_conv)

lemma infer_type_subscription_example:
  "infer_type (Subscription_expr
      (Variable_ref_expr \<lparr>var_id = 0, var_name = ''A'', var_type = Array_t Double_t 2\<rparr>)
      [Integer_literal_expr 1,
       Integer_range_expr (Integer_literal_expr 0) (Integer_literal_expr 4) (Integer_literal_expr 1)])
   = Inr (Array_slice_t Double_t 1)"
  by (subst infer_type_subscription [where t = "Array_t Double_t 2" and v = Double_t
        and ts = "[Integer_t, Integer_range_t]"]) (simp_all add: value_type_def)

text \<open>\<open>!=\<close>, \<open>and\<close>, \<open>or\<close> are not among the comparisons that yield \<open>bool\<close>: they have the
  common type of their operands, so comparing two integers with \<open>!=\<close> has an integer type, while
  \<open>==\<close> and the orderings have type \<open>bool\<close> whatever their operands.\<close>
lemma infer_type_comparisons:
  "(comparison_tag t \<longrightarrow> infer_type (Binary_operator_expr t l r) = Inr Bool_t) \<and>
   (t \<in> {Not_equal_to, Logical_and, Logical_or} \<longrightarrow> infer_type l = Inr Integer_t \<longrightarrow>
      infer_type r = Inr Integer_t \<longrightarrow> infer_type (Binary_operator_expr t l r) = Inr Integer_t)"
  by (auto simp: comparison_tag_def)

lemma infer_type_comparisons_example:
  "infer_type (Binary_operator_expr Not_equal_to (Integer_literal_expr 1) (Integer_literal_expr 2))
     = Inr Integer_t"
  using infer_type_comparisons [of Not_equal_to "Integer_literal_expr 1" "Integer_literal_expr 2"]
  by simp

section \<open>The cache of inferred types\<close>

text \<open>An annotation is empty or holds a value of some type (\<open>boost::any\<close>).  \<open>annotation_map::add\<close>
  is \<open>std::map::emplace\<close>, which keeps an existing entry.\<close>

datatype annotation = No_value | Type_value qtype | Other_value

type_synonym annotation_map = "string \<Rightarrow> annotation option"

definition has_value :: "annotation \<Rightarrow> bool" where
  "has_value a = (a \<noteq> No_value)"

definition annotation_as_type :: "annotation \<Rightarrow> qtype result" where
  "annotation_as_type a =
     (case a of No_value \<Rightarrow> Inl Assertion_failed | Type_value t \<Rightarrow> Inr t | Other_value \<Rightarrow> Inl Bad_cast)"

definition annotation_map_add :: "annotation_map \<Rightarrow> string \<Rightarrow> annotation \<Rightarrow> annotation_map" where
  "annotation_map_add m k v = (case m k of None \<Rightarrow> m(k \<mapsto> v) | Some _ \<Rightarrow> m)"

definition annotation_map_lookup :: "annotation_map \<Rightarrow> string \<Rightarrow> annotation" where
  "annotation_map_lookup m k = (case m k of Some a \<Rightarrow> a | None \<Rightarrow> No_value)"

text \<open>\<open>typeof_\<close> on a node with the annotations \<open>m\<close>: the inferred type and the annotations
  afterwards.\<close>

definition typeof :: "annotation_map \<Rightarrow> expr \<Rightarrow> (qtype \<times> annotation_map) result" where
  "typeof m e =
     (let a = annotation_map_lookup m ''type''
      in if has_value a then rbind (annotation_as_type a) (\<lambda>t. Inr (t, m))
         else rbind (infer_type e) (\<lambda>t. Inr (t, annotation_map_add m ''type'' (Type_value t))))"

definition cache_consistent :: "annotation_map \<Rightarrow> expr \<Rightarrow> bool" where
  "cache_consistent m e =
     (case m ''type'' of None \<Rightarrow> True | Some a \<Rightarrow> \<exists>t. a = Type_value t \<and> infer_type e = Inr t)"

text \<open>A number of queries in sequence, each on the annotations the previous one left.\<close>

fun queries :: "('m \<Rightarrow> 'e \<Rightarrow> ('t \<times> 'm) result) \<Rightarrow> nat \<Rightarrow> 'm \<Rightarrow> 'e \<Rightarrow> ('t list \<times> 'm) result" where
  "queries query 0 m e = Inr ([], m)"
| "queries query (Suc n) m e =
     rbind (query m e) (\<lambda>r. rbind (queries query n (snd r) e) (\<lambda>s. Inr (fst r # fst s, snd s)))"

locale type_cache =
  fixes query :: "'m \<Rightarrow> 'e \<Rightarrow> ('t \<times> 'm) result"
    and spec :: "'e \<Rightarrow> 't result"
    and consistent :: "'m \<Rightarrow> 'e \<Rightarrow> bool"
  assumes query_spec: "consistent m e \<Longrightarrow> query m e = Inr (t, m') \<Longrightarrow> spec e = Inr t \<and> consistent m' e"
    and query_total: "consistent m e \<Longrightarrow> spec e = Inr t \<Longrightarrow> \<exists>m'. query m e = Inr (t, m')"
    and query_error: "consistent m e \<Longrightarrow> spec e = Inl x \<Longrightarrow> query m e = Inl x"
begin

lemma queries_stable:
  "consistent m e \<Longrightarrow> spec e = Inr t \<Longrightarrow>
     \<exists>m'. queries query n m e = Inr (replicate n t, m') \<and> consistent m' e"
proof (induction n arbitrary: m)
  case 0
  then show ?case by simp
next
  case (Suc n)
  obtain m1 where m1: "query m e = Inr (t, m1)" using query_total Suc.prems by blast
  then have "consistent m1 e" using query_spec Suc.prems(1) by blast
  with Suc obtain m' where "queries query n m1 e = Inr (replicate n t, m')" "consistent m' e" by blast
  with m1 show ?case by auto
qed

end

interpretation typeof_cache: type_cache typeof infer_type cache_consistent
proof unfold_locales
  fix m e t m'
  assume "cache_consistent m e" "typeof m e = Inr (t, m')"
  then show "infer_type e = Inr t \<and> cache_consistent m' e"
    by (auto simp: typeof_def cache_consistent_def annotation_map_lookup_def has_value_def
        annotation_as_type_def annotation_map_add_def Let_def rbind_Inr_iff
        split: option.splits if_splits annotation.splits)
next
  fix m e t
  assume "cache_consistent m e" "infer_type e = Inr t"
  then show "\<exists>m'. typeof m e = Inr (t, m')"
    by (auto simp: typeof_def cache_consistent_def annotation_map_lookup_def has_value_def
        annotation_as_type_def Let_def split: option.splits)
next
  fix m e x
  assume "cache_consistent m e" "infer_type e = Inl x"
  then show "typeof m e = Inl x"
    by (auto simp: typeof_def cache_consistent_def annotation_map_lookup_def has_value_def Let_def
        split: option.splits)
qed

text \<open>Caching is transparent: starting from a node without a type annotation, every one of any number
  of queries answers the inferred type.\<close>
lemma typeof_queries:
  assumes "m ''type'' = None" and "infer_type e = Inr t"
  shows "\<exists>m'. queries typeof n m e = Inr (replicate n t, m')"
  using typeof_cache.queries_stable [of m e t n] assms by (auto simp: cache_consistent_def)

lemma typeof_queries_example:
  "\<exists>m'. queries typeof 3 Map.empty (Integer_literal_expr 4) = Inr (replicate 3 Integer_t, m')"
  by (rule typeof_queries) simp_all

end
