(* ===== verification/ConstantFolding.thy ===== *)
theory ConstantFolding
  imports Typeof
begin

text \<open>
  Constant folding (\<open>qubus/src/IR/constant_folding.cpp\<close>): the bottom-up rewriting
  \<open>fold_constant_expressions\<close> and the folding \<open>fold_impl\<close> of one node, with C++
  arithmetic on \<open>util::index_t\<close>.  The reference semantics \<open>eval_int\<close> evaluates the
  integer fragment of the expressions; \<open>div_floor\<close> means division rounding to minus infinity.
\<close>

section \<open>The pass\<close>

definition int_result :: "int result \<Rightarrow> expr result" where
  "int_result m = rbind m (\<lambda>n. Inr (Integer_literal_expr n))"

definition fold_div_floor :: "int \<Rightarrow> int \<Rightarrow> int result" where
  "fold_div_floor i1 i2 =
     rbind (i64_div i1 i2) (\<lambda>quotient.
     rbind (i64_mod i1 i2) (\<lambda>remainder.
       let is_exact = (remainder = 0);
           is_positive = ((remainder < 0) = (quotient < 0));
           is_exact_or_positive = (is_exact \<or> is_positive)
       in rbind (checked_i64 (quotient - 1)) (\<lambda>reduced_quotient.
            Inr (if is_exact_or_positive then quotient else reduced_quotient))))"

definition fold_binary :: "binary_op_tag \<Rightarrow> int \<Rightarrow> int \<Rightarrow> expr \<Rightarrow> expr result" where
  "fold_binary t i1 i2 self =
     (case t of
        Plus \<Rightarrow> int_result (checked_i64 (i1 + i2))
      | Minus \<Rightarrow> int_result (checked_i64 (i1 - i2))
      | Multiplies \<Rightarrow> int_result (checked_i64 (i1 * i2))
      | Divides \<Rightarrow> int_result (i64_div i1 i2)
      | Modulus \<Rightarrow> int_result (i64_mod i1 i2)
      | Div_floor \<Rightarrow> int_result (fold_div_floor i1 i2)
      | _ \<Rightarrow> Inr self)"

definition fold_unary :: "unary_op_tag \<Rightarrow> int \<Rightarrow> expr \<Rightarrow> expr result" where
  "fold_unary t i1 self =
     (case t of
        Plus_u \<Rightarrow> Inr (Integer_literal_expr i1)
      | Negate \<Rightarrow> int_result (checked_i64 (- i1))
      | _ \<Rightarrow> Inr self)"

definition fold_impl :: "expr \<Rightarrow> expr result" where
  "fold_impl e =
     rbind (infer_type e) (\<lambda>t.
       if type_neq t Integer_t then Inr e
       else case e of
              Binary_operator_expr btag (Integer_literal_expr i1) (Integer_literal_expr i2) \<Rightarrow>
                fold_binary btag i1 i2 e
            | Unary_operator_expr utag (Integer_literal_expr i1) \<Rightarrow> fold_unary utag i1 e
            | _ \<Rightarrow> Inr e)"

function fold_constant_expressions :: "expr \<Rightarrow> expr result" where
  "fold_constant_expressions e =
     rbind (sub_expressions e) (\<lambda>cs.
     rbind (traverse fold_constant_expressions cs) (\<lambda>simplified_children.
     rbind (substitute_subexpressions e simplified_children) (\<lambda>new_expr.
       fold_impl new_expr)))"
  by pat_completeness auto
termination
  by (relation "measure size") (auto dest: children_smaller)

declare fold_constant_expressions.simps [simp del]

lemma fold_unfold:
  "fold_constant_expressions e =
     rbind (traverse fold_constant_expressions (children e)) (\<lambda>cs.
     rbind (substitute_subexpressions e cs) fold_impl)"
  by (subst fold_constant_expressions.simps) simp

lemma fold_obtain:
  assumes "fold_constant_expressions e = Inr e'"
  obtains cs d where "list_all2 (\<lambda>c c'. fold_constant_expressions c = Inr c') (children e) cs"
    "substitute_subexpressions e cs = Inr d" "fold_impl d = Inr e'"
  using assms by (subst (asm) fold_unfold) (auto simp: rbind_Inr_iff traverse_Inr_iff)

section \<open>What folding one node does\<close>

lemma fold_impl_cases:
  assumes "fold_impl e = Inr e'"
  shows "e' = e \<or> (infer_type e = Inr Integer_t \<and> (\<exists>n. e' = Integer_literal_expr n))"
  using assms
  by (auto simp: fold_impl_def fold_binary_def fold_unary_def int_result_def rbind_Inr_iff
      split: if_splits expr.splits binary_op_tag.splits unary_op_tag.splits)

lemma fold_impl_type: "fold_impl e = Inr e' \<Longrightarrow> \<exists>t. infer_type e = Inr t \<and> infer_type e' = Inr t"
  using fold_impl_cases [of e e'] by (cases "infer_type e") (auto simp: fold_impl_def)

lemma fold_impl_access: "fold_impl e = Inr e' \<Longrightarrow> is_access e \<Longrightarrow> e' = e"
  by (cases e) (auto simp: fold_impl_def rbind_Inr_iff split: if_splits)

lemma fold_impl_idem: "fold_impl e = Inr e' \<Longrightarrow> fold_impl e' = Inr e'"
  using fold_impl_cases [of e e'] by (auto simp: fold_impl_def)

lemma same_class_infer_type:
  assumes "same_class e d" and "list_all2 (\<lambda>c c'. infer_type c' = infer_type c) (children e) (children d)"
  shows "infer_type d = infer_type e"
proof -
  have trav: "traverse infer_type ys = traverse infer_type xs"
    if "list_all2 (\<lambda>c c'. infer_type c' = infer_type c) xs ys" for xs ys
    using that by (induction rule: list_all2_induct) auto
  show ?thesis
    using assms by (cases e rule: children.cases) (auto simp: trav)
qed

lemma substitute_children:
  assumes "substitute_subexpressions e cs = Inr d" and "length cs = arity e"
  shows "same_class e d" "stored_children d = cs"
  using assms
  by (cases e; auto simp: substitute_defs numeral_eq_Suc length_Suc_conv split: list.splits if_splits)+

lemma stored_children_eq: "(\<And>t ps. d \<noteq> Construct_expr t ps) \<Longrightarrow> stored_children d = children d"
  by (cases d) auto

section \<open>Properties of the pass\<close>

lemma fold_type_aux: "fold_constant_expressions e = Inr e' \<Longrightarrow> infer_type e' = infer_type e \<and> (\<exists>t. infer_type e = Inr t)"
proof (induction e arbitrary: e' rule: fold_constant_expressions.induct)
  case (1 e)
  obtain cs d where cs: "list_all2 (\<lambda>c c'. fold_constant_expressions c = Inr c') (children e) cs"
    and d: "substitute_subexpressions e cs = Inr d" and e': "fold_impl d = Inr e'"
    using fold_obtain [OF "1.prems"] by blast
  have types: "list_all2 (\<lambda>c c'. infer_type c' = infer_type c) (children e) cs"
    using cs "1.IH" [OF sub_expressions_eq] by (auto simp: list_all2_conv_all_nth)
  have len: "length cs = arity e" using cs by (simp add: list_all2_lengthD [symmetric])
  have "infer_type d = infer_type e"
  proof (cases "\<exists>t ps. e = Construct_expr t ps")
    case True
    with substitute_children [OF d len] show ?thesis by auto
  next
    case False
    with substitute_children [OF d len] have "stored_children d = children d"
      by (intro stored_children_eq) (cases e; auto)
    with substitute_children [OF d len] types show ?thesis
      by (intro same_class_infer_type) simp_all
  qed
  with fold_impl_type [OF e'] show ?case by auto
qed

text \<open>C16. Folding preserves types: if the pass succeeds, the expression is well typed and the result has
  the same type.\<close>
theorem fold_preserves_type:
  assumes "fold_constant_expressions e = Inr e'"
  shows "\<exists>t. infer_type e = Inr t \<and> infer_type e' = Inr t"
  using fold_type_aux [OF assms] by auto

theorem fold_preserves_type_witness:
  "\<exists>t. infer_type (Unary_operator_expr Negate (Integer_literal_expr 3)) = Inr t \<and>
       infer_type (Integer_literal_expr (-3)) = Inr t"
  by (rule fold_preserves_type) (simp add: fold_constant_expressions.simps substitute_defs
      fold_impl_def fold_unary_def int_result_def i64_simps)

lemma fold_idem_aux: "fold_constant_expressions e = Inr e' \<Longrightarrow> fold_constant_expressions e' = Inr e'"
proof (induction e arbitrary: e' rule: fold_constant_expressions.induct)
  case (1 e)
  obtain cs d where cs: "list_all2 (\<lambda>c c'. fold_constant_expressions c = Inr c') (children e) cs"
    and d: "substitute_subexpressions e cs = Inr d" and e': "fold_impl d = Inr e'"
    using fold_obtain [OF "1.prems"] by blast
  have fix_cs: "c' \<in> set cs \<Longrightarrow> fold_constant_expressions c' = Inr c'"
    for c'
  proof -
    assume "c' \<in> set cs"
    then obtain i where i: "i < length cs" "c' = cs ! i" by (auto simp: in_set_conv_nth)
    with cs have "fold_constant_expressions (children e ! i) = Inr c'" "children e ! i \<in> set (children e)"
      by (auto simp: list_all2_conv_all_nth intro!: nth_mem)
    with "1.IH" [OF sub_expressions_eq] show "fold_constant_expressions c' = Inr c'" by blast
  qed
  have len: "length cs = arity e" using cs by (simp add: list_all2_lengthD [symmetric])
  have stable: "children d = cs"
  proof (cases "\<exists>t ps. e = Construct_expr t ps")
    case True
    then obtain t ps where e: "e = Construct_expr t ps" by blast
    have d': "d = Construct_expr t cs" using d by (simp add: e substitute_defs)
    have eq: "cs ! i = cs ! 0" if "i < length cs" for i
    proof -
      have "\<forall>i < length cs. fold_constant_expressions (ps ! 0) = Inr (cs ! i)"
        using cs by (auto simp: e list_all2_conv_all_nth)
      moreover from that have "0 < length cs" by linarith
      ultimately have "fold_constant_expressions (ps ! 0) = Inr (cs ! i)"
        "fold_constant_expressions (ps ! 0) = Inr (cs ! 0)"
        using that by blast+
      then show ?thesis by simp
    qed
    have "replicate (length cs) (cs ! 0) = cs"
    proof (rule nth_equalityI)
      fix i assume "i < length (replicate (length cs) (cs ! 0))"
      then have "i < length cs" by simp
      then show "replicate (length cs) (cs ! 0) ! i = cs ! i"
        using eq [of i] by (simp only: nth_replicate)
    qed simp
    then show ?thesis by (simp add: d')
  next
    case False
    with substitute_children [OF d len] show ?thesis
      by (subst stored_children_eq [symmetric]) (cases e; auto)+
  qed
  have "e' = d \<or> (\<exists>n. e' = Integer_literal_expr n)"
    using fold_impl_cases [OF e'] by blast
  then show ?case
  proof
    assume "e' = d"
    have "substitute_subexpressions d cs = Inr d"
    proof -
      have "same_class e d" using substitute_children [OF d len] by simp
      then show ?thesis
        using d stable by (cases e) (auto simp: substitute_defs split: list.splits if_splits)
    qed
    moreover have "traverse fold_constant_expressions cs = Inr cs"
      using traverse_all_Inr [of cs fold_constant_expressions id] fix_cs by simp
    ultimately show ?thesis
      using stable e' \<open>e' = d\<close> by (subst fold_unfold) simp
  next
    assume "\<exists>n. e' = Integer_literal_expr n"
    then show ?thesis
      by (auto simp: fold_unfold substitute_defs fold_impl_def)
  qed
qed

text \<open>Folding is idempotent: a second run changes nothing.\<close>
lemma fold_idempotent:
  assumes "fold_constant_expressions e = Inr e'"
  shows "fold_constant_expressions e' = Inr e'"
  by (rule fold_idem_aux [OF assms])

lemma fold_idempotent_example:
  "fold_constant_expressions (Integer_literal_expr 5) = Inr (Integer_literal_expr 5)"
  by (rule fold_idempotent [of "Binary_operator_expr Plus (Integer_literal_expr 2) (Integer_literal_expr 3)"])
    (simp add: fold_constant_expressions.simps substitute_defs fold_impl_def
      fold_binary_def int_result_def i64_simps)

section \<open>Evaluation of integer expressions\<close>

fun eval_binary :: "binary_op_tag \<Rightarrow> int \<Rightarrow> int \<Rightarrow> int result" where
  "eval_binary Plus a b = checked_i64 (a + b)"
| "eval_binary Minus a b = checked_i64 (a - b)"
| "eval_binary Multiplies a b = checked_i64 (a * b)"
| "eval_binary Divides a b = i64_div a b"
| "eval_binary Modulus a b = i64_mod a b"
| "eval_binary Div_floor a b = (if b = 0 then Inl Undefined_behaviour else checked_i64 (a div b))"
| "eval_binary _ a b = Inl No_case_applicable"

fun eval_unary :: "unary_op_tag \<Rightarrow> int \<Rightarrow> int result" where
  "eval_unary Plus_u a = Inr a"
| "eval_unary Negate a = checked_i64 (- a)"
| "eval_unary _ a = Inl No_case_applicable"

fun eval_int :: "(nat \<Rightarrow> int) \<Rightarrow> expr \<Rightarrow> int result" where
  "eval_int env (Integer_literal_expr n) = Inr n"
| "eval_int env (Variable_ref_expr v) = Inr (env (var_id v))"
| "eval_int env (Binary_operator_expr t l r) =
     rbind (eval_int env l) (\<lambda>a. rbind (eval_int env r) (\<lambda>b. eval_binary t a b))"
| "eval_int env (Unary_operator_expr t a) = rbind (eval_int env a) (\<lambda>x. eval_unary t x)"
| "eval_int env _ = Inl No_case_applicable"

fun no_div_floor :: "expr \<Rightarrow> bool" where
  "no_div_floor (Binary_operator_expr t l r) = (t \<noteq> Div_floor \<and> no_div_floor l \<and> no_div_floor r)"
| "no_div_floor (Unary_operator_expr _ a) = no_div_floor a"
| "no_div_floor _ = True"

lemma fold_impl_binary_eval:
  assumes "fold_impl (Binary_operator_expr t l r) = Inr e'" and "t \<noteq> Div_floor"
    and "eval_int env (Binary_operator_expr t l r) = Inr v"
  shows "eval_int env e' = Inr v"
proof (cases "\<exists>i1 i2. l = Integer_literal_expr i1 \<and> r = Integer_literal_expr i2")
  case True
  with assms show ?thesis
    by (cases t) (auto simp: fold_impl_def fold_binary_def int_result_def rbind_Inr_iff split: if_splits)
next
  case False
  then have "e' = Binary_operator_expr t l r"
    using assms(1) by (auto simp: fold_impl_def rbind_Inr_iff split: if_splits expr.splits)
  with assms show ?thesis by simp
qed

lemma fold_impl_unary_eval:
  assumes "fold_impl (Unary_operator_expr t a) = Inr e'"
    and "eval_int env (Unary_operator_expr t a) = Inr v"
  shows "eval_int env e' = Inr v"
proof (cases "\<exists>i1. a = Integer_literal_expr i1")
  case True
  with assms show ?thesis
    by (cases t) (auto simp: fold_impl_def fold_unary_def int_result_def rbind_Inr_iff split: if_splits)
next
  case False
  then have "e' = Unary_operator_expr t a"
    using assms(1) by (auto simp: fold_impl_def rbind_Inr_iff split: if_splits expr.splits)
  with assms show ?thesis by simp
qed

lemma fold_eval_aux:
  "fold_constant_expressions e = Inr e' \<Longrightarrow> no_div_floor e \<Longrightarrow> eval_int env e = Inr v \<Longrightarrow> eval_int env e' = Inr v"
proof (induction env e arbitrary: e' v rule: eval_int.induct)
  case (1 env n)
  then show ?case by (auto simp: fold_unfold substitute_defs fold_impl_def)
next
  case (2 env x)
  then show ?case
    by (auto simp: fold_unfold substitute_defs fold_impl_def rbind_Inr_iff split: if_splits)
next
  case (3 env t l r)
  from "3.prems"(1) obtain l' r' where
    l': "fold_constant_expressions l = Inr l'" and r': "fold_constant_expressions r = Inr r'"
    and e': "fold_impl (Binary_operator_expr t l' r') = Inr e'"
    by (auto simp: fold_unfold [of "Binary_operator_expr t l r"] substitute_defs rbind_Inr_iff)
  from "3.prems"(3) obtain a b where
    a: "eval_int env l = Inr a" and b: "eval_int env r = Inr b" and v: "eval_binary t a b = Inr v"
    by (auto simp: rbind_Inr_iff)
  have "eval_int env l' = Inr a" using "3.IH"(1) [OF l' _ a] "3.prems"(2) by simp
  moreover have "eval_int env r' = Inr b" using "3.IH"(2) [OF a r' _ b] "3.prems"(2) by simp
  ultimately show ?case using fold_impl_binary_eval [OF e'] "3.prems"(2) v by simp
next
  case (4 env t a)
  from "4.prems"(1) obtain a' where
    a': "fold_constant_expressions a = Inr a'" and e': "fold_impl (Unary_operator_expr t a') = Inr e'"
    by (auto simp: fold_unfold [of "Unary_operator_expr t a"] substitute_defs rbind_Inr_iff)
  from "4.prems"(3) obtain x where x: "eval_int env a = Inr x" and v: "eval_unary t x = Inr v"
    by (auto simp: rbind_Inr_iff)
  have "eval_int env a' = Inr x" using "4.IH" [OF a' _ x] "4.prems"(2) by simp
  then show ?case using fold_impl_unary_eval [OF e'] v by simp
qed simp_all

text \<open>C1. Folding preserves the value: in every environment, an integer expression without
  \<open>div_floor\<close> that evaluates evaluates to the same value after folding.\<close>
theorem fold_preserves_value:
  assumes "fold_constant_expressions e = Inr e'" and "no_div_floor e" and "eval_int env e = Inr v"
  shows "eval_int env e' = Inr v"
  by (rule fold_eval_aux [OF assms])

theorem fold_preserves_value_witness:
  "eval_int (\<lambda>_. 0) (Integer_literal_expr (-2)) = Inr (-2)"
  by (rule fold_preserves_value
      [of "Binary_operator_expr Modulus (Integer_literal_expr (-7)) (Integer_literal_expr 5)"])
    (simp_all add: fold_constant_expressions.simps substitute_defs fold_impl_def
      fold_binary_def int_result_def i64_simps type_neq_def smod_sgn_int signed_divide_int_def)

section \<open>Folding of div_floor\<close>

lemma div_via_sdiv:
  fixes a b :: int
  assumes "b \<noteq> 0"
  shows "a div b = (if a smod b = 0 \<or> (a smod b < 0) = (b < 0) then a sdiv b else a sdiv b - 1)"
proof -
  let ?q = "a sdiv b" and ?r = "a smod b"
  have a: "a = b * ?q + ?r" using sdiv_smod_int [of a b] by (simp add: mult.commute)
  then have a': "a = b * (?q - 1) + (?r + b)" by (simp add: algebra_simps)
  have r: "\<bar>?r\<bar> < \<bar>b\<bar>"
    using assms by (simp add: smod_sgn_int abs_mult abs_sgn_eq)
  show ?thesis
  proof (cases "0 < b")
    case True
    with r int_div_pos_eq [OF a] int_div_pos_eq [OF a'] show ?thesis by auto
  next
    case False
    with assms r int_div_neg_eq [OF a] int_div_neg_eq [OF a'] show ?thesis by auto
  qed
qed

text \<open>Folding \<open>div_floor\<close> of two literals gives the floor of the quotient if and only if the division is
  exact or the truncated quotient has the sign of the divisor; otherwise it is off by one.  So
  it is right for non-negative dividends and positive divisors, and wrong, for example, for -7
  divided by 2, where it answers -3.\<close>
lemma fold_div_floor_exact:
  assumes "b \<noteq> 0" and "in_i64 (a sdiv b)" and "in_i64 (a sdiv b - 1)"
  shows "(fold_div_floor a b = Inr (a div b) \<longleftrightarrow> a smod b = 0 \<or> (a sdiv b < 0) = (b < 0)) \<and>
    (\<exists>q. fold_div_floor a b = Inr q \<and> \<bar>q - a div b\<bar> \<le> 1)"
  using assms
  by (auto simp: fold_div_floor_def i64_div_def i64_mod_def checked_i64_def Let_def div_via_sdiv)

lemma fold_div_floor_exact_example:
  "fold_div_floor (-7) 2 = Inr (-3) \<and> fold_div_floor (-7) 2 \<noteq> Inr ((-7) div 2)"
proof -
  have "fold_div_floor (-7) 2 \<noteq> Inr ((-7) div 2)"
    using fold_div_floor_exact [of 2 "-7"]
    by (simp add: i64_simps smod_sgn_int signed_divide_int_def)
  then show ?thesis
    by (simp add: fold_div_floor_def i64_simps smod_sgn_int signed_divide_int_def Let_def)
qed

end
