(* ===== verification/Substitution.thy ===== *)
theory Substitution
  imports Typeof
begin

text \<open>
  Pattern-directed rewriting (\<open>qubus/include/qubus/pattern/substitute.hpp\<close>,
  \<open>search.hpp\<close>, \<open>for_each.hpp\<close>) and macro expansion, which is written with it
  (\<open>qubus/src/IR/macro_expr.cpp\<close>).  A matcher answers \<open>None\<close> where no case applies.
  \<open>substitute\<close> goes on into the sub-expressions of what a match produced, so it need
  not end; its model takes fuel and answers \<open>Diverged\<close> when the fuel is exhausted.
\<close>

type_synonym matcher = "expr \<Rightarrow> expr option result"

fun substitute :: "nat \<Rightarrow> matcher \<Rightarrow> expr \<Rightarrow> expr result" where
  "substitute 0 m e = Inl Diverged"
| "substitute (Suc n) m e =
     rbind (m e) (\<lambda>r.
       let new_expr = (case r of Some e' \<Rightarrow> e' | None \<Rightarrow> e)
       in rbind (sub_expressions new_expr) (\<lambda>cs.
          rbind (traverse (substitute n m) cs) (\<lambda>transformed_subexprs.
            substitute_subexpressions new_expr transformed_subexprs)))"

text \<open>\<open>pattern::for_each\<close> visits the nodes in preorder; \<open>pattern::search\<close> answers the first
  match in that order.\<close>

function preorder :: "expr \<Rightarrow> expr list" where
  "preorder e = e # concat (map preorder (children e))"
  by pat_completeness auto
termination by (relation "measure size") (auto dest: children_smaller)

declare preorder.simps [simp del]

text \<open>A property of every node the visitors reach.\<close>

definition everywhere :: "(expr \<Rightarrow> bool) \<Rightarrow> expr \<Rightarrow> bool" where
  "everywhere P e = list_all P (preorder e)"

lemma everywhere_iff: "everywhere P e \<longleftrightarrow> P e \<and> (\<forall>c \<in> set (children e). everywhere P c)"
  unfolding everywhere_def by (subst preorder.simps) (auto simp: list_all_iff)

definition for_each :: "(expr \<Rightarrow> 's \<Rightarrow> 's) \<Rightarrow> expr \<Rightarrow> 's \<Rightarrow> 's" where
  "for_each visit e s = foldl (\<lambda>st d. visit d st) s (preorder e)"

fun first_match :: "(expr \<Rightarrow> 'r option) \<Rightarrow> expr list \<Rightarrow> 'r option" where
  "first_match m [] = None"
| "first_match m (e # es) = (case m e of Some r \<Rightarrow> Some r | None \<Rightarrow> first_match m es)"

function search :: "(expr \<Rightarrow> 'r option) \<Rightarrow> expr \<Rightarrow> 'r option" where
  "search m e =
     (case m e of
        Some r \<Rightarrow> Some r
      | None \<Rightarrow> foldl (\<lambda>found r. case found of Some x \<Rightarrow> Some x | None \<Rightarrow> r) None
                  (map (search m) (children e)))"
  by pat_completeness auto
termination by (relation "measure (\<lambda>(m, e). size e)") (auto dest: children_smaller)

declare search.simps [simp del]

lemma first_match_append:
  "first_match m (xs @ ys) = (case first_match m xs of Some r \<Rightarrow> Some r | None \<Rightarrow> first_match m ys)"
  by (induction xs) (auto split: option.splits)

lemma foldl_first:
  "foldl (\<lambda>found r. case found of Some x \<Rightarrow> Some x | None \<Rightarrow> r) None (map (first_match m) xss) =
     first_match m (concat xss)"
proof -
  have some: "foldl (\<lambda>found r. case found of Some x \<Rightarrow> Some x | None \<Rightarrow> r) (Some y) rs = Some y"
    for y :: 'b and rs
    by (induction rs) auto
  show ?thesis
    by (induction xss) (auto simp: first_match_append some split: option.splits)
qed

text \<open>\<open>search\<close> is complete: it answers the first match among all nodes in preorder, and
  answers none only if no node matches.\<close>
lemma search_preorder:
  "search m e = first_match m (preorder e) \<and>
   (search m e = None \<longleftrightarrow> list_all (\<lambda>d. m d = None) (preorder e))"
proof -
  have eq: "search m e = first_match m (preorder e)"
  proof (induction m e rule: search.induct)
    case (1 m e)
    show ?case
    proof (cases "m e")
      case None
      have "map (search m) (children e) = map (first_match m) (map preorder (children e))"
        using "1.IH" [OF None] by simp
      with None show ?thesis
        by (subst search.simps, subst preorder.simps) (simp only: foldl_first first_match.simps option.case)
    next
      case (Some r)
      then show ?thesis by (subst search.simps, subst preorder.simps) simp
    qed
  qed
  have "first_match m es = None \<longleftrightarrow> list_all (\<lambda>d. m d = None) es" for es
    by (induction es) (auto split: option.splits)
  with eq show ?thesis by simp
qed

section \<open>Fuel\<close>

lemma substitute_fuel_mono:
  "substitute n m e = r \<Longrightarrow> r \<noteq> Inl Diverged \<Longrightarrow> n \<le> k \<Longrightarrow> substitute k m e = r"
proof (induction n arbitrary: k e r)
  case 0
  then show ?case by simp
next
  case (Suc n)
  then obtain k' where k: "k = Suc k'" "n \<le> k'" by (cases k) auto
  show ?case
  proof (cases "m e")
    case (Inl x)
    with Suc.prems k show ?thesis by simp
  next
    case (Inr y)
    define d where "d = (case y of Some e' \<Rightarrow> e' | None \<Rightarrow> e)"
    have eq: "traverse (substitute n m) cs = t \<Longrightarrow> t \<noteq> Inl Diverged \<Longrightarrow> traverse (substitute k' m) cs = t"
      for cs t
    proof (induction cs arbitrary: t)
      case (Cons c cs)
      show ?case
      proof (cases "substitute n m c")
        case (Inl x)
        with Cons.prems have "x \<noteq> Diverged" by auto
        then have "substitute k' m c = Inl x" using Suc.IH [OF Inl _ k(2)] by simp
        with Cons.prems Inl show ?thesis by simp
      next
        case (Inr c')
        have "substitute k' m c = Inr c'" using Suc.IH [OF Inr _ k(2)] by simp
        moreover have "traverse (substitute n m) cs \<noteq> Inl Diverged"
          using Cons.prems Inr by auto
        ultimately show ?thesis using Cons.IH [OF refl] Cons.prems Inr by auto
      qed
    qed simp
    have "traverse (substitute n m) (children d) \<noteq> Inl Diverged"
      using Suc.prems Inr by (auto simp: d_def [symmetric] Let_def)
    with eq [OF refl this] Suc.prems Inr k show ?thesis by (auto simp: d_def [symmetric] Let_def)
  qed
qed

section \<open>Macro expansion\<close>

definition macro_param_matcher :: "variable_declaration \<Rightarrow> expr \<Rightarrow> matcher" where
  "macro_param_matcher p a e =
     (case e of Variable_ref_expr v \<Rightarrow> Inr (if var_eq v p then Some a else None) | _ \<Rightarrow> Inr None)"

fun expand_params :: "nat \<Rightarrow> (variable_declaration \<times> expr) list \<Rightarrow> expr \<Rightarrow> expr result" where
  "expand_params n [] body = Inr body"
| "expand_params n ((p, a) # pas) body =
     rbind (substitute n (macro_param_matcher p a) body) (expand_params n pas)"

definition expand_macro :: "nat \<Rightarrow> variable_declaration list \<Rightarrow> expr \<Rightarrow> expr list \<Rightarrow> expr result" where
  "expand_macro n params body args =
     (if length args \<noteq> length params then Inl Thrown_int else expand_params n (zip params args) body)"

text \<open>Occurrence of a variable, at the root or anywhere the visitors look.\<close>

definition refers_to :: "variable_declaration \<Rightarrow> expr \<Rightarrow> bool" where
  "refers_to p e = (case e of Variable_ref_expr v \<Rightarrow> var_eq v p | _ \<Rightarrow> False)"

definition occurs :: "variable_declaration \<Rightarrow> expr \<Rightarrow> bool" where
  "occurs p e = (\<exists>d \<in> set (preorder e). refers_to p d)"

lemma occurs_iff: "occurs p e \<longleftrightarrow> refers_to p e \<or> (\<exists>c \<in> set (children e). occurs p c)"
  unfolding occurs_def by (subst preorder.simps) auto

lemma refers_to_no_children: "refers_to p e \<Longrightarrow> children e = []"
  by (cases e) (auto simp: refers_to_def)

lemma substitute_macro_unmatched:
  "\<not> refers_to p e \<Longrightarrow> substitute (Suc n) (macro_param_matcher p a) e =
     rbind (traverse (substitute n (macro_param_matcher p a)) (children e)) (substitute_subexpressions e)"
  by (cases e) (auto simp: macro_param_matcher_def refers_to_def Let_def)

lemma substitute_macro_matched:
  "refers_to p e \<Longrightarrow> substitute (Suc n) (macro_param_matcher p a) e =
     rbind (traverse (substitute n (macro_param_matcher p a)) (children a)) (substitute_subexpressions a)"
  by (cases e) (auto simp: macro_param_matcher_def refers_to_def Let_def)

text \<open>A reference below the root of the argument is replaced over and over again.\<close>

lemma substitute_macro_never_Inr:
  assumes "\<exists>c \<in> set (children a). occurs p c"
  shows "occurs p e \<Longrightarrow> substitute n (macro_param_matcher p a) e \<noteq> Inr r"
proof (induction n arbitrary: e r)
  case 0
  then show ?case by simp
next
  case (Suc n)
  define d where "d = (if refers_to p e then a else e)"
  have step: "substitute (Suc n) (macro_param_matcher p a) e =
     rbind (traverse (substitute n (macro_param_matcher p a)) (children d)) (substitute_subexpressions d)"
    unfolding d_def using substitute_macro_matched substitute_macro_unmatched by auto
  obtain c where c: "c \<in> set (children d)" "occurs p c"
    using Suc.prems assms occurs_iff [of p e] by (cases "refers_to p e") (auto simp: d_def)
  have "traverse (substitute n (macro_param_matcher p a)) (children d) \<noteq> Inr cs" for cs
    using c Suc.IH traverse_mem_Inr by metis
  then show ?case unfolding step by (auto simp: rbind_Inr_iff)
qed

text \<open>Macro expansion does not end when an argument mentions the parameter it replaces below its root:
  if the body uses the parameter, no amount of fuel yields a result.\<close>
lemma expand_macro_diverges:
  assumes "occurs p body" and "\<exists>c \<in> set (children a). occurs p c"
  shows "expand_macro n [p] body [a] \<noteq> Inr r"
  using substitute_macro_never_Inr [OF assms(2,1)]
  by (auto simp: expand_macro_def rbind_Inr_iff)

lemma expand_macro_diverges_example:
  "expand_macro 100 [\<lparr>var_id = 0, var_name = ''x'', var_type = Integer_t\<rparr>]
     (Variable_ref_expr \<lparr>var_id = 0, var_name = ''x'', var_type = Integer_t\<rparr>)
     [Unary_operator_expr Negate (Variable_ref_expr \<lparr>var_id = 0, var_name = ''x'', var_type = Integer_t\<rparr>)]
   \<noteq> Inr (Integer_literal_expr 0)"
  by (rule expand_macro_diverges) (simp_all add: occurs_def preorder.simps refers_to_def var_eq_def)

text \<open>Without such a reference the expansion is the textbook replacement of a variable.\<close>

function replace_var :: "variable_declaration \<Rightarrow> expr \<Rightarrow> expr \<Rightarrow> expr result" where
  "replace_var p a e =
     (if refers_to p e then Inr a
      else rbind (traverse (replace_var p a) (children e)) (substitute_subexpressions e))"
  by pat_completeness auto
termination by (relation "measure (\<lambda>(p, a, e). size e)") (auto dest: children_smaller)

declare replace_var.simps [simp del]

function construct_free :: "expr \<Rightarrow> bool" where
  "construct_free e = ((\<forall>t ps. e \<noteq> Construct_expr t ps) \<and> list_all construct_free (children e))"
  by pat_completeness auto
termination by (relation "measure size") (auto dest: children_smaller)

declare construct_free.simps [simp del]

lemma rebuild_self:
  "wf_expr e \<Longrightarrow> construct_free e \<Longrightarrow> substitute_subexpressions e (children e) = Inr e"
  by (subst (asm) construct_free.simps) (cases e rule: children.cases; auto simp: substitute_defs)

lemma substitute_macro_absent:
  "wf_expr e \<Longrightarrow> construct_free e \<Longrightarrow> \<not> occurs p e \<Longrightarrow> size e < n \<Longrightarrow>
     substitute n (macro_param_matcher p a) e = Inr e"
proof (induction e arbitrary: n rule: construct_free.induct)
  case (1 e)
  then obtain k where n: "n = Suc k" by (cases n) auto
  have free: "list_all construct_free (children e)"
    using "1.prems"(2) by (subst (asm) construct_free.simps) simp
  have "traverse (substitute k (macro_param_matcher p a)) (children e) = Inr (map id (children e))"
  proof (rule traverse_all_Inr)
    fix c assume c: "c \<in> set (children e)"
    have "substitute k (macro_param_matcher p a) c = Inr c"
    proof (rule "1.IH")
      show "c \<in> set (children e)" by (rule c)
      show "wf_expr c" using wf_children "1.prems"(1) c by blast
      show "construct_free c" using free c by (simp add: list_all_iff)
      show "\<not> occurs p c" using "1.prems"(3) c occurs_iff by blast
      show "size c < k" using "1.prems"(4) children_smaller [OF c] n by simp
    qed
    then show "substitute k (macro_param_matcher p a) c = Inr (id c)" by simp
  qed
  moreover have "\<not> refers_to p e" using "1.prems"(3) occurs_iff by blast
  ultimately show ?case
    using n substitute_macro_unmatched rebuild_self "1.prems"(1,2) by simp
qed

lemma substitute_macro_replace:
  "wf_expr a \<Longrightarrow> construct_free a \<Longrightarrow> \<forall>c \<in> set (children a). \<not> occurs p c \<Longrightarrow> size e + size a < n \<Longrightarrow>
     substitute n (macro_param_matcher p a) e = replace_var p a e"
proof (induction p a e arbitrary: n rule: replace_var.induct)
  case (1 p a e)
  then obtain k where n: "n = Suc k" by (cases n) auto
  show ?case
  proof (cases "refers_to p e")
    case True
    have "traverse (substitute k (macro_param_matcher p a)) (children a) = Inr (map id (children a))"
    proof (rule traverse_all_Inr)
      fix c assume c: "c \<in> set (children a)"
      have "list_all construct_free (children a)"
        using "1.prems"(2) by (subst (asm) construct_free.simps) simp
      with c "1.prems" n children_smaller [OF c] wf_children [OF _ c]
      show "substitute k (macro_param_matcher p a) c = Inr (id c)"
        by (simp add: substitute_macro_absent list_all_iff)
    qed
    with True n rebuild_self [OF "1.prems"(1,2)] show ?thesis
      by (simp add: substitute_macro_matched replace_var.simps [of p a e] del: substitute.simps)
  next
    case False
    have "traverse (substitute k (macro_param_matcher p a)) (children e) =
          traverse (replace_var p a) (children e)"
    proof (rule traverse_cong [OF refl])
      fix c assume c: "c \<in> set (children e)"
      show "substitute k (macro_param_matcher p a) c = replace_var p a c"
        using "1.IH" [OF False c "1.prems"(1,2,3)] children_smaller [OF c] "1.prems"(4) n by simp
    qed
    with False n show ?thesis
      by (simp add: substitute_macro_unmatched replace_var.simps [of p a e] del: substitute.simps)
  qed
qed

text \<open>If the argument mentions the parameter at most at its root and holds no constructor call, the expansion
  of a macro of one parameter ends and is the textbook replacement of that parameter.\<close>
lemma expand_macro_replaces:
  assumes "wf_expr a" and "construct_free a" and "\<forall>c \<in> set (children a). \<not> occurs p c"
    and "size body + size a < n"
  shows "expand_macro n [p] body [a] = replace_var p a body"
  using substitute_macro_replace [OF assms]
  by (cases "replace_var p a body") (simp_all add: expand_macro_def del: substitute.simps)

lemma expand_macro_replaces_example:
  "expand_macro 100 [\<lparr>var_id = 0, var_name = ''x'', var_type = Integer_t\<rparr>]
     (Binary_operator_expr Plus
        (Variable_ref_expr \<lparr>var_id = 0, var_name = ''x'', var_type = Integer_t\<rparr>) (Integer_literal_expr 1))
     [Integer_literal_expr 2]
   = Inr (Binary_operator_expr Plus (Integer_literal_expr 2) (Integer_literal_expr 1))"
  by (subst expand_macro_replaces)
     (simp_all add: i64_simps construct_free.simps replace_var.simps refers_to_def var_eq_def substitute_defs)

end
