(* ===== verification/ImplicitConversions.thy ===== *)
theory ImplicitConversions
  imports Substitution ConstantFolding
begin

text \<open>
  The pass that writes out implicit conversions (\<open>qubus/src/make_implicit_conversions_explicit.cpp\<close>).
  Its matcher runs under \<open>pattern::substitute\<close>; the fuel is that of \<open>substitute\<close>, and twice the
  size of the expression is always enough.
\<close>

section \<open>The pass\<close>

definition convert_operand :: "qtype \<Rightarrow> qtype \<Rightarrow> expr \<Rightarrow> expr" where
  "convert_operand result_type t a = (if type_neq t result_type then Type_conversion_expr result_type a else a)"

definition conv_match :: matcher where
  "conv_match self =
     (case self of
        Binary_operator_expr btag a b \<Rightarrow>
          (if btag = Equal_to \<or> btag = Less_equal \<or> btag = Less \<or> btag = Greater_equal \<or> btag = Greater
           then Inr (Some self)
           else rbind (infer_type self) (\<lambda>result_type.
                rbind (infer_type a) (\<lambda>lhs_type.
                rbind (infer_type b) (\<lambda>rhs_type.
                  Inr (Some (Binary_operator_expr btag (convert_operand result_type lhs_type a)
                               (convert_operand result_type rhs_type b)))))))
      | Unary_operator_expr utag a \<Rightarrow>
          rbind (infer_type self) (\<lambda>result_type.
          rbind (infer_type a) (\<lambda>arg_type.
            Inr (Some (Unary_operator_expr utag
                   (if type_neq result_type arg_type then Type_conversion_expr result_type a else a)))))
      | _ \<Rightarrow> Inr None)"

definition make_implicit_conversions_explicit :: "nat \<Rightarrow> expr \<Rightarrow> expr result" where
  "make_implicit_conversions_explicit n e = substitute n conv_match e"

section \<open>Specification\<close>

text \<open>The operators of a node have a type, and its operands have exactly the type of the node.\<close>

fun operator_typed :: "expr \<Rightarrow> bool" where
  "operator_typed (Binary_operator_expr t l r) =
     (comparison_tag t \<or> (\<exists>x. infer_type (Binary_operator_expr t l r) = Inr x))"
| "operator_typed (Unary_operator_expr t a) = (\<exists>x. infer_type a = Inr x)"
| "operator_typed _ = True"

fun operands_explicit :: "expr \<Rightarrow> bool" where
  "operands_explicit (Binary_operator_expr t l r) =
     (comparison_tag t \<or>
      infer_type l = infer_type (Binary_operator_expr t l r) \<and>
      infer_type r = infer_type (Binary_operator_expr t l r))"
| "operands_explicit (Unary_operator_expr t a) = (infer_type a = infer_type (Unary_operator_expr t a))"
| "operands_explicit _ = True"

section \<open>Types of converted operands\<close>

fun plain :: "qtype \<Rightarrow> bool" where
  "plain (Complex_t t) = plain t"
| "plain t = (t \<in> {Double_t, Float_t, Integer_t, Bool_t, Index_t})"

lemma common_type_plain: "common_type a b = Inr t \<Longrightarrow> plain t"
  by (induction a b arbitrary: t rule: common_type.induct)
    (subst (asm) common_type.simps, auto simp: rbind_Inr_iff split: qtype.splits)

lemma plain_comparable: "plain t \<Longrightarrow> comparable t"
  by (induction t) auto

lemma type_eq_plain: "plain t \<Longrightarrow> type_eq x t = (x = t)"
  by (induction t arbitrary: x) (auto simp: plain_comparable split: qtype.splits, (case_tac x; auto simp: plain_comparable)+)

lemma common_type_idem: "plain t \<Longrightarrow> common_type t t = Inr t"
  by (induction t) auto

lemma infer_convert_operand:
  "infer_type a = Inr x \<Longrightarrow> plain t \<Longrightarrow> infer_type (convert_operand t x a) = Inr t"
  by (simp add: convert_operand_def type_neq_def type_eq_plain)

lemma conv_match_cases:
  assumes "operator_typed e" "wf_expr e"
  obtains "conv_match e = Inr None" "operands_explicit e"
  | d where "conv_match e = Inr (Some d)" "infer_type d = infer_type e" "wf_expr d" "operands_explicit d"
      "\<not> is_access e" "\<forall>c \<in> set (children d). c \<in> set (children e) \<or>
         (\<exists>t. \<exists>a \<in> set (children e). c = Type_conversion_expr t a)"
proof (cases e)
  case (Binary_operator_expr t l r)
  show ?thesis
  proof (cases "comparison_tag t")
    case True
    with Binary_operator_expr assms show ?thesis
      by (intro that(2) [of e]) (auto simp: conv_match_def comparison_tag_def)
  next
    case False
    with assms Binary_operator_expr obtain lt rt x where
      ty: "infer_type l = Inr lt" "infer_type r = Inr rt" "common_type lt rt = Inr x"
      by (auto simp: rbind_Inr_iff)
    have x: "plain x" by (rule common_type_plain [OF ty(3)])
    show ?thesis
      by (rule that(2) [of "Binary_operator_expr t (convert_operand x lt l) (convert_operand x rt r)"])
        (use Binary_operator_expr False ty x assms in
          \<open>auto simp: conv_match_def comparison_tag_def infer_convert_operand common_type_idem
             convert_operand_def type_neq_def type_eq_plain\<close>)
  qed
next
  case (Unary_operator_expr t a)
  with assms obtain x where "infer_type a = Inr x" by auto
  with Unary_operator_expr assms show ?thesis
    by (intro that(2) [of "Unary_operator_expr t (if type_neq x x then Type_conversion_expr x a else a)"])
      (auto simp: conv_match_def)
qed (auto simp: conv_match_def intro: that(1))

section \<open>Correctness\<close>

definition converted :: "expr \<Rightarrow> expr \<Rightarrow> bool" where
  "converted e e' = (infer_type e' = infer_type e \<and> wf_expr e' \<and> everywhere operands_explicit e' \<and>
     (is_access e \<longrightarrow> is_access e'))"

lemma set_children_stored: "set (children e) \<subseteq> set (stored_children e)"
  by (cases e) (auto split: if_splits simp: in_set_replicate intro!: nth_mem)

lemma same_class_explicit:
  assumes "same_class e d" "operands_explicit e"
    and "list_all2 (\<lambda>c c'. infer_type c' = infer_type c) (children e) (children d)"
  shows "operands_explicit d"
  using assms by (cases e) auto

lemma rebuild_converted:
  assumes wf: "wf_expr e" and expl: "operands_explicit e"
    and cs: "list_all2 converted (children e) cs"
  shows "\<exists>e'. substitute_subexpressions e cs = Inr e' \<and> converted e e'"
proof -
  have len: "length cs = arity e" using cs by (simp add: list_all2_lengthD [symmetric])
  have "access_position e \<Longrightarrow> is_access (hd cs)"
    using wf cs by (cases e) (auto simp: list_all2_Cons1 converted_def)
  from substitute_exact [OF len this] obtain d where d: "substitute_subexpressions e cs = Inr d"
    "same_class e d" "stored_children d = cs" by blast
  have good: "\<forall>c' \<in> set cs. wf_expr c' \<and> everywhere operands_explicit c'"
    using cs by (auto simp: list_all2_conv_all_nth in_set_conv_nth converted_def)
  have wf': "wf_expr d" using substitute_wf [OF wf _ d(1)] good by blast
  have types: "list_all2 (\<lambda>c c'. infer_type c' = infer_type c) (children e) cs"
    using cs by (auto simp: list_all2_conv_all_nth converted_def)
  have "infer_type d = infer_type e \<and> operands_explicit d"
  proof (cases "\<exists>t ps. e = Construct_expr t ps")
    case True
    with d show ?thesis by auto
  next
    case False
    with d(2) have "stored_children d = children d"
      by (intro stored_children_eq) (cases e; auto)
    with d types have "list_all2 (\<lambda>c c'. infer_type c' = infer_type c) (children e) (children d)" by simp
    with d(2) expl show ?thesis using same_class_infer_type same_class_explicit by blast
  qed
  moreover have "\<forall>c \<in> set (children d). everywhere operands_explicit c"
    using good set_children_stored [of d] d(3) by auto
  moreover have "is_access e \<longrightarrow> is_access d" using d(2) by (cases e) auto
  ultimately have "converted e d" using wf' by (simp add: converted_def everywhere_iff [of _ d])
  with d(1) show ?thesis by blast
qed

lemma substitute_node:
  assumes m: "m e = Inr r" and d: "d = (case r of Some e' \<Rightarrow> e' | None \<Rightarrow> e)"
    and "wf_expr d" "operands_explicit d"
    and ch: "\<And>c. c \<in> set (children d) \<Longrightarrow> \<exists>c'. substitute n m c = Inr c' \<and> converted c c'"
  shows "\<exists>e'. substitute (Suc n) m e = Inr e' \<and> converted d e'"
proof -
  obtain cs where cs: "list_all2 (\<lambda>c c'. substitute n m c = Inr c' \<and> converted c c') (children d) cs"
    using ch list_all2_exists [of "children d" "\<lambda>c c'. substitute n m c = Inr c' \<and> converted c c'"] by blast
  then have "traverse (substitute n m) (children d) = Inr cs" "list_all2 converted (children d) cs"
    by (auto simp: traverse_Inr_iff elim: list_all2_mono)
  with rebuild_converted [OF assms(3,4)] m d show ?thesis by (auto simp: Let_def)
qed

lemma conversion_aux:
  "wf_expr e \<Longrightarrow> everywhere operator_typed e \<Longrightarrow> 2 * size e < n \<Longrightarrow>
     \<exists>e'. substitute n conv_match e = Inr e' \<and> converted e e'"
proof (induction e arbitrary: n rule: measure_induct_rule [of size])
  case (less e)
  then obtain k where n: "n = Suc k" by (cases n) auto
  have sub: "\<exists>c'. substitute j conv_match c = Inr c' \<and> converted c c'"
    if "c \<in> set (children e)" "2 * size c < j" for c j
    using less that children_smaller wf_children everywhere_iff by blast
  have typed: "operator_typed e" using less.prems(2) everywhere_iff by blast
  from typed less.prems(1) show ?case
  proof (cases rule: conv_match_cases)
    case 1
    have "\<exists>c'. substitute k conv_match c = Inr c' \<and> converted c c'" if "c \<in> set (children e)" for c
      using sub [OF that] children_smaller [OF that] less.prems(3) n by simp
    from substitute_node [OF 1(1) _ _ _ this] less.prems(1) 1(2) n show ?thesis by simp
  next
    case (2 d)
    have "\<exists>c'. substitute k conv_match c = Inr c' \<and> converted c c'" if c: "c \<in> set (children d)" for c
    proof (cases "c \<in> set (children e)")
      case True
      with sub [OF True] children_smaller [OF True] less.prems(3) n show ?thesis by simp
    next
      case False
      with 2(6) c obtain t a where a: "c = Type_conversion_expr t a" "a \<in> set (children e)" by blast
      then obtain j where k: "k = Suc j" "2 * size a < j"
        using children_smaller [OF a(2)] less.prems(3) n by (cases k) auto
      have "wf_expr c" using 2(3) c wf_children by blast
      from substitute_node [of conv_match c None c j, OF _ _ this] sub [OF a(2) k(2)] a k
      show ?thesis by (simp add: conv_match_def)
    qed
    from substitute_node [OF 2(1) _ _ _ this] 2 n show ?thesis by (auto simp: converted_def)
  qed
qed

text \<open>C8. On a well-formed expression whose arithmetic has a type, the pass ends, keeps the type and
  leaves no implicit conversion: everywhere in the result the operands of a unary operator or of a
  binary operator other than a comparison have exactly the type of the operator's node.\<close>
theorem implicit_conversions_explicit:
  assumes "wf_expr e" and "everywhere operator_typed e" and "2 * size e < n"
  shows "\<exists>e'. make_implicit_conversions_explicit n e = Inr e' \<and> infer_type e' = infer_type e \<and>
    wf_expr e' \<and> everywhere operands_explicit e'"
  using conversion_aux [OF assms]
  by (auto simp: make_implicit_conversions_explicit_def converted_def)

theorem implicit_conversions_explicit_witness:
  "\<exists>e'. make_implicit_conversions_explicit 20
       (Binary_operator_expr Plus (Integer_literal_expr 1) (Double_literal_expr 0)) = Inr e' \<and>
     infer_type e' = Inr Double_t \<and> wf_expr e' \<and> everywhere operands_explicit e'"
proof -
  have "infer_type (Binary_operator_expr Plus (Integer_literal_expr 1) (Double_literal_expr 0)) = Inr Double_t"
    by simp
  then show ?thesis
    using implicit_conversions_explicit
      [of "Binary_operator_expr Plus (Integer_literal_expr 1) (Double_literal_expr 0)" 20]
    by (simp add: everywhere_def preorder.simps i64_simps)
qed

text \<open>The pass treats an assignment like arithmetic: assigning a double to a float variable converts the
  target, so the result assigns to a conversion expression instead of a variable.\<close>
lemma assignment_target_converted:
  assumes "var_type v = Float_t" and "infer_type r = Inr Double_t"
  shows "conv_match (Binary_operator_expr Assign (Variable_ref_expr v) r) =
    Inr (Some (Binary_operator_expr Assign (Type_conversion_expr Double_t (Variable_ref_expr v)) r))"
  using assms by (simp add: conv_match_def convert_operand_def type_neq_def)

lemma assignment_target_converted_example:
  "make_implicit_conversions_explicit 9
     (Binary_operator_expr Assign (Variable_ref_expr \<lparr>var_id = 1, var_name = ''f'', var_type = Float_t\<rparr>)
        (Double_literal_expr 1)) =
   Inr (Binary_operator_expr Assign
         (Type_conversion_expr Double_t (Variable_ref_expr \<lparr>var_id = 1, var_name = ''f'', var_type = Float_t\<rparr>))
         (Double_literal_expr 1))"
proof -
  have "conv_match (Binary_operator_expr Assign
      (Variable_ref_expr \<lparr>var_id = 1, var_name = ''f'', var_type = Float_t\<rparr>) (Double_literal_expr 1)) =
    Inr (Some (Binary_operator_expr Assign (Type_conversion_expr Double_t
      (Variable_ref_expr \<lparr>var_id = 1, var_name = ''f'', var_type = Float_t\<rparr>)) (Double_literal_expr 1)))"
    by (rule assignment_target_converted) simp_all
  moreover have "conv_match (Type_conversion_expr t a) = Inr None" "conv_match (Variable_ref_expr v) = Inr None"
    "conv_match (Double_literal_expr d) = Inr None" for t a v d
    by (simp_all add: conv_match_def)
  ultimately show ?thesis
    by (simp add: make_implicit_conversions_explicit_def substitute_defs numeral_eq_Suc)
qed

end
