(* ===== verification/Registry.thy ===== *)
theory Registry
  imports Prelude
begin

text \<open>
  The contract the tables of the program share (functions and types of a module, the module library,
  symbol tables, the backend registry): a key can be added if it is available, and lookup then
  answers what was added.  \<open>view\<close> is what a client can see of an entry.
\<close>

fun add_all :: "('s \<Rightarrow> 'k \<Rightarrow> 'v \<Rightarrow> 's result) \<Rightarrow> 's \<Rightarrow> ('k \<times> 'v) list \<Rightarrow> 's result" where
  "add_all add s [] = Inr s"
| "add_all add s ((k, v) # kvs) = rbind (add s k v) (\<lambda>s'. add_all add s' kvs)"

lemma add_all_append: "add_all add s (xs @ ys) = rbind (add_all add s xs) (\<lambda>s'. add_all add s' ys)"
  by (induction xs arbitrary: s) (auto simp: rbind_assoc)

locale registry =
  fixes add :: "'s \<Rightarrow> 'k \<Rightarrow> 'v \<Rightarrow> 's result"
    and view :: "'s \<Rightarrow> 'k \<Rightarrow> 'v option"
    and available :: "'s \<Rightarrow> 'k \<Rightarrow> bool"
    and inv :: "'s \<Rightarrow> bool"
  assumes add_iff: "inv s \<Longrightarrow> (\<exists>s'. add s k v = Inr s') \<longleftrightarrow> available s k"
    and add_inv: "inv s \<Longrightarrow> add s k v = Inr s' \<Longrightarrow> inv s'"
    and add_view: "inv s \<Longrightarrow> add s k v = Inr s' \<Longrightarrow> view s' k' = (if k' = k then Some v else view s k')"
    and add_available: "inv s \<Longrightarrow> add s k v = Inr s' \<Longrightarrow> available s' k' = (k' \<noteq> k \<and> available s k')"
begin

lemma added_twice: "inv s \<Longrightarrow> add s k v = Inr s' \<Longrightarrow> add s' k w \<noteq> Inr s''"
  using add_iff [of s' k w] add_inv add_available [of s k v s' k] by auto

lemma add_all_total:
  "inv s \<Longrightarrow> distinct (map fst kvs) \<Longrightarrow> \<forall>k \<in> set (map fst kvs). available s k \<Longrightarrow>
     \<exists>s'. add_all add s kvs = Inr s' \<and> inv s' \<and>
       (\<forall>k. view s' k = (case map_of kvs k of Some v \<Rightarrow> Some v | None \<Rightarrow> view s k)) \<and>
       (\<forall>k. available s' k = (available s k \<and> k \<notin> set (map fst kvs)))"
proof (induction kvs arbitrary: s)
  case Nil
  then show ?case by simp
next
  case (Cons kv kvs)
  obtain k v where kv: "kv = (k, v)" by (cases kv)
  with Cons.prems have "available s k" by simp
  then obtain s1 where s1: "add s k v = Inr s1" using add_iff [OF Cons.prems(1)] by blast
  note step = add_view [OF Cons.prems(1) s1] add_available [OF Cons.prems(1) s1]
  have inv: "inv s1" by (rule add_inv [OF Cons.prems(1) s1])
  have "\<forall>k' \<in> set (map fst kvs). available s1 k'" using Cons.prems kv step by auto
  from Cons.IH [OF inv _ this] Cons.prems kv obtain s' where
    s': "add_all add s1 kvs = Inr s'" "inv s'"
      "\<forall>k. view s' k = (case map_of kvs k of Some v \<Rightarrow> Some v | None \<Rightarrow> view s1 k)"
      "\<forall>k. available s' k = (available s1 k \<and> k \<notin> set (map fst kvs))"
    by auto
  have none: "map_of kvs k = None" using Cons.prems kv by (simp add: map_of_eq_None_iff)
  have "view s' x = (case map_of (kv # kvs) x of Some v \<Rightarrow> Some v | None \<Rightarrow> view s x)" for x
    using s'(3) step(1) [of x] kv none by (cases "x = k") (auto split: option.splits)
  moreover have "available s' x = (available s x \<and> x \<notin> set (map fst (kv # kvs)))" for x
    using s'(4) step(2) [of x] kv by auto
  ultimately show ?case using s'(1,2) s1 kv by auto
qed

end

text \<open>Iterating over a hash table visits each entry once, in an order that is not specified.\<close>

definition iteration_order :: "'k list \<Rightarrow> ('k \<rightharpoonup> 'v) \<Rightarrow> bool" where
  "iteration_order ks m \<longleftrightarrow> distinct ks \<and> set ks = dom m"

definition entries :: "'k list \<Rightarrow> ('k \<rightharpoonup> 'v) \<Rightarrow> ('k \<times> 'v) list" where
  "entries ks m = map (\<lambda>k. (k, the (m k))) ks"

lemma map_fst_entries [simp]: "map fst (entries ks m) = ks"
  by (simp add: entries_def comp_def)

lemma map_of_entries: "iteration_order ks m \<Longrightarrow> map_of (entries ks m) = m"
proof
  fix k assume "iteration_order ks m"
  then show "map_of (entries ks m) k = m k"
    by (cases "k \<in> set ks") (auto simp: iteration_order_def entries_def map_of_map_restrict restrict_map_def)
qed

end
