(* ===== verification/ModuleSystem.thy ===== *)
theory ModuleSystem
  imports Registry ImplicitConversions
begin

text \<open>
  Symbol ids (\<open>qubus/src/IR/symbol_id.cpp\<close>), functions (\<open>function.cpp\<close>), modules
  (\<open>module.cpp\<close>), the generator of unique variables (\<open>unique_variable_generator.cpp\<close>), the
  module library (\<open>qubus/src/module_library.cpp\<close>) and the module level of the conversion pass.
  A module's address is a number; the hash tables are maps, and where the code iterates over one, the
  order is an argument.
\<close>

section \<open>Symbol ids\<close>

type_synonym symbol_id = "string list"

definition ascii_alpha :: "char \<Rightarrow> bool" where
  "ascii_alpha c = (let n = of_char c :: nat in (65 \<le> n \<and> n \<le> 90) \<or> (97 \<le> n \<and> n \<le> 122))"

definition ascii_alnum :: "char \<Rightarrow> bool" where
  "ascii_alnum c = (ascii_alpha c \<or> (let n = of_char c :: nat in 48 \<le> n \<and> n \<le> 57))"

definition id_char :: "char \<Rightarrow> bool" where
  "id_char c = (ascii_alnum c \<or> c = CHR ''_'')"

text \<open>\<open>qubus_id % '.'\<close>: the longest list of ids, and the input it leaves.\<close>

fun qubus_id :: "string \<Rightarrow> (string \<times> string) option" where
  "qubus_id [] = None"
| "qubus_id (c # cs) = (if ascii_alpha c then Some (c # takeWhile id_char cs, dropWhile id_char cs) else None)"

lemma qubus_id_shorter: "qubus_id s = Some (i, r) \<Longrightarrow> length r < length s"
  by (cases s) (auto simp: length_dropWhile_le less_Suc_eq_le split: if_splits)

function id_list :: "string \<Rightarrow> (symbol_id \<times> string) option" where
  "id_list s =
     (case qubus_id s of
        None \<Rightarrow> None
      | Some (i, r) \<Rightarrow>
          if r \<noteq> [] \<and> hd r = CHR ''.''
          then (case id_list (tl r) of Some (js, r') \<Rightarrow> Some (i # js, r') | None \<Rightarrow> Some ([i], r))
          else Some ([i], r))"
  by pat_completeness auto
termination by (relation "measure length") (auto dest: qubus_id_shorter)

declare id_list.simps [simp del]

definition parse_symbol_id :: "string \<Rightarrow> symbol_id result" where
  "parse_symbol_id s =
     (case id_list s of Some (is, []) \<Rightarrow> Inr is | _ \<Rightarrow> Inl Symbol_id_parsing_error)"

definition get_prefix :: "symbol_id \<Rightarrow> symbol_id" where
  "get_prefix is = (if length is < 2 then [] else take (length is - 1) is)"

definition suffix :: "symbol_id \<Rightarrow> string result" where
  "suffix is = (if is = [] then Inl Assertion_failed else Inr (last is))"

fun symbol_string :: "symbol_id \<Rightarrow> string" where
  "symbol_string [] = []"
| "symbol_string [i] = i"
| "symbol_string (i # j # is) = i @ ''.'' @ symbol_string (j # is)"

definition symbol_id_eq :: "symbol_id \<Rightarrow> symbol_id \<Rightarrow> bool" where
  "symbol_id_eq a b = (a = b)"

definition valid_id :: "string \<Rightarrow> bool" where
  "valid_id i = (i \<noteq> [] \<and> ascii_alpha (hd i) \<and> list_all id_char i)"

lemma dot_no_id_char [simp]: "\<not> id_char CHR ''.''"
  by (simp add: id_char_def ascii_alnum_def ascii_alpha_def)

lemma alpha_id_char: "ascii_alpha c \<Longrightarrow> id_char c"
  by (simp add: id_char_def ascii_alnum_def)

lemma qubus_id_valid:
  assumes "valid_id i" and "r = [] \<or> \<not> id_char (hd r)"
  shows "qubus_id (i @ r) = Some (i, r)"
proof -
  obtain c cs where i: "i = c # cs" using assms(1) by (cases i) (auto simp: valid_id_def)
  have "takeWhile id_char (cs @ r) = cs" "dropWhile id_char (cs @ r) = r"
    using assms i by (cases r; auto simp: valid_id_def list_all_iff takeWhile_append dropWhile_append)+
  with assms i show ?thesis by (simp add: valid_id_def)
qed

lemma id_list_string:
  "is \<noteq> [] \<Longrightarrow> list_all valid_id is \<Longrightarrow> id_list (symbol_string is) = Some (is, [])"
proof (induction "is" rule: symbol_string.induct)
  case 1
  then show ?case by simp
next
  case (2 i)
  then show ?case using qubus_id_valid [of i "[]"] by (subst id_list.simps) simp
next
  case (3 i j "is")
  then show ?case
    using qubus_id_valid [of i "CHR ''.'' # symbol_string (j # is)"]
    by (subst id_list.simps) simp
qed

lemma qubus_id_splits: "qubus_id s = Some (i, r) \<Longrightarrow> s = i @ r \<and> valid_id i"
  by (cases s) (auto simp: valid_id_def list_all_iff alpha_id_char dest: set_takeWhileD split: if_splits)

lemma id_list_splits:
  "id_list s = Some (is, r) \<Longrightarrow> is \<noteq> [] \<and> list_all valid_id is \<and> s = symbol_string is @ r"
proof (induction s arbitrary: "is" r rule: id_list.induct)
  case (1 s)
  then obtain i r1 where q: "qubus_id s = Some (i, r1)"
    using id_list.simps [of s] by (auto split: option.splits)
  note sp = qubus_id_splits [OF q]
  show ?case
  proof (cases "r1 \<noteq> [] \<and> hd r1 = CHR ''.'' \<and> id_list (tl r1) \<noteq> None")
    case True
    then obtain r' js r2 where r1: "r1 = CHR ''.'' # r'" "id_list r' = Some (js, r2)"
      by (cases r1) auto
    with "1.prems" q id_list.simps [of s] have "is = i # js" "r = r2" by simp_all
    with "1.IH" [OF q refl, of js r2] r1 sp show ?thesis by (cases js) auto
  next
    case False
    with "1.prems" q id_list.simps [of s] have "is = [i]" "r = r1" by (auto split: if_splits option.splits)
    with sp show ?thesis by simp
  qed
qed

text \<open>Parsing and printing of symbol ids are inverse: parsing accepts exactly the strings that are the
  text of a nonempty sequence of identifiers, and answers that sequence.\<close>
lemma symbol_id_roundtrip:
  "parse_symbol_id s = Inr is \<longleftrightarrow> is \<noteq> [] \<and> list_all valid_id is \<and> s = symbol_string is"
  using id_list_string [of "is"] id_list_splits [of s "is" "[]"]
  by (auto simp: parse_symbol_id_def split: option.splits list.splits)

section \<open>Unique names\<close>

definition long_max :: nat where "long_max = 9223372036854775807"

text \<open>Both generators try the hint followed by 0, 1, \<open>...\<close> and stop after the largest \<open>long int\<close>.\<close>

function find_free_name :: "(string \<Rightarrow> bool) \<Rightarrow> string \<Rightarrow> nat \<Rightarrow> string option" where
  "find_free_name taken hint i =
     (let name = hint @ to_string i
      in if \<not> taken name then Some name
         else if long_max \<le> i then None
         else find_free_name taken hint (Suc i))"
  by pat_completeness auto
termination by (relation "measure (\<lambda>(t, h, i). long_max - i)") auto

declare find_free_name.simps [simp del]

lemma find_free_name_Some:
  "find_free_name taken hint i = Some x \<Longrightarrow>
     \<exists>j \<ge> i. x = hint @ to_string j \<and> \<not> taken x \<and> (\<forall>l. i \<le> l \<and> l < j \<longrightarrow> taken (hint @ to_string l))"
proof (induction taken hint i rule: find_free_name.induct)
  case (1 taken hint i)
  show ?case
  proof (cases "taken (hint @ to_string i)")
    case False
    with "1.prems" show ?thesis by (subst (asm) find_free_name.simps) (auto simp: Let_def)
  next
    case True
    with "1.prems" have lt: "\<not> long_max \<le> i" and rec: "find_free_name taken hint (Suc i) = Some x"
      using find_free_name.simps [of taken hint i] by (auto simp: Let_def split: if_splits)
    from "1.IH" [OF refl _ lt rec] True obtain j where j: "j \<ge> Suc i" "x = hint @ to_string j" "\<not> taken x"
      "\<forall>l. Suc i \<le> l \<and> l < j \<longrightarrow> taken (hint @ to_string l)" by auto
    with True have "\<forall>l. i \<le> l \<and> l < j \<longrightarrow> taken (hint @ to_string l)"
      using le_eq_less_or_eq Suc_le_eq by metis
    with j show ?thesis using Suc_leD by blast
  qed
qed

lemma find_free_name_None:
  "find_free_name taken hint i = None \<Longrightarrow> i \<le> l \<Longrightarrow> l \<le> long_max \<Longrightarrow> taken (hint @ to_string l)"
proof (induction taken hint i rule: find_free_name.induct)
  case (1 taken hint i)
  have t: "taken (hint @ to_string i)"
    and rec: "\<not> long_max \<le> i \<Longrightarrow> find_free_name taken hint (Suc i) = None"
    using "1.prems"(1) find_free_name.simps [of taken hint i] by (auto simp: Let_def split: if_splits)
  show ?case
  proof (cases "i = l")
    case False
    with "1.prems"(2,3) have "\<not> long_max \<le> i" "Suc i \<le> l" by auto
    with "1.IH" [OF refl _ _ rec] t "1.prems"(3) show ?thesis by simp
  qed (use t in simp)
qed

lemma find_free_name_total:
  assumes "finite R" and "card R \<le> long_max"
  shows "\<exists>x. find_free_name (\<lambda>n. n \<in> R) hint 0 = Some x"
proof (rule ccontr)
  assume "\<nexists>x. find_free_name (\<lambda>n. n \<in> R) hint 0 = Some x"
  then have "(\<lambda>l. hint @ to_string l) ` {..long_max} \<subseteq> R"
    using find_free_name_None [of "\<lambda>n. n \<in> R" hint 0] by auto
  moreover have "inj_on (\<lambda>l. hint @ to_string l) {..long_max}"
    by (auto simp: inj_on_def dest: to_string_inj)
  ultimately have "Suc long_max \<le> card R"
    using card_mono [OF assms(1)] card_image by (metis card_atMost)
  with assms(2) show False by simp
qed

text \<open>The generator of unique variables; running past the largest index overflows a signed integer.\<close>

definition generate_unique_name :: "string set \<Rightarrow> string \<Rightarrow> (string \<times> string set) result" where
  "generate_unique_name reserved_names hint =
     (case find_free_name (\<lambda>n. n \<in> reserved_names) hint 0 of
        Some name \<Rightarrow> Inr (name, insert name reserved_names)
      | None \<Rightarrow> Inl Undefined_behaviour)"

definition create_new_variable ::
  "string set \<Rightarrow> nat \<Rightarrow> qtype \<Rightarrow> string \<Rightarrow> (variable_declaration \<times> string set) result" where
  "create_new_variable reserved_names address t hint =
     rbind (generate_unique_name reserved_names hint) (\<lambda>(name, reserved_names').
       Inr (\<lparr>var_id = address, var_name = name, var_type = t\<rparr>, reserved_names'))"

definition names_of_expr :: "expr \<Rightarrow> string set" where
  "names_of_expr e = for_each
     (\<lambda>d names. case d of Variable_ref_expr v \<Rightarrow> insert (var_name v) names | _ \<Rightarrow> names) e {}"

section \<open>Functions\<close>

datatype struct_type = Struct (struct_id: string) (struct_members: "member list")

record qfunction =
  containing_module :: nat
  fn_name :: string
  fn_params :: "variable_declaration list"
  fn_result :: variable_declaration
  fn_body :: expr
  local_variable_table :: "string \<rightharpoonup> variable_declaration"
  fn_annotations :: annotation_map

definition make_function ::
  "nat \<Rightarrow> string \<Rightarrow> variable_declaration list \<Rightarrow> variable_declaration \<Rightarrow> expr \<Rightarrow> qfunction" where
  "make_function m name params res body =
     \<lparr>containing_module = m, fn_name = name, fn_params = params, fn_result = res, fn_body = body,
      local_variable_table = (\<lambda>n. None), fn_annotations = (\<lambda>n. None)\<rparr>"

definition full_name :: "symbol_id \<Rightarrow> qfunction \<Rightarrow> string" where
  "full_name module_id f = symbol_string module_id @ ''.'' @ fn_name f"

definition substitute_body :: "expr \<Rightarrow> qfunction \<Rightarrow> qfunction" where
  "substitute_body b f = f\<lparr>fn_body := b\<rparr>"

definition declare_new_local_variable ::
  "qfunction \<Rightarrow> nat \<Rightarrow> qtype \<Rightarrow> string \<Rightarrow> (variable_declaration \<times> qfunction) result" where
  "declare_new_local_variable f address t hint =
     (case find_free_name (\<lambda>n. local_variable_table f n \<noteq> None) hint 0 of
        None \<Rightarrow> Inl Thrown_int
      | Some name \<Rightarrow>
          let v = \<lparr>var_id = address, var_name = name, var_type = t\<rparr>
          in Inr (v, f\<lparr>local_variable_table := (local_variable_table f)(name \<mapsto> v)\<rparr>))"

definition reserved_names_of_function :: "qfunction \<Rightarrow> string set" where
  "reserved_names_of_function f =
     insert (var_name (fn_result f))
       (foldl (\<lambda>names p. insert (var_name p) names) (names_of_expr (fn_body f)) (fn_params f))"

lemma names_of_expr_eq: "names_of_expr e = {var_name v |v. Variable_ref_expr v \<in> set (preorder e)}"
proof -
  have "foldl (\<lambda>names d. case d of Variable_ref_expr v \<Rightarrow> insert (var_name v) names | _ \<Rightarrow> names) N es =
      N \<union> {var_name v |v. Variable_ref_expr v \<in> set es}" for N es
    by (induction es arbitrary: N) (auto split: expr.splits)
  then show ?thesis by (simp add: names_of_expr_def for_each_def)
qed

lemma reserved_names_eq:
  "reserved_names_of_function f =
     {var_name (fn_result f)} \<union> var_name ` set (fn_params f) \<union>
     {var_name v |v. Variable_ref_expr v \<in> set (preorder (fn_body f))}"
proof -
  have "foldl (\<lambda>names p. insert (var_name p) names) N ps = N \<union> var_name ` set ps"
    for N and ps :: "variable_declaration list"
    by (induction ps arbitrary: N) auto
  then show ?thesis by (auto simp: reserved_names_of_function_def names_of_expr_eq)
qed

lemma finite_reserved_names: "finite (reserved_names_of_function f)"
proof -
  have sub: "{var_name v |v. Variable_ref_expr v \<in> set es} \<subseteq>
      (\<lambda>d. case d of Variable_ref_expr v \<Rightarrow> var_name v | _ \<Rightarrow> []) ` set es" for es
    by (auto intro: rev_image_eqI)
  have "finite {var_name v |v. Variable_ref_expr v \<in> set es}" for es
    by (rule finite_subset [OF sub]) simp
  then show ?thesis by (simp add: reserved_names_eq)
qed



text \<open>\<open>declare_new_local_variable\<close> knows only the variables it declared itself: the first local
  variable of a function gets the name of a parameter called \<open>var0\<close>.\<close>
lemma declare_new_local_variable_clash:
  "\<exists>v f'. declare_new_local_variable (make_function m g (p # ps) r b) a t ''var'' = Inr (v, f') \<and>
    var_name v = ''var0'' \<and> p \<in> set (fn_params f')"
  by (simp add: declare_new_local_variable_def make_function_def find_free_name.simps Let_def
      to_string.simps digit_0)

section \<open>Modules\<close>

record qmodule =
  mod_address :: nat
  mod_id :: symbol_id
  function_index :: "string \<rightharpoonup> qfunction"
  type_index :: "string \<rightharpoonup> struct_type"

definition new_module :: "nat \<Rightarrow> symbol_id \<Rightarrow> qmodule" where
  "new_module a i = \<lparr>mod_address = a, mod_id = i, function_index = (\<lambda>n. None), type_index = (\<lambda>n. None)\<rparr>"

definition lookup_function :: "qmodule \<Rightarrow> string \<Rightarrow> qfunction result" where
  "lookup_function m i =
     (case function_index m i of Some f \<Rightarrow> Inr f | None \<Rightarrow> Inl (Unknown_symbol_error i))"

definition add_function ::
  "qmodule \<Rightarrow> string \<Rightarrow> variable_declaration list \<Rightarrow> variable_declaration \<Rightarrow> expr \<Rightarrow> qmodule result" where
  "add_function m name params res body =
     (if type_index m name \<noteq> None then Inl (Duplicate_symbol_error name)
      else if function_index m name \<noteq> None then Inl (Duplicate_symbol_error name)
      else Inr (m\<lparr>function_index := (function_index m)
                  (name \<mapsto> make_function (mod_address m) name params res body)\<rparr>))"

definition add_type :: "qmodule \<Rightarrow> struct_type \<Rightarrow> qmodule result" where
  "add_type m t =
     (if function_index m (struct_id t) \<noteq> None then Inl (Duplicate_symbol_error (struct_id t))
      else if type_index m (struct_id t) \<noteq> None then Inl (Duplicate_symbol_error (struct_id t))
      else Inr (m\<lparr>type_index := (type_index m)(struct_id t \<mapsto> t)\<rparr>))"

fun add_types :: "qmodule \<Rightarrow> struct_type list \<Rightarrow> qmodule result" where
  "add_types m [] = Inr m"
| "add_types m (t # ts) = rbind (add_type m t) (\<lambda>m'. add_types m' ts)"

definition module_functions :: "string list \<Rightarrow> qmodule \<Rightarrow> qfunction list" where
  "module_functions fs m = map snd (entries fs (function_index m))"

definition module_types :: "string list \<Rightarrow> qmodule \<Rightarrow> struct_type list" where
  "module_types ts m = map snd (entries ts (type_index m))"

fun copy_functions :: "(expr \<Rightarrow> expr result) \<Rightarrow> qmodule \<Rightarrow> qfunction list \<Rightarrow> qmodule result" where
  "copy_functions pass m [] = Inr m"
| "copy_functions pass m (f # fs) =
     rbind (pass (fn_body f)) (\<lambda>body.
     rbind (add_function m (fn_name f) (fn_params f) (fn_result f) body) (\<lambda>m'.
       copy_functions pass m' fs))"

definition clone_module :: "nat \<Rightarrow> string list \<Rightarrow> string list \<Rightarrow> qmodule \<Rightarrow> qmodule result" where
  "clone_module a fs ts other =
     rbind (copy_functions Inr (new_module a (mod_id other)) (module_functions fs other)) (\<lambda>new_module.
       add_types new_module (module_types ts other))"

definition make_implicit_conversions_explicit_module ::
  "nat \<Rightarrow> nat \<Rightarrow> string list \<Rightarrow> string list \<Rightarrow> qmodule \<Rightarrow> qmodule result" where
  "make_implicit_conversions_explicit_module n a fs ts m =
     rbind (add_types (new_module a (mod_id m)) (module_types ts m)) (\<lambda>optimized_module.
       copy_functions (make_implicit_conversions_explicit n) optimized_module (module_functions fs m))"

text \<open>\<open>load\<close> move-assigns the parsed module: the functions keep their pointer to the module they
  were parsed into.\<close>

definition move_assign :: "qmodule \<Rightarrow> qmodule \<Rightarrow> qmodule" where
  "move_assign this other = other\<lparr>mod_address := mod_address this\<rparr>"

definition load_module :: "(string \<Rightarrow> qmodule result) \<Rightarrow> qmodule \<Rightarrow> string \<Rightarrow> qmodule result" where
  "load_module parse_qir this code = rbind (parse_qir code) (\<lambda>parsed_code. Inr (move_assign this parsed_code))"

subsection \<open>The invariant and the registry contract\<close>

definition module_inv :: "qmodule \<Rightarrow> bool" where
  "module_inv m \<longleftrightarrow>
     (\<forall>n. function_index m n = None \<or> type_index m n = None) \<and>
     (\<forall>n f. function_index m n = Some f \<longrightarrow> fn_name f = n \<and> containing_module f = mod_address m) \<and>
     (\<forall>n t. type_index m n = Some t \<longrightarrow> struct_id t = n)"

definition free_symbol :: "qmodule \<Rightarrow> string \<Rightarrow> bool" where
  "free_symbol m n \<longleftrightarrow> function_index m n = None \<and> type_index m n = None"

definition function_view :: "qmodule \<Rightarrow> string \<Rightarrow>
    (variable_declaration list \<times> variable_declaration \<times> expr) option" where
  "function_view m n = map_option (\<lambda>f. (fn_params f, fn_result f, fn_body f)) (function_index m n)"

lemma module_inv_new [simp]: "module_inv (new_module a i)"
  by (simp add: module_inv_def new_module_def)

lemma new_module_free [simp]: "free_symbol (new_module a i) n" "function_index (new_module a i) = (\<lambda>n. None)"
  "type_index (new_module a i) = (\<lambda>n. None)" "mod_id (new_module a i) = i"
  by (simp_all add: free_symbol_def new_module_def)

lemma module_inv_disjoint:
  "module_inv m \<Longrightarrow> function_index m n = Some f \<Longrightarrow> type_index m n = None"
  "module_inv m \<Longrightarrow> type_index m n = Some t \<Longrightarrow> function_index m n = None"
  by (metis module_inv_def option.distinct(1))+

lemma module_inv_names:
  "module_inv m \<Longrightarrow> function_index m n = Some f \<Longrightarrow> fn_name f = n \<and> containing_module f = mod_address m"
  "module_inv m \<Longrightarrow> type_index m n = Some t \<Longrightarrow> struct_id t = n"
  by (simp_all add: module_inv_def)

lemma module_invI:
  "(\<And>n f t. function_index m n = Some f \<Longrightarrow> type_index m n = Some t \<Longrightarrow> False) \<Longrightarrow>
   (\<And>n f. function_index m n = Some f \<Longrightarrow> fn_name f = n \<and> containing_module f = mod_address m) \<Longrightarrow>
   (\<And>n t. type_index m n = Some t \<Longrightarrow> struct_id t = n) \<Longrightarrow> module_inv m"
  unfolding module_inv_def by (meson option.exhaust)

lemma insert_function_inv [intro]:
  assumes "module_inv m" and "type_index m n = None"
  shows "module_inv (m\<lparr>function_index := (function_index m)(n \<mapsto> make_function (mod_address m) n ps r b)\<rparr>)"
  using module_inv_disjoint [OF assms(1)] module_inv_names [OF assms(1)] assms(2)
  by (intro module_invI) (auto simp: make_function_def split: if_splits)

lemma insert_type_inv [intro]:
  assumes "module_inv m" and "function_index m (struct_id t) = None"
  shows "module_inv (m\<lparr>type_index := (type_index m)(struct_id t \<mapsto> t)\<rparr>)"
  using module_inv_disjoint [OF assms(1)] module_inv_names [OF assms(1)] assms(2)
  by (intro module_invI) (auto split: if_splits)

lemma add_function_inv: "module_inv m \<Longrightarrow> add_function m n ps r b = Inr m' \<Longrightarrow> module_inv m'"
  by (auto simp: add_function_def simp del: not_None_eq split: if_splits)

lemma add_type_inv: "module_inv m \<Longrightarrow> add_type m t = Inr m' \<Longrightarrow> module_inv m'"
  by (auto simp: add_type_def simp del: not_None_eq split: if_splits)

interpretation function_registry: registry
  "\<lambda>m n (ps, r, b). add_function m n ps r b" function_view free_symbol module_inv
proof (unfold_locales, goal_cases)
  case (2 s k v s')
  then show ?case by (cases v) (auto intro: add_function_inv)
qed (auto simp: add_function_def make_function_def function_view_def free_symbol_def split: if_splits)

interpretation type_registry: registry
  "\<lambda>m n ms. add_type m (Struct n ms)" "\<lambda>m n. map_option struct_members (type_index m n)" free_symbol module_inv
proof (unfold_locales, goal_cases)
  case (2 s k v s')
  then show ?case by (rule add_type_inv)
qed (auto simp: add_type_def free_symbol_def split: if_splits)

lemma add_types_eq: "add_types m ts = add_all (\<lambda>m n ms. add_type m (Struct n ms)) m
    (map (\<lambda>t. (struct_id t, struct_members t)) ts)"
  by (induction ts arbitrary: m) auto

lemma copy_functions_eq:
  "\<forall>f \<in> set fs. pass (fn_body f) = Inr (b f) \<Longrightarrow>
     copy_functions pass m fs =
     add_all (\<lambda>m n (ps, r, b). add_function m n ps r b) m
       (map (\<lambda>f. (fn_name f, fn_params f, fn_result f, b f)) fs)"
  by (induction fs arbitrary: m) auto

lemma map_of_iterated:
  assumes "iteration_order ks m"
  shows "map_of (map (\<lambda>k. (k, F (the (m k)))) ks) n = map_option F (m n)"
proof (cases "n \<in> set ks")
  case True
  then have "m n \<noteq> None" using assms by (auto simp: iteration_order_def)
  with True show ?thesis by (auto simp: map_of_map_restrict restrict_map_def)
next
  case False
  then have "m n = None" using assms by (auto simp: iteration_order_def)
  with False show ?thesis by (simp add: map_of_map_restrict restrict_map_def)
qed

lemma add_types_keeps:
  "add_types m ts = Inr m' \<Longrightarrow> function_index m' = function_index m \<and> mod_id m' = mod_id m \<and>
     mod_address m' = mod_address m"
  by (induction ts arbitrary: m) (auto simp: rbind_Inr_iff add_type_def split: if_splits)

lemma copy_functions_keeps:
  "copy_functions pass m fs = Inr m' \<Longrightarrow> type_index m' = type_index m \<and> mod_id m' = mod_id m \<and>
     mod_address m' = mod_address m"
  by (induction fs arbitrary: m) (auto simp: rbind_Inr_iff add_function_def split: if_splits)

text \<open>The symbol tables of a module: a function can be added iff neither a function nor a type has its
  name; then lookup finds exactly it, all other lookups are as before, and the invariant holds.\<close>
lemma add_function_correct:
  assumes "module_inv m"
  shows "((\<exists>m'. add_function m n ps r b = Inr m') \<longleftrightarrow> free_symbol m n) \<and>
    (\<forall>m'. add_function m n ps r b = Inr m' \<longrightarrow> module_inv m' \<and>
       lookup_function m' n = Inr (make_function (mod_address m) n ps r b) \<and>
       (\<forall>k. k \<noteq> n \<longrightarrow> lookup_function m' k = lookup_function m k) \<and>
       (\<forall>ps' r' b'. add_function m' n ps' r' b' = Inl (Duplicate_symbol_error n)))"
  using function_registry.add_iff [OF assms, of n "(ps, r, b)"]
    function_registry.add_inv [OF assms, of n "(ps, r, b)"]
  by (auto simp: add_function_def lookup_function_def split: if_splits)

lemma add_function_correct_example:
  "\<exists>m'. add_function (new_module 1 [''M'']) ''f'' []
     \<lparr>var_id = 2, var_name = ''r'', var_type = Integer_t\<rparr> (Integer_literal_expr 0) = Inr m' \<and> module_inv m'"
  using add_function_correct [of "new_module 1 [''M'']" "''f''" "[]"
      "\<lparr>var_id = 2, var_name = ''r'', var_type = Integer_t\<rparr>" "Integer_literal_expr 0"]
  by auto

lemma copied_functions:
  assumes inv: "module_inv m" and fs: "iteration_order fs (function_index m)" and inv': "module_inv m'"
    and free: "\<forall>n \<in> set fs. free_symbol m' n" and none: "function_index m' = (\<lambda>n. None)"
    and pass: "\<forall>n f. function_index m n = Some f \<longrightarrow> pass (fn_body f) = Inr (b (fn_body f))"
  shows "\<exists>m''. copy_functions pass m' (module_functions fs m) = Inr m'' \<and> module_inv m'' \<and>
    (\<forall>n. function_view m'' n = map_option (\<lambda>(ps, r, e). (ps, r, b e)) (function_view m n)) \<and>
    (\<forall>n. free_symbol m'' n = (free_symbol m' n \<and> n \<notin> set fs))"
proof -
  let ?F = "\<lambda>f. (fn_params f, fn_result f, b (fn_body f))"
  have dom: "set fs = dom (function_index m)" using fs by (simp add: iteration_order_def)
  have kvs: "map (\<lambda>f. (fn_name f, ?F f)) (module_functions fs m) = map (\<lambda>k. (k, ?F (the (function_index m k)))) fs"
    using inv dom by (auto simp: module_functions_def entries_def module_inv_def)
  have "\<forall>f \<in> set (module_functions fs m). pass (fn_body f) = Inr (b (fn_body f))"
    using pass dom by (auto simp: module_functions_def entries_def)
  note eq = copy_functions_eq [OF this, of m', unfolded kvs]
  have "distinct (map fst (map (\<lambda>k. (k, ?F (the (function_index m k)))) fs))"
    using fs by (simp add: iteration_order_def comp_def)
  from function_registry.add_all_total [OF inv' this] free obtain m'' where
    m'': "copy_functions pass m' (module_functions fs m) = Inr m''" "module_inv m''"
      "\<forall>n. function_view m'' n = (case map_option ?F (function_index m n) of Some v \<Rightarrow> Some v
         | None \<Rightarrow> function_view m' n)"
      "\<forall>n. free_symbol m'' n = (free_symbol m' n \<and> n \<notin> set fs)"
    using map_of_iterated [OF fs, of ?F] unfolding eq by (auto simp: comp_def)
  then show ?thesis
    using none by (auto simp: function_view_def split: option.splits)
qed

lemma copied_types:
  assumes inv: "module_inv m" and ts: "iteration_order ts (type_index m)" and inv': "module_inv m'"
    and free: "\<forall>n \<in> set ts. free_symbol m' n" and none: "type_index m' = (\<lambda>n. None)"
  shows "\<exists>m''. add_types m' (module_types ts m) = Inr m'' \<and> module_inv m'' \<and> type_index m'' = type_index m \<and>
    (\<forall>n. free_symbol m'' n = (free_symbol m' n \<and> n \<notin> set ts))"
proof -
  have dom: "set ts = dom (type_index m)" using ts by (simp add: iteration_order_def)
  have kvs: "map (\<lambda>t. (struct_id t, struct_members t)) (module_types ts m) = map (\<lambda>k. (k, struct_members (the (type_index m k)))) ts"
    using inv dom by (auto simp: module_types_def entries_def module_inv_def)
  have "distinct (map fst (map (\<lambda>k. (k, struct_members (the (type_index m k)))) ts))"
    using ts by (simp add: iteration_order_def comp_def)
  from type_registry.add_all_total [OF inv' this] free obtain m'' where
    m'': "add_types m' (module_types ts m) = Inr m''" "module_inv m''"
      "\<forall>n. map_option struct_members (type_index m'' n) = (case map_option struct_members (type_index m n) of Some v \<Rightarrow> Some v
         | None \<Rightarrow> map_option struct_members (type_index m' n))"
      "\<forall>n. free_symbol m'' n = (free_symbol m' n \<and> n \<notin> set ts)"
    using map_of_iterated [OF ts, of struct_members] unfolding add_types_eq kvs by (auto simp: comp_def)
  have "type_index m'' n = type_index m n" for n
    using m''(2,3) inv none unfolding module_inv_def
    by (cases "type_index m n"; cases "type_index m'' n") (auto intro: struct_type.expand dest!: spec [of _ n])
  with m'' show ?thesis by blast
qed

text \<open>Two modules with the same contents, at different addresses.\<close>

definition same_contents :: "qmodule \<Rightarrow> qmodule \<Rightarrow> bool" where
  "same_contents m m' \<longleftrightarrow> mod_id m' = mod_id m \<and> type_index m' = type_index m \<and>
     (\<forall>n. function_view m' n = function_view m n)"

lemma clone_module_total:
  assumes "module_inv m" "iteration_order fs (function_index m)" "iteration_order ts (type_index m)"
  shows "\<exists>m'. clone_module a fs ts m = Inr m' \<and> module_inv m' \<and> same_contents m m'"
proof -
  obtain m1 where m1: "copy_functions Inr (new_module a (mod_id m)) (module_functions fs m) = Inr m1"
    "module_inv m1" "\<forall>n. function_view m1 n = map_option (\<lambda>(ps, r, e). (ps, r, id e)) (function_view m n)"
    "\<forall>n. free_symbol m1 n = (n \<notin> set fs)"
    using copied_functions [OF assms(1,2), of "new_module a (mod_id m)" Inr id] by auto
  note k1 = copy_functions_keeps [OF m1(1)]
  have "\<forall>n. function_index m n = None \<or> type_index m n = None" using assms(1) by (simp add: module_inv_def)
  then have "\<forall>n \<in> set ts. free_symbol m1 n"
    using m1(4) assms(2,3) unfolding iteration_order_def by (metis domIff)
  with copied_types [OF assms(1,3) m1(2)] k1 obtain m2 where
    m2: "add_types m1 (module_types ts m) = Inr m2" "module_inv m2" "type_index m2 = type_index m" by auto
  note k2 = add_types_keeps [OF m2(1)]
  have "function_view m2 n = function_view m n" for n
    using m1(3) k2 by (cases "function_view m n") (auto simp: function_view_def)
  with m1 m2 k1 k2 show ?thesis by (simp add: clone_module_def same_contents_def)
qed

text \<open>C12. Cloning a module never fails and gives a module with the same id, types and functions, in whatever
  order the hash tables are iterated.\<close>
theorem clone_module_correct:
  assumes "module_inv m" "iteration_order fs (function_index m)" "iteration_order ts (type_index m)"
  shows "\<exists>m'. clone_module a fs ts m = Inr m' \<and> module_inv m' \<and> same_contents m m'"
  by (rule clone_module_total [OF assms])

theorem clone_module_correct_witness:
  "\<exists>m'. clone_module 5 [] [''T''] ((new_module 1 [''M''])\<lparr>type_index := [''T'' \<mapsto> Struct ''T'' []]\<rparr>) = Inr m' \<and>
     type_index m' ''T'' = Some (Struct ''T'' [])"
proof -
  let ?m = "(new_module 1 [''M''])\<lparr>type_index := [''T'' \<mapsto> Struct ''T'' []]\<rparr>"
  have "module_inv ?m" by (auto simp: module_inv_def split: if_splits)
  then have "\<exists>m'. clone_module 5 [] [''T''] ?m = Inr m' \<and> module_inv m' \<and> same_contents ?m m'"
    by (rule clone_module_correct) (simp_all add: iteration_order_def)
  then show ?thesis by (auto simp: same_contents_def)
qed

text \<open>A module read back by \<open>load\<close> has the contents of the parsed module, but every function in it still
  points to the module it was parsed into, which no longer exists.\<close>
lemma load_module_dangling:
  assumes "parse code = Inr p" and "module_inv p" and "mod_address p \<noteq> mod_address this"
  shows "\<exists>m. load_module parse this code = Inr m \<and> same_contents p m \<and>
    (\<forall>n f. function_index m n = Some f \<longrightarrow> containing_module f = mod_address p \<and>
       containing_module f \<noteq> mod_address m)"
  using assms
  by (auto simp: load_module_def move_assign_def same_contents_def function_view_def module_inv_def)

lemma load_module_dangling_example:
  "\<exists>m. load_module (\<lambda>c. Inr (new_module 9 [''M''])) (new_module 4 []) ''module M'' = Inr m \<and> mod_id m = [''M'']"
proof -
  have "mod_address (new_module 9 [''M'']) \<noteq> mod_address (new_module 4 [])" by (simp add: new_module_def)
  from load_module_dangling [of "\<lambda>c. Inr (new_module 9 [''M''])" "''module M''", OF refl module_inv_new this]
  show ?thesis by (auto simp: same_contents_def)
qed

section \<open>The conversion pass on modules\<close>

text \<open>Run on a module, the conversion pass keeps the id, the types and the signatures of the functions,
  and each body is explicit and has the type it had.\<close>
lemma conversion_pass_module:
  assumes "module_inv m" "iteration_order fs (function_index m)" "iteration_order ts (type_index m)"
    and "\<forall>k f. function_index m k = Some f \<longrightarrow>
      wf_expr (fn_body f) \<and> everywhere operator_typed (fn_body f) \<and> 2 * size (fn_body f) < n"
  shows "\<exists>m'. make_implicit_conversions_explicit_module n a fs ts m = Inr m' \<and> module_inv m' \<and>
    mod_id m' = mod_id m \<and> type_index m' = type_index m \<and>
    (\<forall>k f. function_index m k = Some f \<longrightarrow> (\<exists>e. function_view m' k = Some (fn_params f, fn_result f, e) \<and>
       infer_type e = infer_type (fn_body f) \<and> everywhere operands_explicit e))"
proof -
  define b where "b e = projr (substitute n conv_match e)" for e
  have body: "substitute n conv_match (fn_body f) = Inr (b (fn_body f)) \<and> converted (fn_body f) (b (fn_body f))"
    if "function_index m k = Some f" for k f
    using conversion_aux [of "fn_body f" n] assms(4) that by (auto simp: b_def)
  obtain m1 where m1: "add_types (new_module a (mod_id m)) (module_types ts m) = Inr m1" "module_inv m1"
    "type_index m1 = type_index m" "\<forall>n. free_symbol m1 n = (n \<notin> set ts)"
    using copied_types [OF assms(1,3), of "new_module a (mod_id m)"] by auto
  note k1 = add_types_keeps [OF m1(1)]
  have "\<forall>n. function_index m n = None \<or> type_index m n = None" using assms(1) by (simp add: module_inv_def)
  then have "\<forall>n \<in> set fs. free_symbol m1 n"
    using m1(4) assms(2,3) unfolding iteration_order_def by (metis domIff)
  with copied_functions [OF assms(1,2) m1(2), of "make_implicit_conversions_explicit n" b] k1 body obtain m2 where
    m2: "copy_functions (make_implicit_conversions_explicit n) m1 (module_functions fs m) = Inr m2" "module_inv m2"
      "\<forall>k. function_view m2 k = map_option (\<lambda>(ps, r, e). (ps, r, b e)) (function_view m k)"
    by (auto simp: make_implicit_conversions_explicit_def)
  note k2 = copy_functions_keeps [OF m2(1)]
  have "\<exists>e. function_view m2 k = Some (fn_params f, fn_result f, e) \<and>
      infer_type e = infer_type (fn_body f) \<and> everywhere operands_explicit e"
    if "function_index m k = Some f" for k f
    using m2(3) body [OF that] that by (simp add: function_view_def converted_def)
  with m1 m2 k1 k2 show ?thesis by (auto simp: make_implicit_conversions_explicit_module_def)
qed

lemma conversion_pass_module_example:
  "\<exists>m'. make_implicit_conversions_explicit_module 5 1 [] [] (new_module 0 [''M'']) = Inr m' \<and> mod_id m' = [''M'']"
  using conversion_pass_module [of "new_module 0 [''M'']" "[]" "[]" 5 1] by (auto simp: iteration_order_def)

section \<open>The module library\<close>

type_synonym module_library = "symbol_id \<rightharpoonup> qmodule"

definition library_add :: "module_library \<Rightarrow> qmodule \<Rightarrow> module_library result" where
  "library_add module_index m =
     (if module_index (mod_id m) \<noteq> None then Inl (Duplicate_module_error (symbol_string (mod_id m)))
      else Inr (module_index(mod_id m \<mapsto> m)))"

definition library_lookup :: "module_library \<Rightarrow> nat \<Rightarrow> string list \<Rightarrow> string list \<Rightarrow> symbol_id \<Rightarrow> qmodule result" where
  "library_lookup module_index a fs ts i =
     (case module_index i of
        Some m \<Rightarrow> clone_module a fs ts m
      | None \<Rightarrow> Inl (Missing_module_error (symbol_string i)))"

interpretation library_registry: registry
  "\<lambda>l i (a, fi, ti). library_add l \<lparr>mod_address = a, mod_id = i, function_index = fi, type_index = ti\<rparr>"
  "\<lambda>l i. map_option (\<lambda>m. (mod_address m, function_index m, type_index m)) (l i)" "\<lambda>l i. l i = None" "\<lambda>l. True"
  by unfold_locales (auto simp: library_add_def split: if_splits)

text \<open>The module library: a module added under a new id is found under it, as a module with the same
  contents; other ids are answered as before, and the id cannot be added a second time.\<close>
lemma library_lookup_after_add:
  assumes "library_add l m = Inr l'" and "module_inv m"
    and "iteration_order fs (function_index m)" "iteration_order ts (type_index m)"
  shows "(\<exists>c. library_lookup l' a fs ts (mod_id m) = Inr c \<and> module_inv c \<and> same_contents m c) \<and>
    (\<forall>i. i \<noteq> mod_id m \<longrightarrow> library_lookup l' a fs ts i = library_lookup l a fs ts i) \<and>
    (\<forall>m'. mod_id m' = mod_id m \<longrightarrow> (\<exists>e. library_add l' m' = Inl e))"
  using assms(1) clone_module_total [OF assms(2-4), of a]
  by (auto simp: library_add_def library_lookup_def split: if_splits)

lemma library_lookup_after_add_example:
  "\<exists>l' c. library_add (\<lambda>i. None) (new_module 3 [''M'']) = Inr l' \<and>
     library_lookup l' 4 [] [] [''M''] = Inr c \<and> mod_id c = [''M'']"
proof -
  have added: "library_add (\<lambda>i. None) (new_module 3 [''M'']) = Inr [[''M''] \<mapsto> new_module 3 [''M'']]"
    by (simp add: library_add_def)
  from library_lookup_after_add [OF this, of "[]" "[]" 4] show ?thesis
    by (auto simp: added iteration_order_def same_contents_def)
qed

end
