(* ===== verification/AxiomAnalysis.thy ===== *)
theory AxiomAnalysis
  imports Cursor ConstantFolding Substitution
begin

text \<open>
  The axiom analysis (\<open>qubus/src/axiom_analysis.cpp\<close>): the scopes of an expression carry what
  is known to hold in them, the range and stride of the enclosing loops and the conditions of the
  enclosing branches.  A node's address is its path from the root; a scope's address is its path in the
  tree of scopes.  The soundness theorem is about runs described by the relation \<open>reaches\<close>.
\<close>

section \<open>The tree of scopes\<close>

datatype axiom_scope =
  Axiom_scope (scope_context: "nat list") (scope_axioms: "expr list") (subscopes: "axiom_scope list")

definition lower_bound_axiom :: "variable_declaration \<Rightarrow> expr \<Rightarrow> expr" where
  "lower_bound_axiom idx l = Binary_operator_expr Greater_equal (Variable_ref_expr idx) l"

definition upper_bound_axiom :: "variable_declaration \<Rightarrow> expr \<Rightarrow> expr \<Rightarrow> expr \<Rightarrow> expr result" where
  "upper_bound_axiom idx l u inc =
     (case inc of
        Integer_literal_expr value \<Rightarrow>
          if value = 1 then Inr (Binary_operator_expr Less (Variable_ref_expr idx) u)
          else
            let bound = Binary_operator_expr Minus u
                  (Binary_operator_expr Modulus
                    (Binary_operator_expr Minus (Binary_operator_expr Minus u l) (Integer_literal_expr 1)) inc)
            in rbind (fold_constant_expressions bound) (\<lambda>b.
                 Inr (Binary_operator_expr Less (Variable_ref_expr idx) b))
      | _ \<Rightarrow> Inr (Binary_operator_expr Less (Variable_ref_expr idx) u))"

definition stride_axiom :: "variable_declaration \<Rightarrow> expr \<Rightarrow> expr \<Rightarrow> expr" where
  "stride_axiom idx l inc =
     Binary_operator_expr Equal_to
       (Binary_operator_expr Modulus (Binary_operator_expr Minus (Variable_ref_expr idx) l) inc)
       (Integer_literal_expr 0)"

definition non_empty_axiom :: "expr \<Rightarrow> expr \<Rightarrow> expr" where
  "non_empty_axiom l u = Binary_operator_expr Less l u"

definition body_axioms :: "variable_declaration \<Rightarrow> expr \<Rightarrow> expr \<Rightarrow> expr \<Rightarrow> expr list result" where
  "body_axioms idx l u inc =
     rbind (upper_bound_axiom idx l u inc) (\<lambda>upper.
       Inr [lower_bound_axiom idx l, upper, stride_axiom idx l inc, non_empty_axiom l u])"

text \<open>The axioms of each sub-expression's scope; \<open>ctx\<close> has no parent here, so its own axioms come
  from outside.\<close>

definition child_axioms :: "expr \<Rightarrow> expr list list result" where
  "child_axioms ctx =
     (case ctx of
        For_expr ord idx l u inc b \<Rightarrow> rbind (body_axioms idx l u inc) (\<lambda>body. Inr [[], [], [], body])
      | If_expr condition then_branch else_branch \<Rightarrow>
          Inr ([[], [condition]] @
            (case else_branch of
               Some e \<Rightarrow> [[Unary_operator_expr Logical_not condition]]
             | None \<Rightarrow> []))
      | _ \<Rightarrow> Inr (replicate (arity ctx) []))"

function generate_axiom_scope_tree :: "nat list \<Rightarrow> expr \<Rightarrow> expr list \<Rightarrow> axiom_scope result" where
  "generate_axiom_scope_tree p ctx axioms =
     rbind (child_axioms ctx) (\<lambda>axs.
     rbind (traverse (\<lambda>i. generate_axiom_scope_tree (p @ [child_position ctx i]) (children ctx ! i) (axs ! i))
              [0..<arity ctx]) (\<lambda>scopes.
       Inr (Axiom_scope p axioms scopes)))"
  by pat_completeness auto
termination
  by (relation "measure (\<lambda>(p, e, a). size e)") (auto intro: children_smaller)

declare generate_axiom_scope_tree.simps [simp del]

section \<open>The index and the query\<close>

text \<open>The constructor of the result walks the tree with a stack; an entry of the stack is a scope
  with its address.  \<open>emplace\<close> keeps the first scope of a context.\<close>

definition numbered :: "nat list \<Rightarrow> axiom_scope list \<Rightarrow> (nat list \<times> axiom_scope) list" where
  "numbered pos ss = map (\<lambda>i. (pos @ [i], ss ! i)) [0..<length ss]"

definition stack_size :: "(nat list \<times> axiom_scope) list \<Rightarrow> nat" where
  "stack_size st = sum_list (map (\<lambda>(p, s). size s) st)"

lemma stack_size_simps [simp]:
  "stack_size [] = 0" "stack_size ((p, s) # st) = size s + stack_size st"
  "stack_size (xs @ ys) = stack_size xs + stack_size ys" "stack_size (rev xs) = stack_size xs"
  by (simp_all add: stack_size_def rev_map [symmetric])

lemma stack_size_numbered: "stack_size (numbered pos (subscopes s)) < size s"
proof -
  have le: "sum_list (map size ss) \<le> size_list size ss" for ss :: "axiom_scope list"
    by (induction ss) auto
  have "map (\<lambda>(p, s). size s) (numbered pos ss) = map size (map (\<lambda>i. ss ! i) [0..<length ss])" for ss
    by (simp add: numbered_def)
  then have "stack_size (numbered pos ss) = sum_list (map size ss)" for ss
    by (simp only: map_nth stack_size_def)
  with le [of "subscopes s"] show ?thesis by (cases s) simp
qed

function index_scopes ::
  "(nat list \<times> axiom_scope) list \<Rightarrow> (nat list \<rightharpoonup> nat list) \<Rightarrow> (nat list \<rightharpoonup> nat list)" where
  "index_scopes [] index = index"
| "index_scopes ((pos, scope) # unfinished) index =
     index_scopes (rev (numbered pos (subscopes scope)) @ unfinished)
       (if index (scope_context scope) = None then index(scope_context scope \<mapsto> pos) else index)"
  by pat_completeness auto
termination by (relation "measure (\<lambda>(st, ix). stack_size st)") (simp_all add: stack_size_numbered)

fun scope_at :: "axiom_scope \<Rightarrow> nat list \<Rightarrow> axiom_scope option" where
  "scope_at s [] = Some s"
| "scope_at s (i # p) = (if i < length (subscopes s) then scope_at (subscopes s ! i) p else None)"

text \<open>The query goes from the scope of the context to the root.\<close>

function climb_axioms :: "axiom_scope \<Rightarrow> nat list \<Rightarrow> expr list" where
  "climb_axioms root pos =
     (case scope_at root pos of Some s \<Rightarrow> scope_axioms s | None \<Rightarrow> []) @
     (if pos = [] then [] else climb_axioms root (butlast pos))"
  by pat_completeness auto
termination by (relation "measure (\<lambda>(r, p). length p)") auto

declare climb_axioms.simps [simp del]

definition get_valid_axioms :: "axiom_scope \<Rightarrow> nat list \<Rightarrow> expr list result" where
  "get_valid_axioms root ctx =
     (case index_scopes [([], root)] (\<lambda>c. None) ctx of
        None \<Rightarrow> Inl Assertion_failed
      | Some pos \<Rightarrow> Inr (climb_axioms root pos))"

definition axiom_analysis :: "expr \<Rightarrow> nat list \<Rightarrow> expr list result" where
  "axiom_analysis root ctx =
     rbind (generate_axiom_scope_tree [] root []) (\<lambda>scopes. get_valid_axioms scopes ctx)"

section \<open>What the scopes hold\<close>

lemma everywhereD: "everywhere P e \<Longrightarrow> P e" "everywhere P e \<Longrightarrow> i < arity e \<Longrightarrow> everywhere P (children e ! i)"
  using everywhere_iff [of P e] by auto

lemma length_child_axioms: "child_axioms e = Inr axs \<Longrightarrow> length axs = arity e"
  by (cases e) (auto simp: child_axioms_def body_axioms_def rbind_Inr_iff split: option.splits)

lemma generate_obtain:
  assumes "generate_axiom_scope_tree p e a = Inr s"
  obtains axs where "child_axioms e = Inr axs" "length axs = arity e"
    "scope_context s = p" "scope_axioms s = a" "length (subscopes s) = arity e"
    "\<And>i. i < arity e \<Longrightarrow> generate_axiom_scope_tree (p @ [child_position e i]) (children e ! i) (axs ! i)
       = Inr (subscopes s ! i)"
proof -
  from assms obtain axs ss where *: "child_axioms e = Inr axs" "s = Axiom_scope p a ss"
    "list_all2 (\<lambda>i s. generate_axiom_scope_tree (p @ [child_position e i]) (children e ! i) (axs ! i) = Inr s)
       [0..<arity e] ss"
    by (subst (asm) generate_axiom_scope_tree.simps) (auto simp: rbind_Inr_iff traverse_Inr_iff)
  show ?thesis
    by (rule that [of axs])
      (use * length_child_axioms in \<open>auto simp: list_all2_conv_all_nth dest: list_all2_lengthD\<close>)
qed

text \<open>The axioms along a path, from the root down.\<close>

fun axioms_along :: "axiom_scope \<Rightarrow> nat list \<Rightarrow> expr list" where
  "axioms_along s [] = scope_axioms s"
| "axioms_along s (i # p) = scope_axioms s @ (if i < length (subscopes s) then axioms_along (subscopes s ! i) p else [])"

lemma scope_at_append:
  "scope_at s (p @ q) = (case scope_at s p of None \<Rightarrow> None | Some t \<Rightarrow> scope_at t q)"
  by (induction p arbitrary: s) auto

lemma axioms_along_snoc:
  "scope_at s (p @ [i]) = Some t \<Longrightarrow> axioms_along s (p @ [i]) = axioms_along s p @ scope_axioms t"
  by (induction p arbitrary: s) (auto split: if_splits)

lemma climb_axioms_set: "scope_at s p \<noteq> None \<Longrightarrow> set (climb_axioms s p) = set (axioms_along s p)"
proof (induction p rule: rev_induct)
  case Nil
  then show ?case by (subst climb_axioms.simps) simp
next
  case (snoc i p)
  then obtain t where t: "scope_at s (p @ [i]) = Some t" by auto
  then have "scope_at s p \<noteq> None" by (auto simp: scope_at_append split: option.splits)
  with snoc.IH t show ?case
    by (subst climb_axioms.simps) (auto simp: axioms_along_snoc [OF t])
qed

text \<open>In a tree without constructor calls the context of a scope is its address, and the index
  finds every scope.\<close>

definition addressed :: "nat list \<times> axiom_scope \<Rightarrow> bool" where
  "addressed ps = (\<forall>q t. scope_at (snd ps) q = Some t \<longrightarrow> scope_context t = fst ps @ q)"

lemma addressed_step:
  assumes "addressed (pos, s)" and "pt \<in> set (numbered pos (subscopes s))"
  shows "addressed pt"
  unfolding addressed_def
proof (intro allI impI)
  obtain i where i: "i < length (subscopes s)" "pt = (pos @ [i], subscopes s ! i)"
    using assms(2) by (auto simp: numbered_def)
  fix q t assume "scope_at (snd pt) q = Some t"
  with i have "scope_at s (i # q) = Some t" by simp
  with assms(1) i show "scope_context t = fst pt @ q" by (fastforce simp: addressed_def)
qed

definition covers :: "(nat list \<times> axiom_scope) list \<Rightarrow> nat list \<Rightarrow> bool" where
  "covers st c \<longleftrightarrow> (\<exists>ps \<in> set st. \<exists>q. c = fst ps @ q \<and> scope_at (snd ps) q \<noteq> None)"

lemma covers_simps [simp]:
  "\<not> covers [] c"
  "covers (xs @ ys) c = (covers xs c \<or> covers ys c)" "covers (rev xs) c = covers xs c"
  by (auto simp: covers_def)

lemma covers_Cons: "covers (x # st) c \<longleftrightarrow> covers [x] c \<or> covers st c"
  by (auto simp: covers_def)

lemma covers_numbered: "covers [(pos, s)] c \<longleftrightarrow> c = pos \<or> covers (numbered pos (subscopes s)) c"
proof
  assume "covers [(pos, s)] c"
  then obtain q where q: "c = pos @ q" "scope_at s q \<noteq> None" by (auto simp: covers_def)
  show "c = pos \<or> covers (numbered pos (subscopes s)) c"
  proof (cases q)
    case (Cons i q')
    with q have "(pos @ [i], subscopes s ! i) \<in> set (numbered pos (subscopes s))"
      "c = (pos @ [i]) @ q'" "scope_at (subscopes s ! i) q' \<noteq> None"
      by (auto simp: numbered_def split: if_splits)
    then show ?thesis unfolding covers_def by force
  qed (use q in simp)
next
  assume "c = pos \<or> covers (numbered pos (subscopes s)) c"
  then show "covers [(pos, s)] c"
  proof
    assume "covers (numbered pos (subscopes s)) c"
    then obtain i q where "i < length (subscopes s)" "c = pos @ i # q" "scope_at (subscopes s ! i) q \<noteq> None"
      by (auto simp: covers_def numbered_def)
    then show ?thesis unfolding covers_def by (intro bexI [of _ "(pos, s)"] exI [of _ "i # q"]) simp_all
  qed (auto simp: covers_def intro: exI [of _ "[]"])
qed

lemma index_scopes_addressed:
  "\<forall>ps \<in> set st. addressed ps \<Longrightarrow> \<forall>c p. index c = Some p \<longrightarrow> p = c \<Longrightarrow>
     index_scopes st index c = (if index c \<noteq> None \<or> covers st c then Some c else None)"
proof (induction st index rule: index_scopes.induct)
  case (1 index)
  then show ?case by (cases "index c") auto
next
  case (2 pos s st index)
  let ?index = "if index (scope_context s) = None then index(scope_context s \<mapsto> pos) else index"
  have ctx: "scope_context s = pos"
    using "2.prems"(1) by (auto simp: addressed_def dest: spec [of _ "[]"])
  have "\<forall>ps \<in> set (rev (numbered pos (subscopes s)) @ st). addressed ps"
    using "2.prems"(1) addressed_step [of pos s] by auto
  moreover have "\<forall>c p. ?index c = Some p \<longrightarrow> p = c" using "2.prems"(2) ctx by auto
  ultimately have IH: "index_scopes (rev (numbered pos (subscopes s)) @ st) ?index c =
     (if ?index c \<noteq> None \<or> covers (rev (numbered pos (subscopes s)) @ st) c then Some c else None)"
    by (rule "2.IH")
  have "(?index c \<noteq> None) = (index c \<noteq> None \<or> c = pos)" using ctx by auto
  then have "(?index c \<noteq> None \<or> covers (rev (numbered pos (subscopes s)) @ st) c) =
      (index c \<noteq> None \<or> covers ((pos, s) # st) c)"
    using covers_numbered [of pos s c] covers_Cons [of "(pos, s)" st c] by (metis covers_simps(2,3))
  with IH show ?case by (simp only: index_scopes.simps)
qed

lemma generate_addressed:
  "everywhere (\<lambda>d. \<forall>t ps. d \<noteq> Construct_expr t ps) e \<Longrightarrow> generate_axiom_scope_tree p e a = Inr s \<Longrightarrow>
     scope_at s q = Some t \<Longrightarrow> scope_context t = p @ q"
proof (induction q arbitrary: e p a s)
  case Nil
  then show ?case by (auto elim: generate_obtain)
next
  case (Cons i q)
  obtain axs where g: "length (subscopes s) = arity e"
    "\<And>i. i < arity e \<Longrightarrow> generate_axiom_scope_tree (p @ [child_position e i]) (children e ! i) (axs ! i)
       = Inr (subscopes s ! i)"
    using Cons.prems(2) by (elim generate_obtain) blast
  have i: "i < arity e" "scope_at (subscopes s ! i) q = Some t"
    using Cons.prems(3) g(1) by (auto split: if_splits)
  have ev: "everywhere (\<lambda>d. \<forall>t ps. d \<noteq> Construct_expr t ps) (children e ! i)"
    "\<forall>t ps. e \<noteq> Construct_expr t ps"
    using everywhereD [OF Cons.prems(1)] i(1) by (simp_all del: not_ex)
  then have "child_position e i = i" by (cases e) auto
  with Cons.IH [OF ev(1) g(2) [OF i(1)] i(2)] show ?case by simp
qed

section \<open>Soundness\<close>

text \<open>Conditions over integers, evaluated like \<open>eval_int\<close>.\<close>

fun eval_bool :: "(nat \<Rightarrow> int) \<Rightarrow> expr \<Rightarrow> bool result" where
  "eval_bool env (Bool_literal_expr b) = Inr b"
| "eval_bool env (Unary_operator_expr t a) =
     (if t = Logical_not then rbind (eval_bool env a) (\<lambda>x. Inr (\<not> x)) else Inl No_case_applicable)"
| "eval_bool env (Binary_operator_expr t l r) =
     (if t = Logical_and then rbind (eval_bool env l) (\<lambda>a. rbind (eval_bool env r) (\<lambda>b. Inr (a \<and> b)))
      else if t = Logical_or then rbind (eval_bool env l) (\<lambda>a. rbind (eval_bool env r) (\<lambda>b. Inr (a \<or> b)))
      else rbind (eval_int env l) (\<lambda>a. rbind (eval_int env r) (\<lambda>b.
        case t of Equal_to \<Rightarrow> Inr (a = b) | Not_equal_to \<Rightarrow> Inr (a \<noteq> b) | Less \<Rightarrow> Inr (a < b)
          | Greater \<Rightarrow> Inr (a > b) | Less_equal \<Rightarrow> Inr (a \<le> b) | Greater_equal \<Rightarrow> Inr (a \<ge> b)
          | _ \<Rightarrow> Inl No_case_applicable)))"
| "eval_bool env _ = Inl No_case_applicable"

fun expr_vars :: "expr \<Rightarrow> nat set" where
  "expr_vars (Variable_ref_expr v) = {var_id v}"
| "expr_vars (Binary_operator_expr t l r) = expr_vars l \<union> expr_vars r"
| "expr_vars (Unary_operator_expr t a) = expr_vars a"
| "expr_vars _ = {}"

lemma eval_int_cong: "\<forall>x \<in> expr_vars e. env x = env' x \<Longrightarrow> eval_int env e = eval_int env' e"
  by (induction e) (auto simp: ball_Un)

lemma eval_bool_cong: "\<forall>x \<in> expr_vars e. env x = env' x \<Longrightarrow> eval_bool env e = eval_bool env' e"
  by (induction e) (auto simp: ball_Un eval_int_cong [of _ env env'])

text \<open>\<open>reaches env U e p env'\<close>: a run of \<open>e\<close> in the environment \<open>env\<close> gets to the node at
  \<open>p\<close> with the environment \<open>env'\<close>.  A loop body runs with the loop index at
  \<open>lower + k * increment\<close>, below the upper bound; a branch runs if its condition allows it.
  \<open>U\<close> holds the variables that enclosing bounds and conditions mention, which no inner loop may
  reuse as its index.\<close>

inductive reaches :: "(nat \<Rightarrow> int) \<Rightarrow> nat set \<Rightarrow> expr \<Rightarrow> nat list \<Rightarrow> (nat \<Rightarrow> int) \<Rightarrow> bool" where
  here: "reaches env U e [] env"
| loop_body: "eval_int env l = Inr lv \<Longrightarrow> eval_int env u = Inr uv \<Longrightarrow> eval_int env inc = Inr s \<Longrightarrow>
    0 < s \<Longrightarrow> x = lv + int k * s \<Longrightarrow> x < uv \<Longrightarrow> in_i64 lv \<Longrightarrow> in_i64 uv \<Longrightarrow> in_i64 (uv - lv) \<Longrightarrow>
    U' = U \<union> expr_vars l \<union> expr_vars u \<union> expr_vars inc \<Longrightarrow> var_id v \<notin> U' \<Longrightarrow>
    reaches (env(var_id v := x)) (insert (var_id v) U') b p env' \<Longrightarrow>
    reaches env U (For_expr ord v l u inc b) (3 # p) env'"
| then_branch: "eval_bool env c = Inr True \<Longrightarrow> reaches env (U \<union> expr_vars c) t p env' \<Longrightarrow>
    reaches env U (If_expr c t e) (1 # p) env'"
| else_branch: "eval_bool env c = Inr False \<Longrightarrow> reaches env (U \<union> expr_vars c) e p env' \<Longrightarrow>
    reaches env U (If_expr c t (Some e)) (2 # p) env'"
| other: "i < arity e \<Longrightarrow> (\<forall>ord v l u inc b. e = For_expr ord v l u inc b \<longrightarrow> i \<noteq> 3) \<Longrightarrow>
    (\<forall>c t b. e = If_expr c t b \<longrightarrow> i = 0) \<Longrightarrow> reaches env U (children e ! i) p env' \<Longrightarrow>
    reaches env U e (i # p) env'"

lemma loop_bound:
  assumes "(0::int) < s" and "x = lv + int k * s" and "x < uv"
  shows "x < uv - (uv - lv - 1) mod s" "(x - lv) mod s = 0" "lv \<le> x"
    "0 \<le> (uv - lv - 1) mod s" "(uv - lv - 1) mod s \<le> uv - lv - 1"
proof -
  have k: "0 \<le> int k * s" using assms(1) by simp
  then show "lv \<le> x" using assms by simp
  have "int k \<le> (uv - lv - 1) div s"
    using zdiv_mono1 [of "int k * s" "uv - lv - 1" s] assms by simp
  hence "int k * s \<le> (uv - lv - 1) div s * s" using assms(1) by simp
  also have "\<dots> = (uv - lv - 1) - (uv - lv - 1) mod s" by (simp add: minus_mod_eq_div_mult)
  finally show "x < uv - (uv - lv - 1) mod s" using assms(2) by simp
  show "(x - lv) mod s = 0" using assms(2) by simp
  show "0 \<le> (uv - lv - 1) mod s" using assms(1) by simp
  have "0 \<le> uv - lv - 1" using assms(2,3) k by linarith
  then show "(uv - lv - 1) mod s \<le> uv - lv - 1" by (rule zmod_le_nonneg_dividend)
qed

lemma i64_mod_nonneg: "0 \<le> a \<Longrightarrow> in_i64 a \<Longrightarrow> 0 < s \<Longrightarrow> i64_mod a s = Inr (a mod s)"
proof -
  assume a: "0 \<le> a" "in_i64 a" "0 < s"
  have "a sdiv s = a div s"
    using a by (cases "a = 0") (simp_all add: signed_divide_int_def)
  moreover have "0 \<le> a div s" using a by (simp add: pos_imp_zdiv_nonneg_iff)
  moreover have "a div s \<le> a" using zdiv_mono2 [of a 1 s] a by simp
  ultimately show ?thesis using a by (auto simp: i64_mod_def smod_nonneg_int in_i64_def i64_min_def)
qed

lemma fold_same_class:
  assumes "fold_constant_expressions e = Inr e'"
  shows "\<exists>d. same_class e d \<and> (e' = d \<or> (\<exists>n. e' = Integer_literal_expr n))"
proof -
  obtain cs d where d: "list_all2 (\<lambda>c c'. fold_constant_expressions c = Inr c') (children e) cs"
    "substitute_subexpressions e cs = Inr d" "fold_impl d = Inr e'"
    by (rule fold_obtain [OF assms])
  then have "length cs = arity e" by (simp add: list_all2_lengthD [symmetric])
  with substitute_children [OF d(2)] fold_impl_cases [OF d(3)] show ?thesis by blast
qed

lemma fold_vars: "fold_constant_expressions e = Inr e' \<Longrightarrow> expr_vars e' \<subseteq> expr_vars e"
proof (induction e arbitrary: e')
  case (Binary_operator_expr t l r)
  then obtain l' r' where *: "fold_constant_expressions l = Inr l'" "fold_constant_expressions r = Inr r'"
    "fold_impl (Binary_operator_expr t l' r') = Inr e'"
    by (auto simp: fold_unfold [of "Binary_operator_expr t l r"] substitute_defs rbind_Inr_iff)
  from fold_impl_cases [OF *(3)] Binary_operator_expr.IH *(1,2) show ?case by fastforce
next
  case (Unary_operator_expr t a)
  then obtain a' where *: "fold_constant_expressions a = Inr a'"
    "fold_impl (Unary_operator_expr t a') = Inr e'"
    by (auto simp: fold_unfold [of "Unary_operator_expr t a"] substitute_defs rbind_Inr_iff)
  from fold_impl_cases [OF *(2)] Unary_operator_expr.IH *(1) show ?case by fastforce
next
  case (Variable_ref_expr v)
  then show ?case by (auto dest!: fold_same_class)
qed (drule fold_same_class, force)+

lemma reaches_keeps: "reaches env U e p env' \<Longrightarrow> y \<in> U \<Longrightarrow> env' y = env y"
  by (induction rule: reaches.induct) auto

definition loop_ok :: "expr \<Rightarrow> bool" where
  "loop_ok e = ((\<forall>t ps. e \<noteq> Construct_expr t ps) \<and>
     (\<forall>ord v l u inc b. e = For_expr ord v l u inc b \<longrightarrow> no_div_floor l \<and> no_div_floor u))"

definition valid_in :: "(nat \<Rightarrow> int) \<Rightarrow> nat set \<Rightarrow> expr \<Rightarrow> bool" where
  "valid_in env U x \<longleftrightarrow> eval_bool env x = Inr True \<and> expr_vars x \<subseteq> U"

lemma body_axioms_valid:
  assumes ax: "body_axioms v l u inc = Inr axs"
    and ev: "eval_int env l = Inr lv" "eval_int env u = Inr uv" "eval_int env inc = Inr s"
    and s: "0 < s" "x = lv + int k * s" "x < uv" and r: "in_i64 lv" "in_i64 uv" "in_i64 (uv - lv)"
    and U: "U' = U \<union> expr_vars l \<union> expr_vars u \<union> expr_vars inc" "var_id v \<notin> U'"
    and nd: "no_div_floor l" "no_div_floor u" and a: "a \<in> set axs"
  shows "valid_in (env(var_id v := x)) (insert (var_id v) U') a"
proof -
  let ?env = "env(var_id v := x)"
  have ev': "eval_int ?env l = Inr lv" "eval_int ?env u = Inr uv" "eval_int ?env inc = Inr s"
    using ev eval_int_cong [of l ?env env] eval_int_cong [of u ?env env] eval_int_cong [of inc ?env env] U by auto
  note lb = loop_bound [OF s]
  have ne: "lv < uv" using lb(3) s(3) by linarith
  have range: "in_i64 (uv - lv - 1)" "in_i64 (x - lv)" "0 \<le> uv - lv - 1" "0 \<le> x - lv"
    "in_i64 (uv - (uv - lv - 1) mod s)"
    using lb s(3) ne r unfolding in_i64_def i64_min_def i64_max_def by linarith+
  obtain up where up: "upper_bound_axiom v l u inc = Inr up"
    "axs = [lower_bound_axiom v l, up, stride_axiom v l inc, non_empty_axiom l u]"
    using ax by (auto simp: body_axioms_def rbind_Inr_iff)
  have "eval_bool ?env up = Inr True \<and> expr_vars up \<subseteq> insert (var_id v) U'"
  proof (cases "\<exists>n. inc = Integer_literal_expr n \<and> n \<noteq> 1")
    case True
    then obtain n where n: "inc = Integer_literal_expr n" "n \<noteq> 1" by blast
    let ?bound = "Binary_operator_expr Minus u (Binary_operator_expr Modulus
      (Binary_operator_expr Minus (Binary_operator_expr Minus u l) (Integer_literal_expr 1)) inc)"
    obtain b where b: "fold_constant_expressions ?bound = Inr b"
      "up = Binary_operator_expr Less (Variable_ref_expr v) b"
      using up(1) n by (auto simp: upper_bound_axiom_def Let_def rbind_Inr_iff)
    have "eval_int ?env ?bound = Inr (uv - (uv - lv - 1) mod s)"
      using ev' r range s(1) by (simp add: checked_i64_def i64_mod_nonneg)
    with fold_eval_aux [OF b(1)] nd n have "eval_int ?env b = Inr (uv - (uv - lv - 1) mod s)" by simp
    with b lb(1) fold_vars [OF b(1)] U show ?thesis by auto
  next
    case False
    with up(1) have "up = Binary_operator_expr Less (Variable_ref_expr v) u"
      by (auto simp: upper_bound_axiom_def split: expr.splits if_splits)
    with ev' s U show ?thesis by auto
  qed
  moreover have "eval_bool ?env (stride_axiom v l inc) = Inr True"
    using ev' range lb s(1) by (simp add: stride_axiom_def checked_i64_def i64_mod_nonneg)
  moreover have "eval_bool ?env (lower_bound_axiom v l) = Inr True" "eval_bool ?env (non_empty_axiom l u) = Inr True"
    using ev' lb s ne by (simp_all add: lower_bound_axiom_def non_empty_axiom_def)
  ultimately show ?thesis
    using a up(2) U by (auto simp: valid_in_def lower_bound_axiom_def non_empty_axiom_def stride_axiom_def)
qed

lemma child_axioms_valid_other:
  assumes "child_axioms e = Inr axs" "i < arity e"
    and "\<forall>ord v l u inc b. e = For_expr ord v l u inc b \<longrightarrow> i \<noteq> 3" "\<forall>c t b. e = If_expr c t b \<longrightarrow> i = 0"
  shows "axs ! i = []"
proof (cases "\<exists>ord v l u inc b. e = For_expr ord v l u inc b")
  case True
  with assms show ?thesis by (auto simp: child_axioms_def rbind_Inr_iff less_Suc_eq numeral_eq_Suc)
next
  case False
  show ?thesis
  proof (cases "\<exists>c t b. e = If_expr c t b")
    case True
    with assms show ?thesis by (auto simp: child_axioms_def split: option.splits)
  next
    case False
    with \<open>\<nexists>ord v l u inc b. e = For_expr ord v l u inc b\<close> assms(1) have "axs = replicate (arity e) []"
      by (cases e) (auto simp: child_axioms_def)
    with assms(2) show ?thesis by simp
  qed
qed

lemma axioms_along_sound:
  "reaches env U e p env' \<Longrightarrow> everywhere loop_ok e \<Longrightarrow> generate_axiom_scope_tree q e a = Inr s \<Longrightarrow>
     \<forall>x \<in> set a. valid_in env U x \<Longrightarrow> x \<in> set (axioms_along s p) \<Longrightarrow> eval_bool env' x = Inr True"
proof (induction arbitrary: q a s x rule: reaches.induct)
  case (here env U e)
  then show ?case by (auto elim!: generate_obtain simp: valid_in_def)
next
  case (loop_body env l lv u uv inc s' x' k U' U v b p env' ord)
  let ?e = "For_expr ord v l u inc b"
  obtain axs where g: "child_axioms ?e = Inr axs" "scope_axioms s = a" "length (subscopes s) = arity ?e"
    and gi: "\<And>i. i < arity ?e \<Longrightarrow> generate_axiom_scope_tree (q @ [child_position ?e i]) (children ?e ! i) (axs ! i)
       = Inr (subscopes s ! i)"
    using loop_body.prems(2) by (elim generate_obtain) blast
  have ok: "everywhere loop_ok b" "loop_ok ?e"
    using loop_body.prems(1) everywhere_iff [of loop_ok ?e] by auto
  then have nd: "no_div_floor l" "no_div_floor u" by (auto simp: loop_ok_def)
  obtain bx where bx: "body_axioms v l u inc = Inr bx" "axs ! 3 = bx"
    using g(1) by (auto simp: child_axioms_def rbind_Inr_iff)
  have valid: "\<forall>y \<in> set bx. valid_in (env(var_id v := x')) (insert (var_id v) U') y"
    using body_axioms_valid [OF bx(1) loop_body.hyps(1-11) nd] by blast
  moreover have "eval_bool env' y = Inr True" if "y \<in> set a" for y
  proof -
    have "env' z = env z" if "z \<in> U" for z
      using reaches_keeps [OF loop_body.hyps(12), of z] that loop_body.hyps(10,11) by auto
    with loop_body.prems(3) that eval_bool_cong [of y env' env] show ?thesis by (force simp: valid_in_def)
  qed
  moreover have "eval_bool env' y = Inr True" if "y \<in> set (axioms_along (subscopes s ! 3) p)" for y
    using loop_body.IH [OF ok(1) _ valid that] gi [of 3] bx(2) by simp
  ultimately show ?case using g loop_body.prems(4) by auto
next
  case (then_branch env c U t p env' e)
  let ?e = "If_expr c t e"
  obtain axs where g: "child_axioms ?e = Inr axs" "scope_axioms s = a" "length (subscopes s) = arity ?e"
    and gi: "\<And>i. i < arity ?e \<Longrightarrow> generate_axiom_scope_tree (q @ [child_position ?e i]) (children ?e ! i) (axs ! i)
       = Inr (subscopes s ! i)"
    using then_branch.prems(2) by (elim generate_obtain) blast
  have "children ?e ! 1 = t" by (cases e) auto
  moreover have "axs ! 1 = [c]" using g(1) by (auto simp: child_axioms_def)
  moreover have "everywhere loop_ok t" using then_branch.prems(1) everywhere_iff [of loop_ok ?e] by (cases e) auto
  moreover have "valid_in env (U \<union> expr_vars c) c" using then_branch.hyps(1) by (simp add: valid_in_def)
  moreover have "eval_bool env' y = Inr True" if "y \<in> set a" for y
    using then_branch.prems(3) that eval_bool_cong [of y env' env] reaches_keeps [OF then_branch.hyps(2)]
    by (force simp: valid_in_def)
  ultimately show ?case using then_branch.IH [of "q @ [1]" "[c]" "subscopes s ! 1"] gi [of 1] g then_branch.prems(4)
    by (auto split: if_splits)
next
  case (else_branch env c U e p env' t)
  let ?e = "If_expr c t (Some e)"
  obtain axs where g: "child_axioms ?e = Inr axs" "scope_axioms s = a" "length (subscopes s) = arity ?e"
    and gi: "\<And>i. i < arity ?e \<Longrightarrow> generate_axiom_scope_tree (q @ [child_position ?e i]) (children ?e ! i) (axs ! i)
       = Inr (subscopes s ! i)"
    using else_branch.prems(2) by (elim generate_obtain) blast
  have "axs ! 2 = [Unary_operator_expr Logical_not c]" using g(1) by (auto simp: child_axioms_def)
  moreover have "everywhere loop_ok e" using else_branch.prems(1) everywhere_iff [of loop_ok ?e] by auto
  moreover have "valid_in env (U \<union> expr_vars c) (Unary_operator_expr Logical_not c)"
    using else_branch.hyps(1) by (simp add: valid_in_def)
  moreover have "eval_bool env' y = Inr True" if "y \<in> set a" for y
    using else_branch.prems(3) that eval_bool_cong [of y env' env] reaches_keeps [OF else_branch.hyps(2)]
    by (force simp: valid_in_def)
  ultimately show ?case using else_branch.IH [of "q @ [2]" "[Unary_operator_expr Logical_not c]" "subscopes s ! 2"] gi [of 2] g
      else_branch.prems(4)
    by auto
next
  case (other i e env U p env')
  obtain axs where g: "child_axioms e = Inr axs" "scope_axioms s = a" "length (subscopes s) = arity e"
    and gi: "\<And>i. i < arity e \<Longrightarrow> generate_axiom_scope_tree (q @ [child_position e i]) (children e ! i) (axs ! i)
       = Inr (subscopes s ! i)"
    using other.prems(2) by (elim generate_obtain) blast
  have "axs ! i = []" by (rule child_axioms_valid_other [OF g(1) other.hyps(1-3)])
  moreover have "everywhere loop_ok (children e ! i)"
    using everywhereD [OF other.prems(1)] other.hyps(1) by simp
  moreover have "eval_bool env' y = Inr True" if "y \<in> set a" for y
    using other.prems(3) that eval_bool_cong [of y env' env] reaches_keeps [OF other.hyps(4)]
    by (force simp: valid_in_def)
  ultimately show ?case using other.IH [OF _ gi [OF other.hyps(1)]] g other.prems(4) other.hyps(1)
    by auto
qed

lemma reaches_step: "reaches env U e p env' \<Longrightarrow> p = i # p' \<Longrightarrow> i < arity e \<and> (\<exists>env1 U1. reaches env1 U1 (children e ! i) p' env')"
  by (induction rule: reaches.induct) (auto, (case_tac e; auto)+)

lemma reaches_scope:
  "reaches env U e p env' \<Longrightarrow> generate_axiom_scope_tree q e a = Inr s \<Longrightarrow> scope_at s p \<noteq> None"
proof (induction p arbitrary: env U e q a s)
  case (Cons i p)
  obtain axs where "length (subscopes s) = arity e"
    and gi: "\<And>i. i < arity e \<Longrightarrow> generate_axiom_scope_tree (q @ [child_position e i]) (children e ! i) (axs ! i)
       = Inr (subscopes s ! i)"
    using Cons.prems(2) by (elim generate_obtain) blast
  with reaches_step [OF Cons.prems(1) refl] Cons.IH show ?case by fastforce
qed simp

lemma generate_total:
  "everywhere (\<lambda>d. \<exists>axs. child_axioms d = Inr axs) e \<Longrightarrow> \<exists>s. generate_axiom_scope_tree p e a = Inr s"
proof (induction e arbitrary: p a rule: measure_induct_rule [of size])
  case (less e)
  obtain axs where axs: "child_axioms e = Inr axs" using everywhereD(1) [OF less.prems] by blast
  have "\<forall>i \<in> set [0..<arity e]. \<exists>s. generate_axiom_scope_tree (p @ [child_position e i]) (children e ! i) (axs ! i) = Inr s"
    using less.IH [OF children_smaller] everywhereD(2) [OF less.prems] by auto
  from list_all2_exists [OF this] axs show ?case
    by (subst generate_axiom_scope_tree.simps) (auto simp: rbind_Inr_iff traverse_Inr_iff)
qed

lemma axiom_analysis_along:
  assumes "everywhere (\<lambda>d. \<forall>t ps. d \<noteq> Construct_expr t ps) root"
    and "generate_axiom_scope_tree [] root [] = Inr scopes" and "scope_at scopes p \<noteq> None"
  shows "\<exists>axs. axiom_analysis root p = Inr axs \<and> set axs = set (axioms_along scopes p)"
proof -
  have "addressed ([], scopes)"
    using generate_addressed [OF assms(1,2)] by (simp add: addressed_def)
  then have "index_scopes [([], scopes)] (\<lambda>c. None) p = Some p"
    using index_scopes_addressed [of "[([], scopes)]" "\<lambda>c. None" p] assms(3) by (auto simp: covers_def)
  then have "axiom_analysis root p = Inr (climb_axioms scopes p)"
    using assms(2) by (simp add: axiom_analysis_def get_valid_axioms_def)
  with climb_axioms_set [OF assms(3)] show ?thesis by simp
qed

lemma axioms_hold:
  assumes "reaches env {} root p env'" and "everywhere loop_ok root"
    and "generate_axiom_scope_tree [] root [] = Inr scopes"
  shows "\<exists>axs. axiom_analysis root p = Inr axs \<and> (\<forall>x \<in> set axs. eval_bool env' x = Inr True)"
proof -
  have "everywhere (\<lambda>d. \<forall>t ps. d \<noteq> Construct_expr t ps) root"
    using assms(2) by (simp add: everywhere_def loop_ok_def list_all_iff)
  from axiom_analysis_along [OF this assms(3) reaches_scope [OF assms(1,3)]]
  show ?thesis using axioms_along_sound [OF assms(1-3)] by fastforce
qed



end
