(* ===== verification/VariableAccess.thy ===== *)
theory VariableAccess
  imports Cursor Substitution
begin

text \<open>
  The variable access analysis (\<open>qubus/src/variable_access_analysis.cpp\<close>): which variables an
  expression reads and writes, and through which qualifiers (member accesses and subscripts).  A node's
  address is its path; the qualified access of a qualifier is its child 0, so the node an access starts
  at and its qualifiers determine every address the code keeps.
\<close>

section \<open>Accesses\<close>

fun is_qualifier :: "expr \<Rightarrow> bool" where
  "is_qualifier (Subscription_expr _ _) = True"
| "is_qualifier (Member_access_expr _ _) = True"
| "is_qualifier _ = False"

text \<open>The variable at the base and the qualifiers, outermost first.\<close>

fun decompose_access :: "expr \<Rightarrow> (variable_declaration \<times> expr list) result" where
  "decompose_access (Variable_ref_expr v) = Inr (v, [])"
| "decompose_access (Subscription_expr a is) =
     rbind (decompose_access a) (\<lambda>(v, qs). Inr (v, Subscription_expr a is # qs))"
| "decompose_access (Member_access_expr a m) =
     rbind (decompose_access a) (\<lambda>(v, qs). Inr (v, Member_access_expr a m # qs))"
| "decompose_access _ = Inl Bad_cast"

record access =
  acc_variable :: variable_declaration
  acc_qualifiers :: "expr list"
  acc_location :: "nat list"

text \<open>\<open>location\<close> is the last qualifier in this order, the innermost one.\<close>

definition make_access :: "nat list \<Rightarrow> expr \<Rightarrow> access result" where
  "make_access p e =
     rbind (decompose_access e) (\<lambda>(v, qs).
       Inr \<lparr>acc_variable = v, acc_qualifiers = qs, acc_location = p @ replicate (length qs - 1) 0\<rparr>)"

definition is_qualified :: "access \<Rightarrow> bool" where
  "is_qualified a = (acc_qualifiers a \<noteq> [])"

text \<open>The sub-expressions \<open>get_accesses\<close> goes on to: not the qualified access of a qualifier.\<close>

definition numbered_children :: "nat list \<Rightarrow> expr \<Rightarrow> (nat list \<times> expr) list" where
  "numbered_children p e = map (\<lambda>i. (p @ [child_position e i], children e ! i)) [0..<arity e]"

definition pending_children :: "nat list \<Rightarrow> expr \<Rightarrow> (nat list \<times> expr) list" where
  "pending_children p e =
     (if is_qualifier e then tl (numbered_children p e) else numbered_children p e)"

definition pending_size :: "(nat list \<times> expr) list \<Rightarrow> nat" where
  "pending_size st = sum_list (map (\<lambda>(p, e). length (preorder e)) st)"

lemma pending_size_simps [simp]:
  "pending_size [] = 0" "pending_size ((p, e) # st) = length (preorder e) + pending_size st"
  "pending_size (xs @ ys) = pending_size xs + pending_size ys" "pending_size (rev xs) = pending_size xs"
  by (simp_all add: pending_size_def rev_map [symmetric])

lemma map_snd_numbered_children [simp]: "map snd (numbered_children p e) = children e"
proof -
  have "map snd (numbered_children p e) = map (\<lambda>i. children e ! i) [0..<length (children e)]"
    by (simp add: numbered_children_def comp_def)
  then show ?thesis by (simp only: map_nth)
qed

lemma pending_size_children: "pending_size (pending_children p e) < length (preorder e)"
proof -
  have "pending_size xs = sum_list (map (length \<circ> preorder) (map snd xs))" for xs
    by (simp add: pending_size_def case_prod_unfold comp_def)
  then have "pending_size (numbered_children p e) = sum_list (map (length \<circ> preorder) (children e))"
    by (simp only: map_snd_numbered_children)
  moreover have "length (preorder e) = Suc (sum_list (map (length \<circ> preorder) (children e)))"
    by (subst preorder.simps) (simp add: length_concat comp_def)
  moreover have "pending_size (tl (numbered_children p e)) \<le> pending_size (numbered_children p e)"
    by (cases "numbered_children p e") auto
  ultimately show ?thesis by (simp add: pending_children_def)
qed

text \<open>The loop over the stack \<open>pending_expressions\<close>.\<close>

function collect_accesses :: "(nat list \<times> expr) list \<Rightarrow> access list \<Rightarrow> access list result" where
  "collect_accesses [] accesses = Inr accesses"
| "collect_accesses ((p, current_expr) # pending) accesses =
     rbind (if is_access current_expr
            then rbind (make_access p current_expr) (\<lambda>a. Inr (accesses @ [a]))
            else Inr accesses) (\<lambda>accesses'.
       collect_accesses (rev (pending_children p current_expr) @ pending) accesses')"
  by pat_completeness auto
termination
  by (relation "measure (\<lambda>(st, acc). pending_size st)") (simp_all add: pending_size_children)

definition get_accesses :: "nat list \<Rightarrow> expr \<Rightarrow> access list result" where
  "get_accesses p e = collect_accesses [(p, e)] []"

text \<open>The access an assignment goes to and the accesses in the subscripts of its outermost qualifier.\<close>

definition analyze_access :: "nat list \<Rightarrow> expr \<Rightarrow> (access \<times> access list) result" where
  "analyze_access p acc =
     rbind (make_access p acc) (\<lambda>direct_access.
     rbind (traverse (\<lambda>(q, c). get_accesses q c) (pending_children p acc)) (\<lambda>indirect_accesses.
       Inr (direct_access, concat indirect_accesses)))"

definition as_access_expr :: "expr \<Rightarrow> expr result" where
  "as_access_expr e = (if is_access e then Inr e else Inl Bad_cast)"

section \<open>Access sets\<close>

datatype access_set_node =
  Access_set_node (node_location: "nat list") (node_expr: expr)
    (local_reads: "access list") (local_writes: "access list") (subsets: "access_set_node list")

definition assignment :: "expr \<Rightarrow> (binary_op_tag \<times> expr \<times> expr) option" where
  "assignment e =
     (case e of
        Binary_operator_expr tag lhs rhs \<Rightarrow>
          if tag = Assign \<or> tag = Plus_assign then Some (tag, lhs, rhs) else None
      | _ \<Rightarrow> None)"

definition assignment_accesses ::
  "nat list \<Rightarrow> binary_op_tag \<times> expr \<times> expr \<Rightarrow> (access list \<times> access) result" where
  "assignment_accesses p a =
     (case a of (tag, lhs, rhs) \<Rightarrow>
       rbind (as_access_expr lhs) (\<lambda>target.
       rbind (analyze_access (p @ [0]) target) (\<lambda>(direct_access, indirect_accesses).
       rbind (get_accesses (p @ [1]) rhs) (\<lambda>reads.
         Inr (reads @ indirect_accesses @ (if tag = Plus_assign then [direct_access] else []),
              direct_access)))))"

function compute_access_set :: "nat list \<Rightarrow> expr \<Rightarrow> access_set_node result" where
  "compute_access_set p e =
     (case assignment e of
        Some a \<Rightarrow>
          rbind (assignment_accesses p a) (\<lambda>(reads, direct_access).
            Inr (Access_set_node p e reads [direct_access] []))
      | None \<Rightarrow>
          rbind (traverse (\<lambda>i. compute_access_set (p @ [child_position e i]) (children e ! i)) [0..<arity e])
            (\<lambda>ss. Inr (Access_set_node p e [] [] ss)))"
  by pat_completeness auto
termination
  by (relation "measure (\<lambda>(p, e). size e)") (auto intro: children_smaller)

declare compute_access_set.simps [simp del]

datatype access_kind = External | All

text \<open>\<open>variable_scope\<close> matches loops only.\<close>

definition scope_variable :: "expr \<Rightarrow> variable_declaration option" where
  "scope_variable e = (case e of For_expr _ v _ _ _ _ \<Rightarrow> Some v | _ \<Rightarrow> None)"

definition hide_scope_variable :: "access_kind \<Rightarrow> expr \<Rightarrow> access list \<Rightarrow> access list" where
  "hide_scope_variable kind e accesses =
     (if kind = External
      then case scope_variable e of
             Some var \<Rightarrow> filter (\<lambda>acc. \<not> var_eq (acc_variable acc) var) accesses
           | None \<Rightarrow> accesses
      else accesses)"

primrec get_read_accesses :: "access_kind \<Rightarrow> access_set_node \<Rightarrow> access list" where
  "get_read_accesses kind (Access_set_node p e reads writes ss) =
     hide_scope_variable kind e (reads @ concat (map (get_read_accesses kind) ss))"

primrec get_write_accesses :: "access_kind \<Rightarrow> access_set_node \<Rightarrow> access list" where
  "get_write_accesses kind (Access_set_node p e reads writes ss) =
     hide_scope_variable kind e (writes @ concat (map (get_write_accesses kind) ss))"

text \<open>The index from locations to nodes; \<open>emplace\<close> keeps the first.\<close>

fun add_set_to_index :: "access_set_node \<Rightarrow> (nat list \<rightharpoonup> access_set_node) \<Rightarrow> (nat list \<rightharpoonup> access_set_node)" where
  "add_set_to_index (Access_set_node p e reads writes ss) index =
     fold add_set_to_index ss
       (if index p = None then index(p \<mapsto> Access_set_node p e reads writes ss) else index)"

definition query_accesses_for_location :: "access_set_node \<Rightarrow> nat list \<Rightarrow> access_set_node result" where
  "query_accesses_for_location global_access_set location =
     (case add_set_to_index global_access_set (\<lambda>l. None) location of
        Some node \<Rightarrow> Inr node
      | None \<Rightarrow> Inl Assertion_failed)"

definition variable_access_analysis :: "expr \<Rightarrow> access_set_node result" where
  "variable_access_analysis root = compute_access_set [] root"

section \<open>What the analysis finds\<close>

text \<open>The assignments the traversal meets, with their addresses.\<close>

function assignments :: "nat list \<Rightarrow> expr \<Rightarrow> (nat list \<times> binary_op_tag \<times> expr \<times> expr) list" where
  "assignments p e =
     (case assignment e of
        Some a \<Rightarrow> [(p, a)]
      | None \<Rightarrow> concat (map (\<lambda>i. assignments (p @ [child_position e i]) (children e ! i)) [0..<arity e]))"
  by pat_completeness auto
termination
  by (relation "measure (\<lambda>(p, e). size e)") (auto intro: children_smaller)

declare assignments.simps [simp del]

lemma compute_obtain:
  assumes "compute_access_set p e = Inr n"
  obtains (assign) a reads w where "assignment e = Some a" "assignment_accesses p a = Inr (reads, w)"
      "n = Access_set_node p e reads [w] []"
  | (other) ss where "assignment e = None" "n = Access_set_node p e [] [] ss" "length ss = arity e"
      "\<And>i. i < arity e \<Longrightarrow> compute_access_set (p @ [child_position e i]) (children e ! i) = Inr (ss ! i)"
  using assms
  by (subst (asm) compute_access_set.simps)
    (auto simp: rbind_Inr_iff traverse_Inr_iff list_all2_conv_all_nth split: option.splits)

lemma concat_map_nth_cong:
  assumes "length ss = k" "\<And>i. i < k \<Longrightarrow> f (ss ! i) = g i"
  shows "concat (map f ss) = concat (map g [0..<k])"
proof -
  have "map f ss = map g [0..<k]"
    using assms by (intro nth_equalityI) simp_all
  then show ?thesis by simp
qed

lemma concat_map_concat: "concat (map f (concat xss)) = concat (map (\<lambda>xs. concat (map f xs)) xss)"
  by (induction xss) auto

lemma concat_concat_map: "concat (concat xss) = concat (map concat xss)"
  by (induction xss) auto

lemma accesses_from_assignments:
  "compute_access_set p e = Inr n \<Longrightarrow>
     get_read_accesses All n = concat (map (\<lambda>(q, a). fst (projr (assignment_accesses q a))) (assignments p e)) \<and>
     get_write_accesses All n = map (\<lambda>(q, a). snd (projr (assignment_accesses q a))) (assignments p e)"
proof (induction p e arbitrary: n rule: compute_access_set.induct)
  case (1 p e)
  from "1.prems" show ?case
  proof (cases rule: compute_obtain)
    case (assign a reads w)
    then show ?thesis by (simp add: hide_scope_variable_def assignments.simps [of p e])
  next
    case (other ss)
    let ?q = "\<lambda>i. p @ [child_position e i]"
    let ?as = "\<lambda>i. assignments (?q i) (children e ! i)"
    have IH: "get_read_accesses All (ss ! i) = concat (map (\<lambda>(q, a). fst (projr (assignment_accesses q a))) (?as i))"
      "get_write_accesses All (ss ! i) = map (\<lambda>(q, a). snd (projr (assignment_accesses q a))) (?as i)"
      if "i < arity e" for i
      using "1.IH" [OF other(1), of i] other(4) [OF that] that by auto
    have "concat (map (get_read_accesses All) ss) =
        concat (map (\<lambda>i. concat (map (\<lambda>(q, a). fst (projr (assignment_accesses q a))) (?as i))) [0..<arity e])"
      by (rule concat_map_nth_cong [OF other(3)]) (rule IH)
    moreover have "concat (map (get_write_accesses All) ss) =
        concat (map (\<lambda>i. map (\<lambda>(q, a). snd (projr (assignment_accesses q a))) (?as i)) [0..<arity e])"
      by (rule concat_map_nth_cong [OF other(3)]) (rule IH)
    ultimately show ?thesis
      using other(1,2)
      by (simp add: hide_scope_variable_def assignments.simps [of p e] map_concat concat_map_concat concat_concat_map comp_def)
  qed
qed

text \<open>The analysis knows exactly the assignments: the reads of an expression are the reads of its
  assignments and the writes are their targets, in order.  Every other read is lost: an expression
  without an assignment reads nothing, whatever its conditions, loop bounds and initialisers are.\<close>
lemma accesses_of_assignments_only:
  assumes "compute_access_set p e = Inr n"
  shows "get_read_accesses All n = concat (map (\<lambda>(q, a). fst (projr (assignment_accesses q a))) (assignments p e)) \<and>
    get_write_accesses All n = map (\<lambda>(q, a). snd (projr (assignment_accesses q a))) (assignments p e) \<and>
    (assignments p e = [] \<longrightarrow> get_read_accesses All n = [])"
  using accesses_from_assignments [OF assms] by simp

lemma accesses_of_assignments_only_example:
  "\<exists>n. compute_access_set [] (If_expr (Variable_ref_expr \<lparr>var_id = 0, var_name = ''c'', var_type = Bool_t\<rparr>)
       (Compound_expr Sequential []) None) = Inr n \<and> get_read_accesses All n = []"
proof -
  let ?c = "Variable_ref_expr \<lparr>var_id = 0, var_name = ''c'', var_type = Bool_t\<rparr>"
  let ?e = "If_expr ?c (Compound_expr Sequential []) None"
  have "\<exists>n. compute_access_set [] ?e = Inr n" "assignments [] ?e = []"
    by (simp_all add: compute_access_set.simps assignments.simps assignment_def)
  with accesses_of_assignments_only [of "[]" ?e] show ?thesis by blast
qed

text \<open>The reads in the subscripts of inner qualifiers are lost: of \<open>a[i][j]\<close> the analysis reports the
  accesses to \<open>a\<close> and \<open>j\<close>, but not the one to \<open>i\<close>.\<close>
lemma inner_subscripts_missed:
  "\<exists>accs. get_accesses p (Subscription_expr (Subscription_expr (Variable_ref_expr a) [Variable_ref_expr i])
       [Variable_ref_expr j]) = Inr accs \<and> map acc_variable accs = [a, j]"
  by (simp add: get_accesses_def make_access_def pending_children_def numbered_children_def upt_rec)

subsection \<open>External accesses\<close>

fun loop_variables :: "access_set_node \<Rightarrow> variable_declaration list" where
  "loop_variables (Access_set_node p e reads writes ss) =
     (case scope_variable e of Some v \<Rightarrow> [v] | None \<Rightarrow> []) @ concat (map loop_variables ss)"

definition hidden_by :: "variable_declaration list \<Rightarrow> access \<Rightarrow> bool" where
  "hidden_by vs acc = (\<exists>v \<in> set vs. var_eq (acc_variable acc) v)"

lemma hidden_by_node:
  "hidden_by (loop_variables (Access_set_node p e reads writes ss)) acc \<longleftrightarrow>
     (\<exists>v. scope_variable e = Some v \<and> var_eq (acc_variable acc) v) \<or>
     (\<exists>s \<in> set ss. hidden_by (loop_variables s) acc)"
  by (auto simp: hidden_by_def split: option.splits)

lemma hide_scope_variable_iff:
  "acc \<in> set (hide_scope_variable External e accs) \<longleftrightarrow>
     acc \<in> set accs \<and> (\<forall>v. scope_variable e = Some v \<longrightarrow> \<not> var_eq (acc_variable acc) v)"
  by (auto simp: hide_scope_variable_def split: option.splits)

lemma hide_scope_variable_All [simp]: "hide_scope_variable All e accs = accs"
  by (simp add: hide_scope_variable_def)

lemma external_reads:
  "acc \<in> set (get_read_accesses External n) \<Longrightarrow> acc \<in> set (get_read_accesses All n)"
  "acc \<in> set (get_read_accesses All n) \<Longrightarrow> \<not> hidden_by (loop_variables n) acc \<Longrightarrow>
     acc \<in> set (get_read_accesses External n)"
  by (induction n) (auto simp: hide_scope_variable_iff hidden_by_node simp del: loop_variables.simps, blast)

lemma external_writes:
  "acc \<in> set (get_write_accesses External n) \<Longrightarrow> acc \<in> set (get_write_accesses All n)"
  "acc \<in> set (get_write_accesses All n) \<Longrightarrow> \<not> hidden_by (loop_variables n) acc \<Longrightarrow>
     acc \<in> set (get_write_accesses External n)"
  by (induction n) (auto simp: hide_scope_variable_iff hidden_by_node simp del: loop_variables.simps, blast)

text \<open>The external accesses are among all accesses, contain every access to a variable that is no loop
  index below the node, and at a loop contain no access to its index.\<close>
lemma external_accesses:
  "set (get_read_accesses External n) \<subseteq> set (get_read_accesses All n) \<and>
   set (get_write_accesses External n) \<subseteq> set (get_write_accesses All n) \<and>
   set (filter (\<lambda>a. \<not> hidden_by (loop_variables n) a) (get_read_accesses All n)) \<subseteq> set (get_read_accesses External n) \<and>
   set (filter (\<lambda>a. \<not> hidden_by (loop_variables n) a) (get_write_accesses All n)) \<subseteq> set (get_write_accesses External n) \<and>
   (node_expr n = For_expr ord v l u s b \<longrightarrow>
     filter (\<lambda>a. var_eq (acc_variable a) v) (get_read_accesses External n @ get_write_accesses External n) = [])"
proof -
  have "filter (\<lambda>a. var_eq (acc_variable a) v) (get_read_accesses External n @ get_write_accesses External n) = []"
    if "node_expr n = For_expr ord v l u s b"
    using that by (cases n) (auto simp: filter_empty_conv hide_scope_variable_iff scope_variable_def)
  with external_reads external_writes show ?thesis by auto
qed

lemma external_accesses_example:
  "get_write_accesses External (Access_set_node []
     (For_expr Sequential \<lparr>var_id = 0, var_name = ''i'', var_type = Integer_t\<rparr> (Integer_literal_expr 0)
        (Integer_literal_expr 1) (Integer_literal_expr 1) (Compound_expr Sequential []))
     [] [\<lparr>acc_variable = \<lparr>var_id = 0, var_name = ''i'', var_type = Integer_t\<rparr>, acc_qualifiers = [], acc_location = []\<rparr>] []) = []"
  using external_accesses [of "Access_set_node []
     (For_expr Sequential \<lparr>var_id = 0, var_name = ''i'', var_type = Integer_t\<rparr> (Integer_literal_expr 0)
        (Integer_literal_expr 1) (Integer_literal_expr 1) (Compound_expr Sequential []))
     [] [\<lparr>acc_variable = \<lparr>var_id = 0, var_name = ''i'', var_type = Integer_t\<rparr>, acc_qualifiers = [], acc_location = []\<rparr>] []"
     Sequential "\<lparr>var_id = 0, var_name = ''i'', var_type = Integer_t\<rparr>"]
  by (simp add: hide_scope_variable_def scope_variable_def var_eq_def)

end
