(* ===== verification/AliasAnalysis.thy ===== *)
theory AliasAnalysis
  imports VariableAccess
begin

text \<open>
  The alias analysis (\<open>qubus/src/alias_analysis.cpp\<close>): the query driver for any list of rules, the
  basic rule, the basic analysis and the cache of answers.  The rule for arrays asks the value set
  analysis and isl; as a rule it is a parameter of the driver.
\<close>

section \<open>The driver\<close>

datatype alias_result = Noalias | May_alias | Must_alias

type_synonym aliasing_rule = "alias_result \<Rightarrow> expr \<Rightarrow> expr \<Rightarrow> alias_result"

fun evaluate_alias_query_stage :: "aliasing_rule list \<Rightarrow> alias_result \<Rightarrow> expr \<Rightarrow> expr \<Rightarrow> alias_result" where
  "evaluate_alias_query_stage [] current_state q1 q2 = May_alias"
| "evaluate_alias_query_stage (rule # rules) current_state q1 q2 =
     (let result = rule current_state q1 q2
      in if result \<noteq> May_alias then result else evaluate_alias_query_stage rules current_state q1 q2)"

fun compare_qualifiers :: "aliasing_rule list \<Rightarrow> alias_result \<Rightarrow> expr list \<Rightarrow> expr list \<Rightarrow> alias_result" where
  "compare_qualifiers rules current_state (q1 # qs1) (q2 # qs2) =
     (let state = evaluate_alias_query_stage rules current_state q1 q2
      in if state = Noalias then Noalias else compare_qualifiers rules state qs1 qs2)"
| "compare_qualifiers rules current_state _ _ = current_state"

definition driver_alias :: "aliasing_rule list \<Rightarrow> access \<Rightarrow> access \<Rightarrow> alias_result" where
  "driver_alias rules a1 a2 =
     (if \<not> var_eq (acc_variable a1) (acc_variable a2) then Noalias
      else compare_qualifiers rules Must_alias (acc_qualifiers a1) (acc_qualifiers a2))"

section \<open>The basic rule\<close>

definition basic_aliasing_rule :: aliasing_rule where
  "basic_aliasing_rule current_state q1 q2 =
     (case (q1, q2) of
        (Member_access_expr _ member1, Member_access_expr _ member2) \<Rightarrow>
          if member1 \<noteq> member2 then Noalias else current_state
      | (Member_access_expr _ _, Subscription_expr _ _) \<Rightarrow> Noalias
      | (Subscription_expr _ _, Member_access_expr _ _) \<Rightarrow> Noalias
      | _ \<Rightarrow> May_alias)"

type_synonym alias_cache = "(nat list \<times> nat list) \<rightharpoonup> alias_result"

definition cached_alias ::
  "aliasing_rule list \<Rightarrow> alias_cache \<Rightarrow> access \<Rightarrow> access \<Rightarrow> bool \<Rightarrow> alias_result \<times> alias_cache" where
  "cached_alias rules cache a1 a2 enable_caching =
     (let key = (acc_location a1, acc_location a2)
      in if enable_caching \<and> cache key \<noteq> None then (the (cache key), cache)
         else let result = driver_alias rules a1 a2
              in (result, if enable_caching then cache(key \<mapsto> result) else cache))"

definition basic_alias :: "alias_cache \<Rightarrow> access \<Rightarrow> access \<Rightarrow> bool \<Rightarrow> alias_result \<times> alias_cache" where
  "basic_alias cache a1 a2 enable_caching = cached_alias [basic_aliasing_rule] cache a1 a2 enable_caching"

section \<open>Regions of an object\<close>

text \<open>What a qualified access denotes: the selections applied to the variable, from the variable
  outwards.  Two accesses overlap if one selects a part of what the other selects.\<close>

datatype 'i selector = Member string | Element 'i

fun selector_of :: "(expr list \<Rightarrow> 'i) \<Rightarrow> expr \<Rightarrow> 'i selector" where
  "selector_of ev (Member_access_expr _ m) = Member m"
| "selector_of ev (Subscription_expr _ is) = Element (ev is)"
| "selector_of ev _ = undefined"

definition region :: "(expr list \<Rightarrow> 'i) \<Rightarrow> access \<Rightarrow> nat \<times> 'i selector list" where
  "region ev a = (var_id (acc_variable a), rev (map (selector_of ev) (acc_qualifiers a)))"

definition overlap :: "(expr list \<Rightarrow> 'i) \<Rightarrow> access \<Rightarrow> access \<Rightarrow> bool" where
  "overlap ev a1 a2 \<longleftrightarrow> fst (region ev a1) = fst (region ev a2) \<and>
     (\<exists>p. snd (region ev a2) = snd (region ev a1) @ p \<or> snd (region ev a1) = snd (region ev a2) @ p)"

definition well_qualified :: "access \<Rightarrow> bool" where
  "well_qualified a \<longleftrightarrow> list_all is_qualifier (acc_qualifiers a)"

lemma make_access_well_qualified: "make_access p e = Inr a \<Longrightarrow> well_qualified a"
proof -
  have "decompose_access e = Inr (v, qs) \<Longrightarrow> list_all is_qualifier qs" for v qs
    by (induction e arbitrary: v qs) (auto simp: rbind_Inr_iff)
  then show "make_access p e = Inr a \<Longrightarrow> well_qualified a"
    by (auto simp: make_access_def well_qualified_def rbind_Inr_iff)
qed

lemma basic_stage [simp]:
  "evaluate_alias_query_stage [basic_aliasing_rule] s q1 q2 = basic_aliasing_rule s q1 q2"
  by (simp add: Let_def)

declare evaluate_alias_query_stage.simps [simp del]

lemma same_length_prefix:
  "length xs = length ys \<Longrightarrow> (\<exists>p. ys = xs @ p \<or> xs = ys @ p) \<Longrightarrow> xs = ys"
  by auto

lemma basic_rule_Noalias:
  "is_qualifier q1 \<Longrightarrow> is_qualifier q2 \<Longrightarrow> s \<noteq> Noalias \<Longrightarrow>
     basic_aliasing_rule s q1 q2 = Noalias \<Longrightarrow> selector_of ev q1 \<noteq> selector_of ev q2"
  by (cases q1; cases q2) (auto simp: basic_aliasing_rule_def split: if_splits)

lemma basic_rule_Must:
  "is_qualifier q1 \<Longrightarrow> is_qualifier q2 \<Longrightarrow>
     basic_aliasing_rule s q1 q2 = Must_alias \<Longrightarrow> s = Must_alias \<and> selector_of ev q1 = selector_of ev q2"
  by (cases q1; cases q2) (auto simp: basic_aliasing_rule_def split: if_splits)

lemma compare_Noalias:
  "compare_qualifiers [basic_aliasing_rule] s qs1 qs2 = Noalias \<Longrightarrow> s \<noteq> Noalias \<Longrightarrow>
     list_all is_qualifier qs1 \<Longrightarrow> list_all is_qualifier qs2 \<Longrightarrow>
     \<exists>i < min (length qs1) (length qs2). selector_of ev (qs1 ! i) \<noteq> selector_of ev (qs2 ! i)"
proof (induction "[basic_aliasing_rule]" s qs1 qs2 rule: compare_qualifiers.induct)
  case (1 s q1 qs1 q2 qs2)
  show ?case
  proof (cases "basic_aliasing_rule s q1 q2 = Noalias")
    case True
    with 1 basic_rule_Noalias [of q1 q2 s ev] show ?thesis by (intro exI [of _ 0]) simp
  next
    case False
    with 1 obtain i where "i < min (length qs1) (length qs2)" "selector_of ev (qs1 ! i) \<noteq> selector_of ev (qs2 ! i)"
      by (auto simp: Let_def)
    then show ?thesis by (intro exI [of _ "Suc i"]) simp
  qed
qed simp_all

lemma compare_Must:
  "compare_qualifiers [basic_aliasing_rule] s qs1 qs2 = Must_alias \<Longrightarrow> length qs1 = length qs2 \<Longrightarrow>
     list_all is_qualifier qs1 \<Longrightarrow> list_all is_qualifier qs2 \<Longrightarrow>
     s = Must_alias \<and> map (selector_of ev) qs1 = map (selector_of ev) qs2"
proof (induction "[basic_aliasing_rule]" s qs1 qs2 rule: compare_qualifiers.induct)
  case (1 s q1 qs1 q2 qs2)
  then show ?case using basic_rule_Must [of q1 q2 s ev] by (auto simp: Let_def split: if_splits)
qed simp_all

lemma rev_map_neq:
  "length xs = length ys \<Longrightarrow> i < length xs \<Longrightarrow> f (xs ! i) \<noteq> f (ys ! i) \<Longrightarrow> rev (map f xs) \<noteq> rev (map f ys)"
  by (metis nth_map rev_is_rev_conv)

text \<open>C9. The basic analysis is sound for accesses with equally many qualifiers: whatever the subscripts
  evaluate to, accesses it calls disjoint do not overlap, and accesses that must alias
  select the same part.\<close>
theorem basic_alias_sound:
  assumes "well_qualified a1" and "well_qualified a2" and "length (acc_qualifiers a1) = length (acc_qualifiers a2)"
  shows "(driver_alias [basic_aliasing_rule] a1 a2 = Noalias \<longrightarrow> \<not> overlap ev a1 a2) \<and>
    (driver_alias [basic_aliasing_rule] a1 a2 = Must_alias \<longrightarrow> region ev a1 = region ev a2)"
proof (intro conjI impI)
  assume no: "driver_alias [basic_aliasing_rule] a1 a2 = Noalias"
  show "\<not> overlap ev a1 a2"
  proof (cases "var_eq (acc_variable a1) (acc_variable a2)")
    case True
    with no obtain i where "i < length (acc_qualifiers a1)"
      "selector_of ev (acc_qualifiers a1 ! i) \<noteq> selector_of ev (acc_qualifiers a2 ! i)"
      using compare_Noalias [of Must_alias "acc_qualifiers a1" "acc_qualifiers a2" ev] assms
      by (auto simp: driver_alias_def well_qualified_def)
    with rev_map_neq [OF assms(3)] have "snd (region ev a1) \<noteq> snd (region ev a2)"
      by (simp add: region_def)
    with assms(3) same_length_prefix [of "snd (region ev a1)" "snd (region ev a2)"] show ?thesis
      by (auto simp: overlap_def region_def)
  next
    case False
    then show ?thesis by (simp add: overlap_def region_def var_eq_def)
  qed
next
  assume "driver_alias [basic_aliasing_rule] a1 a2 = Must_alias"
  with compare_Must [of Must_alias "acc_qualifiers a1" "acc_qualifiers a2" ev] assms
  show "region ev a1 = region ev a2"
    by (auto simp: driver_alias_def well_qualified_def region_def var_eq_def split: if_splits)
qed

theorem basic_alias_sound_witness:
  "\<not> overlap (map arity)
     \<lparr>acc_variable = \<lparr>var_id = 0, var_name = ''a'', var_type = Integer_t\<rparr>, acc_qualifiers = [Member_access_expr (Variable_ref_expr \<lparr>var_id = 0, var_name = ''a'', var_type = Integer_t\<rparr>) ''x''], acc_location = []\<rparr>
     \<lparr>acc_variable = \<lparr>var_id = 0, var_name = ''a'', var_type = Integer_t\<rparr>, acc_qualifiers = [Member_access_expr (Variable_ref_expr \<lparr>var_id = 0, var_name = ''a'', var_type = Integer_t\<rparr>) ''y''], acc_location = [1]\<rparr>"
  using basic_alias_sound [of
      "\<lparr>acc_variable = \<lparr>var_id = 0, var_name = ''a'', var_type = Integer_t\<rparr>, acc_qualifiers = [Member_access_expr (Variable_ref_expr \<lparr>var_id = 0, var_name = ''a'', var_type = Integer_t\<rparr>) ''x''], acc_location = []\<rparr>"
      "\<lparr>acc_variable = \<lparr>var_id = 0, var_name = ''a'', var_type = Integer_t\<rparr>, acc_qualifiers = [Member_access_expr (Variable_ref_expr \<lparr>var_id = 0, var_name = ''a'', var_type = Integer_t\<rparr>) ''y''], acc_location = [1]\<rparr>" "map arity"]
  by (simp add: well_qualified_def driver_alias_def basic_aliasing_rule_def var_eq_def)

text \<open>With different numbers of qualifiers the analysis is not sound, since it compares the qualifiers
  starting with the outermost one of each access: \<open>a.x.y\<close> is part of \<open>a.x\<close> and is called
  disjoint from it, while \<open>a.x\<close> and \<open>a.y.x\<close> are disjoint and must alias.\<close>
lemma basic_alias_unequal_depth:
  "\<exists>axy ax ayx.
     make_access p (Member_access_expr (Member_access_expr (Variable_ref_expr a) ''x'') ''y'') = Inr axy \<and>
     make_access q (Member_access_expr (Variable_ref_expr a) ''x'') = Inr ax \<and>
     make_access r (Member_access_expr (Member_access_expr (Variable_ref_expr a) ''y'') ''x'') = Inr ayx \<and>
     driver_alias [basic_aliasing_rule] axy ax = Noalias \<and> overlap ev axy ax \<and>
     driver_alias [basic_aliasing_rule] ax ayx = Must_alias \<and> \<not> overlap ev ax ayx"
  by (simp add: make_access_def driver_alias_def basic_aliasing_rule_def var_eq_def overlap_def region_def Let_def)

section \<open>The cache\<close>

definition cache_sound :: "aliasing_rule list \<Rightarrow> access set \<Rightarrow> alias_cache \<Rightarrow> bool" where
  "cache_sound rules A cache \<longleftrightarrow>
     (\<forall>a1 \<in> A. \<forall>a2 \<in> A. \<forall>r. cache (acc_location a1, acc_location a2) = Some r \<longrightarrow> r = driver_alias rules a1 a2)"

fun alias_queries :: "aliasing_rule list \<Rightarrow> alias_cache \<Rightarrow> (access \<times> access \<times> bool) list \<Rightarrow> alias_result list" where
  "alias_queries rules cache [] = []"
| "alias_queries rules cache ((a1, a2, enable_caching) # qs) =
     (let (r, cache') = cached_alias rules cache a1 a2 enable_caching
      in r # alias_queries rules cache' qs)"

lemma cached_alias_step:
  assumes "cache_sound rules A cache" "inj_on acc_location A" "a1 \<in> A" "a2 \<in> A"
    and "cached_alias rules cache a1 a2 b = (r, cache')"
  shows "r = driver_alias rules a1 a2 \<and> cache_sound rules A cache'"
  using assms
  by (auto simp: cached_alias_def cache_sound_def Let_def inj_on_eq_iff split: if_splits)

lemma alias_queries_sound:
  "cache_sound rules A cache \<Longrightarrow> inj_on acc_location A \<Longrightarrow> \<forall>(a1, a2, b) \<in> set qs. a1 \<in> A \<and> a2 \<in> A \<Longrightarrow>
     alias_queries rules cache qs = map (\<lambda>(a1, a2, b). driver_alias rules a1 a2) qs"
proof (induction qs arbitrary: cache)
  case (Cons q qs)
  obtain a1 a2 b where q: "q = (a1, a2, b)" by (cases q)
  obtain r cache' where c: "cached_alias rules cache a1 a2 b = (r, cache')" by fastforce
  with cached_alias_step [OF Cons.prems(1,2) _ _ c] Cons q show ?case by simp
qed simp

text \<open>C19. The cache is transparent for accesses with different locations: any sequence of queries, cached or
  not, starting with an empty cache gets the answers of the driver.  Locations do
  not tell apart \<open>a.x.y\<close> and the \<open>a.x\<close> in it: asking for the former first, the cache answers
  the latter with \<open>must_alias\<close>, the driver with \<open>noalias\<close>.\<close>
theorem alias_cache_transparent:
  "(inj_on acc_location A \<and> list_all (\<lambda>(a1, a2, b). a1 \<in> A \<and> a2 \<in> A) qs \<longrightarrow>
      alias_queries rules (\<lambda>k. None) qs = map (\<lambda>(a1, a2, b). driver_alias rules a1 a2) qs) \<and>
   (\<exists>axy ax.
      make_access p (Member_access_expr (Member_access_expr (Variable_ref_expr a) ''x'') ''y'') = Inr axy \<and>
      make_access (p @ [0]) (Member_access_expr (Variable_ref_expr a) ''x'') = Inr ax \<and>
      alias_queries [basic_aliasing_rule] (\<lambda>k. None) [(axy, axy, True), (ax, axy, True)] = [Must_alias, Must_alias] \<and>
      driver_alias [basic_aliasing_rule] ax axy = Noalias)"
proof
  show "inj_on acc_location A \<and> list_all (\<lambda>(a1, a2, b). a1 \<in> A \<and> a2 \<in> A) qs \<longrightarrow>
      alias_queries rules (\<lambda>k. None) qs = map (\<lambda>(a1, a2, b). driver_alias rules a1 a2) qs"
    using alias_queries_sound [of rules A "\<lambda>k. None" qs] by (auto simp: cache_sound_def list_all_iff)
qed (simp add: make_access_def driver_alias_def cached_alias_def basic_aliasing_rule_def var_eq_def Let_def)

theorem alias_cache_transparent_witness:
  "alias_queries [basic_aliasing_rule] (\<lambda>k. None)
     [(\<lparr>acc_variable = \<lparr>var_id = 0, var_name = ''a'', var_type = Integer_t\<rparr>, acc_qualifiers = [Member_access_expr (Variable_ref_expr \<lparr>var_id = 0, var_name = ''a'', var_type = Integer_t\<rparr>) ''x''], acc_location = []\<rparr>,
       \<lparr>acc_variable = \<lparr>var_id = 0, var_name = ''a'', var_type = Integer_t\<rparr>, acc_qualifiers = [Member_access_expr (Variable_ref_expr \<lparr>var_id = 0, var_name = ''a'', var_type = Integer_t\<rparr>) ''y''], acc_location = [1]\<rparr>, True)] = [Noalias]"
  using alias_cache_transparent [of "{
     \<lparr>acc_variable = \<lparr>var_id = 0, var_name = ''a'', var_type = Integer_t\<rparr>, acc_qualifiers = [Member_access_expr (Variable_ref_expr \<lparr>var_id = 0, var_name = ''a'', var_type = Integer_t\<rparr>) ''x''], acc_location = []\<rparr>,
     \<lparr>acc_variable = \<lparr>var_id = 0, var_name = ''a'', var_type = Integer_t\<rparr>, acc_qualifiers = [Member_access_expr (Variable_ref_expr \<lparr>var_id = 0, var_name = ''a'', var_type = Integer_t\<rparr>) ''y''], acc_location = [1]\<rparr>}"
     "[(\<lparr>acc_variable = \<lparr>var_id = 0, var_name = ''a'', var_type = Integer_t\<rparr>, acc_qualifiers = [Member_access_expr (Variable_ref_expr \<lparr>var_id = 0, var_name = ''a'', var_type = Integer_t\<rparr>) ''x''], acc_location = []\<rparr>,
       \<lparr>acc_variable = \<lparr>var_id = 0, var_name = ''a'', var_type = Integer_t\<rparr>, acc_qualifiers = [Member_access_expr (Variable_ref_expr \<lparr>var_id = 0, var_name = ''a'', var_type = Integer_t\<rparr>) ''y''], acc_location = [1]\<rparr>, True)]" "[basic_aliasing_rule]"]
  by (simp add: driver_alias_def basic_aliasing_rule_def var_eq_def)

end
