(* ===== verification/TaskInvariants.thy ===== *)
theory TaskInvariants
  imports AliasAnalysis
begin

text \<open>
  The task invariants analysis (\<open>qubus/src/task_invariants_analysis.cpp\<close>): an expression is invariant in
  a context if nothing the context modifies can change it.  The answers of the basic alias analysis are
  cached across the queries, so the cache is threaded through.
\<close>

function preorder_at :: "nat list \<Rightarrow> expr \<Rightarrow> (nat list \<times> expr) list" where
  "preorder_at p e = (p, e) #
     concat (map (\<lambda>i. preorder_at (p @ [child_position e i]) (children e ! i)) [0..<arity e])"
  by pat_completeness auto
termination by (relation "measure (\<lambda>(p, e). size e)") (auto intro: children_smaller)

declare preorder_at.simps [simp del]

lemma preorder_at_eqs:
  "preorder_at p (Variable_ref_expr v) = [(p, Variable_ref_expr v)]"
  "preorder_at p (Integer_literal_expr n) = [(p, Integer_literal_expr n)]"
  "preorder_at p (Binary_operator_expr t l r) =
     (p, Binary_operator_expr t l r) # preorder_at (p @ [0]) l @ preorder_at (p @ [1]) r"
  "preorder_at p (Subscription_expr a [i]) =
     (p, Subscription_expr a [i]) # preorder_at (p @ [0]) a @ preorder_at (p @ [1]) i"
  "preorder_at p (For_expr ord v l u s b) =
     (p, For_expr ord v l u s b) # preorder_at (p @ [0]) l @ preorder_at (p @ [1]) u @
     preorder_at (p @ [2]) s @ preorder_at (p @ [3]) b"
  by (subst preorder_at.simps, simp)+

text \<open>One node of the context: does it modify the object?\<close>

definition visit_modification ::
  "access \<Rightarrow> nat list \<times> expr \<Rightarrow> bool \<times> alias_cache \<Rightarrow> (bool \<times> alias_cache) result" where
  "visit_modification obj_access node state =
     (case (node, state) of ((q, d), (is_modified, cache)) \<Rightarrow>
       (case assignment d of
          Some (tag, modified_object, rhs) \<Rightarrow>
            if \<not> is_access modified_object then Inl Assertion_failed
            else rbind (make_access (q @ [0]) modified_object) (\<lambda>modifying_access.
                   let (query_result, cache') = basic_alias cache obj_access modifying_access True
                   in Inr (is_modified \<or> query_result \<noteq> Noalias, cache'))
        | None \<Rightarrow>
            (case d of
               For_expr _ var _ _ _ _ \<Rightarrow>
                 let (query_result, cache') = basic_alias cache obj_access
                       \<lparr>acc_variable = var, acc_qualifiers = [], acc_location = q\<rparr> False
                 in Inr (is_modified \<or> query_result \<noteq> Noalias, cache')
             | _ \<Rightarrow> Inr (is_modified, cache))))"

fun visit_all :: "access \<Rightarrow> (nat list \<times> expr) list \<Rightarrow> bool \<times> alias_cache \<Rightarrow> (bool \<times> alias_cache) result" where
  "visit_all obj [] state = Inr state"
| "visit_all obj (n # ns) state = rbind (visit_modification obj n state) (visit_all obj ns)"

definition is_referencing_invariant_object ::
  "nat list \<Rightarrow> expr \<Rightarrow> nat list \<Rightarrow> expr \<Rightarrow> alias_cache \<Rightarrow> (bool \<times> alias_cache) result" where
  "is_referencing_invariant_object p obj cp ctx cache =
     rbind (make_access p obj) (\<lambda>obj_access.
     rbind (visit_all obj_access (preorder_at cp ctx) (False, cache)) (\<lambda>(is_modified, cache').
       Inr (\<not> is_modified, cache')))"

text \<open>The first case takes every access, so the rule for \<open>shape\<close> and the recursion into member accesses
  and subscripts, which the code lists further down, are never reached.\<close>

fun is_invariant ::
  "nat list \<Rightarrow> expr \<Rightarrow> nat list \<Rightarrow> expr \<Rightarrow> alias_cache \<Rightarrow> (bool \<times> alias_cache) result" where
  "is_invariant p (Double_literal_expr d) cp ctx cache = Inr (True, cache)"
| "is_invariant p (Float_literal_expr f) cp ctx cache = Inr (True, cache)"
| "is_invariant p (Integer_literal_expr n) cp ctx cache = Inr (True, cache)"
| "is_invariant p (Binary_operator_expr t l r) cp ctx cache =
     rbind (is_invariant (p @ [0]) l cp ctx cache) (\<lambda>(b, cache').
       if \<not> b then Inr (False, cache') else is_invariant (p @ [1]) r cp ctx cache')"
| "is_invariant p (Unary_operator_expr t a) cp ctx cache = is_invariant (p @ [0]) a cp ctx cache"
| "is_invariant p e cp ctx cache =
     (if is_access e then is_referencing_invariant_object p e cp ctx cache else Inr (False, cache))"

section \<open>Specification\<close>

text \<open>The variables a context changes: bases of assigned objects and loop indices.\<close>

fun access_base :: "expr \<Rightarrow> nat option" where
  "access_base (Variable_ref_expr v) = Some (var_id v)"
| "access_base (Subscription_expr a _) = access_base a"
| "access_base (Member_access_expr a _) = access_base a"
| "access_base _ = None"

definition modified_by :: "expr \<Rightarrow> nat option" where
  "modified_by d =
     (case assignment d of
        Some (tag, l, r) \<Rightarrow> access_base l
      | None \<Rightarrow> (case d of For_expr _ v _ _ _ _ \<Rightarrow> Some (var_id v) | _ \<Rightarrow> None))"

definition modified_variables :: "(nat list \<times> expr) list \<Rightarrow> nat set" where
  "modified_variables ns = {x. \<exists>n \<in> set ns. modified_by (snd n) = Some x}"

definition targets_are_accesses :: "(nat list \<times> expr) list \<Rightarrow> access set \<Rightarrow> bool" where
  "targets_are_accesses ns A \<longleftrightarrow>
     (\<forall>(q, d) \<in> set ns. \<forall>tag l r. assignment d = Some (tag, l, r) \<longrightarrow> is_access l \<and> (\<exists>a \<in> A. make_access (q @ [0]) l = Inr a))"

lemma make_access_base: "make_access p e = Inr a \<Longrightarrow> access_base e = Some (var_id (acc_variable a))"
proof -
  have "decompose_access e = Inr (v, qs) \<Longrightarrow> access_base e = Some (var_id v)" for v qs
    by (induction e arbitrary: v qs) (auto simp: rbind_Inr_iff)
  then show "make_access p e = Inr a \<Longrightarrow> access_base e = Some (var_id (acc_variable a))"
    by (auto simp: make_access_def rbind_Inr_iff)
qed

lemma unqualified_alias:
  "acc_qualifiers a1 = [] \<Longrightarrow> driver_alias rules a1 a2 \<noteq> Noalias \<longleftrightarrow> var_eq (acc_variable a1) (acc_variable a2)"
  by (simp add: driver_alias_def)

lemma visit_modification_exact:
  assumes "cache_sound [basic_aliasing_rule] A cache" "inj_on acc_location A" "obj \<in> A" "acc_qualifiers obj = []"
    and "targets_are_accesses [n] A"
  shows "\<exists>cache'. visit_modification obj n (m, cache) =
      Inr (m \<or> modified_by (snd n) = Some (var_id (acc_variable obj)), cache') \<and>
    cache_sound [basic_aliasing_rule] A cache'"
proof -
  obtain q d where n: "n = (q, d)" by (cases n)
  show ?thesis
  proof (cases "assignment d")
    case (Some t)
    obtain tag l r where t: "t = (tag, l, r)" by (cases t)
    with Some n assms(5) obtain a where a: "is_access l" "make_access (q @ [0]) l = Inr a" "a \<in> A"
      by (auto simp: targets_are_accesses_def)
    obtain res cache' where c: "cached_alias [basic_aliasing_rule] cache obj a True = (res, cache')" by fastforce
    with cached_alias_step [OF assms(1,2,3) a(3) c] unqualified_alias [OF assms(4)] a Some t n
    show ?thesis
      by (auto simp: visit_modification_def basic_alias_def modified_by_def make_access_base [OF a(2)] var_eq_def)
  next
    case None
    show ?thesis
    proof (cases "\<exists>ord v l u s b. d = For_expr ord v l u s b")
      case True
      then obtain ord v l u s b where d: "d = For_expr ord v l u s b" by blast
      let ?a = "\<lparr>acc_variable = v, acc_qualifiers = [], acc_location = q\<rparr>"
      have "cached_alias [basic_aliasing_rule] cache obj ?a False = (driver_alias [basic_aliasing_rule] obj ?a, cache)"
        by (simp add: cached_alias_def Let_def)
      with unqualified_alias [OF assms(4), of "[basic_aliasing_rule]" ?a] assms(1) None d n show ?thesis
        by (auto simp: visit_modification_def basic_alias_def modified_by_def var_eq_def)
    next
      case False
      with None n assms(1) show ?thesis
        by (cases d) (auto simp: visit_modification_def modified_by_def)
    qed
  qed
qed

lemma visit_all_exact:
  "cache_sound [basic_aliasing_rule] A cache \<Longrightarrow> inj_on acc_location A \<Longrightarrow> obj \<in> A \<Longrightarrow> acc_qualifiers obj = [] \<Longrightarrow>
     targets_are_accesses ns A \<Longrightarrow>
     \<exists>cache'. visit_all obj ns (m, cache) = Inr (m \<or> var_id (acc_variable obj) \<in> modified_variables ns, cache') \<and>
       cache_sound [basic_aliasing_rule] A cache'"
proof (induction ns arbitrary: m cache)
  case (Cons n ns)
  then have "targets_are_accesses [n] A" "targets_are_accesses ns A" by (auto simp: targets_are_accesses_def)
  from visit_modification_exact [OF Cons.prems(1-4) this(1), of m] obtain c where
    c: "visit_modification obj n (m, cache) =
        Inr (m \<or> modified_by (snd n) = Some (var_id (acc_variable obj)), c)"
      "cache_sound [basic_aliasing_rule] A c" by blast
  from Cons.IH [OF c(2) Cons.prems(2-4) \<open>targets_are_accesses ns A\<close>,
      of "m \<or> modified_by (snd n) = Some (var_id (acc_variable obj))"] c(1)
  show ?case by (auto simp: modified_variables_def)
qed (simp add: modified_variables_def)

text \<open>Scalar expressions, their variables and the accesses they consist of.\<close>

fun scalar_expr :: "expr \<Rightarrow> bool" where
  "scalar_expr (Double_literal_expr _) = True"
| "scalar_expr (Float_literal_expr _) = True"
| "scalar_expr (Integer_literal_expr _) = True"
| "scalar_expr (Variable_ref_expr _) = True"
| "scalar_expr (Binary_operator_expr _ l r) = (scalar_expr l \<and> scalar_expr r)"
| "scalar_expr (Unary_operator_expr _ a) = scalar_expr a"
| "scalar_expr _ = False"

fun scalar_accesses :: "nat list \<Rightarrow> expr \<Rightarrow> access set" where
  "scalar_accesses p (Variable_ref_expr v) = {\<lparr>acc_variable = v, acc_qualifiers = [], acc_location = p\<rparr>}"
| "scalar_accesses p (Binary_operator_expr _ l r) = scalar_accesses (p @ [0]) l \<union> scalar_accesses (p @ [1]) r"
| "scalar_accesses p (Unary_operator_expr _ a) = scalar_accesses (p @ [0]) a"
| "scalar_accesses p _ = {}"

lemma scalar_invariant_exact:
  assumes "inj_on acc_location A" and "targets_are_accesses (preorder_at cp ctx) A"
  shows "scalar_expr e \<Longrightarrow> scalar_accesses p e \<subseteq> A \<Longrightarrow> cache_sound [basic_aliasing_rule] A cache \<Longrightarrow>
     \<exists>cache'. is_invariant p e cp ctx cache =
         Inr (\<forall>a \<in> scalar_accesses p e. var_id (acc_variable a) \<notin> modified_variables (preorder_at cp ctx), cache') \<and>
       cache_sound [basic_aliasing_rule] A cache'"
proof (induction e arbitrary: p cache)
  case (Variable_ref_expr v)
  let ?a = "\<lparr>acc_variable = v, acc_qualifiers = [], acc_location = p\<rparr>"
  obtain cache' where
    "visit_all ?a (preorder_at cp ctx) (False, cache) = Inr (var_id v \<in> modified_variables (preorder_at cp ctx), cache')"
    "cache_sound [basic_aliasing_rule] A cache'"
    using visit_all_exact [OF Variable_ref_expr(3) assms(1) _ _ assms(2), of ?a False] Variable_ref_expr(2) by auto
  then show ?case by (simp add: is_referencing_invariant_object_def make_access_def)
next
  case (Binary_operator_expr t l r)
  let ?ok = "\<lambda>p e. \<forall>a \<in> scalar_accesses p e. var_id (acc_variable a) \<notin> modified_variables (preorder_at cp ctx)"
  obtain c1 where c1: "is_invariant (p @ [0]) l cp ctx cache = Inr (?ok (p @ [0]) l, c1)"
    "cache_sound [basic_aliasing_rule] A c1"
    using Binary_operator_expr.IH(1) [of "p @ [0]" cache] Binary_operator_expr.prems by auto
  obtain c2 where c2: "is_invariant (p @ [1]) r cp ctx c1 = Inr (?ok (p @ [1]) r, c2)"
    "cache_sound [basic_aliasing_rule] A c2"
    using Binary_operator_expr.IH(2) [of "p @ [1]" c1] Binary_operator_expr.prems c1(2) by auto
  show ?case
  proof (cases "?ok (p @ [0]) l")
    case True
    with c1 c2 show ?thesis by (auto simp: ball_Un)
  next
    case False
    with c1 show ?thesis by (auto simp: ball_Un)
  qed
qed auto



end
