(* ===== verification/PassManager.thy ===== *)
theory PassManager
  imports Expressions
begin

text \<open>
  The pass manager (\<open>qubus/include/qubus/pass_manager.hpp\<close>, \<open>qubus/src/pass_manager.cpp\<close>): the graph of
  analyses, cached results, invalidation and the pipeline of transformations.  An \<open>analysis_id\<close> is a
  number.  What an analysis computes from the results of the analyses it requires is the parameter
  \<open>run\<close>; a transformation is a parameter as well.  Requests follow the dependences and take fuel.
\<close>

record 'r analysis_node =
  required_analyses :: "nat list"
  cached_result :: "'r option"
  dependents :: "nat list"

type_synonym 'r analysis_table = "nat \<rightharpoonup> 'r analysis_node"

definition new_node :: "nat list \<Rightarrow> 'r analysis_node" where
  "new_node req = \<lparr>required_analyses = req, cached_result = None, dependents = []\<rparr>"

definition add_dependent :: "nat \<Rightarrow> 'r analysis_node \<Rightarrow> 'r analysis_node" where
  "add_dependent i node = node\<lparr>dependents := dependents node @ [i]\<rparr>"

section \<open>Construction\<close>

fun emplace_passes :: "(nat \<times> nat list) list \<Rightarrow> 'r analysis_table \<Rightarrow> 'r analysis_table" where
  "emplace_passes [] table = table"
| "emplace_passes ((i, req) # passes) table =
     emplace_passes passes (if table i = None then table(i \<mapsto> new_node req) else table)"

fun link_required :: "nat \<Rightarrow> nat list \<Rightarrow> 'r analysis_table \<Rightarrow> 'r analysis_table result" where
  "link_required i [] table = Inr table"
| "link_required i (r # rs) table =
     (case table r of
        Some node \<Rightarrow> link_required i rs (table(r \<mapsto> add_dependent i node))
      | None \<Rightarrow> Inl Thrown_int)"

fun link_nodes :: "nat list \<Rightarrow> 'r analysis_table \<Rightarrow> 'r analysis_table result" where
  "link_nodes [] table = Inr table"
| "link_nodes (i # is) table =
     (case table i of
        Some node \<Rightarrow> rbind (link_required i (required_analyses node) table) (link_nodes is)
      | None \<Rightarrow> link_nodes is table)"

text \<open>\<open>order\<close> is the order in which the hash table of nodes is iterated.\<close>

definition analysis_manager :: "(nat \<times> nat list) list \<Rightarrow> nat list \<Rightarrow> 'r analysis_table result" where
  "analysis_manager passes order = link_nodes order (emplace_passes passes (\<lambda>i. None))"

section \<open>Requests\<close>

fun get_analysis ::
  "nat \<Rightarrow> (nat \<Rightarrow> 'r list \<Rightarrow> expr \<Rightarrow> 'r) \<Rightarrow> nat \<Rightarrow> expr \<Rightarrow> 'r analysis_table \<Rightarrow> ('r \<times> 'r analysis_table) result"
and get_analyses ::
  "nat \<Rightarrow> (nat \<Rightarrow> 'r list \<Rightarrow> expr \<Rightarrow> 'r) \<Rightarrow> nat list \<Rightarrow> expr \<Rightarrow> 'r analysis_table \<Rightarrow> ('r list \<times> 'r analysis_table) result"
where
  "get_analysis 0 run i e table = Inl Diverged"
| "get_analysis (Suc n) run i e table =
     (case table i of
        None \<Rightarrow> Inl Thrown_int
      | Some node \<Rightarrow>
          (case cached_result node of
             Some r \<Rightarrow> Inr (r, table)
           | None \<Rightarrow>
               rbind (get_analyses n run (required_analyses node) e table) (\<lambda>(rs, table').
                 let r = run i rs e
                 in Inr (r, table'(i := map_option (\<lambda>node'. node'\<lparr>cached_result := Some r\<rparr>) (table' i))))))"
| "get_analyses n run [] e table = Inr ([], table)"
| "get_analyses n run (i # is) e table =
     (case n of
        0 \<Rightarrow> Inl Diverged
      | Suc k \<Rightarrow>
          rbind (get_analysis k run i e table) (\<lambda>(r, table').
          rbind (get_analyses k run is e table') (\<lambda>(rs, table'').
            Inr (r # rs, table''))))"

definition get_analysis_cached :: "nat \<Rightarrow> 'r analysis_table \<Rightarrow> 'r option result" where
  "get_analysis_cached i table =
     (case table i of Some node \<Rightarrow> Inr (cached_result node) | None \<Rightarrow> Inl Thrown_int)"

section \<open>Invalidation and the pipeline\<close>

text \<open>\<open>analysis_node::invalidate\<close> visits the dependents and does nothing else.\<close>

fun invalidate_node :: "nat \<Rightarrow> nat \<Rightarrow> 'r analysis_table \<Rightarrow> 'r analysis_table result"
and invalidate_nodes :: "nat \<Rightarrow> nat list \<Rightarrow> 'r analysis_table \<Rightarrow> 'r analysis_table result"
where
  "invalidate_node 0 i table = Inl Diverged"
| "invalidate_node (Suc n) i table =
     (case table i of
        Some node \<Rightarrow> invalidate_nodes n (dependents node) table
      | None \<Rightarrow> Inl Undefined_behaviour)"
| "invalidate_nodes n [] table = Inr table"
| "invalidate_nodes n (d # ds) table =
     (case n of
        0 \<Rightarrow> Inl Diverged
      | Suc k \<Rightarrow> rbind (invalidate_node k d table) (invalidate_nodes k ds))"

definition invalidate :: "nat \<Rightarrow> nat list \<Rightarrow> nat list \<Rightarrow> 'r analysis_table \<Rightarrow> 'r analysis_table result" where
  "invalidate n order preserved_analyses table =
     foldl (\<lambda>t i. rbind t (\<lambda>t'. if i \<in> set preserved_analyses then Inr t' else invalidate_node n i t'))
       (Inr table) order"

definition invalidate_all :: "nat \<Rightarrow> nat list \<Rightarrow> 'r analysis_table \<Rightarrow> 'r analysis_table result" where
  "invalidate_all n order table = foldl (\<lambda>t i. rbind t (invalidate_node n i)) (Inr table) order"

type_synonym 'r transformation_pass =
  "expr \<Rightarrow> 'r analysis_table \<Rightarrow> (expr \<times> nat list \<times> 'r analysis_table) result"

fun pass_manager_run ::
  "nat \<Rightarrow> nat list \<Rightarrow> 'r transformation_pass list \<Rightarrow> expr \<Rightarrow> 'r analysis_table \<Rightarrow> (expr \<times> 'r analysis_table) result"
where
  "pass_manager_run n order [] e table = Inr (e, table)"
| "pass_manager_run n order (t # ts) e table =
     rbind (t e table) (\<lambda>(e', preserved, table').
     rbind (invalidate n order preserved table') (\<lambda>table''.
       pass_manager_run n order ts e' table''))"

section \<open>The graph\<close>

lemma emplace_passes_other:
  "i \<notin> fst ` set passes \<Longrightarrow> emplace_passes passes table i = table i"
  by (induction passes table rule: emplace_passes.induct) auto

lemma emplace_passes_eq:
  "distinct (map fst passes) \<Longrightarrow> \<forall>i \<in> fst ` set passes. table i = None \<Longrightarrow>
     emplace_passes passes table i = (case map_of passes i of Some req \<Rightarrow> Some (new_node req) | None \<Rightarrow> table i)"
proof (induction passes arbitrary: table)
  case (Cons p passes)
  obtain j req where p: "p = (j, req)" by (cases p)
  have "emplace_passes passes (table(j \<mapsto> new_node req)) i =
      (case map_of passes i of Some req \<Rightarrow> Some (new_node req) | None \<Rightarrow> (table(j \<mapsto> new_node req)) i)"
    by (rule Cons.IH) (use Cons.prems p in auto)
  moreover have "table j = None" "map_of passes j = None"
    using Cons.prems p by (auto simp: map_of_eq_None_iff)
  ultimately show ?case using p by (cases "i = j") (simp_all split: option.splits)
qed simp

definition deps :: "'r analysis_table \<Rightarrow> nat \<Rightarrow> nat list" where
  "deps table i = (case table i of Some node \<Rightarrow> dependents node | None \<Rightarrow> [])"

definition reqs :: "'r analysis_table \<Rightarrow> nat \<Rightarrow> nat list" where
  "reqs table i = (case table i of Some node \<Rightarrow> required_analyses node | None \<Rightarrow> [])"

lemma link_required_eq:
  "link_required i rs table = Inr table' \<Longrightarrow>
     dom table' = dom table \<and> set rs \<subseteq> dom table \<and> (\<forall>j. reqs table' j = reqs table j) \<and>
     (\<forall>j. set (deps table' j) = set (deps table j) \<union> (if j \<in> set rs then {i} else {}))"
proof (induction rs arbitrary: table)
  case (Cons r rs)
  then obtain node where node: "table r = Some node"
    "link_required i rs (table(r \<mapsto> add_dependent i node)) = Inr table'"
    by (auto split: option.splits)
  let ?t = "table(r \<mapsto> add_dependent i node)"
  have "dom ?t = dom table" "r \<in> dom table" using node(1) by auto
  moreover have "reqs ?t j = reqs table j" "deps ?t j = deps table j @ (if j = r then [i] else [])" for j
    using node(1) by (simp_all add: reqs_def deps_def add_dependent_def)
  ultimately show ?case using Cons.IH [OF node(2)] by (auto simp del: fun_upd_apply)
qed simp

lemma link_nodes_eq:
  "link_nodes is table = Inr table' \<Longrightarrow>
     dom table' = dom table \<and> (\<forall>j. reqs table' j = reqs table j) \<and>
     (\<forall>i \<in> set is. set (reqs table i) \<subseteq> dom table) \<and>
     (\<forall>j. set (deps table' j) = set (deps table j) \<union> {i \<in> set is. j \<in> set (reqs table i)})"
proof (induction "is" table arbitrary: table' rule: link_nodes.induct)
  case (2 i "is" table)
  show ?case
  proof (cases "table i")
    case None
    with 2 show ?thesis by (auto simp: reqs_def)
  next
    case (Some node)
    with "2.prems" obtain t where t: "link_required i (required_analyses node) table = Inr t" "link_nodes is t = Inr table'"
      by (auto simp: rbind_Inr_iff)
    have r: "required_analyses node = reqs table i" using Some by (simp add: reqs_def)
    from "2.IH" (2) [OF Some t] link_required_eq [OF t(1)] show ?thesis unfolding r by auto
  qed
qed simp

text \<open>C17. The constructor builds the graph of dependences: if it succeeds, every registered analysis has
  its node, every required analysis is registered, and the dependents of
  an analysis are exactly the analyses that require it.\<close>
theorem analysis_manager_graph:
  fixes table :: "'r analysis_table"
  assumes "distinct (map fst passes)" and "set order = fst ` set passes"
    and "analysis_manager passes order = Inr table"
  shows "dom table = fst ` set passes \<and>
    (\<forall>i req. (i, req) \<in> set passes \<longrightarrow> reqs table i = req \<and> set req \<subseteq> dom table) \<and>
    (\<forall>i j. i \<in> set (deps table j) \<longleftrightarrow> (\<exists>req. (i, req) \<in> set passes \<and> j \<in> set req))"
proof -
  let ?t = "emplace_passes passes (\<lambda>i. None) :: 'r analysis_table"
  have t: "?t i = map_option new_node (map_of passes i)" for i
    using emplace_passes_eq [OF assms(1), of "\<lambda>i. None" i] by (auto split: option.splits)
  have r: "reqs ?t i = (case map_of passes i of Some req \<Rightarrow> req | None \<Rightarrow> [])" for i
    by (simp add: reqs_def t new_node_def split: option.splits)
  have d: "deps ?t i = []" for i
    by (simp add: deps_def t new_node_def split: option.splits)
  have m: "map_of passes i = Some req \<longleftrightarrow> (i, req) \<in> set passes" for i req
    using assms(1) by simp
  have dom: "dom ?t = fst ` set passes" by (auto simp: dom_def t map_of_eq_None_iff)
  from link_nodes_eq [OF assms(3) [unfolded analysis_manager_def]]
  have l: "dom table = dom ?t" "\<And>j. reqs table j = reqs ?t j" "\<forall>i \<in> set order. set (reqs ?t i) \<subseteq> dom ?t"
    "\<And>j. set (deps table j) = {i \<in> set order. j \<in> set (reqs ?t i)}" by (simp_all add: d)
  have q: "reqs ?t i = req" if "(i, req) \<in> set passes" for i req
    using that m [of i req] by (simp add: r)
  show ?thesis
  proof (intro conjI allI impI)
    show "dom table = fst ` set passes" using l(1) dom by simp
  next
    fix i req assume *: "(i, req) \<in> set passes"
    then show "reqs table i = req" using l(2) q by simp
    show "set req \<subseteq> dom table" using l(1,3) q [OF *] assms(2) * by force
  next
    fix i j show "i \<in> set (deps table j) \<longleftrightarrow> (\<exists>req. (i, req) \<in> set passes \<and> j \<in> set req)"
      using l(4) q assms(2) by (force simp: image_iff)
  qed
qed

theorem analysis_manager_graph_witness:
  "\<exists>table :: nat analysis_table. analysis_manager [(0, []), (1, [0])] [1, 0] = Inr table \<and> deps table 0 = [1]"
proof -
  obtain table :: "nat analysis_table" where t: "analysis_manager [(0, []), (1, [0])] [1, 0] = Inr table"
    by (simp add: analysis_manager_def new_node_def add_dependent_def)
  from analysis_manager_graph [OF _ _ t] have "set (deps table 0) = {1}" by force
  moreover from t have "deps table 0 = [1]"
    by (auto simp: analysis_manager_def new_node_def add_dependent_def deps_def)
  ultimately show ?thesis using t by blast
qed

section \<open>Stale results\<close>

definition table_cached :: "'r analysis_table \<Rightarrow> nat \<Rightarrow> 'r option option" where
  "table_cached table i = map_option cached_result (table i)"

lemma invalidate_node_id:
  "(\<forall>i (t :: 'a analysis_table) t'. invalidate_node n i t = Inr t' \<longrightarrow> t' = t) \<and>
   (\<forall>is (t :: 'a analysis_table) t'. invalidate_nodes n is t = Inr t' \<longrightarrow> t' = t)"
proof (induction n)
  case 0
  have "invalidate_nodes 0 is t = Inr t' \<longrightarrow> t' = t" for "is" and t t' :: "'a analysis_table" by (cases "is") auto
  then show ?case by simp
next
  case (Suc n)
  have list: "t' = t" if "invalidate_nodes (Suc n) is t = Inr t'" for "is" and t t' :: "'a analysis_table"
  proof (cases "is")
    case (Cons i "is'")
    with that obtain t1 where "invalidate_node n i t = Inr t1" "invalidate_nodes n is' t1 = Inr t'"
      by (auto simp: rbind_Inr_iff)
    with Suc show ?thesis by metis
  qed (use that in simp)
  have "t' = t" if "invalidate_node (Suc n) i t = Inr t'" for i and t t' :: "'a analysis_table"
    using that Suc by (auto split: option.splits)
  with list show ?case by blast
qed

lemma invalidate_node_same: "invalidate_node n i t = Inr t' \<Longrightarrow> t' = t"
  using invalidate_node_id by blast

lemma invalidate_id: "invalidate n order preserved table = Inr table' \<Longrightarrow> table' = table"
  unfolding invalidate_def
proof (induction order arbitrary: table' rule: rev_induct)
  case (snoc i order)
  then obtain t where t: "foldl (\<lambda>t i. rbind t (\<lambda>t'. if i \<in> set preserved then Inr t' else invalidate_node n i t'))
      (Inr table) order = Inr t" "(if i \<in> set preserved then Inr t else invalidate_node n i t) = Inr table'"
    by (auto simp: rbind_Inr_iff)
  from snoc.IH [OF t(1)] t(2) invalidate_node_same [of n i t table'] show ?case by (auto split: if_splits)
qed simp

lemma get_analysis_dom:
  "(\<forall>i (t :: 'a analysis_table) r t'. get_analysis n run i e t = Inr (r, t') \<longrightarrow> dom t' = dom t) \<and>
   (\<forall>is (t :: 'a analysis_table) rs t'. get_analyses n run is e t = Inr (rs, t') \<longrightarrow> dom t' = dom t)"
proof (induction n)
  case 0
  have "get_analyses 0 run is e t = Inr (rs, t') \<longrightarrow> dom t' = dom t" for "is" rs and t t' :: "'a analysis_table" by (cases "is") auto
  then show ?case by simp
next
  case (Suc n)
  have upd: "dom (t'(i := map_option f (t' i))) = dom t'" for t' :: "'a analysis_table" and i f
    by (auto simp: dom_def)
  have one: "dom t' = dom t" if "get_analysis (Suc n) run i e t = Inr (r, t')"
    for i r and t t' :: "'a analysis_table"
  proof (cases "table_cached t i")
    case None
    then show ?thesis using that by (auto simp: table_cached_def split: option.splits)
  next
    case (Some c)
    then obtain node where node: "t i = Some node" "cached_result node = c"
      by (auto simp: table_cached_def split: option.splits)
    show ?thesis
    proof (cases c)
      case None
      with that node obtain rs t1 where "get_analyses n run (required_analyses node) e t = Inr (rs, t1)"
        "t' = t1(i := map_option (\<lambda>node'. node'\<lparr>cached_result := Some (run i rs e)\<rparr>) (t1 i))"
        by (auto simp: rbind_Inr_iff Let_def)
      with Suc upd show ?thesis by metis
    next
      case (Some r')
      with that node show ?thesis by simp
    qed
  qed
  have list: "dom t' = dom t" if "get_analyses (Suc n) run is e t = Inr (rs, t')"
    for "is" rs and t t' :: "'a analysis_table"
  proof (cases "is")
    case (Cons i "is'")
    with that obtain r t1 rs' where "get_analysis n run i e t = Inr (r, t1)" "get_analyses n run is' e t1 = Inr (rs', t')"
      by (auto simp: rbind_Inr_iff)
    with Suc show ?thesis by metis
  qed (use that in simp)
  from one list show ?case by blast
qed

lemma get_analyses_dom: "get_analyses n run is e t = Inr (rs, t') \<Longrightarrow> dom t' = dom t"
  using conjunct2 [OF get_analysis_dom [of n run e]] by simp

lemma get_analysis_caches:
  assumes "get_analysis n run i e table = Inr (r, table')"
  shows "\<exists>node. table' i = Some node \<and> cached_result node = Some r"
proof (cases n)
  case (Suc k)
  show ?thesis
  proof (cases "table i")
    case (Some node)
    show ?thesis
    proof (cases "cached_result node")
      case None
      with assms Suc Some obtain rs t where t: "get_analyses k run (required_analyses node) e table = Inr (rs, t)"
        "r = run i rs e" "table' = t(i := map_option (\<lambda>node'. node'\<lparr>cached_result := Some r\<rparr>) (t i))"
        by (auto simp: rbind_Inr_iff Let_def)
      have "dom t = dom table" by (rule get_analyses_dom [OF t(1)])
      then obtain node' where "t i = Some node'" using Some by (metis domIff not_Some_eq)
      then have "table' i = Some (node'\<lparr>cached_result := Some r\<rparr>)" unfolding t(3) by simp
      then show ?thesis by simp
    qed (use assms Suc Some in simp)
  qed (use assms Suc in simp)
qed (use assms in simp)

definition keeps_results :: "'r transformation_pass \<Rightarrow> bool" where
  "keeps_results t \<longleftrightarrow> (\<forall>e table e' ps table' i node r. t e table = Inr (e', ps, table') \<longrightarrow> table i = Some node \<longrightarrow>
     cached_result node = Some r \<longrightarrow> (\<exists>node'. table' i = Some node' \<and> cached_result node' = Some r))"

lemma pass_manager_run_keeps:
  "pass_manager_run n order ts e table = Inr (e', table') \<Longrightarrow> list_all keeps_results ts \<Longrightarrow>
     table i = Some node \<Longrightarrow> cached_result node = Some r \<Longrightarrow>
     \<exists>node'. table' i = Some node' \<and> cached_result node' = Some r"
proof (induction ts arbitrary: e table node)
  case (Cons t ts)
  then obtain e1 ps t1 t2 where *: "t e table = Inr (e1, ps, t1)" "invalidate n order ps t1 = Inr t2"
    "pass_manager_run n order ts e1 t2 = Inr (e', table')"
    by (auto simp: rbind_Inr_iff)
  obtain node1 where "t1 i = Some node1" "cached_result node1 = Some r"
    using Cons.prems *(1) by (fastforce simp: keeps_results_def)
  then have "t2 i = Some node1" "cached_result node1 = Some r" unfolding invalidate_id [OF *(2)] by simp_all
  moreover have "list_all keeps_results ts" using Cons.prems(2) by simp
  ultimately show ?case by (rule Cons.IH [OF *(3), rotated])
qed simp



end
