(* ===== verification/Isl.thy ===== *)
theory Isl
  imports Complex_Main Prelude
begin

text \<open>
  The interface to the integer set library isl (\<open>qubus/src/isl/*.cpp\<close> wraps it call by call).  The library is
  not part of the repository: its operations are the fields of a record the compiler's definitions take
  as an argument, and \<open>isl_laws\<close> states what its manual promises of them.  A point gives every
  parameter a value by its name, since isl aligns parameters by name, and every set dimension by position.
\<close>

datatype isl_dim_type = Isl_dim_param | Isl_dim_set

type_synonym point = "(string \<Rightarrow> int) \<times> int list"

record ('s, 'a, 'c, 't) isl =
  space_set_alloc :: "nat \<Rightarrow> nat \<Rightarrow> 's"
  set_dim_name :: "'s \<Rightarrow> isl_dim_type \<Rightarrow> nat \<Rightarrow> string \<Rightarrow> 's"
  find_dim_by_name :: "'s \<Rightarrow> isl_dim_type \<Rightarrow> string \<Rightarrow> int"
  aff_val_on_domain :: "'s \<Rightarrow> int \<Rightarrow> 'a"
  aff_var_on_domain :: "'s \<Rightarrow> isl_dim_type \<Rightarrow> nat \<Rightarrow> 'a"
  aff_add :: "'a \<Rightarrow> 'a \<Rightarrow> 'a"
  aff_sub :: "'a \<Rightarrow> 'a \<Rightarrow> 'a"
  aff_mul :: "'a \<Rightarrow> 'a \<Rightarrow> 'a"
  aff_div :: "'a \<Rightarrow> 'a \<Rightarrow> 'a"
  aff_neg :: "'a \<Rightarrow> 'a"
  aff_add_constant_si :: "'a \<Rightarrow> int \<Rightarrow> 'a"
  aff_mod_val :: "'a \<Rightarrow> rat \<Rightarrow> 'a"
  aff_is_cst :: "'a \<Rightarrow> bool"
  aff_get_constant_val :: "'a \<Rightarrow> rat"
  equality_from_aff :: "'a \<Rightarrow> 'c"
  inequality_from_aff :: "'a \<Rightarrow> 'c"
  set_universe :: "'s \<Rightarrow> 't"
  set_add_constraint :: "'t \<Rightarrow> 'c \<Rightarrow> 't"
  set_complement :: "'t \<Rightarrow> 't"
  set_union :: "'t \<Rightarrow> 't \<Rightarrow> 't"
  set_intersect :: "'t \<Rightarrow> 't \<Rightarrow> 't"
  set_simplify :: "'t \<Rightarrow> 't"
  set_apply_aff :: "'a \<Rightarrow> 't \<Rightarrow> 't"
  set_is_empty :: "'t \<Rightarrow> bool"

text \<open>What the objects of the library denote.\<close>

record ('s, 'a, 'c, 't) isl_meaning =
  dim_names :: "'s \<Rightarrow> isl_dim_type \<Rightarrow> string option list"
  value_at :: "'a \<Rightarrow> point \<Rightarrow> rat"
  satisfied :: "'c \<Rightarrow> point \<Rightarrow> bool"
  set_dim :: "'t \<Rightarrow> nat"
  set_member :: "'t \<Rightarrow> point \<Rightarrow> bool"

definition isl_space_laws :: "('s, 'a, 'c, 't) isl \<Rightarrow> ('s, 'a, 'c, 't) isl_meaning \<Rightarrow> bool" where
  "isl_space_laws I M \<longleftrightarrow>
     (\<forall>p q d. dim_names M (space_set_alloc I p q) d = replicate (case d of Isl_dim_param \<Rightarrow> p | Isl_dim_set \<Rightarrow> q) None) \<and>
     (\<forall>s d i n d'. dim_names M (set_dim_name I s d i n) d' =
        (if d = d' then (dim_names M s d)[i := Some n] else dim_names M s d')) \<and>
     (\<forall>s d n. find_dim_by_name I s d n = -1 \<and> Some n \<notin> set (dim_names M s d) \<or>
        (\<exists>i < length (dim_names M s d). find_dim_by_name I s d n = int i \<and> dim_names M s d ! i = Some n))"

text \<open>Affine expressions are rational; multiplication wants a constant operand, division a constant
  divisor; the remainder is the one of the floor.\<close>

definition isl_aff_laws :: "('s, 'a, 'c, 't) isl \<Rightarrow> ('s, 'a, 'c, 't) isl_meaning \<Rightarrow> bool" where
  "isl_aff_laws I M \<longleftrightarrow>
     (\<forall>s n x. value_at M (aff_val_on_domain I s n) x = of_int n) \<and>
     (\<forall>s n. aff_is_cst I (aff_val_on_domain I s n)) \<and>
     (\<forall>s i n v xs. i < length (dim_names M s Isl_dim_param) \<longrightarrow> dim_names M s Isl_dim_param ! i = Some n \<longrightarrow>
        value_at M (aff_var_on_domain I s Isl_dim_param i) (v, xs) = of_int (v n)) \<and>
     (\<forall>s i v xs. i < length (dim_names M s Isl_dim_set) \<longrightarrow> i < length xs \<longrightarrow>
        value_at M (aff_var_on_domain I s Isl_dim_set i) (v, xs) = of_int (xs ! i)) \<and>
     (\<forall>a b x. value_at M (aff_add I a b) x = value_at M a x + value_at M b x) \<and>
     (\<forall>a b x. value_at M (aff_sub I a b) x = value_at M a x - value_at M b x) \<and>
     (\<forall>a b x. aff_is_cst I a \<or> aff_is_cst I b \<longrightarrow> value_at M (aff_mul I a b) x = value_at M a x * value_at M b x) \<and>
     (\<forall>a b x. aff_is_cst I b \<and> value_at M b x \<noteq> 0 \<longrightarrow> value_at M (aff_div I a b) x = value_at M a x / value_at M b x) \<and>
     (\<forall>a x. value_at M (aff_neg I a) x = - value_at M a x) \<and>
     (\<forall>a n x. value_at M (aff_add_constant_si I a n) x = value_at M a x + of_int n) \<and>
     (\<forall>a n x. 0 < n \<longrightarrow> value_at M (aff_mod_val I a (of_int n)) x =
        value_at M a x - of_int n * of_int \<lfloor>value_at M a x / of_int n\<rfloor>) \<and>
     (\<forall>a x. aff_is_cst I a \<longrightarrow> aff_get_constant_val I a = value_at M a x)"

definition isl_set_laws :: "('s, 'a, 'c, 't) isl \<Rightarrow> ('s, 'a, 'c, 't) isl_meaning \<Rightarrow> bool" where
  "isl_set_laws I M \<longleftrightarrow>
     (\<forall>a x. satisfied M (equality_from_aff I a) x = (value_at M a x = 0)) \<and>
     (\<forall>a x. satisfied M (inequality_from_aff I a) x = (0 \<le> value_at M a x)) \<and>
     (\<forall>s v xs. set_member M (set_universe I s) (v, xs) = (length xs = length (dim_names M s Isl_dim_set))) \<and>
     (\<forall>s. set_dim M (set_universe I s) = length (dim_names M s Isl_dim_set)) \<and>
     (\<forall>t c x. set_member M (set_add_constraint I t c) x = (set_member M t x \<and> satisfied M c x)) \<and>
     (\<forall>t c. set_dim M (set_add_constraint I t c) = set_dim M t) \<and>
     (\<forall>t v xs. set_member M (set_complement I t) (v, xs) = (length xs = set_dim M t \<and> \<not> set_member M t (v, xs))) \<and>
     (\<forall>t. set_dim M (set_complement I t) = set_dim M t) \<and>
     (\<forall>t u. set_dim M t = set_dim M u \<longrightarrow>
        set_dim M (set_union I t u) = set_dim M t \<and> set_dim M (set_intersect I t u) = set_dim M t) \<and>
     (\<forall>t u x. set_dim M t = set_dim M u \<longrightarrow> set_member M (set_union I t u) x = (set_member M t x \<or> set_member M u x)) \<and>
     (\<forall>t u x. set_dim M t = set_dim M u \<longrightarrow> set_member M (set_intersect I t u) x = (set_member M t x \<and> set_member M u x)) \<and>
     (\<forall>t x. set_member M (set_simplify I t) x = set_member M t x) \<and>
     (\<forall>t. set_dim M (set_simplify I t) = set_dim M t) \<and>
     (\<forall>a t. set_dim M (set_apply_aff I a t) = 1) \<and>
     (\<forall>a t v y. set_member M (set_apply_aff I a t) (v, [y]) = (\<exists>xs. set_member M t (v, xs) \<and> value_at M a (v, xs) = of_int y)) \<and>
     (\<forall>t. set_is_empty I t = (\<forall>x. \<not> set_member M t x))"

definition isl_laws :: "('s, 'a, 'c, 't) isl \<Rightarrow> ('s, 'a, 'c, 't) isl_meaning \<Rightarrow> bool" where
  "isl_laws I M \<longleftrightarrow> isl_space_laws I M \<and> isl_aff_laws I M \<and> isl_set_laws I M"

lemma isl_space_lawsD:
  assumes "isl_laws I M"
  shows "dim_names M (space_set_alloc I p q) d = replicate (case d of Isl_dim_param \<Rightarrow> p | Isl_dim_set \<Rightarrow> q) None"
    and "dim_names M (set_dim_name I s d i n) d' = (if d = d' then (dim_names M s d)[i := Some n] else dim_names M s d')"
    and "find_dim_by_name I s d n = -1 \<and> Some n \<notin> set (dim_names M s d) \<or>
        (\<exists>i < length (dim_names M s d). find_dim_by_name I s d n = int i \<and> dim_names M s d ! i = Some n)"
proof -
  have laws: "isl_space_laws I M" using assms by (simp add: isl_laws_def)
  then show "dim_names M (space_set_alloc I p q) d = replicate (case d of Isl_dim_param \<Rightarrow> p | Isl_dim_set \<Rightarrow> q) None"
    "dim_names M (set_dim_name I s d i n) d' = (if d = d' then (dim_names M s d)[i := Some n] else dim_names M s d')"
    unfolding isl_space_laws_def by blast+
  from laws show "find_dim_by_name I s d n = -1 \<and> Some n \<notin> set (dim_names M s d) \<or>
        (\<exists>i < length (dim_names M s d). find_dim_by_name I s d n = int i \<and> dim_names M s d ! i = Some n)"
    unfolding isl_space_laws_def by blast
qed

lemma isl_aff_lawsD:
  assumes "isl_laws I M"
  shows "value_at M (aff_val_on_domain I s n) x = of_int n"
    and "aff_is_cst I (aff_val_on_domain I s n)"
    and "i < length (dim_names M s Isl_dim_param) \<Longrightarrow> dim_names M s Isl_dim_param ! i = Some m \<Longrightarrow>
      value_at M (aff_var_on_domain I s Isl_dim_param i) (v, xs) = of_int (v m)"
    and "i < length (dim_names M s Isl_dim_set) \<Longrightarrow> i < length xs \<Longrightarrow>
      value_at M (aff_var_on_domain I s Isl_dim_set i) (v, xs) = of_int (xs ! i)"
    and "value_at M (aff_add I a b) x = value_at M a x + value_at M b x"
    and "value_at M (aff_sub I a b) x = value_at M a x - value_at M b x"
    and "aff_is_cst I a \<or> aff_is_cst I b \<Longrightarrow> value_at M (aff_mul I a b) x = value_at M a x * value_at M b x"
    and "value_at M (aff_neg I a) x = - value_at M a x"
    and "value_at M (aff_add_constant_si I a n) x = value_at M a x + of_int n"
    and "0 < n \<Longrightarrow> value_at M (aff_mod_val I a (of_int n)) x =
      value_at M a x - of_int n * of_int \<lfloor>value_at M a x / of_int n\<rfloor>"
    and "aff_is_cst I a \<Longrightarrow> aff_get_constant_val I a = value_at M a x"
proof -
  have "isl_aff_laws I M" using assms by (simp add: isl_laws_def)
  note laws = this [unfolded isl_aff_laws_def]
  show "value_at M (aff_val_on_domain I s n) x = of_int n" "aff_is_cst I (aff_val_on_domain I s n)"
    "i < length (dim_names M s Isl_dim_param) \<Longrightarrow> dim_names M s Isl_dim_param ! i = Some m \<Longrightarrow>
      value_at M (aff_var_on_domain I s Isl_dim_param i) (v, xs) = of_int (v m)"
    "i < length (dim_names M s Isl_dim_set) \<Longrightarrow> i < length xs \<Longrightarrow>
      value_at M (aff_var_on_domain I s Isl_dim_set i) (v, xs) = of_int (xs ! i)"
    "value_at M (aff_add I a b) x = value_at M a x + value_at M b x"
    "value_at M (aff_sub I a b) x = value_at M a x - value_at M b x"
    "aff_is_cst I a \<or> aff_is_cst I b \<Longrightarrow> value_at M (aff_mul I a b) x = value_at M a x * value_at M b x"
    "value_at M (aff_neg I a) x = - value_at M a x"
    "value_at M (aff_add_constant_si I a n) x = value_at M a x + of_int n"
    "0 < n \<Longrightarrow> value_at M (aff_mod_val I a (of_int n)) x =
      value_at M a x - of_int n * of_int \<lfloor>value_at M a x / of_int n\<rfloor>"
    "aff_is_cst I a \<Longrightarrow> aff_get_constant_val I a = value_at M a x"
    by (use laws in metis)+
qed

lemma isl_set_lawsD:
  assumes "isl_laws I M"
  shows "satisfied M (equality_from_aff I a) x = (value_at M a x = 0)"
    and "satisfied M (inequality_from_aff I a) x = (0 \<le> value_at M a x)"
    and "set_member M (set_universe I s) (v, xs) = (length xs = length (dim_names M s Isl_dim_set))"
    and "set_dim M (set_universe I s) = length (dim_names M s Isl_dim_set)"
    and "set_member M (set_add_constraint I t c) x = (set_member M t x \<and> satisfied M c x)"
    and "set_dim M (set_add_constraint I t c) = set_dim M t"
    and "set_member M (set_complement I t) (v, xs) = (length xs = set_dim M t \<and> \<not> set_member M t (v, xs))"
    and "set_dim M (set_complement I t) = set_dim M t"
    and "set_dim M t = set_dim M u \<Longrightarrow> set_dim M (set_union I t u) = set_dim M u"
    and "set_dim M t = set_dim M u \<Longrightarrow> set_dim M (set_intersect I t u) = set_dim M u"
    and "set_dim M t = set_dim M u \<Longrightarrow> set_member M (set_union I t u) x = (set_member M t x \<or> set_member M u x)"
    and "set_dim M t = set_dim M u \<Longrightarrow> set_member M (set_intersect I t u) x = (set_member M t x \<and> set_member M u x)"
    and "set_member M (set_simplify I t) x = set_member M t x"
    and "set_dim M (set_simplify I t) = set_dim M t"
    and "set_dim M (set_apply_aff I a t) = 1"
    and "set_member M (set_apply_aff I a t) (v, [y]) = (\<exists>xs. set_member M t (v, xs) \<and> value_at M a (v, xs) = of_int y)"
    and "set_is_empty I t \<Longrightarrow> \<not> set_member M t x"
proof -
  have "isl_set_laws I M" using assms by (simp add: isl_laws_def)
  note laws = this [unfolded isl_set_laws_def]
  show "satisfied M (equality_from_aff I a) x = (value_at M a x = 0)"
    "satisfied M (inequality_from_aff I a) x = (0 \<le> value_at M a x)"
    "set_member M (set_universe I s) (v, xs) = (length xs = length (dim_names M s Isl_dim_set))"
    "set_dim M (set_universe I s) = length (dim_names M s Isl_dim_set)"
    "set_member M (set_add_constraint I t c) x = (set_member M t x \<and> satisfied M c x)"
    "set_dim M (set_add_constraint I t c) = set_dim M t"
    "set_member M (set_complement I t) (v, xs) = (length xs = set_dim M t \<and> \<not> set_member M t (v, xs))"
    "set_dim M (set_complement I t) = set_dim M t"
    "set_dim M t = set_dim M u \<Longrightarrow> set_dim M (set_union I t u) = set_dim M u"
    "set_dim M t = set_dim M u \<Longrightarrow> set_dim M (set_intersect I t u) = set_dim M u"
    "set_dim M t = set_dim M u \<Longrightarrow> set_member M (set_union I t u) x = (set_member M t x \<or> set_member M u x)"
    "set_dim M t = set_dim M u \<Longrightarrow> set_member M (set_intersect I t u) x = (set_member M t x \<and> set_member M u x)"
    "set_member M (set_simplify I t) x = set_member M t x"
    "set_dim M (set_simplify I t) = set_dim M t"
    "set_dim M (set_apply_aff I a t) = 1"
    "set_member M (set_apply_aff I a t) (v, [y]) = (\<exists>xs. set_member M t (v, xs) \<and> value_at M a (v, xs) = of_int y)"
    "set_is_empty I t \<Longrightarrow> \<not> set_member M t x"
    by (use laws in metis)+
qed

section \<open>An instance\<close>

text \<open>The laws can hold: objects as what they denote.  A constant carries its value.\<close>

type_synonym point_aff = "rat option \<times> (point \<Rightarrow> rat)"
type_synonym point_set = "nat \<times> (point \<Rightarrow> bool)"
type_synonym point_space = "string option list \<times> string option list"

fun position :: "string \<Rightarrow> string option list \<Rightarrow> int" where
  "position n [] = -1"
| "position n (m # ms) = (if m = Some n then 0 else let i = position n ms in if i = -1 then -1 else i + 1)"

fun aff_value :: "point_aff \<Rightarrow> point \<Rightarrow> rat" where
  "aff_value (Some c, a) p = c"
| "aff_value (None, a) p = a p"

fun lift2 :: "(rat \<Rightarrow> rat \<Rightarrow> rat) \<Rightarrow> point_aff \<Rightarrow> point_aff \<Rightarrow> point_aff" where
  "lift2 f a b =
     (case (fst a, fst b) of
        (Some x, Some y) \<Rightarrow> (Some (f x y), \<lambda>_. f x y)
      | _ \<Rightarrow> (None, \<lambda>p. f (aff_value a p) (aff_value b p)))"

fun const_value :: "point_aff \<Rightarrow> rat" where
  "const_value (Some c, _) = c"
| "const_value (None, a) = a ((\<lambda>_. 0), [])"

lemma aff_value_lift2: "aff_value (lift2 f a b) p = f (aff_value a p) (aff_value b p)"
  by (cases a; cases b) (auto split: option.splits)

declare lift2.simps [simp del]

definition point_isl :: "(point_space, point_aff, point \<Rightarrow> bool, point_set) isl" where
  "point_isl = \<lparr>
     space_set_alloc = (\<lambda>p q. (replicate p None, replicate q None)),
     set_dim_name = (\<lambda>(ps, qs) d i n. case d of Isl_dim_param \<Rightarrow> (ps[i := Some n], qs) | Isl_dim_set \<Rightarrow> (ps, qs[i := Some n])),
     find_dim_by_name = (\<lambda>(ps, qs) d n. position n (case d of Isl_dim_param \<Rightarrow> ps | Isl_dim_set \<Rightarrow> qs)),
     aff_val_on_domain = (\<lambda>s n. (Some (of_int n), \<lambda>_. of_int n)),
     aff_var_on_domain = (\<lambda>(ps, qs) d i. (None, \<lambda>(v, xs). case d of
       Isl_dim_param \<Rightarrow> (case ps ! i of Some n \<Rightarrow> of_int (v n) | None \<Rightarrow> 0) | Isl_dim_set \<Rightarrow> of_int (xs ! i))),
     aff_add = lift2 (+), aff_sub = lift2 (-), aff_mul = lift2 (*), aff_div = lift2 (/),
     aff_neg = (\<lambda>a. lift2 (-) (Some 0, \<lambda>_. 0) a),
     aff_add_constant_si = (\<lambda>a n. lift2 (+) a (Some (of_int n), \<lambda>_. of_int n)),
     aff_mod_val = (\<lambda>a m. lift2 (\<lambda>x m. x - m * of_int \<lfloor>x / m\<rfloor>) a (Some m, \<lambda>_. m)),
     aff_is_cst = (\<lambda>a. fst a \<noteq> None),
     aff_get_constant_val = const_value,
     equality_from_aff = (\<lambda>a p. aff_value a p = 0),
     inequality_from_aff = (\<lambda>a p. 0 \<le> aff_value a p),
     set_universe = (\<lambda>(ps, qs). (length qs, \<lambda>(v, xs). length xs = length qs)),
     set_add_constraint = (\<lambda>(n, t) c. (n, \<lambda>p. t p \<and> c p)),
     set_complement = (\<lambda>(n, t). (n, \<lambda>(v, xs). length xs = n \<and> \<not> t (v, xs))),
     set_union = (\<lambda>(n, t) (m, u). (n, \<lambda>p. t p \<or> u p)),
     set_intersect = (\<lambda>(n, t) (m, u). (n, \<lambda>p. n = m \<and> t p \<and> u p)),
     set_simplify = (\<lambda>t. t),
     set_apply_aff = (\<lambda>a (n, t). (1, \<lambda>(v, ys). \<exists>xs. t (v, xs) \<and> aff_value a (v, xs) = of_int (ys ! 0))),
     set_is_empty = (\<lambda>(n, t). \<forall>x. \<not> t x)\<rparr>"

definition point_meaning :: "(point_space, point_aff, point \<Rightarrow> bool, point_set) isl_meaning" where
  "point_meaning = \<lparr>
     dim_names = (\<lambda>(ps, qs) d. case d of Isl_dim_param \<Rightarrow> ps | Isl_dim_set \<Rightarrow> qs),
     value_at = aff_value, satisfied = (\<lambda>c. c), set_dim = fst, set_member = snd\<rparr>"

lemma position_spec:
  "position n ms = -1 \<and> Some n \<notin> set ms \<or> (\<exists>i < length ms. position n ms = int i \<and> ms ! i = Some n)"
proof (induction ms)
  case (Cons m ms)
  show ?case
  proof (cases "m = Some n \<or> position n ms = -1")
    case True
    with Cons show ?thesis by (auto simp: Let_def)
  next
    case False
    with Cons obtain i where "i < length ms" "position n ms = int i" "ms ! i = Some n" by auto
    with False show ?thesis by (intro disjI2 exI [of _ "Suc i"]) (simp add: Let_def)
  qed
qed simp

lemma point_isl_laws: "isl_laws point_isl point_meaning"
proof -
  have "isl_space_laws point_isl point_meaning"
    using position_spec
    by (auto simp: isl_space_laws_def point_isl_def point_meaning_def split: isl_dim_type.splits)
  moreover have "isl_aff_laws point_isl point_meaning"
    by (auto simp: isl_aff_laws_def point_isl_def point_meaning_def aff_value_lift2)
  moreover have "isl_set_laws point_isl point_meaning"
    by (auto simp: isl_set_laws_def point_isl_def point_meaning_def)
  ultimately show ?thesis by (simp add: isl_laws_def)
qed

end
