(* ===== verification/AffineConstraints.thy ===== *)
theory AffineConstraints
  imports Isl ExpressionEq AxiomAnalysis
begin

text \<open>
  Affine expressions and constraints (\<open>qubus/include/qubus/affine_constraints.hpp\<close>,
  \<open>qubus/src/affine_constraints.cpp\<close>): the context that names variables and invariant expressions,
  the construction of affine expressions and constraints from the intermediate representation and
  their conversion to isl.  The predicate for invariant expressions is a field of the context, isl the
  parameter \<open>I\<close>.
\<close>

section \<open>Affine expressions\<close>

datatype affine_term =
    Affine_expr_variable string
  | Affine_expr_constant string
  | Affine_literal int
  | Affine_binary binary_op_tag affine_term affine_term
  | Affine_unary unary_op_tag affine_term

text \<open>An affine expression refers to the context it belongs to.\<close>

record affine_expr =
  aff_expr :: affine_term
  aff_ctx :: nat

definition is_const :: "affine_expr \<Rightarrow> bool" where
  "is_const a = (case aff_expr a of Affine_expr_constant _ \<Rightarrow> True | Affine_literal _ \<Rightarrow> True | _ \<Rightarrow> False)"

definition is_variable :: "affine_expr \<Rightarrow> bool" where
  "is_variable a = (case aff_expr a of Affine_expr_variable _ \<Rightarrow> True | _ \<Rightarrow> False)"

definition get_variable_name :: "affine_expr \<Rightarrow> string result" where
  "get_variable_name a = (case aff_expr a of Affine_expr_variable n \<Rightarrow> Inr n | _ \<Rightarrow> Inl Thrown_int)"

definition affine_binary :: "binary_op_tag \<Rightarrow> affine_expr \<Rightarrow> affine_expr \<Rightarrow> affine_expr result" where
  "affine_binary t lhs rhs =
     (if aff_ctx lhs \<noteq> aff_ctx rhs then Inl Assertion_failed
      else Inr \<lparr>aff_expr = Affine_binary t (aff_expr lhs) (aff_expr rhs), aff_ctx = aff_ctx lhs\<rparr>)"

definition affine_add :: "affine_expr \<Rightarrow> affine_expr \<Rightarrow> affine_expr result" where
  "affine_add lhs rhs = affine_binary Plus lhs rhs"

definition affine_sub :: "affine_expr \<Rightarrow> affine_expr \<Rightarrow> affine_expr result" where
  "affine_sub lhs rhs = affine_binary Minus lhs rhs"

definition affine_mul :: "affine_expr \<Rightarrow> affine_expr \<Rightarrow> affine_expr result" where
  "affine_mul lhs rhs =
     (if \<not> (is_const lhs \<or> is_const rhs) then Inl Assertion_failed else affine_binary Multiplies lhs rhs)"

definition affine_div :: "affine_expr \<Rightarrow> affine_expr \<Rightarrow> affine_expr result" where
  "affine_div lhs rhs = (if \<not> is_const rhs then Inl Assertion_failed else affine_binary Divides lhs rhs)"

definition affine_mod :: "affine_expr \<Rightarrow> affine_expr \<Rightarrow> affine_expr result" where
  "affine_mod lhs rhs = (if \<not> is_const rhs then Inl Assertion_failed else affine_binary Modulus lhs rhs)"

definition affine_neg :: "affine_expr \<Rightarrow> affine_expr" where
  "affine_neg a = a\<lparr>aff_expr := Affine_unary Negate (aff_expr a)\<rparr>"

section \<open>The context\<close>

record affine_expr_context =
  ctx_address :: nat
  invariant_checker :: "expr \<Rightarrow> bool"
  free_variable_id :: nat
  variable_table :: "(variable_declaration \<times> string) list"
  free_constant_id :: nat
  constant_table :: "(expr \<times> string) list"

definition new_affine_expr_context :: "nat \<Rightarrow> (expr \<Rightarrow> bool) \<Rightarrow> affine_expr_context" where
  "new_affine_expr_context a checker =
     \<lparr>ctx_address = a, invariant_checker = checker, free_variable_id = 0, variable_table = [],
      free_constant_id = 0, constant_table = []\<rparr>"

definition declare_variable ::
  "variable_declaration \<Rightarrow> affine_expr_context \<Rightarrow> affine_expr \<times> affine_expr_context" where
  "declare_variable v ctx =
     (case find (\<lambda>entry. var_eq (fst entry) v) (variable_table ctx) of
        Some entry \<Rightarrow> (\<lparr>aff_expr = Affine_expr_variable (snd entry), aff_ctx = ctx_address ctx\<rparr>, ctx)
      | None \<Rightarrow>
          let name = ''i'' @ to_string (free_variable_id ctx)
          in (\<lparr>aff_expr = Affine_expr_variable name, aff_ctx = ctx_address ctx\<rparr>,
              ctx\<lparr>free_variable_id := free_variable_id ctx + 1,
                  variable_table := variable_table ctx @ [(v, name)]\<rparr>))"

definition define_constant ::
  "expr \<Rightarrow> affine_expr_context \<Rightarrow> affine_expr \<times> affine_expr_context" where
  "define_constant value ctx =
     (case find (\<lambda>entry. expr_eq (fst entry) value) (constant_table ctx) of
        Some entry \<Rightarrow> (\<lparr>aff_expr = Affine_expr_constant (snd entry), aff_ctx = ctx_address ctx\<rparr>, ctx)
      | None \<Rightarrow>
          let name = ''p'' @ to_string (free_constant_id ctx)
          in (\<lparr>aff_expr = Affine_expr_constant name, aff_ctx = ctx_address ctx\<rparr>,
              ctx\<lparr>free_constant_id := free_constant_id ctx + 1,
                  constant_table := constant_table ctx @ [(value, name)]\<rparr>))"

definition create_literal :: "int \<Rightarrow> affine_expr_context \<Rightarrow> affine_expr" where
  "create_literal n ctx = \<lparr>aff_expr = Affine_literal n, aff_ctx = ctx_address ctx\<rparr>"

definition lookup_variable :: "affine_expr_context \<Rightarrow> string \<Rightarrow> variable_declaration option" where
  "lookup_variable ctx name = map_option fst (find (\<lambda>entry. snd entry = name) (variable_table ctx))"

definition get_constant :: "affine_expr_context \<Rightarrow> string \<Rightarrow> expr option" where
  "get_constant ctx name = map_option fst (find (\<lambda>entry. snd entry = name) (constant_table ctx))"

section \<open>Construction from expressions\<close>

definition construct_binary ::
  "binary_op_tag \<Rightarrow> affine_expr \<Rightarrow> affine_expr \<Rightarrow> affine_expr option result" where
  "construct_binary t lhs rhs =
     (case t of
        Plus \<Rightarrow> rbind (affine_add lhs rhs) (\<lambda>a. Inr (Some a))
      | Minus \<Rightarrow> rbind (affine_sub lhs rhs) (\<lambda>a. Inr (Some a))
      | Multiplies \<Rightarrow>
          if \<not> is_const lhs \<and> \<not> is_const rhs then Inr None
          else rbind (affine_mul lhs rhs) (\<lambda>a. Inr (Some a))
      | Divides \<Rightarrow> if \<not> is_const rhs then Inr None else rbind (affine_div lhs rhs) (\<lambda>a. Inr (Some a))
      | Modulus \<Rightarrow> if \<not> is_const rhs then Inr None else rbind (affine_mod lhs rhs) (\<lambda>a. Inr (Some a))
      | _ \<Rightarrow> Inr None)"

fun try_construct_affine_expr ::
  "expr \<Rightarrow> affine_expr_context \<Rightarrow> (affine_expr option \<times> affine_expr_context) result" where
  "try_construct_affine_expr (Binary_operator_expr t l r) ctx =
     rbind (try_construct_affine_expr l ctx) (\<lambda>(lhs, ctx').
     rbind (try_construct_affine_expr r ctx') (\<lambda>(rhs, ctx'').
       case (lhs, rhs) of
         (Some a, Some b) \<Rightarrow> rbind (construct_binary t a b) (\<lambda>x. Inr (x, ctx''))
       | _ \<Rightarrow> Inr (None, ctx'')))"
| "try_construct_affine_expr (Unary_operator_expr t arg) ctx =
     rbind (try_construct_affine_expr arg ctx) (\<lambda>(a, ctx').
       case a of
         None \<Rightarrow> Inr (None, ctx')
       | Some x \<Rightarrow>
           (case t of Plus_u \<Rightarrow> Inr (Some x, ctx') | Negate \<Rightarrow> Inr (Some (affine_neg x), ctx') | _ \<Rightarrow> Inr (None, ctx')))"
| "try_construct_affine_expr (Integer_literal_expr n) ctx = Inr (Some (create_literal n ctx), ctx)"
| "try_construct_affine_expr (Variable_ref_expr v) ctx =
     (if type_neq (var_type v) Integer_t then Inr (None, ctx)
      else if \<not> invariant_checker ctx (Variable_ref_expr v)
           then (let (a, ctx') = declare_variable v ctx in Inr (Some a, ctx'))
           else (let (a, ctx') = define_constant (Variable_ref_expr v) ctx in Inr (Some a, ctx')))"
| "try_construct_affine_expr e ctx =
     (if invariant_checker ctx e
      then (let (a, ctx') = define_constant e ctx in Inr (Some a, ctx'))
      else Inr (None, ctx))"

section \<open>Constraints\<close>

datatype constraint_term =
    Constraint_compare binary_op_tag affine_expr affine_expr
  | Constraint_and constraint_term constraint_term
  | Constraint_or constraint_term constraint_term
  | Constraint_not constraint_term

record affine_constraint =
  con_expr :: constraint_term
  con_ctx :: nat

text \<open>\<open>equal_to\<close>, \<open>not_equal_to\<close>, \<open>less\<close>, \<open>greater\<close>, \<open>less_equal\<close> and \<open>greater_equal\<close>.\<close>

definition affine_compare :: "binary_op_tag \<Rightarrow> affine_expr \<Rightarrow> affine_expr \<Rightarrow> affine_constraint result" where
  "affine_compare t lhs rhs =
     (if aff_ctx lhs \<noteq> aff_ctx rhs then Inl Assertion_failed
      else Inr \<lparr>con_expr = Constraint_compare t lhs rhs, con_ctx = aff_ctx lhs\<rparr>)"

definition constraint_and :: "affine_constraint \<Rightarrow> affine_constraint \<Rightarrow> affine_constraint result" where
  "constraint_and lhs rhs =
     (if con_ctx lhs \<noteq> con_ctx rhs then Inl Assertion_failed
      else Inr \<lparr>con_expr = Constraint_and (con_expr lhs) (con_expr rhs), con_ctx = con_ctx lhs\<rparr>)"

definition constraint_or :: "affine_constraint \<Rightarrow> affine_constraint \<Rightarrow> affine_constraint result" where
  "constraint_or lhs rhs =
     (if con_ctx lhs \<noteq> con_ctx rhs then Inl Assertion_failed
      else Inr \<lparr>con_expr = Constraint_or (con_expr lhs) (con_expr rhs), con_ctx = con_ctx lhs\<rparr>)"

definition constraint_not :: "affine_constraint \<Rightarrow> affine_constraint" where
  "constraint_not arg = arg\<lparr>con_expr := Constraint_not (con_expr arg)\<rparr>"

definition relation_tag :: "binary_op_tag \<Rightarrow> bool" where
  "relation_tag t \<longleftrightarrow> t \<in> {Equal_to, Not_equal_to, Less, Greater, Less_equal, Greater_equal}"

fun try_extract_affine_constraint ::
  "expr \<Rightarrow> affine_expr_context \<Rightarrow> (affine_constraint option \<times> affine_expr_context) result" where
  "try_extract_affine_constraint (Binary_operator_expr t l r) ctx =
     (if relation_tag t then
        rbind (try_construct_affine_expr l ctx) (\<lambda>(lhs, ctx').
        rbind (try_construct_affine_expr r ctx') (\<lambda>(rhs, ctx'').
          case (lhs, rhs) of
            (Some a, Some b) \<Rightarrow> rbind (affine_compare t a b) (\<lambda>c. Inr (Some c, ctx''))
          | _ \<Rightarrow> Inr (None, ctx'')))
      else if t = Logical_and \<or> t = Logical_or then
        rbind (try_extract_affine_constraint l ctx) (\<lambda>(lhs, ctx').
        rbind (try_extract_affine_constraint r ctx') (\<lambda>(rhs, ctx'').
          case (lhs, rhs) of
            (Some a, Some b) \<Rightarrow>
              rbind (if t = Logical_and then constraint_and a b else constraint_or a b) (\<lambda>c. Inr (Some c, ctx''))
          | _ \<Rightarrow> Inr (None, ctx'')))
      else Inr (None, ctx))"
| "try_extract_affine_constraint (Unary_operator_expr t arg) ctx =
     (if t = Logical_not then
        rbind (try_extract_affine_constraint arg ctx) (\<lambda>(a, ctx').
          case a of None \<Rightarrow> Inr (None, ctx') | Some c \<Rightarrow> Inr (Some (constraint_not c), ctx'))
      else Inr (None, ctx))"
| "try_extract_affine_constraint e ctx = Inr (None, ctx)"

section \<open>Conversion to isl\<close>

fun name_dims :: "('s, 'a, 'c, 't) isl \<Rightarrow> isl_dim_type \<Rightarrow> nat \<Rightarrow> string list \<Rightarrow> 's \<Rightarrow> 's" where
  "name_dims I d pos [] s = s"
| "name_dims I d pos (n # ns) s = name_dims I d (pos + 1) ns (set_dim_name I s d pos n)"

definition construct_corresponding_space :: "('s, 'a, 'c, 't) isl \<Rightarrow> affine_expr_context \<Rightarrow> 's" where
  "construct_corresponding_space I ctx =
     name_dims I Isl_dim_set 0 (map snd (variable_table ctx))
       (name_dims I Isl_dim_param 0 (map snd (constant_table ctx))
         (space_set_alloc I (length (constant_table ctx)) (length (variable_table ctx))))"

definition dim_reference :: "('s, 'a, 'c, 't) isl \<Rightarrow> isl_dim_type \<Rightarrow> string \<Rightarrow> 's \<Rightarrow> 'a result" where
  "dim_reference I d name s =
     (let pos = find_dim_by_name I s d name
      in if pos < 0 then Inl Assertion_failed else Inr (aff_var_on_domain I s d (nat pos)))"

fun convert_to_isl_aff_expr :: "('s, 'a, 'c, 't) isl \<Rightarrow> affine_term \<Rightarrow> 's \<Rightarrow> 'a result" where
  "convert_to_isl_aff_expr I (Affine_binary t l r) s =
     rbind (convert_to_isl_aff_expr I l s) (\<lambda>lhs_expr.
     rbind (convert_to_isl_aff_expr I r s) (\<lambda>rhs_expr.
       case t of
         Plus \<Rightarrow> Inr (aff_add I lhs_expr rhs_expr)
       | Minus \<Rightarrow> Inr (aff_sub I lhs_expr rhs_expr)
       | Multiplies \<Rightarrow> Inr (aff_mul I lhs_expr rhs_expr)
       | Divides \<Rightarrow> Inr (aff_div I lhs_expr rhs_expr)
       | Modulus \<Rightarrow>
           if \<not> aff_is_cst I rhs_expr then Inl Assertion_failed
           else Inr (aff_mod_val I lhs_expr (aff_get_constant_val I rhs_expr))
       | _ \<Rightarrow> Inl Assertion_failed))"
| "convert_to_isl_aff_expr I (Affine_unary t a) s =
     rbind (convert_to_isl_aff_expr I a s) (\<lambda>arg_expr.
       case t of Plus_u \<Rightarrow> Inr arg_expr | Negate \<Rightarrow> Inr (aff_neg I arg_expr) | _ \<Rightarrow> Inl Assertion_failed)"
| "convert_to_isl_aff_expr I (Affine_literal n) s = Inr (aff_val_on_domain I s n)"
| "convert_to_isl_aff_expr I (Affine_expr_constant name) s = dim_reference I Isl_dim_param name s"
| "convert_to_isl_aff_expr I (Affine_expr_variable name) s = dim_reference I Isl_dim_set name s"

definition convert_compare :: "('s, 'a, 'c, 't) isl \<Rightarrow> binary_op_tag \<Rightarrow> 'a \<Rightarrow> 'a \<Rightarrow> 's \<Rightarrow> 't result" where
  "convert_compare I t lhs rhs s =
     (let true_domain = (\<lambda>c. set_add_constraint I (set_universe I s) c)
      in case t of
           Equal_to \<Rightarrow> Inr (true_domain (equality_from_aff I (aff_sub I lhs rhs)))
         | Not_equal_to \<Rightarrow> Inr (set_complement I (true_domain (equality_from_aff I (aff_sub I lhs rhs))))
         | Less \<Rightarrow> Inr (true_domain (inequality_from_aff I (aff_neg I (aff_add_constant_si I (aff_sub I lhs rhs) 1))))
         | Greater \<Rightarrow> Inr (true_domain (inequality_from_aff I (aff_add_constant_si I (aff_sub I lhs rhs) 1)))
         | Less_equal \<Rightarrow> Inr (true_domain (inequality_from_aff I (aff_neg I (aff_sub I lhs rhs))))
         | Greater_equal \<Rightarrow> Inr (true_domain (inequality_from_aff I (aff_sub I lhs rhs)))
         | _ \<Rightarrow> Inl No_case_applicable)"

fun convert_to_isl_set :: "('s, 'a, 'c, 't) isl \<Rightarrow> constraint_term \<Rightarrow> 's \<Rightarrow> 't result" where
  "convert_to_isl_set I (Constraint_compare t l r) s =
     rbind (convert_to_isl_aff_expr I (aff_expr l) s) (\<lambda>lhs_aff_expr.
     rbind (convert_to_isl_aff_expr I (aff_expr r) s) (\<lambda>rhs_aff_expr.
       convert_compare I t lhs_aff_expr rhs_aff_expr s))"
| "convert_to_isl_set I (Constraint_and l r) s =
     rbind (convert_to_isl_set I l s) (\<lambda>lhs_domain. rbind (convert_to_isl_set I r s) (\<lambda>rhs_domain.
       Inr (set_intersect I lhs_domain rhs_domain)))"
| "convert_to_isl_set I (Constraint_or l r) s =
     rbind (convert_to_isl_set I l s) (\<lambda>lhs_domain. rbind (convert_to_isl_set I r s) (\<lambda>rhs_domain.
       Inr (set_union I lhs_domain rhs_domain)))"
| "convert_to_isl_set I (Constraint_not a) s =
     rbind (convert_to_isl_set I a s) (\<lambda>arg_domain. Inr (set_complement I arg_domain))"

definition affine_expr_convert :: "('s, 'a, 'c, 't) isl \<Rightarrow> affine_expr_context \<Rightarrow> affine_expr \<Rightarrow> 'a result" where
  "affine_expr_convert I ctx a = convert_to_isl_aff_expr I (aff_expr a) (construct_corresponding_space I ctx)"

definition affine_constraint_convert ::
  "('s, 'a, 'c, 't) isl \<Rightarrow> affine_expr_context \<Rightarrow> affine_constraint \<Rightarrow> 't result" where
  "affine_constraint_convert I ctx c = convert_to_isl_set I (con_expr c) (construct_corresponding_space I ctx)"

section \<open>Invariants of the context\<close>

definition ctx_inv :: "affine_expr_context \<Rightarrow> bool" where
  "ctx_inv ctx \<longleftrightarrow>
     map snd (variable_table ctx) = map (\<lambda>k. ''i'' @ to_string k) [0..<free_variable_id ctx] \<and>
     map snd (constant_table ctx) = map (\<lambda>k. ''p'' @ to_string k) [0..<free_constant_id ctx]"

definition extends :: "affine_expr_context \<Rightarrow> affine_expr_context \<Rightarrow> bool" where
  "extends ctx ctx' \<longleftrightarrow> ctx_address ctx' = ctx_address ctx \<and>
     (\<exists>vs. variable_table ctx' = variable_table ctx @ vs) \<and> (\<exists>cs. constant_table ctx' = constant_table ctx @ cs)"

lemma ctx_inv_new [simp]: "ctx_inv (new_affine_expr_context a checker)"
  by (simp add: ctx_inv_def new_affine_expr_context_def)

lemma ctx_inv_distinct:
  assumes "ctx_inv ctx"
  shows "distinct (map snd (variable_table ctx))" "distinct (map snd (constant_table ctx))"
  using assms unfolding ctx_inv_def by (auto simp: distinct_map inj_on_def dest: to_string_inj)

lemma extends_refl [simp]: "extends ctx ctx"
  by (simp add: extends_def)

lemma extends_trans: "extends a b \<Longrightarrow> extends b c \<Longrightarrow> extends a c"
  by (auto simp: extends_def)

lemma extends_mono:
  assumes "extends a b"
  shows "set (variable_table a) \<subseteq> set (variable_table b)" "set (constant_table a) \<subseteq> set (constant_table b)"
    "ctx_address b = ctx_address a"
  using assms by (auto simp: extends_def)

lemma find_by_name: "distinct (map snd xs) \<Longrightarrow> (x, n) \<in> set xs \<Longrightarrow> find (\<lambda>entry. snd entry = n) xs = Some (x, n)"
  by (induction xs) force+

lemma lookup_variable_entry: "ctx_inv ctx \<Longrightarrow> (v, n) \<in> set (variable_table ctx) \<Longrightarrow> lookup_variable ctx n = Some v"
  using find_by_name [OF ctx_inv_distinct(1)] by (fastforce simp: lookup_variable_def)

lemma get_constant_entry: "ctx_inv ctx \<Longrightarrow> (e, n) \<in> set (constant_table ctx) \<Longrightarrow> get_constant ctx n = Some e"
  using find_by_name [OF ctx_inv_distinct(2)] by (fastforce simp: get_constant_def)

lemma find_SomeD: "find P xs = Some x \<Longrightarrow> P x \<and> x \<in> set xs"
  by (auto simp: find_Some_iff)

lemma declare_variable_step:
  assumes "declare_variable v ctx = (a, ctx')"
  shows "ctx_inv ctx \<Longrightarrow> ctx_inv ctx'" "extends ctx ctx'" "aff_ctx a = ctx_address ctx"
    "\<exists>n w. aff_expr a = Affine_expr_variable n \<and> (w, n) \<in> set (variable_table ctx') \<and> (w = v \<or> var_eq w v)"
proof -
  consider (new) "find (\<lambda>entry. var_eq (fst entry) v) (variable_table ctx) = None"
    | (old) w n where "find (\<lambda>entry. var_eq (fst entry) v) (variable_table ctx) = Some (w, n)" by fastforce
  then have "(ctx_inv ctx \<longrightarrow> ctx_inv ctx') \<and> extends ctx ctx' \<and> aff_ctx a = ctx_address ctx \<and>
    (\<exists>n w. aff_expr a = Affine_expr_variable n \<and> (w, n) \<in> set (variable_table ctx') \<and> (w = v \<or> var_eq w v))"
  proof cases
    case new
    with assms show ?thesis by (auto simp: declare_variable_def ctx_inv_def extends_def Let_def)
  next
    case old
    with assms find_SomeD [OF old] show ?thesis by (auto simp: declare_variable_def)
  qed
  then show "ctx_inv ctx \<Longrightarrow> ctx_inv ctx'" "extends ctx ctx'" "aff_ctx a = ctx_address ctx"
    "\<exists>n w. aff_expr a = Affine_expr_variable n \<and> (w, n) \<in> set (variable_table ctx') \<and> (w = v \<or> var_eq w v)"
    by blast+
qed

lemma define_constant_step:
  assumes "define_constant e ctx = (a, ctx')"
  shows "ctx_inv ctx \<Longrightarrow> ctx_inv ctx'" "extends ctx ctx'" "aff_ctx a = ctx_address ctx"
    "\<exists>n d. aff_expr a = Affine_expr_constant n \<and> (d, n) \<in> set (constant_table ctx') \<and> (d = e \<or> expr_eq d e)"
proof -
  consider (new) "find (\<lambda>entry. expr_eq (fst entry) e) (constant_table ctx) = None"
    | (old) d n where "find (\<lambda>entry. expr_eq (fst entry) e) (constant_table ctx) = Some (d, n)" by fastforce
  then have "(ctx_inv ctx \<longrightarrow> ctx_inv ctx') \<and> extends ctx ctx' \<and> aff_ctx a = ctx_address ctx \<and>
    (\<exists>n d. aff_expr a = Affine_expr_constant n \<and> (d, n) \<in> set (constant_table ctx') \<and> (d = e \<or> expr_eq d e))"
  proof cases
    case new
    with assms show ?thesis by (auto simp: define_constant_def ctx_inv_def extends_def Let_def)
  next
    case old
    with assms find_SomeD [OF old] show ?thesis by (auto simp: define_constant_def)
  qed
  then show "ctx_inv ctx \<Longrightarrow> ctx_inv ctx'" "extends ctx ctx'" "aff_ctx a = ctx_address ctx"
    "\<exists>n d. aff_expr a = Affine_expr_constant n \<and> (d, n) \<in> set (constant_table ctx') \<and> (d = e \<or> expr_eq d e)"
    by blast+
qed

fun is_atom :: "expr \<Rightarrow> bool" where
  "is_atom (Binary_operator_expr _ _ _) = False"
| "is_atom (Unary_operator_expr _ _) = False"
| "is_atom (Integer_literal_expr _) = False"
| "is_atom (Variable_ref_expr _) = False"
| "is_atom _ = True"

lemma construct_atom:
  "is_atom e \<Longrightarrow> try_construct_affine_expr e ctx =
     (if invariant_checker ctx e then (let (a, ctx') = define_constant e ctx in Inr (Some a, ctx')) else Inr (None, ctx))"
  by (cases e) simp_all

definition fresh_result :: "affine_expr_context \<Rightarrow> affine_expr option \<times> affine_expr_context \<Rightarrow> bool" where
  "fresh_result ctx res \<longleftrightarrow> extends ctx (snd res) \<and> (ctx_inv ctx \<longrightarrow> ctx_inv (snd res)) \<and>
     (\<forall>a. fst res = Some a \<longrightarrow> aff_ctx a = ctx_address ctx)"

lemma construct_binary_total:
  "aff_ctx a = aff_ctx b \<Longrightarrow> \<exists>x. construct_binary t a b = Inr x \<and> (\<forall>c. x = Some c \<longrightarrow> aff_ctx c = aff_ctx a)"
  by (auto simp: construct_binary_def affine_add_def affine_sub_def affine_mul_def affine_div_def affine_mod_def
      affine_binary_def split: binary_op_tag.splits)

lemma construct_total: "\<exists>res. try_construct_affine_expr e ctx = Inr res \<and> fresh_result ctx res"
proof (induction e arbitrary: ctx)
  case (Binary_operator_expr t l r)
  obtain x c1 where 1: "try_construct_affine_expr l ctx = Inr (x, c1)" "fresh_result ctx (x, c1)"
    using Binary_operator_expr.IH(1) [of ctx] by auto
  obtain y c2 where 2: "try_construct_affine_expr r c1 = Inr (y, c2)" "fresh_result c1 (y, c2)"
    using Binary_operator_expr.IH(2) [of c1] by auto
  have c: "fresh_result ctx (z, c2)" if "\<And>c. z = Some c \<Longrightarrow> aff_ctx c = ctx_address ctx" for z
    using 1(2) 2(2) extends_trans [of ctx c1 c2] that by (simp add: fresh_result_def)
  show ?case
  proof (cases "\<exists>a b. x = Some a \<and> y = Some b")
    case True
    then obtain a b where ab: "x = Some a" "y = Some b" by blast
    then have "aff_ctx a = aff_ctx b" "aff_ctx a = ctx_address ctx"
      using 1(2) 2(2) by (auto simp: fresh_result_def extends_def)
    then obtain z where z: "construct_binary t a b = Inr z" "\<And>c. z = Some c \<Longrightarrow> aff_ctx c = ctx_address ctx"
      using construct_binary_total [of a b t] by auto
    with 1(1) 2(1) ab have "try_construct_affine_expr (Binary_operator_expr t l r) ctx = Inr (z, c2)" by simp
    with c [OF z(2)] show ?thesis by blast
  next
    case False
    with 1(1) 2(1) have "try_construct_affine_expr (Binary_operator_expr t l r) ctx = Inr (None, c2)"
      by (auto split: option.splits)
    with c [of None] show ?thesis by auto
  qed
next
  case (Unary_operator_expr t e)
  obtain x c1 where 1: "try_construct_affine_expr e ctx = Inr (x, c1)" "fresh_result ctx (x, c1)"
    using Unary_operator_expr.IH [of ctx] by auto
  then show ?case
    by (cases x; cases t) (auto simp: fresh_result_def affine_neg_def)
next
  case (Integer_literal_expr n)
  then show ?case by (simp add: fresh_result_def create_literal_def)
next
  case (Variable_ref_expr v)
  then show ?case
    using declare_variable_step [of v ctx] define_constant_step [of "Variable_ref_expr v" ctx]
    by (auto simp: fresh_result_def split: prod.splits)
qed (use define_constant_step in \<open>fastforce simp: fresh_result_def construct_atom split: prod.splits\<close>)+

lemma construct_fresh:
  "try_construct_affine_expr e ctx = Inr (x, ctx') \<Longrightarrow> fresh_result ctx (x, ctx')"
  using construct_total [of e ctx] by auto

lemma construct_extends: "try_construct_affine_expr e ctx = Inr (x, ctx') \<Longrightarrow> extends ctx ctx'"
  and construct_inv: "try_construct_affine_expr e ctx = Inr (x, ctx') \<Longrightarrow> ctx_inv ctx \<Longrightarrow> ctx_inv ctx'"
  and construct_ctx: "try_construct_affine_expr e ctx = Inr (Some a, ctx') \<Longrightarrow> aff_ctx a = ctx_address ctx"
  using construct_fresh by (fastforce simp: fresh_result_def)+

section \<open>The value of an affine expression\<close>

text \<open>Integer expressions over atoms: variables and whatever else the invariant checker accepts.\<close>

fun eval_atoms :: "(expr \<Rightarrow> int) \<Rightarrow> expr \<Rightarrow> int result" where
  "eval_atoms val (Binary_operator_expr t l r) =
     rbind (eval_atoms val l) (\<lambda>a. rbind (eval_atoms val r) (\<lambda>b. eval_binary t a b))"
| "eval_atoms val (Unary_operator_expr t a) = rbind (eval_atoms val a) (\<lambda>x. eval_unary t x)"
| "eval_atoms val (Integer_literal_expr n) = Inr n"
| "eval_atoms val e = Inr (val e)"

text \<open>An affine expression is read back through the tables of its context.\<close>

fun eval_term :: "affine_expr_context \<Rightarrow> (expr \<Rightarrow> int) \<Rightarrow> affine_term \<Rightarrow> int result" where
  "eval_term ctx val (Affine_expr_variable n) =
     (case lookup_variable ctx n of Some v \<Rightarrow> Inr (val (Variable_ref_expr v)) | None \<Rightarrow> Inl Thrown_int)"
| "eval_term ctx val (Affine_expr_constant n) =
     (case get_constant ctx n of Some e \<Rightarrow> Inr (val e) | None \<Rightarrow> Inl Thrown_int)"
| "eval_term ctx val (Affine_literal n) = Inr n"
| "eval_term ctx val (Affine_binary t l r) =
     rbind (eval_term ctx val l) (\<lambda>a. rbind (eval_term ctx val r) (\<lambda>b. eval_binary t a b))"
| "eval_term ctx val (Affine_unary t a) = rbind (eval_term ctx val a) (\<lambda>x. eval_unary t x)"

definition respects_eq :: "(expr \<Rightarrow> int) \<Rightarrow> bool" where
  "respects_eq val \<longleftrightarrow> (\<forall>a b. expr_eq a b \<longrightarrow> val a = val b)"

lemma respects_var: "respects_eq val \<Longrightarrow> var_eq v w \<Longrightarrow> val (Variable_ref_expr v) = val (Variable_ref_expr w)"
  by (simp add: respects_eq_def)

lemma declare_variable_value:
  assumes "declare_variable v ctx = (a, ctx')" and "extends ctx' c" and "ctx_inv c" and "respects_eq val"
  shows "\<exists>w n. aff_expr a = Affine_expr_variable n \<and> (w, n) \<in> set (variable_table c) \<and>
    val (Variable_ref_expr w) = val (Variable_ref_expr v)"
  using declare_variable_step(4) [OF assms(1)] extends_mono(1) [OF assms(2)] respects_var [OF assms(4)] by blast

lemma define_constant_value:
  assumes "define_constant e ctx = (a, ctx')" and "extends ctx' c" and "ctx_inv c" and "respects_eq val"
  shows "\<exists>d n. aff_expr a = Affine_expr_constant n \<and> (d, n) \<in> set (constant_table c) \<and> val d = val e"
  using define_constant_step(4) [OF assms(1)] extends_mono(2) [OF assms(2)] assms(4)
  unfolding respects_eq_def by blast

lemma construct_binary_Some:
  "construct_binary t a b = Inr (Some c) \<Longrightarrow> aff_expr c = Affine_binary t (aff_expr a) (aff_expr b)"
  by (auto simp: construct_binary_def affine_add_def affine_sub_def affine_mul_def affine_div_def affine_mod_def
      affine_binary_def rbind_Inr_iff split: binary_op_tag.splits if_splits)

lemma construct_binary_cases:
  assumes "try_construct_affine_expr (Binary_operator_expr t l r) ctx = Inr (Some a, ctx')"
  obtains x c1 y where "try_construct_affine_expr l ctx = Inr (Some x, c1)"
    "try_construct_affine_expr r c1 = Inr (Some y, ctx')" "construct_binary t x y = Inr (Some a)"
  using assms by (auto simp: rbind_Inr_iff split: option.splits prod.splits)

lemma construct_unary_cases:
  assumes "try_construct_affine_expr (Unary_operator_expr t e) ctx = Inr (Some a, ctx')"
  obtains x where "try_construct_affine_expr e ctx = Inr (Some x, ctx')"
    "t = Plus_u \<and> a = x \<or> t = Negate \<and> a = affine_neg x"
  using assms by (cases t) (auto simp: rbind_Inr_iff split: option.splits prod.splits)

lemma construct_variable_cases:
  assumes "try_construct_affine_expr (Variable_ref_expr v) ctx = Inr (Some a, ctx')"
  obtains "declare_variable v ctx = (a, ctx')" | "define_constant (Variable_ref_expr v) ctx = (a, ctx')"
  using assms by (auto split: if_splits prod.splits)

lemma construct_atom_cases:
  assumes "is_atom e" and "try_construct_affine_expr e ctx = Inr (Some a, ctx')"
  shows "define_constant e ctx = (a, ctx')"
  using assms by (auto simp: construct_atom split: if_splits prod.splits)

lemma eval_atoms_atom: "is_atom e \<Longrightarrow> eval_atoms val e = Inr (val e)"
  by (cases e) simp_all

lemma construct_value_atom:
  assumes "respects_eq val" and "is_atom e" and "try_construct_affine_expr e ctx = Inr (Some a, ctx')"
    and "extends ctx' c" and "ctx_inv c"
  shows "eval_term c val (aff_expr a) = eval_atoms val e"
proof -
  obtain d n where "aff_expr a = Affine_expr_constant n" "(d, n) \<in> set (constant_table c)" "val d = val e"
    using define_constant_value [OF construct_atom_cases [OF assms(2,3)] assms(4,5,1)] by blast
  with get_constant_entry [OF assms(5)] show ?thesis by (simp add: eval_atoms_atom [OF assms(2)])
qed

lemma construct_value:
  assumes "respects_eq val"
  shows "try_construct_affine_expr e ctx = Inr (Some a, ctx') \<Longrightarrow> extends ctx' c \<Longrightarrow> ctx_inv c \<Longrightarrow>
    eval_term c val (aff_expr a) = eval_atoms val e"
proof (induction e arbitrary: ctx ctx' a)
  case (Binary_operator_expr t l r)
  obtain x c1 y where *: "try_construct_affine_expr l ctx = Inr (Some x, c1)"
    "try_construct_affine_expr r c1 = Inr (Some y, ctx')" "construct_binary t x y = Inr (Some a)"
    using construct_binary_cases [OF Binary_operator_expr.prems(1)] .
  have "extends c1 c" using construct_extends [OF *(2)] Binary_operator_expr.prems(2) extends_trans by blast
  with Binary_operator_expr.IH(1) [OF *(1)] Binary_operator_expr.IH(2) [OF *(2)] Binary_operator_expr.prems
  show ?case by (simp add: construct_binary_Some [OF *(3)])
next
  case (Unary_operator_expr t e)
  obtain x where *: "try_construct_affine_expr e ctx = Inr (Some x, ctx')"
    "t = Plus_u \<and> a = x \<or> t = Negate \<and> a = affine_neg x"
    using construct_unary_cases [OF Unary_operator_expr.prems(1)] .
  with Unary_operator_expr.IH [OF *(1)] Unary_operator_expr.prems show ?case
    by (cases "eval_atoms val e") (auto simp: affine_neg_def)
next
  case (Integer_literal_expr n)
  then show ?case by (auto simp: create_literal_def)
next
  case (Variable_ref_expr v)
  from Variable_ref_expr.prems(1) show ?case
  proof (cases rule: construct_variable_cases)
    case 1
    from declare_variable_value [OF 1 Variable_ref_expr.prems(2,3) assms]
    show ?thesis using lookup_variable_entry [OF Variable_ref_expr.prems(3)] by force
  next
    case 2
    from define_constant_value [OF 2 Variable_ref_expr.prems(2,3) assms]
    show ?thesis using get_constant_entry [OF Variable_ref_expr.prems(3)] by force
  qed
qed (rule construct_value_atom [OF assms]; simp)+

text \<open>C6. Constructing an affine expression never fails with an error and keeps the value: read back through
  the tables of the context, also after the context has grown, the affine expression evaluates, traps
  of 64-bit arithmetic included, like the expression it was made from.\<close>
theorem affine_expr_value:
  assumes "ctx_inv ctx" and "respects_eq val"
  shows "\<exists>x ctx'. try_construct_affine_expr e ctx = Inr (x, ctx') \<and> ctx_inv ctx' \<and> extends ctx ctx' \<and>
    (\<forall>a c. x = Some a \<and> extends ctx' c \<and> ctx_inv c \<longrightarrow> eval_term c val (aff_expr a) = eval_atoms val e)"
proof -
  obtain x ctx' where *: "try_construct_affine_expr e ctx = Inr (x, ctx')" "fresh_result ctx (x, ctx')"
    using construct_total [of e ctx] by auto
  with construct_value [OF assms(2), of e ctx _ ctx'] assms(1) show ?thesis by (auto simp: fresh_result_def)
qed

theorem affine_expr_value_witness:
  "\<exists>a ctx'. try_construct_affine_expr
       (Binary_operator_expr Plus (Variable_ref_expr \<lparr>var_id = 0, var_name = ''i'', var_type = Integer_t\<rparr>) (Integer_literal_expr 1))
       (new_affine_expr_context 0 (\<lambda>e. False)) = Inr (Some a, ctx') \<and>
     eval_term ctx' (\<lambda>e. 4) (aff_expr a) = Inr 5"
proof -
  let ?e = "Binary_operator_expr Plus (Variable_ref_expr \<lparr>var_id = 0, var_name = ''i'', var_type = Integer_t\<rparr>) (Integer_literal_expr 1)"
  have val: "respects_eq (\<lambda>e. 4)" by (simp add: respects_eq_def)
  have "\<exists>a ctx'. try_construct_affine_expr ?e (new_affine_expr_context 0 (\<lambda>e. False)) = Inr (Some a, ctx')"
    by (simp add: type_neq_def declare_variable_def new_affine_expr_context_def create_literal_def construct_binary_def
        affine_add_def affine_binary_def Let_def)
  then obtain a ctx' where 1: "try_construct_affine_expr ?e (new_affine_expr_context 0 (\<lambda>e. False)) = Inr (Some a, ctx')" by blast
  from affine_expr_value [of "new_affine_expr_context 0 (\<lambda>e. False)" "\<lambda>e. 4" ?e] val 1
  have "eval_term ctx' (\<lambda>e. 4) (aff_expr a) = eval_atoms (\<lambda>e. 4) ?e" by auto
  with 1 show ?thesis by (auto simp: i64_simps)
qed

end
