(* ===== verification/AffineSets.thy ===== *)
theory AffineSets
  imports AffineConstraints
begin

text \<open>
  What the isl objects made from affine expressions and constraints mean (\<open>convert_to_isl_aff_expr\<close>,
  \<open>convert_to_isl_set\<close> in \<open>qubus/src/affine_constraints.cpp\<close>), under the laws of isl: a linear expression
  converts to an object with its value, a constraint to a set that holds the points it is true at.
\<close>

section \<open>The space of a context\<close>

lemma name_dims_names:
  assumes "isl_laws I M"
  shows "dim_names M s d = map Some ms @ replicate (length ns) None \<Longrightarrow> length ms = pos \<Longrightarrow>
    dim_names M (name_dims I d pos ns s) d = map Some (ms @ ns) \<and>
    (\<forall>d'. d' \<noteq> d \<longrightarrow> dim_names M (name_dims I d pos ns s) d' = dim_names M s d')"
proof (induction ns arbitrary: pos s ms)
  case (Cons n ns)
  let ?s = "set_dim_name I s d pos n"
  have "dim_names M ?s d = map Some (ms @ [n]) @ replicate (length ns) None"
    using Cons.prems by (simp add: isl_space_lawsD(2) [OF assms] list_update_append)
  from Cons.IH [OF this] Cons.prems show ?case by (simp add: isl_space_lawsD(2) [OF assms])
qed simp

lemma space_names:
  assumes "isl_laws I M"
  shows "dim_names M (construct_corresponding_space I c) Isl_dim_param = map Some (map snd (constant_table c))"
    and "dim_names M (construct_corresponding_space I c) Isl_dim_set = map Some (map snd (variable_table c))"
proof -
  let ?s0 = "space_set_alloc I (length (constant_table c)) (length (variable_table c))"
  let ?s1 = "name_dims I Isl_dim_param 0 (map snd (constant_table c)) ?s0"
  have 1: "dim_names M ?s1 Isl_dim_param = map Some (map snd (constant_table c))"
    "dim_names M ?s1 Isl_dim_set = replicate (length (variable_table c)) None"
    using name_dims_names [OF assms, of ?s0 Isl_dim_param "[]" "map snd (constant_table c)" 0]
    by (simp_all add: isl_space_lawsD(1) [OF assms])
  then show "dim_names M (construct_corresponding_space I c) Isl_dim_param = map Some (map snd (constant_table c))"
    "dim_names M (construct_corresponding_space I c) Isl_dim_set = map Some (map snd (variable_table c))"
    using name_dims_names [OF assms, of ?s1 Isl_dim_set "[]" "map snd (variable_table c)" 0]
    by (simp_all add: construct_corresponding_space_def)
qed

text \<open>The point a valuation of atoms selects: its parameters and its dimensions.\<close>

definition models_constants :: "(string \<Rightarrow> int) \<Rightarrow> affine_expr_context \<Rightarrow> (expr \<Rightarrow> int) \<Rightarrow> bool" where
  "models_constants ps c val \<longleftrightarrow> (\<forall>(e, n) \<in> set (constant_table c). ps n = val e)"

definition var_values :: "affine_expr_context \<Rightarrow> (expr \<Rightarrow> int) \<Rightarrow> int list" where
  "var_values c val = map (\<lambda>entry. val (Variable_ref_expr (fst entry))) (variable_table c)"

definition constant_values :: "affine_expr_context \<Rightarrow> (expr \<Rightarrow> int) \<Rightarrow> string \<Rightarrow> int" where
  "constant_values c val n = (case get_constant c n of Some e \<Rightarrow> val e | None \<Rightarrow> 0)"

lemma models_constant_values: "ctx_inv c \<Longrightarrow> models_constants (constant_values c val) c val"
  by (auto simp: models_constants_def constant_values_def get_constant_entry)

lemma models_extends: "extends c c' \<Longrightarrow> models_constants ps c' val \<Longrightarrow> models_constants ps c val"
  using extends_mono(2) [of c c'] by (auto simp: models_constants_def)

lemma dim_reference_variable:
  assumes "isl_laws I M" and "ctx_inv c" and "(v, n) \<in> set (variable_table c)"
  shows "\<exists>A. dim_reference I Isl_dim_set n (construct_corresponding_space I c) = Inr A \<and>
    value_at M A (ps, var_values c val) = of_int (val (Variable_ref_expr v))"
proof -
  let ?s = "construct_corresponding_space I c"
  have "Some n \<in> set (dim_names M ?s Isl_dim_set)" using assms(3) by (force simp: space_names [OF assms(1)])
  then obtain i where i: "i < length (variable_table c)" "find_dim_by_name I ?s Isl_dim_set n = int i"
    "snd (variable_table c ! i) = n"
    using isl_space_lawsD(3) [OF assms(1), of ?s Isl_dim_set n] by (auto simp: space_names [OF assms(1)])
  obtain j where j: "j < length (variable_table c)" "variable_table c ! j = (v, n)" using assms(3) by (auto simp: in_set_conv_nth)
  have "i = j" using nth_eq_iff_index_eq [OF ctx_inv_distinct(1) [OF assms(2)], of i j] i j by simp
  moreover have "value_at M (aff_var_on_domain I ?s Isl_dim_set i) (ps, var_values c val) = of_int (var_values c val ! i)"
    by (rule isl_aff_lawsD(4) [OF assms(1)]) (use i in \<open>simp_all add: space_names [OF assms(1)] var_values_def\<close>)
  ultimately show ?thesis using i j by (simp add: dim_reference_def var_values_def)
qed

lemma dim_reference_constant:
  assumes "isl_laws I M" and "ctx_inv c" and "(e, n) \<in> set (constant_table c)" and "models_constants ps c val"
  shows "\<exists>A. dim_reference I Isl_dim_param n (construct_corresponding_space I c) = Inr A \<and>
    value_at M A (ps, xs) = of_int (val e)"
proof -
  let ?s = "construct_corresponding_space I c"
  have "Some n \<in> set (dim_names M ?s Isl_dim_param)" using assms(3) by (force simp: space_names [OF assms(1)])
  then obtain i where i: "i < length (constant_table c)" "find_dim_by_name I ?s Isl_dim_param n = int i"
    "snd (constant_table c ! i) = n"
    using isl_space_lawsD(3) [OF assms(1), of ?s Isl_dim_param n] by (auto simp: space_names [OF assms(1)])
  have "value_at M (aff_var_on_domain I ?s Isl_dim_param i) (ps, xs) = of_int (ps n)"
    by (rule isl_aff_lawsD(3) [OF assms(1)]) (use i in \<open>simp_all add: space_names [OF assms(1)]\<close>)
  moreover have "ps n = val e" using assms(3,4) by (auto simp: models_constants_def)
  ultimately show ?thesis using i by (simp add: dim_reference_def)
qed

section \<open>Linear expressions\<close>

text \<open>What isl can represent: products with a literal, remainders of non-negative values by a positive
  literal, no division (isl's is exact, the code's truncates).\<close>

fun is_literal :: "expr \<Rightarrow> bool" where
  "is_literal (Integer_literal_expr _) = True"
| "is_literal _ = False"

fun linear_expr :: "(expr \<Rightarrow> int) \<Rightarrow> expr \<Rightarrow> bool" where
  "linear_expr val (Binary_operator_expr t l r) =
     (linear_expr val l \<and> linear_expr val r \<and>
      (case t of
         Plus \<Rightarrow> True
       | Minus \<Rightarrow> True
       | Multiplies \<Rightarrow> is_literal l \<or> is_literal r
       | Modulus \<Rightarrow>
           (case r of
              Integer_literal_expr n \<Rightarrow> 0 < n \<and> (case eval_atoms val l of Inr v \<Rightarrow> 0 \<le> v | Inl _ \<Rightarrow> True)
            | _ \<Rightarrow> False)
       | _ \<Rightarrow> False))"
| "linear_expr val (Unary_operator_expr t a) = linear_expr val a"
| "linear_expr val e = True"

definition represents ::
  "('s, 'a, 'c, 't) isl \<Rightarrow> ('s, 'a, 'c, 't) isl_meaning \<Rightarrow> (expr \<Rightarrow> int) \<Rightarrow> point \<Rightarrow> expr \<Rightarrow> 'a \<Rightarrow> bool" where
  "represents I M val p e A \<longleftrightarrow>
     (\<forall>v. eval_atoms val e = Inr v \<longrightarrow> value_at M A p = of_int v) \<and> (is_literal e \<longrightarrow> aff_is_cst I A)"

lemma rat_mod: "0 < n \<Longrightarrow> (of_int l :: rat) - of_int n * of_int \<lfloor>of_int l / of_int n :: rat\<rfloor> = of_int (l mod n)"
proof -
  have "\<lfloor>(of_int l :: rat) / of_int n\<rfloor> = l div n" by (rule floor_divide_of_int_eq)
  then show "(of_int l :: rat) - of_int n * of_int \<lfloor>of_int l / of_int n :: rat\<rfloor> = of_int (l mod n)"
    by (simp flip: of_int_mult of_int_diff add: minus_mult_div_eq_mod)
qed

lemma represents_literal:
  assumes "isl_laws I M" and "represents I M val p (Integer_literal_expr n) A"
  shows "aff_is_cst I A" "aff_get_constant_val I A = of_int n"
  using assms isl_aff_lawsD(11) [OF assms(1), of A p] by (simp_all add: represents_def)

lemma represents_binary:
  assumes laws: "isl_laws I M" and l: "represents I M val p l A" and r: "represents I M val p r B"
    and lin: "linear_expr val (Binary_operator_expr t l r)"
  shows "\<exists>C. (case t of
         Plus \<Rightarrow> Inr (aff_add I A B)
       | Minus \<Rightarrow> Inr (aff_sub I A B)
       | Multiplies \<Rightarrow> Inr (aff_mul I A B)
       | Divides \<Rightarrow> Inr (aff_div I A B)
       | Modulus \<Rightarrow>
           if \<not> aff_is_cst I B then Inl Assertion_failed
           else Inr (aff_mod_val I A (aff_get_constant_val I B))
       | _ \<Rightarrow> Inl Assertion_failed) = Inr C \<and> represents I M val p (Binary_operator_expr t l r) C"
proof (cases t)
  case Plus
  with l r show ?thesis by (auto simp: represents_def rbind_Inr_iff checked_i64_Inr isl_aff_lawsD [OF laws])
next
  case Minus
  with l r show ?thesis by (auto simp: represents_def rbind_Inr_iff checked_i64_Inr isl_aff_lawsD [OF laws])
next
  case Multiplies
  then have "aff_is_cst I A \<or> aff_is_cst I B" using lin l r by (auto simp: represents_def)
  then have "value_at M (aff_mul I A B) p = value_at M A p * value_at M B p" by (rule isl_aff_lawsD(7) [OF laws])
  with l r Multiplies show ?thesis by (auto simp: represents_def rbind_Inr_iff checked_i64_Inr)
next
  case Modulus
  with lin obtain n where n: "r = Integer_literal_expr n" "0 < n" by (auto split: expr.splits)
  have B: "aff_is_cst I B" "aff_get_constant_val I B = of_int n"
    using represents_literal [OF laws r [unfolded n(1)]] by blast+
  have "value_at M (aff_mod_val I A (of_int n)) p = of_int (x smod n)" if x: "eval_atoms val l = Inr x" for x
  proof -
    have "0 \<le> x" using lin Modulus n x by simp
    then show ?thesis
      using isl_aff_lawsD(10) [OF laws n(2), of A p] l x rat_mod [OF n(2), of x]
      by (simp add: represents_def smod_nonneg_int n(2))
  qed
  with Modulus B n(1) show ?thesis
    by (auto simp: represents_def rbind_Inr_iff i64_mod_def split: if_splits)
qed (use lin in simp_all)

lemma convert_atom_represents:
  assumes "isl_laws I M" and "respects_eq val" and "is_atom e"
    and "try_construct_affine_expr e ctx = Inr (Some a, ctx')" and "extends ctx' c" and "ctx_inv c"
    and "models_constants ps c val"
  shows "\<exists>A. convert_to_isl_aff_expr I (aff_expr a) (construct_corresponding_space I c) = Inr A \<and>
    represents I M val (ps, var_values c val) e A"
proof -
  obtain d n where "aff_expr a = Affine_expr_constant n" "(d, n) \<in> set (constant_table c)" "val d = val e"
    using define_constant_value [OF construct_atom_cases [OF assms(3,4)] assms(5,6,2)] by blast
  moreover have "\<not> is_literal e" using assms(3) by (cases e) simp_all
  ultimately show ?thesis
    using dim_reference_constant [OF assms(1,6) _ assms(7), of d n "var_values c val"]
    by (auto simp: represents_def eval_atoms_atom [OF assms(3)])
qed

lemma convert_represents:
  assumes laws: "isl_laws I M" and "respects_eq val"
  shows "try_construct_affine_expr e ctx = Inr (Some a, ctx') \<Longrightarrow> extends ctx' c \<Longrightarrow> ctx_inv c \<Longrightarrow>
    models_constants ps c val \<Longrightarrow> linear_expr val e \<Longrightarrow>
    \<exists>A. affine_expr_convert I c a = Inr A \<and> represents I M val (ps, var_values c val) e A"
  unfolding affine_expr_convert_def
proof (induction e arbitrary: ctx ctx' a)
  case (Binary_operator_expr t l r)
  obtain x c1 y where *: "try_construct_affine_expr l ctx = Inr (Some x, c1)"
    "try_construct_affine_expr r c1 = Inr (Some y, ctx')" "construct_binary t x y = Inr (Some a)"
    using construct_binary_cases [OF Binary_operator_expr.prems(1)] .
  have c1: "extends c1 c" using construct_extends [OF *(2)] Binary_operator_expr.prems(2) extends_trans by blast
  have lin: "linear_expr val l" "linear_expr val r" using Binary_operator_expr.prems(5) by simp_all
  obtain A where A: "convert_to_isl_aff_expr I (aff_expr x) (construct_corresponding_space I c) = Inr A"
    "represents I M val (ps, var_values c val) l A"
    using Binary_operator_expr.IH(1) [OF *(1) c1 Binary_operator_expr.prems(3,4) lin(1)] by blast
  obtain B where B: "convert_to_isl_aff_expr I (aff_expr y) (construct_corresponding_space I c) = Inr B"
    "represents I M val (ps, var_values c val) r B"
    using Binary_operator_expr.IH(2) [OF *(2) Binary_operator_expr.prems(2-4) lin(2)] by blast
  from represents_binary [OF laws A(2) B(2) Binary_operator_expr.prems(5)] A(1) B(1)
  show ?case by (simp add: construct_binary_Some [OF *(3)])
next
  case (Unary_operator_expr t e)
  obtain x where *: "try_construct_affine_expr e ctx = Inr (Some x, ctx')"
    "t = Plus_u \<and> a = x \<or> t = Negate \<and> a = affine_neg x"
    using construct_unary_cases [OF Unary_operator_expr.prems(1)] .
  from Unary_operator_expr.IH [OF *(1) Unary_operator_expr.prems(2-4)] Unary_operator_expr.prems(5) *(2)
  show ?case by (auto simp: affine_neg_def represents_def rbind_Inr_iff checked_i64_Inr isl_aff_lawsD(8) [OF laws])
next
  case (Integer_literal_expr n)
  then show ?case by (auto simp: create_literal_def represents_def isl_aff_lawsD(1,2) [OF laws])
next
  case (Variable_ref_expr v)
  from Variable_ref_expr.prems(1) show ?case
  proof (cases rule: construct_variable_cases)
    case 1
    from declare_variable_value [OF 1 Variable_ref_expr.prems(2,3) assms(2)] obtain w n where
      "aff_expr a = Affine_expr_variable n" "(w, n) \<in> set (variable_table c)"
      "val (Variable_ref_expr w) = val (Variable_ref_expr v)" by blast
    then show ?thesis
      using dim_reference_variable [OF laws Variable_ref_expr.prems(3), of w n ps val] by (auto simp: represents_def)
  next
    case 2
    from define_constant_value [OF 2 Variable_ref_expr.prems(2,3) assms(2)] obtain d n where
      "aff_expr a = Affine_expr_constant n" "(d, n) \<in> set (constant_table c)" "val d = val (Variable_ref_expr v)" by blast
    then show ?thesis
      using dim_reference_constant [OF laws Variable_ref_expr.prems(3) _ Variable_ref_expr.prems(4), of d n]
      by (auto simp: represents_def)
  qed
qed (rule convert_atom_represents [OF laws assms(2)]; simp)+

section \<open>Constraints\<close>

text \<open>The truth of a condition over atoms; both operands of a connective are evaluated.\<close>

fun eval_relation :: "binary_op_tag \<Rightarrow> int \<Rightarrow> int \<Rightarrow> bool" where
  "eval_relation Equal_to a b = (a = b)"
| "eval_relation Not_equal_to a b = (a \<noteq> b)"
| "eval_relation Less a b = (a < b)"
| "eval_relation Greater a b = (a > b)"
| "eval_relation Less_equal a b = (a \<le> b)"
| "eval_relation Greater_equal a b = (a \<ge> b)"
| "eval_relation _ a b = False"

fun eval_condition :: "(expr \<Rightarrow> int) \<Rightarrow> expr \<Rightarrow> bool result" where
  "eval_condition val (Binary_operator_expr t l r) =
     (if relation_tag t then
        rbind (eval_atoms val l) (\<lambda>a. rbind (eval_atoms val r) (\<lambda>b. Inr (eval_relation t a b)))
      else if t = Logical_and then
        rbind (eval_condition val l) (\<lambda>a. rbind (eval_condition val r) (\<lambda>b. Inr (a \<and> b)))
      else if t = Logical_or then
        rbind (eval_condition val l) (\<lambda>a. rbind (eval_condition val r) (\<lambda>b. Inr (a \<or> b)))
      else Inl No_case_applicable)"
| "eval_condition val (Unary_operator_expr t a) =
     (if t = Logical_not then rbind (eval_condition val a) (\<lambda>x. Inr (\<not> x)) else Inl No_case_applicable)"
| "eval_condition val e = Inl No_case_applicable"

text \<open>The relation \<open>greater\<close> converts to a set that is one too large, so it is good only where the set may
  be too large: below an even number of negations (\<open>pol\<close> is \<open>True\<close>).\<close>

fun sound_constraint :: "(expr \<Rightarrow> int) \<Rightarrow> bool \<Rightarrow> expr \<Rightarrow> bool" where
  "sound_constraint val pol (Binary_operator_expr t l r) =
     (if relation_tag t then linear_expr val l \<and> linear_expr val r \<and> (t = Greater \<longrightarrow> pol)
      else sound_constraint val pol l \<and> sound_constraint val pol r)"
| "sound_constraint val pol (Unary_operator_expr t a) = sound_constraint val (\<not> pol) a"
| "sound_constraint val pol e = True"

fun uses_greater :: "expr \<Rightarrow> bool" where
  "uses_greater (Binary_operator_expr t l r) = (t = Greater \<or> \<not> relation_tag t \<and> (uses_greater l \<or> uses_greater r))"
| "uses_greater (Unary_operator_expr t a) = uses_greater a"
| "uses_greater e = False"

lemma sound_without_greater:
  "sound_constraint val pol e \<Longrightarrow> \<not> uses_greater e \<Longrightarrow> sound_constraint val pol' e"
  by (induction e arbitrary: pol pol') (auto simp: relation_tag_def split: if_splits)

definition bounds_by ::
  "('s, 'a, 'c, 't) isl_meaning \<Rightarrow> (expr \<Rightarrow> int) \<Rightarrow> affine_expr_context \<Rightarrow> (string \<Rightarrow> int) \<Rightarrow> bool \<Rightarrow> expr \<Rightarrow> 't \<Rightarrow> bool" where
  "bounds_by M val c ps pol e S \<longleftrightarrow> set_dim M S = length (variable_table c) \<and>
     (\<forall>b. eval_condition val e = Inr b \<longrightarrow>
        (if pol then b \<longrightarrow> set_member M S (ps, var_values c val) else \<not> b \<longrightarrow> \<not> set_member M S (ps, var_values c val)))"

lemma extract_fresh:
  "\<exists>x ctx'. try_extract_affine_constraint e ctx = Inr (x, ctx') \<and> extends ctx ctx' \<and> (ctx_inv ctx \<longrightarrow> ctx_inv ctx') \<and>
    (\<forall>k. x = Some k \<longrightarrow> con_ctx k = ctx_address ctx)"
proof (induction e arbitrary: ctx)
  case (Binary_operator_expr t l r)
  show ?case
  proof (cases "relation_tag t")
    case True
    obtain x c1 where 1: "try_construct_affine_expr l ctx = Inr (x, c1)" "fresh_result ctx (x, c1)"
      using construct_total [of l ctx] by auto
    obtain y c2 where 2: "try_construct_affine_expr r c1 = Inr (y, c2)" "fresh_result c1 (y, c2)"
      using construct_total [of r c1] by auto
    from 1 2 True extends_trans [of ctx c1 c2] extends_mono(3) [of ctx c1] show ?thesis
      by (cases x; cases y) (simp_all add: fresh_result_def affine_compare_def)
  next
    case False
    obtain x c1 where 1: "try_extract_affine_constraint l ctx = Inr (x, c1)" "extends ctx c1" "ctx_inv ctx \<longrightarrow> ctx_inv c1"
      "\<forall>k. x = Some k \<longrightarrow> con_ctx k = ctx_address ctx"
      using Binary_operator_expr.IH(1) [of ctx] by blast
    obtain y c2 where 2: "try_extract_affine_constraint r c1 = Inr (y, c2)" "extends c1 c2" "ctx_inv c1 \<longrightarrow> ctx_inv c2"
      "\<forall>k. y = Some k \<longrightarrow> con_ctx k = ctx_address c1"
      using Binary_operator_expr.IH(2) [of c1] by blast
    from 1 2 False extends_trans [of ctx c1 c2] extends_mono(3) [of ctx c1] show ?thesis
      by (cases x; cases y) (simp_all add: constraint_and_def constraint_or_def)
  qed
next
  case (Unary_operator_expr t e)
  obtain x c1 where 1: "try_extract_affine_constraint e ctx = Inr (x, c1)" "extends ctx c1" "ctx_inv ctx \<longrightarrow> ctx_inv c1"
    "\<forall>k. x = Some k \<longrightarrow> con_ctx k = ctx_address ctx"
    using Unary_operator_expr.IH [of ctx] by blast
  then show ?case by (cases x) (simp_all add: constraint_not_def)
qed simp_all

lemma extract_extends: "try_extract_affine_constraint e ctx = Inr (x, ctx') \<Longrightarrow> extends ctx ctx'"
  and extract_inv: "try_extract_affine_constraint e ctx = Inr (x, ctx') \<Longrightarrow> ctx_inv ctx \<Longrightarrow> ctx_inv ctx'"
  using extract_fresh [of e ctx] by auto

lemma extract_relation_cases:
  assumes "try_extract_affine_constraint (Binary_operator_expr t l r) ctx = Inr (Some k, ctx')" and "relation_tag t"
  obtains x c1 y where "try_construct_affine_expr l ctx = Inr (Some x, c1)"
    "try_construct_affine_expr r c1 = Inr (Some y, ctx')" "con_expr k = Constraint_compare t x y"
proof -
  from assms obtain x c1 y c2 where *: "try_construct_affine_expr l ctx = Inr (x, c1)"
    "try_construct_affine_expr r c1 = Inr (y, c2)"
    "(case (x, y) of (Some a, Some b) \<Rightarrow> rbind (affine_compare t a b) (\<lambda>c. Inr (Some c, c2)) | _ \<Rightarrow> Inr (None, c2)) =
       Inr (Some k, ctx')"
    by (auto simp: rbind_Inr_iff)
  then show thesis
    by (cases x; cases y) (auto intro!: that simp: affine_compare_def rbind_Inr_iff split: if_splits)
qed

lemma extract_connective_cases:
  assumes "try_extract_affine_constraint (Binary_operator_expr t l r) ctx = Inr (Some k, ctx')" and "\<not> relation_tag t"
  obtains x c1 y where "try_extract_affine_constraint l ctx = Inr (Some x, c1)"
    "try_extract_affine_constraint r c1 = Inr (Some y, ctx')"
    "t = Logical_and \<and> con_expr k = Constraint_and (con_expr x) (con_expr y) \<or>
     t = Logical_or \<and> con_expr k = Constraint_or (con_expr x) (con_expr y)"
proof -
  have t: "t = Logical_and \<or> t = Logical_or" using assms by (auto split: if_splits)
  from assms t obtain x c1 y c2 where *: "try_extract_affine_constraint l ctx = Inr (x, c1)"
    "try_extract_affine_constraint r c1 = Inr (y, c2)"
    "(case (x, y) of
        (Some a, Some b) \<Rightarrow> rbind (if t = Logical_and then constraint_and a b else constraint_or a b) (\<lambda>c. Inr (Some c, c2))
      | _ \<Rightarrow> Inr (None, c2)) = Inr (Some k, ctx')"
    by (auto simp: rbind_Inr_iff)
  with t show thesis
    by (cases x; cases y)
      (auto intro!: that simp: constraint_and_def constraint_or_def rbind_Inr_iff split: if_splits)
qed

lemma extract_not_cases:
  assumes "try_extract_affine_constraint (Unary_operator_expr t e) ctx = Inr (Some k, ctx')"
  obtains x where "try_extract_affine_constraint e ctx = Inr (Some x, ctx')" "t = Logical_not"
    "con_expr k = Constraint_not (con_expr x)"
proof -
  have t: "t = Logical_not" using assms by (auto split: if_splits)
  with assms obtain x c1 where *: "try_extract_affine_constraint e ctx = Inr (x, c1)"
    "(case x of None \<Rightarrow> Inr (None, c1) | Some c \<Rightarrow> Inr (Some (constraint_not c), c1)) =
       (Inr (Some k, ctx') :: (affine_constraint option \<times> affine_expr_context) result)"
    by (auto simp: rbind_Inr_iff)
  with t show thesis by (cases x) (auto intro!: that simp: constraint_not_def)
qed

lemma convert_compare_constrains:
  assumes laws: "isl_laws I M" and A: "represents I M val (ps, var_values c val) l A"
    and B: "represents I M val (ps, var_values c val) r B" and "relation_tag t" and "t = Greater \<longrightarrow> pol"
  shows "\<exists>S. convert_compare I t A B (construct_corresponding_space I c) = Inr S \<and>
    bounds_by M val c ps pol (Binary_operator_expr t l r) S"
proof -
  let ?s = "construct_corresponding_space I c"
  let ?p = "(ps, var_values c val)"
  have dim: "length (var_values c val) = length (dim_names M ?s Isl_dim_set)"
    "length (dim_names M ?s Isl_dim_set) = length (variable_table c)"
    by (simp_all add: space_names [OF laws] var_values_def)
  have vals: "value_at M A ?p = of_int a \<and> value_at M B ?p = of_int b"
    if "eval_atoms val l = Inr a" "eval_atoms val r = Inr b" for a b
    using A B that by (simp add: represents_def)
  have less: "(0::rat) \<le> - (of_int a - of_int b + 1) \<longleftrightarrow> a < b" for a b
  proof -
    have "- (of_int a - of_int b + 1) = (of_int (b - a - 1) :: rat)" by simp
    then show ?thesis by linarith
  qed
  note rules = isl_set_lawsD [OF laws] isl_aff_lawsD(6,8,9) [OF laws]
  show ?thesis
    using assms(4,5) unfolding relation_tag_def
    by (auto simp: convert_compare_def Let_def bounds_by_def relation_tag_def rules dim rbind_Inr_iff less dest!: vals)
qed

lemma convert_constrains:
  assumes laws: "isl_laws I M" and "respects_eq val"
  shows "try_extract_affine_constraint e ctx = Inr (Some k, ctx') \<Longrightarrow> extends ctx' c \<Longrightarrow> ctx_inv c \<Longrightarrow>
    models_constants ps c val \<Longrightarrow> sound_constraint val pol e \<Longrightarrow>
    \<exists>S. affine_constraint_convert I c k = Inr S \<and> bounds_by M val c ps pol e S"
  unfolding affine_constraint_convert_def
proof (induction e arbitrary: ctx ctx' k pol)
  case (Binary_operator_expr t l r)
  show ?case
  proof (cases "relation_tag t")
    case True
    obtain x c1 y where *: "try_construct_affine_expr l ctx = Inr (Some x, c1)"
      "try_construct_affine_expr r c1 = Inr (Some y, ctx')" "con_expr k = Constraint_compare t x y"
      using extract_relation_cases [OF Binary_operator_expr.prems(1) True] .
    have c1: "extends c1 c" using construct_extends [OF *(2)] Binary_operator_expr.prems(2) extends_trans by blast
    have lin: "linear_expr val l" "linear_expr val r" "t = Greater \<longrightarrow> pol"
      using Binary_operator_expr.prems(5) True by simp_all
    obtain A where A: "affine_expr_convert I c x = Inr A" "represents I M val (ps, var_values c val) l A"
      using convert_represents [OF laws assms(2) *(1) c1 Binary_operator_expr.prems(3,4) lin(1)] by blast
    obtain B where B: "affine_expr_convert I c y = Inr B" "represents I M val (ps, var_values c val) r B"
      using convert_represents [OF laws assms(2) *(2) Binary_operator_expr.prems(2-4) lin(2)] by blast
    from convert_compare_constrains [OF laws A(2) B(2) True lin(3)] A(1) B(1) *(3)
    show ?thesis by (simp add: affine_expr_convert_def)
  next
    case False
    obtain x c1 y where *: "try_extract_affine_constraint l ctx = Inr (Some x, c1)"
      "try_extract_affine_constraint r c1 = Inr (Some y, ctx')"
      "t = Logical_and \<and> con_expr k = Constraint_and (con_expr x) (con_expr y) \<or>
       t = Logical_or \<and> con_expr k = Constraint_or (con_expr x) (con_expr y)"
      using extract_connective_cases [OF Binary_operator_expr.prems(1) False] .
    have c1: "extends c1 c" using extract_extends [OF *(2)] Binary_operator_expr.prems(2) extends_trans by blast
    have sound: "sound_constraint val pol l" "sound_constraint val pol r"
      using Binary_operator_expr.prems(5) False by simp_all
    obtain S where S: "convert_to_isl_set I (con_expr x) (construct_corresponding_space I c) = Inr S" "bounds_by M val c ps pol l S"
      using Binary_operator_expr.IH(1) [OF *(1) c1 Binary_operator_expr.prems(3,4) sound(1)] by blast
    obtain T where T: "convert_to_isl_set I (con_expr y) (construct_corresponding_space I c) = Inr T" "bounds_by M val c ps pol r T"
      using Binary_operator_expr.IH(2) [OF *(2) Binary_operator_expr.prems(2-4) sound(2)] by blast
    have dims: "set_dim M S = set_dim M T" using S(2) T(2) by (simp add: bounds_by_def)
    note rules = isl_set_lawsD(9-12) [OF laws dims]
    from *(3) S T False show ?thesis
      by (cases pol) (auto simp: bounds_by_def rules rbind_Inr_iff)
  qed
next
  case (Unary_operator_expr t e)
  obtain x where *: "try_extract_affine_constraint e ctx = Inr (Some x, ctx')" "t = Logical_not"
    "con_expr k = Constraint_not (con_expr x)"
    using extract_not_cases [OF Unary_operator_expr.prems(1)] .
  have "sound_constraint val (\<not> pol) e" using Unary_operator_expr.prems(5) by simp
  then obtain S where S: "convert_to_isl_set I (con_expr x) (construct_corresponding_space I c) = Inr S"
    "bounds_by M val c ps (\<not> pol) e S"
    using Unary_operator_expr.IH [OF *(1) Unary_operator_expr.prems(2-4)] by blast
  have "length (var_values c val) = set_dim M S" using S(2) by (simp add: bounds_by_def var_values_def)
  with S *(2,3) show ?case
    by (cases pol) (auto simp: bounds_by_def isl_set_lawsD(7,8) [OF laws] rbind_Inr_iff)
qed simp_all

text \<open>C3. Constraints convert exactly: a condition that is linear and free of \<open>greater\<close> becomes an isl set
  that holds the point of a valuation if and only if the condition is true there.  Products with a
  parameter, divisions and remainders of negative values are not linear here: isl rejects the first
  and computes the others differently from the code.\<close>
theorem affine_constraint_exact:
  assumes "isl_laws I M" and "respects_eq val" and "ctx_inv c"
    and "try_extract_affine_constraint e ctx = Inr (Some k, ctx')" and "extends ctx' c"
    and "sound_constraint val True e" and "\<not> uses_greater e" and "eval_condition val e = Inr b"
  shows "\<exists>S. affine_constraint_convert I c k = Inr S \<and>
    set_member M S (constant_values c val, var_values c val) = b"
proof -
  note conv = convert_constrains [OF assms(1,2,4,5,3) models_constant_values [OF assms(3)]]
  obtain S where S: "affine_constraint_convert I c k = Inr S" "bounds_by M val c (constant_values c val) True e S"
    using conv [OF assms(6)] by blast
  obtain T where "affine_constraint_convert I c k = Inr T" "bounds_by M val c (constant_values c val) False e T"
    using conv [OF sound_without_greater [OF assms(6,7)]] by blast
  with S assms(8) show ?thesis by (cases b) (auto simp: bounds_by_def)
qed

text \<open>A loop index below a bound, and a context with a variable for it.\<close>

abbreviation (input) index_variable :: variable_declaration where
  "index_variable \<equiv> \<lparr>var_id = 0, var_name = ''i'', var_type = Integer_t\<rparr>"

lemma extract_index_bound:
  "relation_tag t \<Longrightarrow> \<exists>k c. try_extract_affine_constraint
     (Binary_operator_expr t (Variable_ref_expr index_variable) (Integer_literal_expr n))
     (new_affine_expr_context a (\<lambda>e. False)) = Inr (Some k, c)"
  by (simp add: type_neq_def declare_variable_def new_affine_expr_context_def create_literal_def
      affine_compare_def Let_def)

theorem affine_constraint_exact_witness:
  "\<exists>k c S. try_extract_affine_constraint (Binary_operator_expr Less (Variable_ref_expr index_variable) (Integer_literal_expr 3))
       (new_affine_expr_context 0 (\<lambda>e. False)) = Inr (Some k, c) \<and> affine_constraint_convert point_isl c k = Inr S \<and>
     set_member point_meaning S (constant_values c (\<lambda>e. 2), var_values c (\<lambda>e. 2))"
proof -
  let ?e = "Binary_operator_expr Less (Variable_ref_expr index_variable) (Integer_literal_expr 3)"
  let ?ctx = "new_affine_expr_context 0 (\<lambda>e. False)"
  obtain k c where k: "try_extract_affine_constraint ?e ?ctx = Inr (Some k, c)"
    using extract_index_bound [of Less 3 0] unfolding relation_tag_def by blast
  have "\<exists>S. affine_constraint_convert point_isl c k = Inr S \<and>
      set_member point_meaning S (constant_values c (\<lambda>e. 2), var_values c (\<lambda>e. 2)) = True"
    by (rule affine_constraint_exact [OF point_isl_laws _ extract_inv [OF k] k extends_refl])
      (simp_all add: respects_eq_def relation_tag_def)
  with k show ?thesis by blast
qed

text \<open>C20. The relation \<open>greater\<close> is converted wrongly: the set of \<open>l > r\<close> also holds the points with \<open>l = r\<close> and
  \<open>l = r - 1\<close>, so the set of its negation loses exactly those, at which the negation is true.\<close>
theorem greater_constraint_wrong:
  assumes "isl_laws I M" and "respects_eq val" and "ctx_inv c"
    and "try_extract_affine_constraint (Binary_operator_expr Greater l r) ctx = Inr (Some k, ctx')" and "extends ctx' c"
    and "linear_expr val l" and "linear_expr val r" and "eval_atoms val l = Inr a" and "eval_atoms val r = Inr b"
  shows "\<exists>S T. affine_constraint_convert I c k = Inr S \<and> affine_constraint_convert I c (constraint_not k) = Inr T \<and>
    set_member M S (constant_values c val, var_values c val) = (b \<le> a + 1) \<and>
    set_member M T (constant_values c val, var_values c val) = (a + 1 < b)"
proof -
  let ?p = "(constant_values c val, var_values c val)"
  let ?s = "construct_corresponding_space I c"
  obtain x c1 y where *: "try_construct_affine_expr l ctx = Inr (Some x, c1)"
    "try_construct_affine_expr r c1 = Inr (Some y, ctx')" "con_expr k = Constraint_compare Greater x y"
    by (rule extract_relation_cases [OF assms(4)]) (simp_all add: relation_tag_def)
  have c1: "extends c1 c" using construct_extends [OF *(2)] assms(5) extends_trans by blast
  note conv = convert_represents [OF assms(1,2)]
  obtain A where A: "affine_expr_convert I c x = Inr A" "value_at M A ?p = of_int a"
    using conv [OF *(1) c1 assms(3) models_constant_values [OF assms(3)] assms(6)] assms(8) by (auto simp: represents_def)
  obtain B where B: "affine_expr_convert I c y = Inr B" "value_at M B ?p = of_int b"
    using conv [OF *(2) assms(5,3) models_constant_values [OF assms(3)] assms(7)] assms(9) by (auto simp: represents_def)
  let ?S = "set_add_constraint I (set_universe I ?s) (inequality_from_aff I (aff_add_constant_si I (aff_sub I A B) 1))"
  have S: "affine_constraint_convert I c k = Inr ?S"
    using A(1) B(1) by (simp add: affine_constraint_convert_def affine_expr_convert_def *(3) convert_compare_def Let_def)
  then have T: "affine_constraint_convert I c (constraint_not k) = Inr (set_complement I ?S)"
    by (simp add: affine_constraint_convert_def constraint_not_def)
  have dim: "length (var_values c val) = length (dim_names M ?s Isl_dim_set)"
    by (simp add: space_names(2) [OF assms(1)] var_values_def)
  have "(0::rat) \<le> of_int a - of_int b + 1 \<longleftrightarrow> b \<le> a + 1"
    by (metis (no_types, opaque_lifting) add.commute diff_add_eq le_diff_eq of_int_1 of_int_add of_int_le_iff add_0)
  then have "set_member M ?S ?p = (b \<le> a + 1)"
    by (simp add: isl_set_lawsD [OF assms(1)] isl_aff_lawsD(6,9) [OF assms(1)] A(2) B(2) dim)
  with S T show ?thesis by (auto simp: isl_set_lawsD(4,6,7) [OF assms(1)] dim)
qed

theorem greater_constraint_wrong_witness:
  "\<exists>k c T. try_extract_affine_constraint (Binary_operator_expr Greater (Variable_ref_expr index_variable) (Integer_literal_expr 3))
       (new_affine_expr_context 0 (\<lambda>e. False)) = Inr (Some k, c) \<and>
     affine_constraint_convert point_isl c (constraint_not k) = Inr T \<and>
     \<not> set_member point_meaning T (constant_values c (\<lambda>e. 3), var_values c (\<lambda>e. 3))"
proof -
  let ?e = "Binary_operator_expr Greater (Variable_ref_expr index_variable) (Integer_literal_expr 3)"
  let ?ctx = "new_affine_expr_context 0 (\<lambda>e. False)"
  obtain k c where k: "try_extract_affine_constraint ?e ?ctx = Inr (Some k, c)"
    using extract_index_bound [of Greater 3 0] unfolding relation_tag_def by blast
  have "\<exists>S T. affine_constraint_convert point_isl c k = Inr S \<and> affine_constraint_convert point_isl c (constraint_not k) = Inr T \<and>
      set_member point_meaning S (constant_values c (\<lambda>e. 3), var_values c (\<lambda>e. 3)) = ((3::int) \<le> 3 + 1) \<and>
      set_member point_meaning T (constant_values c (\<lambda>e. 3), var_values c (\<lambda>e. 3)) = (3 + 1 < (3::int))"
    by (rule greater_constraint_wrong [OF point_isl_laws _ extract_inv [OF k] k extends_refl])
      (simp_all add: respects_eq_def)
  with k show ?thesis by auto
qed

end
