(* ===== verification/AstConversion.thy ===== *)
theory AstConversion
  imports AffineConstraints
begin

text \<open>
  The way back from isl (\<open>convert_isl_ast_expr_to_qir\<close> in \<open>qubus/src/affine_constraints.cpp\<close>): an expression
  of the syntax tree isl generates becomes an expression of the intermediate representation.  The tree is
  read through \<open>type\<close>, \<open>get_op_type\<close>, \<open>get_arg\<close>, \<open>get_id\<close> and \<open>get_value\<close>; \<open>Isl_ast_other\<close> stands for
  the operations the code does not handle (\<open>and_then\<close>, \<open>or_else\<close>, \<open>zdiv_r\<close>, calls and accesses).
\<close>

datatype isl_ast_op =
    Isl_ast_add | Isl_ast_sub | Isl_ast_mul | Isl_ast_div | Isl_ast_fdiv_q | Isl_ast_pdiv_q | Isl_ast_pdiv_r
  | Isl_ast_minus | Isl_ast_min | Isl_ast_max | Isl_ast_cond | Isl_ast_select
  | Isl_ast_eq | Isl_ast_le | Isl_ast_lt | Isl_ast_ge | Isl_ast_gt | Isl_ast_and | Isl_ast_or | Isl_ast_other

datatype isl_ast_expr =
    Isl_ast_id string
  | Isl_ast_int int
  | Isl_ast_operation isl_ast_op "isl_ast_expr list"

text \<open>The operator a binary operation becomes, and the number of arguments that are read.\<close>

fun operator_of_ast :: "isl_ast_op \<Rightarrow> binary_op_tag option" where
  "operator_of_ast Isl_ast_add = Some Plus"
| "operator_of_ast Isl_ast_sub = Some Minus"
| "operator_of_ast Isl_ast_mul = Some Multiplies"
| "operator_of_ast Isl_ast_div = Some Divides"
| "operator_of_ast Isl_ast_fdiv_q = Some Div_floor"
| "operator_of_ast Isl_ast_pdiv_q = Some Divides"
| "operator_of_ast Isl_ast_pdiv_r = Some Modulus"
| "operator_of_ast Isl_ast_eq = Some Equal_to"
| "operator_of_ast Isl_ast_le = Some Less_equal"
| "operator_of_ast Isl_ast_lt = Some Less"
| "operator_of_ast Isl_ast_ge = Some Greater_equal"
| "operator_of_ast Isl_ast_gt = Some Greater"
| "operator_of_ast Isl_ast_and = Some Logical_and"
| "operator_of_ast Isl_ast_or = Some Logical_or"
| "operator_of_ast _ = None"

definition args_read :: "isl_ast_op \<Rightarrow> nat" where
  "args_read t =
     (case t of Isl_ast_minus \<Rightarrow> 1 | Isl_ast_cond \<Rightarrow> 3 | Isl_ast_select \<Rightarrow> 3 | Isl_ast_other \<Rightarrow> 0 | _ \<Rightarrow> 2)"

definition build_operation :: "isl_ast_op \<Rightarrow> expr list \<Rightarrow> expr result" where
  "build_operation t as =
     (case operator_of_ast t of
        Some tag \<Rightarrow> Inr (Binary_operator_expr tag (as ! 0) (as ! 1))
      | None \<Rightarrow>
          (case t of
             Isl_ast_minus \<Rightarrow> Inr (Unary_operator_expr Negate (as ! 0))
           | Isl_ast_min \<Rightarrow> Inr (Intrinsic_function_expr ''min'' as)
           | Isl_ast_max \<Rightarrow> Inr (Intrinsic_function_expr ''max'' as)
           | Isl_ast_cond \<Rightarrow> Inr (Intrinsic_function_expr ''select'' as)
           | Isl_ast_select \<Rightarrow> Inr (Intrinsic_function_expr ''select'' as)
           | _ \<Rightarrow> Inl Assertion_failed))"

text \<open>Arguments past the ones that are read are dropped; a missing one makes isl answer a null pointer.\<close>

function convert_isl_ast_expr_to_qir :: "affine_expr_context \<Rightarrow> isl_ast_expr \<Rightarrow> expr result" where
  "convert_isl_ast_expr_to_qir ctx (Isl_ast_id name) =
     (case lookup_variable ctx name of
        Some v \<Rightarrow> Inr (Variable_ref_expr v)
      | None \<Rightarrow> (case get_constant ctx name of Some value \<Rightarrow> Inr value | None \<Rightarrow> Inl Thrown_int))"
| "convert_isl_ast_expr_to_qir ctx (Isl_ast_int n) = Inr (Integer_literal_expr n)"
| "convert_isl_ast_expr_to_qir ctx (Isl_ast_operation t args) =
     (if length args < args_read t then Inl Undefined_behaviour
      else rbind (traverse (\<lambda>i. if i < length args then convert_isl_ast_expr_to_qir ctx (args ! i) else Inl Undefined_behaviour)
                   [0..<args_read t]) (build_operation t))"
  by pat_completeness auto
termination
proof (relation "measure (\<lambda>(ctx, e). size e)")
  fix ctx :: affine_expr_context and t i and args :: "isl_ast_expr list"
  assume "i < length args"
  then show "((ctx, args ! i), (ctx, Isl_ast_operation t args)) \<in> measure (\<lambda>(ctx, e). size e)"
    using size_list_mem [of "args ! i" args] by simp
qed simp

section \<open>Values\<close>

text \<open>What isl promises of a generated expression: \<open>div\<close> is exact, \<open>pdiv_q\<close> and \<open>pdiv_r\<close> have a dividend that
  is not negative, divisors are positive.  \<open>None\<close> where a promise is broken or 64 bits do not suffice.\<close>

fun ast_operation :: "isl_ast_op \<Rightarrow> int \<Rightarrow> int \<Rightarrow> int option" where
  "ast_operation Isl_ast_add a b = Some (a + b)"
| "ast_operation Isl_ast_sub a b = Some (a - b)"
| "ast_operation Isl_ast_mul a b = Some (a * b)"
| "ast_operation Isl_ast_div a b = (if b \<noteq> 0 \<and> b dvd a then Some (a div b) else None)"
| "ast_operation Isl_ast_fdiv_q a b = (if 0 < b then Some (a div b) else None)"
| "ast_operation Isl_ast_pdiv_q a b = (if 0 \<le> a \<and> 0 < b then Some (a div b) else None)"
| "ast_operation Isl_ast_pdiv_r a b = (if 0 \<le> a \<and> 0 < b then Some (a mod b) else None)"
| "ast_operation _ a b = None"

definition fits :: "int \<Rightarrow> int option" where
  "fits x = (if in_i64 x then Some x else None)"

fun ast_value :: "(string \<Rightarrow> int option) \<Rightarrow> isl_ast_expr \<Rightarrow> int option" where
  "ast_value ps (Isl_ast_id n) = (case ps n of Some a \<Rightarrow> fits a | None \<Rightarrow> None)"
| "ast_value ps (Isl_ast_int n) = fits n"
| "ast_value ps (Isl_ast_operation t [x]) =
     (if t = Isl_ast_minus then (case ast_value ps x of Some a \<Rightarrow> fits (- a) | None \<Rightarrow> None) else None)"
| "ast_value ps (Isl_ast_operation t [x, y]) =
     (case (ast_value ps x, ast_value ps y) of
        (Some a, Some b) \<Rightarrow> (case ast_operation t a b of Some c \<Rightarrow> fits c | None \<Rightarrow> None)
      | _ \<Rightarrow> None)"
| "ast_value ps (Isl_ast_operation t _) = None"

definition name_values :: "affine_expr_context \<Rightarrow> (expr \<Rightarrow> int) \<Rightarrow> string \<Rightarrow> int option" where
  "name_values ctx val n =
     (case lookup_variable ctx n of
        Some v \<Rightarrow> Some (val (Variable_ref_expr v))
      | None \<Rightarrow> map_option val (get_constant ctx n))"

text \<open>Constants are defined for atoms and variables only.\<close>

fun atomic :: "expr \<Rightarrow> bool" where
  "atomic (Variable_ref_expr v) = True"
| "atomic e = is_atom e"

definition atomic_constants :: "affine_expr_context \<Rightarrow> bool" where
  "atomic_constants ctx \<longleftrightarrow> (\<forall>(e, n) \<in> set (constant_table ctx). atomic e)"

lemma atomic_value: "atomic e \<Longrightarrow> eval_atoms val e = Inr (val e)"
  by (cases e) simp_all

lemma declare_variable_atomic: "declare_variable v ctx = (a, ctx') \<Longrightarrow> atomic_constants ctx \<Longrightarrow> atomic_constants ctx'"
  by (auto simp: declare_variable_def atomic_constants_def Let_def split: option.splits)

lemma define_constant_atomic:
  "define_constant e ctx = (a, ctx') \<Longrightarrow> atomic e \<Longrightarrow> atomic_constants ctx \<Longrightarrow> atomic_constants ctx'"
  by (auto simp: define_constant_def atomic_constants_def Let_def split: option.splits)

lemma construct_atomic_atom:
  assumes "is_atom e" and "try_construct_affine_expr e ctx = Inr (x, ctx')" and "atomic_constants ctx"
  shows "atomic_constants ctx'"
proof -
  have "atomic e" using assms(1) by (cases e) simp_all
  then show ?thesis
    using assms by (auto simp: construct_atom split: if_splits prod.splits intro: define_constant_atomic)
qed

lemma construct_atomic_constants:
  "try_construct_affine_expr e ctx = Inr (x, ctx') \<Longrightarrow> atomic_constants ctx \<Longrightarrow> atomic_constants ctx'"
proof (induction e arbitrary: ctx ctx' x)
  case (Binary_operator_expr t l r)
  then obtain a c1 b c2 where *: "try_construct_affine_expr l ctx = Inr (a, c1)" "try_construct_affine_expr r c1 = Inr (b, c2)"
    "(case (a, b) of (Some a, Some b) \<Rightarrow> rbind (construct_binary t a b) (\<lambda>x. Inr (x, c2)) | _ \<Rightarrow> Inr (None, c2)) = Inr (x, ctx')"
    by (auto simp: rbind_Inr_iff)
  from *(3) have "ctx' = c2" by (cases a; cases b) (auto simp: rbind_Inr_iff)
  with Binary_operator_expr * show ?case by blast
next
  case (Unary_operator_expr t e)
  then obtain a c1 where *: "try_construct_affine_expr e ctx = Inr (a, c1)"
    "(case a of None \<Rightarrow> Inr (None, c1)
       | Some x \<Rightarrow> (case t of Plus_u \<Rightarrow> Inr (Some x, c1) | Negate \<Rightarrow> Inr (Some (affine_neg x), c1) | _ \<Rightarrow> Inr (None, c1))) =
       (Inr (x, ctx') :: (affine_expr option \<times> affine_expr_context) result)"
    by (auto simp: rbind_Inr_iff)
  from *(2) have "ctx' = c1" by (cases a; cases t) auto
  with Unary_operator_expr * show ?case by blast
next
  case (Variable_ref_expr v)
  then show ?case
    by (auto split: if_splits prod.splits intro: declare_variable_atomic define_constant_atomic)
next
  case (Integer_literal_expr n)
  then show ?case by simp
qed (erule construct_atomic_atom [rotated]; simp)+

lemma convert_two_args:
  assumes "convert_isl_ast_expr_to_qir ctx x = Inr d" and "convert_isl_ast_expr_to_qir ctx y = Inr e"
    and "operator_of_ast t = Some tag"
  shows "convert_isl_ast_expr_to_qir ctx (Isl_ast_operation t [x, y]) = Inr (Binary_operator_expr tag d e)"
proof -
  have "args_read t = 2" using assms(3) by (cases t) (simp_all add: args_read_def)
  with assms show ?thesis by (simp add: build_operation_def)
qed

lemma ast_operation_operator:
  assumes "ast_operation t a b = Some c" and "in_i64 c" and "in_i64 a"
  shows "\<exists>tag. operator_of_ast t = Some tag \<and> eval_binary tag a b = Inr c"
proof -
  have exact: "a sdiv b = a div b" if "b dvd a" "b \<noteq> 0"
  proof -
    from that obtain k where k: "a = b * k" by blast
    have "a sdiv b * b + a smod b = b * k" using sdiv_smod_int [of a b] k by simp
    moreover have "a smod b = 0" using k by (simp add: smod_sgn_int abs_mult)
    ultimately show ?thesis using that(2) k by simp
  qed
  have pos: "a sdiv b = a div b" "a smod b = a mod b" if "0 \<le> a" "0 < b"
    using that by (cases "a = 0"; simp add: signed_divide_int_def smod_nonneg_int)+
  have "in_i64 (a div b)" if "0 \<le> a" "0 < b"
  proof -
    have "b * (a div b) + a mod b = a" by simp
    moreover have "0 \<le> a mod b" "0 \<le> a div b" using that by (simp_all add: pos_imp_zdiv_nonneg_iff)
    moreover have "a div b \<le> b * (a div b)" using that \<open>0 \<le> a div b\<close> by (simp add: mult_le_cancel_right1)
    ultimately show ?thesis using assms(3) unfolding in_i64_def i64_min_def by linarith
  qed
  then show ?thesis
    using assms exact pos
    by (cases t) (auto simp: checked_i64_def i64_div_def i64_mod_def split: if_splits)
qed

lemma ast_value_fits: "ast_value ps x = Some v \<Longrightarrow> in_i64 v"
  by (induction ps x rule: ast_value.induct) (auto simp: fits_def split: option.splits if_splits)

lemma ast_conversion_aux:
  assumes "ctx_inv ctx" and "atomic_constants ctx"
  shows "ast_value (name_values ctx val) x = Some v \<Longrightarrow>
    \<exists>e. convert_isl_ast_expr_to_qir ctx x = Inr e \<and> eval_atoms val e = Inr v"
proof (induction "name_values ctx val" x arbitrary: v rule: ast_value.induct)
  case (1 n)
  show ?case
  proof (cases "lookup_variable ctx n")
    case None
    with 1 obtain e where e: "get_constant ctx n = Some e" "v = val e"
      by (auto simp: name_values_def fits_def split: option.splits if_splits)
    then obtain entry where "entry \<in> set (constant_table ctx)" "fst entry = e"
      unfolding get_constant_def by (auto dest: find_SomeD)
    then have "atomic e" using assms(2) by (force simp: atomic_constants_def)
    with e None show ?thesis by (simp add: atomic_value)
  next
    case (Some w)
    with 1 show ?thesis by (auto simp: name_values_def fits_def split: if_splits)
  qed
next
  case (2 n)
  then show ?case by (simp add: fits_def split: if_splits)
next
  case (3 t x)
  then obtain a where a: "t = Isl_ast_minus" "ast_value (name_values ctx val) x = Some a" "in_i64 (- a)" "v = - a"
    by (auto simp: fits_def split: if_splits option.splits)
  with 3(1) obtain e where "convert_isl_ast_expr_to_qir ctx x = Inr e" "eval_atoms val e = Inr a" by blast
  with a show ?case by (simp add: args_read_def build_operation_def checked_i64_def)
next
  case (4 t x y)
  then obtain a b where a: "ast_value (name_values ctx val) x = Some a" "ast_value (name_values ctx val) y = Some b"
    "ast_operation t a b = Some v" "in_i64 v"
    by (auto simp: fits_def split: if_splits option.splits)
  obtain d where d: "convert_isl_ast_expr_to_qir ctx x = Inr d" "eval_atoms val d = Inr a" using 4(1) a(1) by blast
  obtain e where e: "convert_isl_ast_expr_to_qir ctx y = Inr e" "eval_atoms val e = Inr b" using 4(2) a(1,2) by blast
  obtain tag where "operator_of_ast t = Some tag" "eval_binary tag a b = Inr v"
    using ast_operation_operator [OF a(3,4) ast_value_fits [OF a(1)]] by blast
  with convert_two_args [OF d(1) e(1)] d(2) e(2) show ?case by auto
qed simp_all



end
