(* ===== verification/ValueSets.thy ===== *)
theory ValueSets
  imports AffineSets AxiomAnalysis
begin

text \<open>
  The value set analysis (\<open>qubus/src/value_set_analysis.cpp\<close>): the values an integer expression can have
  wherever control reaches it, as an isl set.  It composes the axiom analysis, the affine constraints and
  isl.  The answers of the invariants analysis are the parameter \<open>checker\<close>; expressions are given with
  their locations, by which the axiom analysis finds them.
\<close>

section \<open>The analysis\<close>

fun extract_axioms ::
  "expr list \<Rightarrow> affine_expr_context \<Rightarrow> (affine_constraint list \<times> affine_expr_context) result" where
  "extract_axioms [] ctx = Inr ([], ctx)"
| "extract_axioms (a # axs) ctx =
     rbind (try_extract_affine_constraint a ctx) (\<lambda>(k, ctx').
     rbind (extract_axioms axs ctx') (\<lambda>(ks, ctx'').
       Inr (case k of Some c \<Rightarrow> c # ks | None \<Rightarrow> ks, ctx'')))"

fun intersect_axioms ::
  "('s, 'a, 'c, 't) isl \<Rightarrow> affine_expr_context \<Rightarrow> affine_constraint list \<Rightarrow> 't \<Rightarrow> 't result" where
  "intersect_axioms I ctx [] domain = Inr domain"
| "intersect_axioms I ctx (k # ks) domain =
     rbind (affine_constraint_convert I ctx k) (\<lambda>c. intersect_axioms I ctx ks (set_intersect I domain c))"

definition value_set_of ::
  "('s, 'a, 'c, 't) isl \<Rightarrow> expr \<Rightarrow> nat list \<times> expr \<Rightarrow> affine_expr_context \<Rightarrow> ('t \<times> affine_expr_context) result" where
  "value_set_of I tree pe ctx =
     (case pe of (p, e) \<Rightarrow>
       rbind (axiom_analysis tree p) (\<lambda>axioms.
       rbind (try_construct_affine_expr e ctx) (\<lambda>(analyzed_expr, ctx').
         case analyzed_expr of
           Some a \<Rightarrow>
             rbind (extract_axioms axioms ctx') (\<lambda>(affine_axioms, ctx'').
             rbind (intersect_axioms I ctx'' affine_axioms (set_universe I (construct_corresponding_space I ctx''))) (\<lambda>domain.
             rbind (affine_expr_convert I ctx'' a) (\<lambda>map.
               Inr (set_apply_aff I map (set_simplify I domain), ctx''))))
         | None \<Rightarrow> Inr (set_universe I (space_set_alloc I 0 1), ctx'))))"

fun determine_sets ::
  "('s, 'a, 'c, 't) isl \<Rightarrow> expr \<Rightarrow> (nat list \<times> expr) list \<Rightarrow> affine_expr_context \<Rightarrow> ('t list \<times> affine_expr_context) result" where
  "determine_sets I tree [] ctx = Inr ([], ctx)"
| "determine_sets I tree (pe # pes) ctx =
     rbind (value_set_of I tree pe ctx) (\<lambda>(s, ctx').
     rbind (determine_sets I tree pes ctx') (\<lambda>(ss, ctx''). Inr (s # ss, ctx'')))"

definition determine_value_sets ::
  "('s, 'a, 'c, 't) isl \<Rightarrow> (expr \<Rightarrow> bool) \<Rightarrow> expr \<Rightarrow> (nat list \<times> expr) list \<Rightarrow> ('t list \<times> affine_expr_context) result" where
  "determine_value_sets I checker tree pes = determine_sets I tree pes (new_affine_expr_context 0 checker)"

definition determine_value_set ::
  "('s, 'a, 'c, 't) isl \<Rightarrow> (expr \<Rightarrow> bool) \<Rightarrow> expr \<Rightarrow> nat list \<times> expr \<Rightarrow> ('t \<times> affine_expr_context) result" where
  "determine_value_set I checker tree pe =
     rbind (determine_value_sets I checker tree [pe]) (\<lambda>(ss, ctx).
       if length ss \<noteq> 1 then Inl Assertion_failed else Inr (ss ! 0, ctx))"

section \<open>Contexts grow\<close>

lemma extract_axioms_grows:
  "extract_axioms axs ctx = Inr (ks, ctx') \<Longrightarrow> extends ctx ctx' \<and> (ctx_inv ctx \<longrightarrow> ctx_inv ctx')"
proof (induction axs arbitrary: ctx ks)
  case (Cons a axs)
  then obtain k c1 ks' where *: "try_extract_affine_constraint a ctx = Inr (k, c1)" "extract_axioms axs c1 = Inr (ks', ctx')"
    by (auto simp: rbind_Inr_iff)
  from Cons.IH [OF *(2)] extract_extends [OF *(1)] extract_inv [OF *(1)] show ?case
    using extends_trans by blast
qed simp

lemma value_set_of_cases:
  assumes "value_set_of I tree (p, e) ctx = Inr (S, c)"
  obtains (unknown) axs where "axiom_analysis tree p = Inr axs" "try_construct_affine_expr e ctx = Inr (None, c)"
      "S = set_universe I (space_set_alloc I 0 1)"
    | (known) axs a c1 ks D A where "axiom_analysis tree p = Inr axs" "try_construct_affine_expr e ctx = Inr (Some a, c1)"
      "extract_axioms axs c1 = Inr (ks, c)" "intersect_axioms I c ks (set_universe I (construct_corresponding_space I c)) = Inr D"
      "affine_expr_convert I c a = Inr A" "S = set_apply_aff I A (set_simplify I D)"
proof -
  from assms obtain axs x c1 where *: "axiom_analysis tree p = Inr axs" "try_construct_affine_expr e ctx = Inr (x, c1)"
    by (auto simp: value_set_of_def rbind_Inr_iff)
  show thesis
  proof (cases x)
    case None
    with assms * show thesis by (auto simp: value_set_of_def intro: unknown)
  next
    case (Some a)
    with assms * show thesis by (auto simp: value_set_of_def rbind_Inr_iff intro: known)
  qed
qed

lemma value_set_of_grows:
  "value_set_of I tree pe ctx = Inr (S, c) \<Longrightarrow> extends ctx c \<and> (ctx_inv ctx \<longrightarrow> ctx_inv c)"
proof -
  assume *: "value_set_of I tree pe ctx = Inr (S, c)"
  obtain p e where pe: "pe = (p, e)" by (cases pe)
  from * [unfolded pe] show ?thesis
  proof (cases rule: value_set_of_cases)
    case (unknown axs)
    from construct_extends [OF unknown(2)] construct_inv [OF unknown(2)] show ?thesis by blast
  next
    case (known axs a c1 ks D A)
    from construct_extends [OF known(2)] construct_inv [OF known(2)] extract_axioms_grows [OF known(3)]
    show ?thesis using extends_trans by blast
  qed
qed

lemma determine_sets_grows:
  "determine_sets I tree pes ctx = Inr (ss, c) \<Longrightarrow> extends ctx c \<and> (ctx_inv ctx \<longrightarrow> ctx_inv c) \<and> length ss = length pes"
proof (induction pes arbitrary: ctx ss)
  case (Cons pe pes)
  then obtain s c1 ss' where *: "value_set_of I tree pe ctx = Inr (s, c1)" "determine_sets I tree pes c1 = Inr (ss', c)"
    "ss = s # ss'"
    by (auto simp: rbind_Inr_iff)
  from Cons.IH [OF *(2)] value_set_of_grows [OF *(1)] *(3) show ?case using extends_trans by auto
qed simp

lemma determine_sets_nth:
  "determine_sets I tree pes ctx = Inr (ss, c) \<Longrightarrow> ctx_inv ctx \<Longrightarrow> i < length pes \<Longrightarrow>
     \<exists>c0 c1. value_set_of I tree (pes ! i) c0 = Inr (ss ! i, c1) \<and> ctx_inv c0 \<and> extends c1 c"
proof (induction pes arbitrary: ctx ss i)
  case (Cons pe pes)
  then obtain s c1 ss' where *: "value_set_of I tree pe ctx = Inr (s, c1)" "determine_sets I tree pes c1 = Inr (ss', c)"
    "ss = s # ss'"
    by (auto simp: rbind_Inr_iff)
  have inv: "ctx_inv c1" using value_set_of_grows [OF *(1)] Cons.prems(2) by blast
  show ?case
  proof (cases i)
    case 0
    with *(1,3) Cons.prems(2) determine_sets_grows [OF *(2)] show ?thesis by auto
  next
    case (Suc j)
    with Cons.IH [OF *(2) inv, of j] Cons.prems(3) *(3) show ?thesis by simp
  qed
qed simp

section \<open>Soundness\<close>

text \<open>A valuation of atoms that agrees with an environment on the variables.\<close>

definition agrees :: "(expr \<Rightarrow> int) \<Rightarrow> (nat \<Rightarrow> int) \<Rightarrow> bool" where
  "agrees val env \<longleftrightarrow> (\<forall>v. val (Variable_ref_expr v) = env (var_id v))"

lemma eval_int_atoms: "agrees val env \<Longrightarrow> eval_int env e = Inr n \<Longrightarrow> eval_atoms val e = Inr n"
  by (induction e arbitrary: n) (auto simp: agrees_def rbind_Inr_iff)

lemma eval_bool_condition:
  assumes "agrees val env"
  shows "eval_bool env e = Inr b \<Longrightarrow> try_extract_affine_constraint e ctx = Inr (Some k, ctx') \<Longrightarrow> eval_condition val e = Inr b"
proof (induction e arbitrary: b ctx ctx' k)
  case (Binary_operator_expr t l r)
  show ?case
  proof (cases "relation_tag t")
    case True
    then obtain x y where "eval_int env l = Inr x" "eval_int env r = Inr y" "b = eval_relation t x y"
      using Binary_operator_expr.prems(1) by (auto simp: relation_tag_def rbind_Inr_iff)
    with True show ?thesis by (simp add: eval_int_atoms [OF assms])
  next
    case False
    obtain x c1 y where *: "try_extract_affine_constraint l ctx = Inr (Some x, c1)"
      "try_extract_affine_constraint r c1 = Inr (Some y, ctx')" "t = Logical_and \<or> t = Logical_or"
      using extract_connective_cases [OF Binary_operator_expr.prems(2) False] by metis
    from *(3) Binary_operator_expr.prems(1) obtain p where p: "eval_bool env l = Inr p"
      by (cases "eval_bool env l") auto
    with *(3) Binary_operator_expr.prems(1) obtain q where q: "eval_bool env r = Inr q"
      by (cases "eval_bool env r") auto
    have b: "b = (if t = Logical_and then p \<and> q else p \<or> q)"
      using *(3) p q Binary_operator_expr.prems(1) by auto
    from Binary_operator_expr.IH(1) [OF p *(1)] Binary_operator_expr.IH(2) [OF q *(2)] *(3) b False
    show ?thesis by auto
  qed
next
  case (Unary_operator_expr t e)
  obtain x where *: "try_extract_affine_constraint e ctx = Inr (Some x, ctx')" "t = Logical_not"
    using extract_not_cases [OF Unary_operator_expr.prems(2)] by metis
  with Unary_operator_expr.prems(1) obtain p where "eval_bool env e = Inr p" "b = (\<not> p)" by (auto simp: rbind_Inr_iff)
  with Unary_operator_expr.IH [OF _ *(1)] *(2) show ?case by simp
qed simp_all

lemma intersect_axioms_sound:
  assumes laws: "isl_laws I M" and val: "respects_eq val" "agrees val env" and c: "ctx_inv c" "models_constants ps c val"
  shows "extract_axioms axs ctx = Inr (ks, c') \<Longrightarrow> extends c' c \<Longrightarrow>
    \<forall>x \<in> set axs. eval_bool env x = Inr True \<and> sound_constraint val True x \<Longrightarrow>
    set_dim M D = length (variable_table c) \<Longrightarrow> set_member M D (ps, var_values c val) \<Longrightarrow>
    \<exists>D'. intersect_axioms I c ks D = Inr D' \<and> set_member M D' (ps, var_values c val)"
proof (induction axs arbitrary: ctx ks D)
  case (Cons a axs)
  then obtain k c1 ks' where *: "try_extract_affine_constraint a ctx = Inr (k, c1)" "extract_axioms axs c1 = Inr (ks', c')"
    "ks = (case k of Some c \<Rightarrow> c # ks' | None \<Rightarrow> ks')"
    by (auto simp: rbind_Inr_iff)
  have rest: "\<forall>x \<in> set axs. eval_bool env x = Inr True \<and> sound_constraint val True x" using Cons.prems(3) by simp
  show ?case
  proof (cases k)
    case None
    with Cons.IH [OF *(2) Cons.prems(2) rest Cons.prems(4,5)] *(3) show ?thesis by simp
  next
    case (Some k')
    have ext: "extends c1 c" using extract_axioms_grows [OF *(2)] Cons.prems(2) extends_trans by blast
    have a: "eval_condition val a = Inr True"
      using eval_bool_condition [OF val(2)] Cons.prems(3) *(1) Some by simp
    obtain S where S: "affine_constraint_convert I c k' = Inr S" "bounds_by M val c ps True a S"
      using convert_constrains [OF laws val(1) _ ext c] *(1) Some Cons.prems(3) by fastforce
    have dims: "set_dim M D = set_dim M S" using Cons.prems(4) S(2) by (simp add: bounds_by_def)
    have "set_member M (set_intersect I D S) (ps, var_values c val)"
      using S(2) a Cons.prems(5) isl_set_lawsD(12) [OF laws dims] by (auto simp: bounds_by_def)
    moreover have "set_dim M (set_intersect I D S) = length (variable_table c)"
      using isl_set_lawsD(10) [OF laws dims] dims Cons.prems(4) by simp
    ultimately obtain D' where "intersect_axioms I c ks' (set_intersect I D S) = Inr D'"
      "set_member M D' (ps, var_values c val)"
      using Cons.IH [OF *(2) Cons.prems(2) rest] by blast
    with *(3) Some S(1) show ?thesis by simp
  qed
qed simp

text \<open>What the soundness of a query needs of the state it is asked about.\<close>

definition answerable :: "(nat \<Rightarrow> int) \<Rightarrow> expr \<Rightarrow> nat list \<times> expr \<Rightarrow> (expr \<Rightarrow> int) \<Rightarrow> bool" where
  "answerable env tree pe val \<longleftrightarrow> respects_eq val \<and> agrees val env \<and> linear_expr val (snd pe) \<and>
     (\<forall>axs. axiom_analysis tree (fst pe) = Inr axs \<longrightarrow> (\<forall>x \<in> set axs. sound_constraint val True x))"

definition observes ::
  "(string \<Rightarrow> int) \<Rightarrow> affine_expr_context \<Rightarrow> (nat \<Rightarrow> int) \<Rightarrow> expr \<Rightarrow> nat list \<times> expr \<Rightarrow> (expr \<Rightarrow> int) \<Rightarrow> bool" where
  "observes ps c env tree pe val \<longleftrightarrow> models_constants ps c val \<and> answerable env tree pe val"

lemma extract_axioms_total: "\<exists>ks c. extract_axioms axs ctx = Inr (ks, c)"
proof (induction axs arbitrary: ctx)
  case (Cons a axs)
  obtain k c1 where 1: "try_extract_affine_constraint a ctx = Inr (k, c1)" using extract_fresh [of a ctx] by blast
  obtain ks c where "extract_axioms axs c1 = Inr (ks, c)" using Cons.IH [of c1] by blast
  with 1 show ?case by simp
qed simp

lemma value_set_of_total:
  assumes laws: "isl_laws I M" and run: "reaches env0 {} tree p env" "everywhere loop_ok tree"
      "generate_axiom_scope_tree [] tree [] = Inr scopes"
    and inv: "ctx_inv ctx" and ans: "answerable env tree (p, e) val"
  shows "\<exists>S c. value_set_of I tree (p, e) ctx = Inr (S, c)"
proof -
  obtain axs where axs: "axiom_analysis tree p = Inr axs" "\<forall>x \<in> set axs. eval_bool env x = Inr True"
    using axioms_hold [OF run] by blast
  then have ok: "\<forall>x \<in> set axs. eval_bool env x = Inr True \<and> sound_constraint val True x"
    using ans by (simp add: answerable_def)
  obtain x c1 where x: "try_construct_affine_expr e ctx = Inr (x, c1)" using construct_total [of e ctx] by auto
  obtain ks c where ks: "extract_axioms axs c1 = Inr (ks, c)" using extract_axioms_total by blast
  have c: "extends c1 c" "ctx_inv c"
    using extract_axioms_grows [OF ks] construct_inv [OF x inv] by blast+
  let ?U = "set_universe I (construct_corresponding_space I c)"
  let ?ps = "constant_values c val"
  have U: "set_dim M ?U = length (variable_table c)" "set_member M ?U (?ps, var_values c val)"
    by (simp_all add: isl_set_lawsD(3,4) [OF laws] space_names(2) [OF laws] var_values_def)
  obtain D where D: "intersect_axioms I c ks ?U = Inr D"
    using intersect_axioms_sound [OF laws _ _ c(2) models_constant_values [OF c(2)] ks extends_refl ok U] ans
    by (auto simp: answerable_def)
  show ?thesis
  proof (cases x)
    case None
    with axs(1) x show ?thesis by (simp add: value_set_of_def)
  next
    case (Some a)
    obtain A where "affine_expr_convert I c a = Inr A"
      using convert_represents [OF laws _ _ c models_constant_values [OF c(2)], of val e ctx a] x Some ans
      by (auto simp: answerable_def)
    with axs(1) x Some ks D show ?thesis by (simp add: value_set_of_def)
  qed
qed

lemma value_set_of_sound:
  assumes laws: "isl_laws I M" and run: "reaches env0 {} tree p env" "everywhere loop_ok tree"
      "generate_axiom_scope_tree [] tree [] = Inr scopes"
    and q: "value_set_of I tree (p, e) ctx = Inr (S, c)" "ctx_inv ctx" "extends c c'"
    and obs: "observes ps c' env tree (p, e) val" and v: "eval_atoms val e = Inr v"
  shows "set_member M S (ps, [v])"
proof -
  obtain axs where axs: "axiom_analysis tree p = Inr axs" "\<forall>x \<in> set axs. eval_bool env x = Inr True"
    using axioms_hold [OF run] by blast
  have val: "respects_eq val" "agrees val env" and m: "models_constants ps c val" and lin: "linear_expr val e"
    and sound: "\<forall>x \<in> set axs. sound_constraint val True x"
    using obs axs(1) models_extends [OF q(3)] by (auto simp: observes_def answerable_def)
  have inv: "ctx_inv c" using value_set_of_grows [OF q(1)] q(2) by blast
  from q(1) show ?thesis
  proof (cases rule: value_set_of_cases)
    case (unknown axs')
    then show ?thesis by (simp add: isl_set_lawsD(3) [OF laws] isl_space_lawsD(1) [OF laws])
  next
    case (known axs' a c1 ks D A)
    let ?U = "set_universe I (construct_corresponding_space I c)"
    have ks: "extract_axioms axs c1 = Inr (ks, c)" using known(1,3) axs(1) by simp
    have ext: "extends c1 c" using extract_axioms_grows [OF known(3)] by blast
    have U: "set_dim M ?U = length (variable_table c)" "set_member M ?U (ps, var_values c val)"
      by (simp_all add: isl_set_lawsD(3,4) [OF laws] space_names(2) [OF laws] var_values_def)
    have "\<forall>x \<in> set axs. eval_bool env x = Inr True \<and> sound_constraint val True x" using axs(2) sound by blast
    from intersect_axioms_sound [OF laws val inv m ks extends_refl this U]
    have "set_member M D (ps, var_values c val)" using known(4) by simp
    moreover obtain A' where "affine_expr_convert I c a = Inr A'" "represents I M val (ps, var_values c val) e A'"
      using convert_represents [OF laws val(1) known(2) ext inv m lin] by blast
    then have "value_at M A (ps, var_values c val) = of_int v" using v known(5) by (simp add: represents_def)
    ultimately show ?thesis
      using known(6) by (auto simp: isl_set_lawsD(13,16) [OF laws])
  qed
qed


lemma loop_axioms_along:
  assumes "generate_axiom_scope_tree q (For_expr ord v l u (Integer_literal_expr 1) b) [] = Inr s"
  shows "axioms_along s [3] = [lower_bound_axiom v l, Binary_operator_expr Less (Variable_ref_expr v) u,
    stride_axiom v l (Integer_literal_expr 1), non_empty_axiom l u]"
proof -
  let ?loop = "For_expr ord v l u (Integer_literal_expr 1) b"
  obtain axs where g: "child_axioms ?loop = Inr axs" "scope_axioms s = []" "length (subscopes s) = arity ?loop"
    and gi: "\<And>i. i < arity ?loop \<Longrightarrow>
      generate_axiom_scope_tree (q @ [child_position ?loop i]) (children ?loop ! i) (axs ! i) = Inr (subscopes s ! i)"
    using assms by (elim generate_obtain) blast
  have "scope_axioms (subscopes s ! 3) = axs ! 3" using gi [of 3] by (auto elim!: generate_obtain)
  with g show ?thesis by (auto simp: child_axioms_def body_axioms_def upper_bound_axiom_def)
qed


end
