(* ===== verification/ArrayAliasing.thy ===== *)
theory ArrayAliasing
  imports ValueSets AliasAnalysis ModuleSystem
begin

text \<open>
  The rule for arrays and the full alias analysis (\<open>array_aliasing_rule\<close>, \<open>try_generate_slice_region\<close>,
  \<open>alias_analysis_result\<close> in \<open>qubus/src/alias_analysis.cpp\<close>).  Two subscripts by integers are disjoint if
  the value sets of some dimension are, two slices if the isl sets of their elements are.  Qualifiers come
  with their locations.
\<close>

type_synonym located = "nat list \<times> expr"

section \<open>Subscripts by integers\<close>

text \<open>\<open>all_of(typeof_(integer_t))\<close> stops at the first index that is no integer.\<close>

fun all_integers :: "expr list \<Rightarrow> bool result" where
  "all_integers [] = Inr True"
| "all_integers (e # es) = rbind (infer_type e) (\<lambda>t. if t = Integer_t then all_integers es else Inr False)"

definition index_locations :: "nat list \<Rightarrow> expr list \<Rightarrow> located list" where
  "index_locations p indices = map (\<lambda>i. (p @ [Suc i], indices ! i)) [0..<length indices]"

definition integer_subscripts_rule ::
  "('s, 'a, 'c, 't) isl \<Rightarrow> (expr \<Rightarrow> bool) \<Rightarrow> expr \<Rightarrow> nat list \<Rightarrow> expr list \<Rightarrow> nat list \<Rightarrow> expr list \<Rightarrow> alias_result result"
where
  "integer_subscripts_rule I checker tree p1 indices1 p2 indices2 =
     (if length indices1 \<noteq> length indices2 then Inr Noalias
      else let order = length indices1
           in rbind (determine_value_sets I checker tree (index_locations p1 indices1 @ index_locations p2 indices2))
                (\<lambda>(value_sets, ctx).
                  if list_ex (\<lambda>(s1, s2). set_is_empty I (set_intersect I s1 s2))
                       (zip (take order value_sets) (drop order value_sets))
                  then Inr Noalias else Inr May_alias))"

section \<open>Slices\<close>

fun range_parts :: "expr \<Rightarrow> (expr \<times> expr \<times> expr) option" where
  "range_parts (Integer_range_expr l u s) = Some (l, u, s)"
| "range_parts _ = None"

definition try_generate_slice_constraints_1D ::
  "affine_expr \<Rightarrow> expr \<times> expr \<times> expr \<Rightarrow> affine_expr_context \<Rightarrow> (affine_constraint option \<times> affine_expr_context) result"
where
  "try_generate_slice_constraints_1D var extent ctx =
     (case extent of (offset, bound, stride) \<Rightarrow>
       let zero = create_literal 0 ctx
       in rbind (try_construct_affine_expr offset ctx) (\<lambda>(aff_offset, ctx1).
          case aff_offset of None \<Rightarrow> Inr (None, ctx1)
          | Some a_offset \<Rightarrow>
              rbind (try_construct_affine_expr bound ctx1) (\<lambda>(aff_bound, ctx2).
              case aff_bound of None \<Rightarrow> Inr (None, ctx2)
              | Some a_bound \<Rightarrow>
                  rbind (try_construct_affine_expr stride ctx2) (\<lambda>(aff_stride, ctx3).
                  case aff_stride of None \<Rightarrow> Inr (None, ctx3)
                  | Some a_stride \<Rightarrow>
                      rbind (affine_compare Less_equal a_offset var) (\<lambda>constraint1.
                      rbind (affine_compare Less var a_bound) (\<lambda>constraint2.
                      rbind (affine_sub var a_offset) (\<lambda>distance.
                      rbind (affine_mod distance a_stride) (\<lambda>remainder.
                      rbind (affine_compare Equal_to remainder zero) (\<lambda>constraint3.
                      rbind (constraint_and constraint1 constraint2) (\<lambda>constraint12.
                      rbind (constraint_and constraint12 constraint3) (\<lambda>constraint.
                        Inr (Some constraint, ctx3)))))))))))) "

fun conjoin_slices ::
  "affine_constraint \<Rightarrow> (affine_expr \<times> expr \<times> expr \<times> expr) list \<Rightarrow> affine_expr_context \<Rightarrow>
     (affine_constraint option \<times> affine_expr_context) result"
where
  "conjoin_slices constraint [] ctx = Inr (Some constraint, ctx)"
| "conjoin_slices constraint ((var, extent) # rest) ctx =
     rbind (try_generate_slice_constraints_1D var extent ctx) (\<lambda>(partial_constraint, ctx').
       case partial_constraint of
         None \<Rightarrow> Inr (None, ctx')
       | Some c \<Rightarrow> rbind (constraint_and constraint c) (\<lambda>constraint'. conjoin_slices constraint' rest ctx'))"

text \<open>The set is made in the space of the context as it is now.\<close>

definition try_generate_slice_region ::
  "('s, 'a, 'c, 't) isl \<Rightarrow> affine_expr list \<Rightarrow> (expr \<times> expr \<times> expr) list \<Rightarrow> affine_expr_context \<Rightarrow>
     ('t option \<times> affine_expr_context) result"
where
  "try_generate_slice_region I vars ranges ctx =
     (if length ranges \<noteq> length vars then Inl Assertion_failed
      else case zip vars ranges of
        [] \<Rightarrow> Inr (None, ctx)
      | (var, extent) # rest \<Rightarrow>
          rbind (try_generate_slice_constraints_1D var extent ctx) (\<lambda>(partial_constraint, ctx').
            case partial_constraint of
              None \<Rightarrow> Inr (None, ctx')
            | Some c \<Rightarrow>
                rbind (conjoin_slices c rest ctx') (\<lambda>(constraint, ctx'').
                  case constraint of
                    None \<Rightarrow> Inr (None, ctx'')
                  | Some k \<Rightarrow> rbind (affine_constraint_convert I ctx'' k) (\<lambda>s. Inr (Some s, ctx'')))))"

fun declare_slice_variables ::
  "nat \<Rightarrow> nat \<Rightarrow> string set \<Rightarrow> affine_expr_context \<Rightarrow> (affine_expr list \<times> affine_expr_context) result" where
  "declare_slice_variables 0 address names ctx = Inr ([], ctx)"
| "declare_slice_variables (Suc rank) address names ctx =
     rbind (create_new_variable names address Integer_t ''tmp'') (\<lambda>(tmp, names').
       let (var, ctx') = declare_variable tmp ctx
       in rbind (declare_slice_variables rank (address + 1) names' ctx') (\<lambda>(vars, ctx''). Inr (var # vars, ctx'')))"

definition slices_rule ::
  "('s, 'a, 'c, 't) isl \<Rightarrow> (expr \<Rightarrow> bool) \<Rightarrow> nat \<Rightarrow> expr list \<Rightarrow> expr list \<Rightarrow> alias_result result" where
  "slices_rule I checker address indices1 indices2 =
     (if length indices1 \<noteq> length indices2 then Inr Noalias
      else rbind (declare_slice_variables (length indices1) address {} (new_affine_expr_context 0 checker)) (\<lambda>(vars, ctx).
        if list_ex (\<lambda>i. range_parts i = None) indices1 \<or> list_ex (\<lambda>i. range_parts i = None) indices2 then Inr May_alias
        else rbind (try_generate_slice_region I vars (map (\<lambda>i. the (range_parts i)) indices1) ctx) (\<lambda>(set1, ctx1).
             rbind (try_generate_slice_region I vars (map (\<lambda>i. the (range_parts i)) indices2) ctx1) (\<lambda>(set2, ctx2).
               case (set1, set2) of
                 (Some s1, Some s2) \<Rightarrow> Inr (if set_is_empty I (set_intersect I s1 s2) then Noalias else May_alias)
               | _ \<Rightarrow> Inr May_alias))))"

section \<open>The rule and the analysis\<close>

text \<open>There is a case for pairs of subscripts only; the matcher throws for everything else.\<close>

definition array_aliasing_rule ::
  "('s, 'a, 'c, 't) isl \<Rightarrow> (expr \<Rightarrow> bool) \<Rightarrow> expr \<Rightarrow> nat \<Rightarrow> located \<Rightarrow> located \<Rightarrow> alias_result result" where
  "array_aliasing_rule I checker tree address q1 q2 =
     (case (q1, q2) of
        ((p1, Subscription_expr _ indices1), (p2, Subscription_expr _ indices2)) \<Rightarrow>
          rbind (all_integers indices1) (\<lambda>integers1.
          rbind (if integers1 then all_integers indices2 else Inr False) (\<lambda>integers2.
            if integers2 then integer_subscripts_rule I checker tree p1 indices1 p2 indices2
            else slices_rule I checker address indices1 indices2))
      | _ \<Rightarrow> Inl No_case_applicable)"

text \<open>The driver with the two rules of the analysis.\<close>

definition alias_stage ::
  "('s, 'a, 'c, 't) isl \<Rightarrow> (expr \<Rightarrow> bool) \<Rightarrow> expr \<Rightarrow> nat \<Rightarrow> alias_result \<Rightarrow> located \<Rightarrow> located \<Rightarrow> alias_result result" where
  "alias_stage I checker tree address current_state q1 q2 =
     (let result = basic_aliasing_rule current_state (snd q1) (snd q2)
      in if result \<noteq> May_alias then Inr result else array_aliasing_rule I checker tree address q1 q2)"

fun compare_located ::
  "('s, 'a, 'c, 't) isl \<Rightarrow> (expr \<Rightarrow> bool) \<Rightarrow> expr \<Rightarrow> nat \<Rightarrow> alias_result \<Rightarrow> located list \<Rightarrow> located list \<Rightarrow> alias_result result"
where
  "compare_located I checker tree address current_state (q1 # qs1) (q2 # qs2) =
     rbind (alias_stage I checker tree address current_state q1 q2) (\<lambda>state.
       if state = Noalias then Inr Noalias else compare_located I checker tree address state qs1 qs2)"
| "compare_located I checker tree address current_state _ _ = Inr current_state"

text \<open>The qualifiers of an access at \<open>p\<close>, from the outermost one inwards.\<close>

definition located_qualifiers :: "nat list \<Rightarrow> access \<Rightarrow> located list" where
  "located_qualifiers p a = map (\<lambda>i. (p @ replicate i 0, acc_qualifiers a ! i)) [0..<length (acc_qualifiers a)]"

definition full_alias ::
  "('s, 'a, 'c, 't) isl \<Rightarrow> (expr \<Rightarrow> bool) \<Rightarrow> expr \<Rightarrow> nat \<Rightarrow> nat list \<Rightarrow> access \<Rightarrow> nat list \<Rightarrow> access \<Rightarrow> alias_result result"
where
  "full_alias I checker tree address p1 a1 p2 a2 =
     (if \<not> var_eq (acc_variable a1) (acc_variable a2) then Inr Noalias
      else compare_located I checker tree address Must_alias (located_qualifiers p1 a1) (located_qualifiers p2 a2))"

section \<open>Soundness for integer subscripts\<close>

text \<open>What a run knows at a subscript: it evaluates the indices to \<open>vs\<close>.\<close>

definition indexes ::
  "(string \<Rightarrow> int) \<Rightarrow> affine_expr_context \<Rightarrow> expr \<Rightarrow> nat list \<Rightarrow> expr list \<Rightarrow> int list \<Rightarrow> bool" where
  "indexes ps c tree p indices vs \<longleftrightarrow> length vs = length indices \<and>
     (\<forall>k < length indices. \<exists>env0 env val. reaches env0 {} tree (p @ [Suc k]) env \<and>
        observes ps c env tree (p @ [Suc k], indices ! k) val \<and> eval_atoms val (indices ! k) = Inr (vs ! k))"

lemma length_index_locations [simp]: "length (index_locations p indices) = length indices"
  by (simp add: index_locations_def)

lemma nth_index_locations [simp]: "k < length indices \<Longrightarrow> index_locations p indices ! k = (p @ [Suc k], indices ! k)"
  by (simp add: index_locations_def)

lemma index_member:
  assumes "isl_laws I M" and "determine_value_sets I checker tree pes = Inr (ss, c)" and "everywhere loop_ok tree"
    and "generate_axiom_scope_tree [] tree [] = Inr scopes" and "indexes ps c tree p indices vs"
    and "k < length indices" and "i < length pes" and "pes ! i = (p @ [Suc k], indices ! k)"
  shows "set_member M (ss ! i) (ps, [vs ! k])"
proof -
  obtain env0 env val where *: "reaches env0 {} tree (p @ [Suc k]) env"
    "observes ps c env tree (p @ [Suc k], indices ! k) val" "eval_atoms val (indices ! k) = Inr (vs ! k)"
    using assms(5,6) by (auto simp: indexes_def)
  obtain c0 c1 where q: "value_set_of I tree (p @ [Suc k], indices ! k) c0 = Inr (ss ! i, c1)" "ctx_inv c0" "extends c1 c"
    using determine_sets_nth [OF assms(2) [unfolded determine_value_sets_def] ctx_inv_new assms(7)] assms(8) by auto
  show ?thesis by (rule value_set_of_sound [OF assms(1) *(1) assms(3,4) q *(2,3)])
qed

lemma value_set_of_dim:
  assumes "isl_laws I M" and "value_set_of I tree pe ctx = Inr (S, c)"
  shows "set_dim M S = 1"
proof -
  obtain p e where pe: "pe = (p, e)" by (cases pe)
  show ?thesis
    using assms(2) [unfolded pe]
    by (cases rule: value_set_of_cases)
      (simp_all add: isl_set_lawsD(4,15) [OF assms(1)] isl_space_lawsD(1) [OF assms(1)])
qed


lemma no_axioms_along:
  "everywhere (\<lambda>d. child_axioms d = Inr (replicate (arity d) [])) e \<Longrightarrow> generate_axiom_scope_tree q e [] = Inr s \<Longrightarrow>
     axioms_along s p = []"
proof (induction p arbitrary: q e s)
  case Nil
  then show ?case by (auto elim!: generate_obtain)
next
  case (Cons i p)
  obtain axs where g: "child_axioms e = Inr axs" "scope_axioms s = []" "length (subscopes s) = arity e"
    and gi: "\<And>i. i < arity e \<Longrightarrow>
      generate_axiom_scope_tree (q @ [child_position e i]) (children e ! i) (axs ! i) = Inr (subscopes s ! i)"
    using Cons.prems(2) by (elim generate_obtain) blast
  have "axs = replicate (arity e) []" using g(1) everywhereD(1) [OF Cons.prems(1)] by simp
  with gi Cons.IH everywhereD(2) [OF Cons.prems(1)] g(2,3) show ?case by force
qed


section \<open>Slices of different spaces\<close>

lemma convert_set_dim:
  assumes "isl_laws I M"
  shows "convert_to_isl_set I t (construct_corresponding_space I c) = Inr S \<Longrightarrow> set_dim M S = length (variable_table c)"
proof (induction t arbitrary: S)
  case (Constraint_compare t l r)
  then show ?case
    by (cases t) (auto simp: rbind_Inr_iff convert_compare_def Let_def isl_set_lawsD [OF assms] space_names(2) [OF assms])
next
  case (Constraint_and l r)
  then obtain A B where "set_dim M A = length (variable_table c)" "set_dim M B = length (variable_table c)"
    "S = set_intersect I A B" by (auto simp: rbind_Inr_iff)
  then show ?case using isl_set_lawsD(10) [OF assms, of A B] by simp
next
  case (Constraint_or l r)
  then obtain A B where "set_dim M A = length (variable_table c)" "set_dim M B = length (variable_table c)"
    "S = set_union I A B" by (auto simp: rbind_Inr_iff)
  then show ?case using isl_set_lawsD(9) [OF assms, of A B] by simp
next
  case (Constraint_not t)
  then show ?case by (auto simp: rbind_Inr_iff isl_set_lawsD(8) [OF assms])
qed

text \<open>A slice \<open>v : bound : stride\<close> that starts at a loop index.\<close>

definition slice_terms :: "string \<Rightarrow> string \<Rightarrow> int \<Rightarrow> int \<Rightarrow> constraint_term" where
  "slice_terms tmp v bound stride =
     (let t = \<lparr>aff_expr = Affine_expr_variable tmp, aff_ctx = 0\<rparr>; f = \<lparr>aff_expr = Affine_expr_variable v, aff_ctx = 0\<rparr>
      in Constraint_and
        (Constraint_and (Constraint_compare Less_equal f t)
          (Constraint_compare Less t \<lparr>aff_expr = Affine_literal bound, aff_ctx = 0\<rparr>))
        (Constraint_compare Equal_to
          \<lparr>aff_expr = Affine_binary Modulus (Affine_binary Minus (Affine_expr_variable tmp) (Affine_expr_variable v))
              (Affine_literal stride), aff_ctx = 0\<rparr> \<lparr>aff_expr = Affine_literal 0, aff_ctx = 0\<rparr>))"

lemma slice_constraint:
  assumes "try_construct_affine_expr (Variable_ref_expr v) ctx =
      Inr (Some \<lparr>aff_expr = Affine_expr_variable n, aff_ctx = 0\<rparr>, ctx')"
    and "ctx_address ctx = 0"
  shows "try_generate_slice_constraints_1D \<lparr>aff_expr = Affine_expr_variable tmp, aff_ctx = 0\<rparr>
      (Variable_ref_expr v, Integer_literal_expr bound, Integer_literal_expr stride) ctx =
    Inr (Some \<lparr>con_expr = slice_terms tmp n bound stride, con_ctx = 0\<rparr>, ctx')"
proof -
  have "ctx_address ctx' = 0" using construct_extends [OF assms(1)] assms(2) by (simp add: extends_def)
  with assms show ?thesis
    by (simp add: try_generate_slice_constraints_1D_def create_literal_def affine_compare_def affine_sub_def
        affine_mod_def affine_binary_def is_const_def constraint_and_def slice_terms_def Let_def
        del: try_construct_affine_expr.simps(4))
qed

lemma slice_converts:
  assumes "isl_laws I M" and "ctx_inv c" and "(u, tmp) \<in> set (variable_table c)" and "(v, n) \<in> set (variable_table c)"
  shows "\<exists>S. convert_to_isl_set I (slice_terms tmp n bound stride) (construct_corresponding_space I c) = Inr S"
proof -
  obtain A where "dim_reference I Isl_dim_set tmp (construct_corresponding_space I c) = Inr A"
    using dim_reference_variable [OF assms(1-3)] by blast
  moreover obtain B where "dim_reference I Isl_dim_set n (construct_corresponding_space I c) = Inr B"
    using dim_reference_variable [OF assms(1,2,4)] by blast
  ultimately show ?thesis
    by (simp add: slice_terms_def Let_def convert_compare_def isl_aff_lawsD(2) [OF assms(1)])
qed

definition slice_context :: "(expr \<Rightarrow> bool) \<Rightarrow> variable_declaration list \<Rightarrow> affine_expr_context" where
  "slice_context checker vs = (new_affine_expr_context 0 checker)\<lparr>free_variable_id := length vs,
     variable_table := map (\<lambda>i. (vs ! i, ''i'' @ to_string i)) [0..<length vs]\<rparr>"

lemma slice_context_inv: "ctx_inv (slice_context checker vs)"
  by (simp add: ctx_inv_def slice_context_def new_affine_expr_context_def)

lemma slice_context_declare:
  assumes "\<forall>w \<in> set vs. \<not> var_eq w v"
  shows "declare_variable v (slice_context checker vs) =
    (\<lparr>aff_expr = Affine_expr_variable (''i'' @ to_string (length vs)), aff_ctx = 0\<rparr>, slice_context checker (vs @ [v]))"
proof -
  have "find (\<lambda>entry. var_eq (fst entry) v) (map (\<lambda>i. (vs ! i, ''i'' @ to_string i)) [0..<length vs]) = None"
    using assms by (auto simp: find_None_iff)
  moreover have "map (\<lambda>i. ((vs @ [v]) ! i, ''i'' @ to_string i)) [0..<length vs] =
      map (\<lambda>i. (vs ! i, ''i'' @ to_string i)) [0..<length vs]"
    by (simp add: nth_append)
  ultimately show ?thesis
    by (simp add: declare_variable_def slice_context_def new_affine_expr_context_def Let_def)
qed

lemma slice_region:
  assumes "isl_laws I M" and "var_type v = Integer_t" and "\<forall>w \<in> set (u # vs). \<not> var_eq w v"
  shows "\<exists>S. try_generate_slice_region I [\<lparr>aff_expr = Affine_expr_variable (''i'' @ to_string 0), aff_ctx = 0\<rparr>]
      [(Variable_ref_expr v, Integer_literal_expr bound, Integer_literal_expr stride)] (slice_context (\<lambda>e. False) (u # vs)) =
    Inr (Some S, slice_context (\<lambda>e. False) (u # vs @ [v])) \<and> set_dim M S = length vs + 2"
proof -
  let ?c = "slice_context (\<lambda>e. False) (u # vs)"
  let ?c' = "slice_context (\<lambda>e. False) (u # vs @ [v])"
  have v: "try_construct_affine_expr (Variable_ref_expr v) ?c =
      Inr (Some \<lparr>aff_expr = Affine_expr_variable (''i'' @ to_string (length (u # vs))), aff_ctx = 0\<rparr>, ?c')"
    using slice_context_declare [OF assms(3), of "\<lambda>e. False"] assms(2)
    by (simp add: type_neq_def slice_context_def new_affine_expr_context_def)
  have table: "(u, ''i'' @ to_string 0) \<in> set (variable_table ?c')"
    "(v, ''i'' @ to_string (length (u # vs))) \<in> set (variable_table ?c')"
    by (force simp: slice_context_def nth_append image_iff)+
  obtain S where S: "convert_to_isl_set I (slice_terms (''i'' @ to_string 0) (''i'' @ to_string (length (u # vs))) bound stride)
      (construct_corresponding_space I ?c') = Inr S"
    using slice_converts [OF assms(1) slice_context_inv table] by blast
  moreover have "set_dim M S = length vs + 2"
    using convert_set_dim [OF assms(1) S] by (simp add: slice_context_def)
  moreover have "ctx_address ?c = 0" by (simp add: slice_context_def new_affine_expr_context_def)
  ultimately show ?thesis
    using slice_constraint [OF v] by (simp add: try_generate_slice_region_def affine_constraint_convert_def)
qed

text \<open>Slices that start at different loop indices are called disjoint although they may overlap: the set of the
  first slice is made before the second one adds its variable to the context, so the two sets live in
  spaces of different dimension, isl fails to intersect them, and the code takes the error for
  emptiness.\<close>
lemma slices_of_different_spaces:
  assumes "isl_laws I M" and "\<forall>s t. set_dim M s \<noteq> set_dim M t \<longrightarrow> set_is_empty I (set_intersect I s t)"
    and "var_type v = Integer_t" and "var_type w = Integer_t" and "distinct [address, var_id v, var_id w]"
  shows "slices_rule I (\<lambda>e. False) address
      [Integer_range_expr (Variable_ref_expr v) (Integer_literal_expr b) (Integer_literal_expr s)]
      [Integer_range_expr (Variable_ref_expr w) (Integer_literal_expr b) (Integer_literal_expr s)] = Inr Noalias"
proof -
  obtain tmp names where tmp: "create_new_variable {} address Integer_t ''tmp'' = Inr (tmp, names)" "var_id tmp = address"
    by (simp add: create_new_variable_def generate_unique_name_def find_free_name.simps Let_def)
  let ?t = "\<lparr>aff_expr = Affine_expr_variable (''i'' @ to_string 0), aff_ctx = 0\<rparr>"
  have ctx: "declare_slice_variables 1 address {} (new_affine_expr_context 0 (\<lambda>e. False)) =
      Inr ([?t], slice_context (\<lambda>e. False) [tmp])"
    using tmp(1) slice_context_declare [of "[]" tmp "\<lambda>e. False"]
    by (simp add: Let_def slice_context_def new_affine_expr_context_def)
  obtain S where S: "try_generate_slice_region I [?t] [(Variable_ref_expr v, Integer_literal_expr b, Integer_literal_expr s)]
      (slice_context (\<lambda>e. False) [tmp]) = Inr (Some S, slice_context (\<lambda>e. False) [tmp, v])" "set_dim M S = 2"
    using slice_region [OF assms(1,3), of tmp "[]" b s] assms(5) tmp(2) by (auto simp: var_eq_def)
  obtain T where T: "try_generate_slice_region I [?t] [(Variable_ref_expr w, Integer_literal_expr b, Integer_literal_expr s)]
      (slice_context (\<lambda>e. False) [tmp, v]) = Inr (Some T, slice_context (\<lambda>e. False) [tmp, v, w])" "set_dim M T = 3"
    using slice_region [OF assms(1,4), of tmp "[v]" b s] assms(5) tmp(2) by (auto simp: var_eq_def)
  have "set_is_empty I (set_intersect I S T)" using assms(2) S(2) T(2) by simp
  with ctx S(1) T(1) show ?thesis by (simp add: slices_rule_def)
qed

lemma slices_of_different_spaces_example:
  "slices_rule point_isl (\<lambda>e. False) 0
     [Integer_range_expr (Variable_ref_expr \<lparr>var_id = 1, var_name = ''i'', var_type = Integer_t\<rparr>)
        (Integer_literal_expr 10) (Integer_literal_expr 1)]
     [Integer_range_expr (Variable_ref_expr \<lparr>var_id = 2, var_name = ''j'', var_type = Integer_t\<rparr>)
        (Integer_literal_expr 10) (Integer_literal_expr 1)] = Inr Noalias"
  by (rule slices_of_different_spaces [OF point_isl_laws]) (auto simp: point_isl_def point_meaning_def)

text \<open>Accesses that differ in an index and then go through the same member make the analysis throw: once a
  pair of subscripts has answered \<open>may_alias\<close>, the basic rule passes that on for the pair of members,
  and the array rule has no case for it, so \<open>a.x[i]\<close> and \<open>a.x[j]\<close> end in an exception.\<close>
lemma member_after_subscript_throws:
  assumes "make_access p1 (Subscription_expr (Member_access_expr (Variable_ref_expr a) x) indices1) = Inr a1"
    and "make_access p2 (Subscription_expr (Member_access_expr (Variable_ref_expr a) x) indices2) = Inr a2"
    and "array_aliasing_rule I checker tree address
      (p1, Subscription_expr (Member_access_expr (Variable_ref_expr a) x) indices1)
      (p2, Subscription_expr (Member_access_expr (Variable_ref_expr a) x) indices2) = Inr May_alias"
  shows "full_alias I checker tree address p1 a1 p2 a2 = Inl No_case_applicable"
proof -
  have "located_qualifiers p1 a1 = [(p1, Subscription_expr (Member_access_expr (Variable_ref_expr a) x) indices1),
      (p1 @ [0], Member_access_expr (Variable_ref_expr a) x)]" "acc_variable a1 = a"
    using assms(1) by (auto simp: located_qualifiers_def make_access_def)
  moreover have "located_qualifiers p2 a2 = [(p2, Subscription_expr (Member_access_expr (Variable_ref_expr a) x) indices2),
      (p2 @ [0], Member_access_expr (Variable_ref_expr a) x)]" "acc_variable a2 = a"
    using assms(2) by (auto simp: located_qualifiers_def make_access_def)
  ultimately show ?thesis
    using assms(3)
    by (simp add: full_alias_def var_eq_def alias_stage_def basic_aliasing_rule_def)
      (simp add: array_aliasing_rule_def)
qed

lemma literal_slices_may_alias:
  "array_aliasing_rule I checker tree address (p1, Subscription_expr e1 [Compound_expr Sequential []])
     (p2, Subscription_expr e2 [Compound_expr Sequential []]) = Inr May_alias"
  by (simp add: array_aliasing_rule_def slices_rule_def create_new_variable_def generate_unique_name_def
      find_free_name.simps Let_def split: prod.splits)

lemma member_after_subscript_throws_example:
  "\<exists>a1 a2. make_access [0] (Subscription_expr (Member_access_expr (Variable_ref_expr index_variable) ''x'') [Compound_expr Sequential []]) = Inr a1 \<and>
     make_access [1] (Subscription_expr (Member_access_expr (Variable_ref_expr index_variable) ''x'') [Compound_expr Sequential []]) = Inr a2 \<and>
     full_alias point_isl (\<lambda>e. False) (Integer_literal_expr 0) 0 [0] a1 [1] a2 = Inl No_case_applicable"
proof -
  let ?e = "Subscription_expr (Member_access_expr (Variable_ref_expr index_variable) ''x'') [Compound_expr Sequential []]"
  obtain a1 a2 where *: "make_access [0] ?e = Inr a1" "make_access [1] ?e = Inr a2" by (simp add: make_access_def)
  from member_after_subscript_throws [OF * literal_slices_may_alias] * show ?thesis by blast
qed

end
