(* ===== verification/Dataflow.thy ===== *)
theory Dataflow
  imports Prelude "HOL-Library.AList"
begin

text \<open>
  The dataflow graph (\<open>qubus/include/qubus/dataflow.hpp\<close>, \<open>qubus/src/dataflow.cpp\<close>), which orders the
  accesses to each object, and the tasks of the runtime that wait for it (\<open>qubus/src/runtime.cpp\<close>).

  An access token owns a \<open>dataflow_event\<close>, whose destructor fulfils a promise.  Events are numbered in
  the order of their construction and the state of the token of event \<open>e\<close> is \<open>tokens d ! e\<close>: it is
  captured by a continuation on the future of an earlier event (\<open>Queued\<close>), delivered to a client
  with a number of handles on it (\<open>Held\<close>; a unique token is one handle, \<open>shared_access_token\<close> makes more),
  or destroyed (\<open>Released\<close>, the promise is fulfilled).  Objects are named by their ids.  The actions of
  the component \<open>runtime_server\<close> are steps of one sequence: the code has no lock around its graph.
\<close>

datatype token_state = Queued nat | Held nat | Released

record dataflow_graph =
  wavefront_map :: "(nat \<times> nat) list"
  tokens :: "token_state list"

definition empty_graph :: dataflow_graph where
  "empty_graph = \<lparr>wavefront_map = [], tokens = []\<rparr>"

section \<open>Operations of the graph\<close>

definition schedule_modification :: "nat \<Rightarrow> dataflow_graph \<Rightarrow> nat \<times> dataflow_graph" where
  "schedule_modification obj d =
     (let e = length (tokens d)
      in case map_of (wavefront_map d) obj of
           Some f \<Rightarrow> (e, \<lparr>wavefront_map = AList.update obj e (wavefront_map d),
                          tokens = tokens d @ [Queued f]\<rparr>)
         | None \<Rightarrow> (e, \<lparr>wavefront_map = wavefront_map d @ [(obj, e)],
                        tokens = tokens d @ [Held 1]\<rparr>))"

definition schedule_read :: "nat \<Rightarrow> dataflow_graph \<Rightarrow> nat \<times> dataflow_graph" where
  "schedule_read obj d = schedule_modification obj d"

text \<open>The continuation runs once the event it waits for is fulfilled, and delivers its token.\<close>

definition run_continuation :: "nat \<Rightarrow> dataflow_graph \<Rightarrow> dataflow_graph option" where
  "run_continuation e d =
     (if e < length (tokens d)
      then case tokens d ! e of
             Queued f \<Rightarrow> if tokens d ! f = Released
                         then Some (d\<lparr>tokens := (tokens d)[e := Held 1]\<rparr>) else None
           | _ \<Rightarrow> None
      else None)"

definition copy_token :: "nat \<Rightarrow> dataflow_graph \<Rightarrow> dataflow_graph option" where
  "copy_token e d =
     (if e < length (tokens d)
      then case tokens d ! e of
             Held n \<Rightarrow> Some (d\<lparr>tokens := (tokens d)[e := Held (n + 1)]\<rparr>)
           | _ \<Rightarrow> None
      else None)"

definition drop_token :: "nat \<Rightarrow> dataflow_graph \<Rightarrow> dataflow_graph option" where
  "drop_token e d =
     (if e < length (tokens d)
      then case tokens d ! e of
             Held n \<Rightarrow> Some (d\<lparr>tokens := (tokens d)[e := if n \<le> 1 then Released else Held (n - 1)]\<rparr>)
           | _ \<Rightarrow> None
      else None)"

text \<open>\<open>finalize\<close> waits for the future of every entry; it returns once all of them are ready.\<close>

definition finalize_returns :: "dataflow_graph \<Rightarrow> bool" where
  "finalize_returns d = list_all (\<lambda>(obj, f). tokens d ! f = Released) (wavefront_map d)"

section \<open>Tasks\<close>

datatype task_status = Waiting | Running | Finished

record task =
  args :: "nat list"
  results :: "nat list"
  dependencies :: "nat list"
  status :: task_status

record runtime_server =
  df_graph :: dataflow_graph
  task_list :: "task list"

definition init_runtime :: runtime_server where
  "init_runtime = \<lparr>df_graph = empty_graph, task_list = []\<rparr>"

fun schedule_reads :: "nat list \<Rightarrow> dataflow_graph \<Rightarrow> nat list \<times> dataflow_graph" where
  "schedule_reads [] d = ([], d)"
| "schedule_reads (obj # objs) d =
     (let (token, d1) = schedule_read obj d; (rest, d2) = schedule_reads objs d1
      in (token # rest, d2))"

fun schedule_modifications :: "nat list \<Rightarrow> dataflow_graph \<Rightarrow> nat list \<times> dataflow_graph" where
  "schedule_modifications [] d = ([], d)"
| "schedule_modifications (obj # objs) d =
     (let (token, d1) = schedule_modification obj d; (rest, d2) = schedule_modifications objs d1
      in (token # rest, d2))"

definition execute :: "nat list \<Rightarrow> nat list \<Rightarrow> runtime_server \<Rightarrow> runtime_server" where
  "execute as rs rt =
     (let (reads, d1) = schedule_reads as (df_graph rt);
          (writes, d2) = schedule_modifications rs d1
      in \<lparr>df_graph = d2,
          task_list = task_list rt @
            [\<lparr>args = as, results = rs, dependencies = reads @ writes, status = Waiting\<rparr>]\<rparr>)"

text \<open>A client that acquires access to one object blocks until its token is delivered.\<close>

definition acquire_access :: "nat \<Rightarrow> runtime_server \<Rightarrow> runtime_server" where
  "acquire_access obj rt =
     (let (token, d) = schedule_modification obj (df_graph rt)
      in \<lparr>df_graph = d,
          task_list = task_list rt @
            [\<lparr>args = [], results = [obj], dependencies = [token], status = Waiting\<rparr>]\<rparr>)"

definition is_held :: "token_state \<Rightarrow> bool" where
  "is_held s = (case s of Held n \<Rightarrow> True | _ \<Rightarrow> False)"

text \<open>The tokens of a task are all delivered: it runs on the virtual processing unit.\<close>

definition start_task :: "nat \<Rightarrow> runtime_server \<Rightarrow> runtime_server option" where
  "start_task t rt =
     (if t < length (task_list rt) \<and> status (task_list rt ! t) = Waiting \<and>
         list_all (\<lambda>e. is_held (tokens (df_graph rt) ! e)) (dependencies (task_list rt ! t))
      then Some (rt\<lparr>task_list := (task_list rt)[t := (task_list rt ! t)\<lparr>status := Running\<rparr>]\<rparr>)
      else None)"

fun drop_tokens :: "nat list \<Rightarrow> dataflow_graph \<Rightarrow> dataflow_graph option" where
  "drop_tokens [] d = Some d"
| "drop_tokens (e # es) d = Option.bind (drop_token e d) (drop_tokens es)"

text \<open>The continuation of the task ends, normally or by an exception: its tokens are destroyed.\<close>

definition finish_task :: "nat \<Rightarrow> runtime_server \<Rightarrow> runtime_server option" where
  "finish_task t rt =
     (if t < length (task_list rt) \<and> status (task_list rt ! t) = Running
      then map_option (\<lambda>d. \<lparr>df_graph = d,
             task_list = (task_list rt)[t := (task_list rt ! t)\<lparr>status := Finished\<rparr>]\<rparr>)
             (drop_tokens (dependencies (task_list rt ! t)) (df_graph rt))
      else None)"

datatype action =
    Execute "nat list" "nat list"
  | Acquire nat
  | Continue nat
  | Start nat
  | Finish nat

fun runtime_step :: "action \<Rightarrow> runtime_server \<Rightarrow> runtime_server option" where
  "runtime_step (Execute as rs) rt = Some (execute as rs rt)"
| "runtime_step (Acquire obj) rt = Some (acquire_access obj rt)"
| "runtime_step (Continue e) rt =
     map_option (\<lambda>d. rt\<lparr>df_graph := d\<rparr>) (run_continuation e (df_graph rt))"
| "runtime_step (Start t) rt = start_task t rt"
| "runtime_step (Finish t) rt = finish_task t rt"

inductive runs_to :: "runtime_server \<Rightarrow> runtime_server \<Rightarrow> bool" where
  runs_refl: "runs_to rt rt"
| runs_step: "runs_to rt rt' \<Longrightarrow> runtime_step a rt' = Some rt'' \<Longrightarrow> runs_to rt rt''"

section \<open>The order of accesses\<close>

text \<open>
  A history lists every access scheduled so far with the event of its token.  The graph agrees with
  a history if the wavefront holds the last event of every object, and a token is queued behind the
  previous access to its object until that one is released.
\<close>

type_synonym history = "(nat \<times> nat) list"

definition previous :: "history \<Rightarrow> nat \<Rightarrow> nat option" where
  "previous h e = map_of (rev (take e h)) (fst (h ! e))"

definition token_ok :: "history \<Rightarrow> token_state list \<Rightarrow> nat \<Rightarrow> bool" where
  "token_ok h ts e =
     (case previous h e of
        None \<Rightarrow> ts ! e = Held 1 \<or> ts ! e = Released
      | Some f \<Rightarrow> ts ! e = Queued f \<or> ts ! f = Released \<and> (ts ! e = Held 1 \<or> ts ! e = Released))"

definition graph_ok :: "history \<Rightarrow> dataflow_graph \<Rightarrow> bool" where
  "graph_ok h d \<longleftrightarrow>
     map snd h = [0..<length (tokens d)] \<and>
     map_of (wavefront_map d) = map_of (rev h) \<and>
     (\<forall>e < length (tokens d). token_ok h (tokens d) e)"

lemma graph_okD:
  assumes "graph_ok h d"
  shows "length h = length (tokens d)" and "e < length h \<Longrightarrow> h ! e = (fst (h ! e), e)"
    and "map_of (wavefront_map d) = map_of (rev h)" and "e < length h \<Longrightarrow> token_ok h (tokens d) e"
proof -
  have m: "map snd h = [0..<length (tokens d)]" using assms by (simp add: graph_ok_def)
  then show len: "length h = length (tokens d)" by (metis length_map length_upt minus_nat.diff_0)
  show "h ! e = (fst (h ! e), e)" if "e < length h"
    using m that len by (metis add_0 nth_map nth_upt prod.collapse)
  show "map_of (wavefront_map d) = map_of (rev h)" using assms by (simp add: graph_ok_def)
  show "token_ok h (tokens d) e" if "e < length h" using assms that len by (simp add: graph_ok_def)
qed

lemma history_member:
  "graph_ok h d \<Longrightarrow> (obj, e) \<in> set h \<longleftrightarrow> e < length h \<and> fst (h ! e) = obj"
  using graph_okD(2) [of h d] by (fastforce simp: in_set_conv_nth)

lemma previous_SomeD:
  assumes "graph_ok h d" "e < length h" "previous h e = Some f"
  shows "f < e" and "fst (h ! f) = fst (h ! e)"
proof -
  have "(fst (h ! e), f) \<in> set (take e h)"
    using assms(3) by (auto simp: previous_def dest: map_of_SomeD)
  then obtain i where "i < e" "i < length h" "h ! i = (fst (h ! e), f)"
    by (auto simp: in_set_conv_nth)
  with graph_okD(2) [OF assms(1), of i] have "i = f" by simp
  with \<open>h ! i = _\<close> \<open>i < e\<close> show "f < e" and "fst (h ! f) = fst (h ! e)" by auto
qed

lemma map_of_rev_latest:
  assumes "\<forall>i < length h. snd (h ! i) = i" "e < length h" "fst (h ! e) = obj"
  shows "\<exists>g. map_of (rev h) obj = Some g \<and> e \<le> g"
  using assms
proof (induction h rule: rev_induct)
  case Nil
  then show ?case by simp
next
  case (snoc x h)
  have x: "snd x = length h" using snoc.prems(1) by (metis length_append_singleton lessI nth_append_length)
  have h: "\<forall>i < length h. snd (h ! i) = i"
    using snoc.prems(1) by (metis length_append_singleton less_Suc_eq nth_append)
  show ?case
  proof (cases "fst x = obj")
    case True
    then show ?thesis using x snoc.prems(2) by (simp add: less_Suc_eq_le)
  next
    case False
    then have "e < length h" using snoc.prems(2,3) by (auto simp: less_Suc_eq)
    then show ?thesis using snoc.IH [OF h] snoc.prems(3) False by (simp add: nth_append)
  qed
qed

lemma previous_latest:
  assumes "graph_ok h d" "e < length h" "f < e" "fst (h ! f) = fst (h ! e)"
  shows "\<exists>g. previous h e = Some g \<and> f \<le> g"
proof -
  have "\<forall>i < length (take e h). snd (take e h ! i) = i"
    using graph_okD(2) [OF assms(1)] by (metis length_take min_less_iff_conj nth_take snd_conv)
  then show ?thesis
    using map_of_rev_latest [of "take e h" f] assms(2-4) by (simp add: previous_def)
qed

lemma token_not_queued:
  assumes "graph_ok h d" "e < length h" "\<forall>f. tokens d ! e \<noteq> Queued f" "f < e"
    "fst (h ! f) = fst (h ! e)"
  shows "tokens d ! f = Released"
  using assms(2-5)
proof (induction e rule: less_induct)
  case (less e)
  from previous_latest [OF assms(1) less.prems(1,3,4)] obtain g
    where g: "previous h e = Some g" "f \<le> g" by blast
  have ge: "g < e" "fst (h ! g) = fst (h ! e)"
    using previous_SomeD [OF assms(1) less.prems(1) g(1)] by auto
  have "tokens d ! g = Released"
    using graph_okD(4) [OF assms(1) less.prems(1)] g(1) less.prems(2) by (auto simp: token_ok_def)
  then show ?case
    using less.IH [OF ge(1)] ge less.prems g(2) by (cases "f = g") auto
qed

lemma empty_graph_ok: "graph_ok [] empty_graph"
  by (simp add: graph_ok_def empty_graph_def)

lemma token_ok_append:
  assumes "e < length h" "length ts = length h" "token_ok h ts e" "\<And>f. previous h e = Some f \<Longrightarrow> f < e"
  shows "token_ok (h @ [x]) (ts @ [t]) e"
proof -
  have "previous (h @ [x]) e = previous h e" using assms(1) by (simp add: previous_def nth_append)
  then show ?thesis
    using assms by (auto simp: token_ok_def nth_append split: option.splits)
qed

lemma schedule_modification_ok:
  assumes "graph_ok h d" and "schedule_modification obj d = (e, d')"
  shows "graph_ok (h @ [(obj, e)]) d'" and "e = length (tokens d)"
    and "\<forall>f < length (tokens d). tokens d' ! f = tokens d ! f"
    and "length (tokens d') = Suc (length (tokens d))" and "tokens d' ! e \<noteq> Released"
proof -
  note ok = graph_okD [OF assms(1)]
  let ?t = "case map_of (rev h) obj of Some f \<Rightarrow> Queued f | None \<Rightarrow> Held 1"
  have e: "e = length (tokens d)" and ts: "tokens d' = tokens d @ [?t]"
    and w: "map_of (wavefront_map d') = (map_of (rev h))(obj \<mapsto> e)"
    using assms(2) ok(3)
    by (auto simp: schedule_modification_def Let_def update_conv map_add_def fun_eq_iff
        split: option.splits)
  then show "e = length (tokens d)" by simp
  show "\<forall>f < length (tokens d). tokens d' ! f = tokens d ! f" using ts by (simp add: nth_append)
  show "length (tokens d') = Suc (length (tokens d))" using ts by simp
  show "tokens d' ! e \<noteq> Released" using ts e by (simp split: option.splits)
  have "token_ok (h @ [(obj, e)]) (tokens d') f" if "f < length (tokens d')" for f
  proof (cases "f < length h")
    case True
    then show ?thesis
      using token_ok_append [OF True] ok(1,4) previous_SomeD(1) [OF assms(1) True] ts by metis
  next
    case False
    then have f: "f = length h" "f = e" using that ok(1) ts e by auto
    have "previous (h @ [(obj, e)]) f = map_of (rev h) obj" using f by (simp add: previous_def)
    then show ?thesis using ts f ok(1) e by (auto simp: token_ok_def split: option.splits)
  qed
  moreover have "map snd (h @ [(obj, e)]) = [0..<length (tokens d')]"
    using assms(1) e ts by (simp add: graph_ok_def)
  ultimately show "graph_ok (h @ [(obj, e)]) d'" using w by (simp add: graph_ok_def)
qed

lemma run_continuation_ok:
  assumes "graph_ok h d" and "run_continuation e d = Some d'"
  shows "graph_ok h d'"
proof -
  obtain f where e: "e < length (tokens d)" "tokens d ! e = Queued f" "tokens d ! f = Released"
    and d': "d' = d\<lparr>tokens := (tokens d)[e := Held 1]\<rparr>"
    using assms(2) by (auto simp: run_continuation_def split: if_splits token_state.splits)
  have "token_ok h ((tokens d)[e := Held 1]) g" if "g < length (tokens d)" for g
    using graph_okD(1,4) [OF assms(1)] that e
    by (fastforce simp: token_ok_def nth_list_update split: option.splits)
  with assms(1) d' show ?thesis by (simp add: graph_ok_def)
qed

lemma release_ok:
  assumes "graph_ok h d" and "e < length (tokens d)" "tokens d ! e = Held 1"
  shows "graph_ok h (d\<lparr>tokens := (tokens d)[e := Released]\<rparr>)"
proof -
  have "token_ok h ((tokens d)[e := Released]) g" if "g < length (tokens d)" for g
    using graph_okD(1,4) [OF assms(1)] that assms(2,3)
    by (fastforce simp: token_ok_def nth_list_update split: option.splits)
  with assms(1) show ?thesis by (simp add: graph_ok_def)
qed

end
