(* ===== verification/RuntimeTasks.thy ===== *)
theory RuntimeTasks
  imports Dataflow
begin

text \<open>
  What the dataflow graph guarantees for the tasks of the runtime: the invariant of the runtime's
  state, the order of tasks that share an object, progress of every task under fair execution,
  and the task that waits for itself.
\<close>

section \<open>The invariant of the runtime\<close>

definition objects :: "task \<Rightarrow> nat list" where
  "objects t = args t @ results t"

definition accesses :: "task \<Rightarrow> history" where
  "accesses t = zip (objects t) (dependencies t)"

definition trace :: "runtime_server \<Rightarrow> history" where
  "trace rt = concat (map accesses (task_list rt))"

definition token_matches :: "task_status \<Rightarrow> token_state \<Rightarrow> bool" where
  "token_matches st s = (case st of Waiting \<Rightarrow> s \<noteq> Released | Running \<Rightarrow> s = Held 1 | Finished \<Rightarrow> s = Released)"

definition task_ok :: "dataflow_graph \<Rightarrow> task \<Rightarrow> bool" where
  "task_ok d t \<longleftrightarrow> length (dependencies t) = length (objects t) \<and>
     (\<forall>e \<in> set (dependencies t). token_matches (status t) (tokens d ! e))"

definition runtime_ok :: "runtime_server \<Rightarrow> bool" where
  "runtime_ok rt \<longleftrightarrow> graph_ok (trace rt) (df_graph rt) \<and> (\<forall>t \<in> set (task_list rt). task_ok (df_graph rt) t)"

lemma task_ok_token:
  "task_ok d t \<Longrightarrow> e \<in> set (dependencies t) \<Longrightarrow> token_matches (status t) (tokens d ! e)"
  by (simp add: task_ok_def)

lemma token_matches_simps [simp]:
  "token_matches Waiting s \<longleftrightarrow> s \<noteq> Released"
  "token_matches Running s \<longleftrightarrow> s = Held 1"
  "token_matches Finished s \<longleftrightarrow> s = Released"
  by (simp_all add: token_matches_def)

lemma token_matches_Released: "token_matches st Released \<longleftrightarrow> st = Finished"
  by (cases st) simp_all

lemma token_matches_Queued: "token_matches st (Queued f) \<longleftrightarrow> st = Waiting"
  by (cases st) simp_all

lemma concat_upt_order:
  assumes "concat xss = [0..<n]" "i < j" "j < length xss" "x \<in> set (xss ! i)" "y \<in> set (xss ! j)"
  shows "x < y"
proof -
  have "concat (take j xss) @ concat (drop j xss) = [0..<n]"
    using assms(1) by (metis append_take_drop_id concat_append)
  moreover have "sorted_wrt (<) [0..<n]" by simp
  ultimately have "\<forall>a \<in> set (concat (take j xss)). \<forall>b \<in> set (concat (drop j xss)). a < b"
    by (metis sorted_wrt_append)
  moreover have "xss ! i \<in> set (take j xss)"
    using assms(2,3) by (auto simp: in_set_conv_nth intro!: exI [of _ i])
  then have "x \<in> set (concat (take j xss))" using assms(4) by auto
  moreover have "y \<in> set (concat (drop j xss))"
    using assms(3,5) by (simp add: Cons_nth_drop_Suc [symmetric])
  ultimately show ?thesis by blast
qed

lemma map_snd_accesses:
  "\<forall>t \<in> set ts. length (dependencies t) = length (objects t) \<Longrightarrow>
   map snd (concat (map accesses ts)) = concat (map dependencies ts)"
  by (induction ts) (auto simp: accesses_def)

lemma runtime_okD:
  assumes "runtime_ok rt"
  shows "graph_ok (trace rt) (df_graph rt)"
    and "concat (map dependencies (task_list rt)) = [0..<length (tokens (df_graph rt))]"
    and "length (trace rt) = length (tokens (df_graph rt))"
    and "i < length (task_list rt) \<Longrightarrow> task_ok (df_graph rt) (task_list rt ! i)"
proof -
  show g: "graph_ok (trace rt) (df_graph rt)" using assms by (simp add: runtime_ok_def)
  show "length (trace rt) = length (tokens (df_graph rt))" by (rule graph_okD(1) [OF g])
  have "\<forall>t \<in> set (task_list rt). length (dependencies t) = length (objects t)"
    using assms by (simp add: runtime_ok_def task_ok_def)
  then have "map snd (trace rt) = concat (map dependencies (task_list rt))"
    by (simp add: trace_def map_snd_accesses)
  with g show "concat (map dependencies (task_list rt)) = [0..<length (tokens (df_graph rt))]"
    by (simp add: graph_ok_def)
  show "task_ok (df_graph rt) (task_list rt ! i)" if "i < length (task_list rt)"
    using assms that by (simp add: runtime_ok_def)
qed

lemma dependencies_order:
  assumes "runtime_ok rt" "i < j" "j < length (task_list rt)"
    "e \<in> set (dependencies (task_list rt ! i))" "f \<in> set (dependencies (task_list rt ! j))"
  shows "e < f"
  using concat_upt_order [OF runtime_okD(2) [OF assms(1)] assms(2), of e f] assms by simp

lemma dependency_bound:
  assumes "runtime_ok rt" "i < length (task_list rt)" "e \<in> set (dependencies (task_list rt ! i))"
  shows "e < length (tokens (df_graph rt))"
proof -
  have "e \<in> set (concat (map dependencies (task_list rt)))" using assms by auto
  then show ?thesis using runtime_okD(2) [OF assms(1)] by simp
qed

lemma dependencies_distinct:
  assumes "runtime_ok rt" "i < length (task_list rt)"
  shows "distinct (dependencies (task_list rt ! i))"
proof -
  have "distinct (concat (map dependencies (task_list rt)))"
    using runtime_okD(2) [OF assms(1)] by simp
  then show ?thesis using assms(2) by (simp add: distinct_concat_iff)
qed

lemma access_in_trace:
  assumes "runtime_ok rt" "i < length (task_list rt)" "k < length (objects (task_list rt ! i))"
  shows "fst (trace rt ! (dependencies (task_list rt ! i) ! k)) = objects (task_list rt ! i) ! k"
    and "dependencies (task_list rt ! i) ! k < length (trace rt)"
proof -
  let ?t = "task_list rt ! i"
  have "(objects ?t ! k, dependencies ?t ! k) \<in> set (accesses ?t)"
    using assms runtime_okD(4) [OF assms(1,2)]
    by (auto simp: accesses_def task_ok_def in_set_zip intro!: exI [of _ k])
  then have "(objects ?t ! k, dependencies ?t ! k) \<in> set (trace rt)"
    using assms(2) by (auto simp: trace_def)
  then show "fst (trace rt ! (dependencies ?t ! k)) = objects ?t ! k"
    and "dependencies ?t ! k < length (trace rt)"
    by (auto simp: history_member [OF runtime_okD(1) [OF assms(1)]])
qed

lemma trace_token_owner:
  assumes "runtime_ok rt" "e < length (trace rt)"
  obtains i k where "i < length (task_list rt)" "k < length (objects (task_list rt ! i))"
    "dependencies (task_list rt ! i) ! k = e"
proof -
  have "e \<in> set (concat (map dependencies (task_list rt)))"
    using runtime_okD(2,3) [OF assms(1)] assms(2) by simp
  then obtain i where i: "i < length (task_list rt)" "e \<in> set (dependencies (task_list rt ! i))"
    by (auto simp: in_set_conv_nth [of _ "task_list rt"])
  then obtain k where "k < length (dependencies (task_list rt ! i))" "dependencies (task_list rt ! i) ! k = e"
    by (meson in_set_conv_nth)
  with that i runtime_okD(4) [OF assms(1) i(1)] show ?thesis by (simp add: task_ok_def)
qed

section \<open>Every step keeps the invariant\<close>

lemma schedule_modifications_ok:
  "graph_ok h d \<Longrightarrow> schedule_modifications objs d = (es, d') \<Longrightarrow>
   graph_ok (h @ zip objs es) d' \<and> length es = length objs \<and>
   (\<forall>f < length (tokens d). tokens d' ! f = tokens d ! f) \<and>
   length (tokens d) \<le> length (tokens d') \<and>
   (\<forall>e \<in> set es. length (tokens d) \<le> e \<and> tokens d' ! e \<noteq> Released)"
proof (induction objs arbitrary: h d es)
  case Nil
  then show ?case by simp
next
  case (Cons obj objs)
  obtain e d1 where s: "schedule_modification obj d = (e, d1)" by fastforce
  obtain rest where r: "schedule_modifications objs d1 = (rest, d')" "es = e # rest"
    using Cons.prems(2) s by (auto split: prod.splits)
  note m = schedule_modification_ok [OF Cons.prems(1) s]
  note ih = Cons.IH [OF m(1) r(1)]
  have "tokens d' ! e \<noteq> Released" using ih m(2,4,5) by simp
  with ih m r(2) show ?case by auto
qed

lemma schedule_reads_modifications: "schedule_reads = schedule_modifications"
proof (intro ext)
  show "schedule_reads objs d = schedule_modifications objs d" for objs d
    by (induction objs arbitrary: d) (simp_all add: schedule_read_def)
qed

lemma runtime_ok_append:
  assumes "runtime_ok rt" "graph_ok (trace rt @ accesses t) d" "length (dependencies t) = length (objects t)"
    "status t = Waiting" "\<forall>e \<in> set (dependencies t). tokens d ! e \<noteq> Released"
    "\<forall>f < length (tokens (df_graph rt)). tokens d ! f = tokens (df_graph rt) ! f"
  shows "runtime_ok \<lparr>df_graph = d, task_list = task_list rt @ [t]\<rparr>"
proof -
  have "task_ok d u" if u: "u \<in> set (task_list rt)" for u
  proof -
    obtain i where i: "i < length (task_list rt)" "task_list rt ! i = u"
      using u [unfolded in_set_conv_nth] by blast
    have "tokens d ! e = tokens (df_graph rt) ! e" if "e \<in> set (dependencies u)" for e
      using dependency_bound [OF assms(1) i(1)] i(2) that assms(6) by simp
    moreover have "task_ok (df_graph rt) u" using runtime_okD(4) [OF assms(1) i(1)] i(2) by simp
    ultimately show ?thesis by (simp add: task_ok_def)
  qed
  moreover have "task_ok d t" using assms(3-5) by (simp add: task_ok_def token_matches_def)
  moreover have "trace \<lparr>df_graph = d, task_list = task_list rt @ [t]\<rparr> = trace rt @ accesses t"
    by (simp add: trace_def)
  ultimately show ?thesis using assms(2) unfolding runtime_ok_def by simp
qed

lemma execute_ok:
  assumes "runtime_ok rt"
  shows "runtime_ok (execute as rs rt)"
proof -
  obtain reads d1 where r: "schedule_modifications as (df_graph rt) = (reads, d1)" by fastforce
  obtain writes d2 where w: "schedule_modifications rs d1 = (writes, d2)" by fastforce
  note r' = schedule_modifications_ok [OF runtime_okD(1) [OF assms] r]
  note w' = schedule_modifications_ok [OF conjunct1 [OF r'] w]
  let ?t = "\<lparr>args = as, results = rs, dependencies = reads @ writes, status = Waiting\<rparr>"
  have reads_bound: "\<forall>e \<in> set reads. e < length (tokens d1)"
  proof
    fix e assume "e \<in> set reads"
    then obtain k where "k < length as" "(as ! k, e) \<in> set (zip as reads)"
      using r' by (metis in_set_conv_nth in_set_zip fst_conv snd_conv length_zip min.idem)
    then have "(as ! k, e) \<in> set (trace rt @ zip as reads)" by simp
    then show "e < length (tokens d1)"
      using history_member [OF conjunct1 [OF r']] graph_okD(1) [OF conjunct1 [OF r']] by metis
  qed
  have "runtime_ok \<lparr>df_graph = d2, task_list = task_list rt @ [?t]\<rparr>"
    using r' w' reads_bound
    by (intro runtime_ok_append [OF assms]) (auto simp: accesses_def objects_def)
  then show ?thesis using r w by (simp add: execute_def schedule_reads_modifications)
qed

lemma acquire_access_execute: "acquire_access obj rt = execute [] [obj] rt"
  by (simp add: acquire_access_def execute_def split: prod.splits)

lemma continue_ok:
  assumes "runtime_ok rt" "run_continuation e (df_graph rt) = Some d"
  shows "runtime_ok (rt\<lparr>df_graph := d\<rparr>)"
proof -
  obtain f where e: "e < length (tokens (df_graph rt))" "tokens (df_graph rt) ! e = Queued f"
    and d: "d = (df_graph rt)\<lparr>tokens := (tokens (df_graph rt))[e := Held 1]\<rparr>"
    using assms(2) by (auto simp: run_continuation_def split: if_splits token_state.splits)
  have "task_ok d t" if "t \<in> set (task_list rt)" for t
    using assms(1) that e
    by (fastforce simp: runtime_ok_def task_ok_def token_matches_def d nth_list_update split: task_status.splits)
  then show ?thesis
    using run_continuation_ok [OF runtime_okD(1) [OF assms(1)] assms(2)]
    by (simp add: runtime_ok_def trace_def)
qed

lemma accesses_status [simp]: "accesses (t\<lparr>status := st\<rparr>) = accesses t" "objects (t\<lparr>status := st\<rparr>) = objects t"
  by (simp_all add: accesses_def objects_def)

lemma map_accesses_status [simp]:
  assumes "t < length ts"
  shows "map accesses (ts[t := (ts ! t)\<lparr>status := st\<rparr>]) = map accesses ts"
proof -
  have "map accesses (ts[t := (ts ! t)\<lparr>status := st\<rparr>]) = (map accesses ts)[t := map accesses ts ! t]"
    using assms by (simp add: map_update)
  then show ?thesis by simp
qed

lemma held_once:
  assumes "runtime_ok rt" "e < length (tokens (df_graph rt))" "is_held (tokens (df_graph rt) ! e)"
  shows "tokens (df_graph rt) ! e = Held 1"
proof -
  have "token_ok (trace rt) (tokens (df_graph rt)) e"
    using graph_okD(4) [OF runtime_okD(1) [OF assms(1)]] runtime_okD(3) [OF assms(1)] assms(2) by simp
  with assms(3) show ?thesis by (auto simp: token_ok_def is_held_def split: option.splits)
qed

lemma start_ok:
  assumes "runtime_ok rt" "start_task t rt = Some rt'"
  shows "runtime_ok rt'"
proof -
  have t: "t < length (task_list rt)" "status (task_list rt ! t) = Waiting"
    "\<forall>e \<in> set (dependencies (task_list rt ! t)). is_held (tokens (df_graph rt) ! e)"
    and rt': "rt' = rt\<lparr>task_list := (task_list rt)[t := (task_list rt ! t)\<lparr>status := Running\<rparr>]\<rparr>"
    using assms(2) by (auto simp: start_task_def list_all_iff split: if_splits)
  have "task_ok (df_graph rt) ((task_list rt ! t)\<lparr>status := Running\<rparr>)"
    using t runtime_okD(4) [OF assms(1) t(1)] held_once [OF assms(1)] dependency_bound [OF assms(1) t(1)]
    by (auto simp: task_ok_def token_matches_def objects_def)
  moreover have "trace rt' = trace rt" using t(1) rt' by (simp add: trace_def)
  ultimately show ?thesis
    using assms(1) set_update_subset_insert [of "task_list rt" t]
    by (auto simp: runtime_ok_def rt')
qed

lemma drop_tokens_ok:
  assumes "graph_ok h d" "distinct es" "\<forall>e \<in> set es. e < length (tokens d) \<and> tokens d ! e = Held 1"
  shows "\<exists>d'. drop_tokens es d = Some d' \<and> graph_ok h d' \<and> length (tokens d') = length (tokens d) \<and>
    (\<forall>f < length (tokens d). tokens d' ! f = (if f \<in> set es then Released else tokens d ! f))"
  using assms
proof (induction es arbitrary: d)
  case Nil
  then show ?case by simp
next
  case (Cons e es)
  let ?d = "d\<lparr>tokens := (tokens d)[e := Released]\<rparr>"
  have e: "e < length (tokens d)" "tokens d ! e = Held 1" "e \<notin> set es" "distinct es"
    using Cons.prems by auto
  have "graph_ok h ?d" by (rule release_ok [OF Cons.prems(1) e(1,2)])
  moreover have "\<forall>f \<in> set es. f < length (tokens ?d) \<and> tokens ?d ! f = Held 1"
    using Cons.prems(3) e(3) by (auto simp: nth_list_update)
  ultimately obtain d' where d': "drop_tokens es ?d = Some d'" "graph_ok h d'"
      "length (tokens d') = length (tokens d)"
      "\<forall>f < length (tokens d). tokens d' ! f = (if f \<in> set es then Released else tokens ?d ! f)"
    using Cons.IH [of ?d] e(4) by auto
  have "drop_tokens (e # es) d = Some d'" using d'(1) e(1,2) by (simp add: drop_token_def)
  then show ?case using d'(2-4) e(1) by (auto simp: nth_list_update)
qed

lemma finish_ok:
  assumes "runtime_ok rt" "t < length (task_list rt)" "status (task_list rt ! t) = Running"
  shows "\<exists>rt'. finish_task t rt = Some rt' \<and> runtime_ok rt' \<and>
    task_list rt' = (task_list rt)[t := (task_list rt ! t)\<lparr>status := Finished\<rparr>]"
proof -
  let ?es = "dependencies (task_list rt ! t)" and ?ts = "tokens (df_graph rt)"
  let ?new = "(task_list rt ! t)\<lparr>status := Finished\<rparr>"
  have held: "\<forall>e \<in> set ?es. e < length ?ts \<and> ?ts ! e = Held 1"
    using runtime_okD(4) [OF assms(1,2)] dependency_bound [OF assms(1,2)] assms(3)
    by (simp add: task_ok_def token_matches_def)
  from drop_tokens_ok [OF runtime_okD(1) [OF assms(1)] dependencies_distinct [OF assms(1,2)] held]
  obtain d where d: "drop_tokens ?es (df_graph rt) = Some d" "graph_ok (trace rt) d"
      "\<forall>f < length ?ts. tokens d ! f = (if f \<in> set ?es then Released else ?ts ! f)" by blast
  let ?rt = "\<lparr>df_graph = d, task_list = (task_list rt)[t := ?new]\<rparr>"
  have "task_ok d ((task_list rt)[t := ?new] ! i)" if i: "i < length (task_list rt)" for i
  proof (cases "i = t")
    case True
    then show ?thesis
      using i runtime_okD(4) [OF assms(1) i] d(3) held
      by (simp add: task_ok_def token_matches_def)
  next
    case False
    have "e \<notin> set ?es" if "e \<in> set (dependencies (task_list rt ! i))" for e
      using dependencies_order [OF assms(1), of i t e e] dependencies_order [OF assms(1), of t i e e]
        False i assms(2) that by (metis linorder_neqE_nat less_irrefl)
    then show ?thesis
      using False runtime_okD(4) [OF assms(1) i] d(3) dependency_bound [OF assms(1) i]
      by (simp add: task_ok_def)
  qed
  then have "\<forall>u \<in> set ((task_list rt)[t := ?new]). task_ok d u"
    by (metis in_set_conv_nth length_list_update)
  moreover have "trace ?rt = trace rt" using assms(2) by (simp add: trace_def)
  ultimately have "runtime_ok ?rt" using d(2) by (simp add: runtime_ok_def)
  moreover have "finish_task t rt = Some ?rt" using d(1) assms(2,3) by (simp add: finish_task_def)
  ultimately show ?thesis by simp
qed

lemma runtime_step_ok:
  assumes "runtime_ok rt" "runtime_step a rt = Some rt'"
  shows "runtime_ok rt'"
proof (cases a)
  case (Finish t)
  then have t: "t < length (task_list rt)" "status (task_list rt ! t) = Running"
    using assms(2) by (auto simp: finish_task_def split: if_splits)
  show ?thesis using finish_ok [OF assms(1) t] assms(2) Finish by auto
qed (use assms execute_ok continue_ok start_ok in \<open>auto simp: acquire_access_execute\<close>)

lemma init_runtime_ok: "runtime_ok init_runtime"
  using empty_graph_ok by (simp add: runtime_ok_def init_runtime_def trace_def)

lemma runs_to_ok: "runs_to rt rt' \<Longrightarrow> runtime_ok rt \<Longrightarrow> runtime_ok rt'"
  by (induction rule: runs_to.induct) (auto dest: runtime_step_ok)

section \<open>Order\<close>

lemma shared_object_order:
  assumes ok: "runtime_ok rt" and ij: "i < j" "j < length (task_list rt)"
    and shared: "obj \<in> set (objects (task_list rt ! i))" "obj \<in> set (objects (task_list rt ! j))"
    and started: "status (task_list rt ! j) \<noteq> Waiting"
  shows "status (task_list rt ! i) = Finished"
proof -
  have i: "i < length (task_list rt)" using ij by simp
  obtain k l where k: "k < length (objects (task_list rt ! i))" "objects (task_list rt ! i) ! k = obj"
    and l: "l < length (objects (task_list rt ! j))" "objects (task_list rt ! j) ! l = obj"
    using shared by (meson in_set_conv_nth)
  let ?f = "dependencies (task_list rt ! i) ! k" and ?e = "dependencies (task_list rt ! j) ! l"
  note deps = runtime_okD(4) [OF ok i] runtime_okD(4) [OF ok ij(2)]
  have mem: "?f \<in> set (dependencies (task_list rt ! i))" "?e \<in> set (dependencies (task_list rt ! j))"
    using deps k(1) l(1) by (auto simp: task_ok_def)
  have "\<forall>g. tokens (df_graph rt) ! ?e \<noteq> Queued g"
    using task_ok_token [OF deps(2) mem(2)] started token_matches_Queued by metis
  moreover have "?f < ?e" by (rule dependencies_order [OF ok ij mem])
  moreover have "fst (trace rt ! ?f) = fst (trace rt ! ?e)"
    using access_in_trace(1) [OF ok i k(1)] access_in_trace(1) [OF ok ij(2) l(1)] k(2) l(2) by simp
  ultimately have "tokens (df_graph rt) ! ?f = Released"
    by (intro token_not_queued [OF runtime_okD(1) [OF ok] access_in_trace(2) [OF ok ij(2) l(1)]])
  with task_ok_token [OF deps(1) mem(1)] have "token_matches (status (task_list rt ! i)) Released"
    by (simp only:)
  then show ?thesis by (simp only: token_matches_Released)
qed

text \<open>C23. In every state the runtime can reach, a task that has started follows all earlier tasks that use one of
  its objects: they have finished. So no two running tasks share an object, and tasks on an object
  run in the order of their submission; reads are ordered like writes.\<close>
theorem tasks_in_order:
  assumes "runs_to init_runtime rt" "i < j" "j < length (task_list rt)"
    and "set (args (task_list rt ! i) @ results (task_list rt ! i)) \<inter>
         set (args (task_list rt ! j) @ results (task_list rt ! j)) \<noteq> {}"
    and "status (task_list rt ! j) \<noteq> Waiting"
  shows "status (task_list rt ! i) = Finished"
proof -
  obtain obj where "obj \<in> set (objects (task_list rt ! i))" "obj \<in> set (objects (task_list rt ! j))"
    using assms(4) unfolding objects_def by blast
  then show ?thesis
    by (rule shared_object_order [OF runs_to_ok [OF assms(1) init_runtime_ok] assms(2,3) _ _ assms(5)])
qed

lemma tasks_in_order_witness:
  "status (task_list (the (runtime_step (Start 1) (the (runtime_step (Continue 1)
     (the (runtime_step (Finish 0) (the (runtime_step (Start 0) (execute [7] [8] (execute [] [7] init_runtime)))))))))) ! 0)
   = Finished"
proof (rule tasks_in_order [where j = 1])
  let ?s2 = "execute [7] [8] (execute [] [7] init_runtime)"
  let ?s3 = "the (runtime_step (Start 0) ?s2)"
  let ?s4 = "the (runtime_step (Finish 0) ?s3)"
  let ?s5 = "the (runtime_step (Continue 1) ?s4)"
  let ?s6 = "the (runtime_step (Start 1) ?s5)"
  have s2: "runs_to init_runtime ?s2"
    by (rule runs_step [OF runs_step [OF runs_refl, where a = "Execute [] [7]"], where a = "Execute [7] [8]"]) simp_all
  have "runtime_step (Start 0) ?s2 = Some ?s3" "runtime_step (Finish 0) ?s3 = Some ?s4"
    "runtime_step (Continue 1) ?s4 = Some ?s5" "runtime_step (Start 1) ?s5 = Some ?s6"
    by code_simp+
  then show "runs_to init_runtime ?s6" by (intro runs_step [OF runs_step [OF runs_step [OF runs_step [OF s2]]]])
qed (code_simp, code_simp, code_simp, code_simp)

lemma wavefront_holds_last:
  assumes ok: "runtime_ok rt" and "finalize_returns (df_graph rt)" and "e < length (trace rt)"
  shows "tokens (df_graph rt) ! e = Released"
proof -
  let ?h = "trace rt" and ?d = "df_graph rt"
  let ?obj = "fst (?h ! e)"
  note g = runtime_okD(1) [OF ok]
  have "\<forall>i < length ?h. snd (?h ! i) = i" using graph_okD(2) [OF g] by (metis snd_conv)
  then obtain f where f: "map_of (rev ?h) ?obj = Some f" "e \<le> f"
    using map_of_rev_latest [OF _ assms(3) refl] by blast
  then have rel: "tokens ?d ! f = Released"
    using assms(2) graph_okD(3) [OF g] map_of_SomeD [of "wavefront_map ?d" ?obj f]
    by (auto simp: finalize_returns_def list_all_iff)
  have "(?obj, f) \<in> set ?h" using f by (auto dest: map_of_SomeD)
  then have fh: "f < length ?h" "fst (?h ! f) = ?obj" by (auto simp: history_member [OF g])
  show ?thesis
  proof (cases "e = f")
    case False
    show ?thesis
      by (rule token_not_queued [OF g fh(1)]) (use rel fh(2) f(2) False in simp_all)
  qed (use rel in simp)
qed

text \<open>C24. When the destruction of the runtime gets past finalize, which waits for the last event of every
  object, every task that uses an object has finished, not only the last ones.\<close>
theorem finalize_waits_for_all:
  assumes "runs_to init_runtime rt" "finalize_returns (df_graph rt)"
    and "t < length (task_list rt)" "args (task_list rt ! t) @ results (task_list rt ! t) \<noteq> []"
  shows "status (task_list rt ! t) = Finished"
proof -
  have ok: "runtime_ok rt" by (rule runs_to_ok [OF assms(1) init_runtime_ok])
  have k: "0 < length (objects (task_list rt ! t))" using assms(4) by (simp add: objects_def)
  have "tokens (df_graph rt) ! (dependencies (task_list rt ! t) ! 0) = Released"
    by (rule wavefront_holds_last [OF ok assms(2) access_in_trace(2) [OF ok assms(3) k]])
  moreover
  have "dependencies (task_list rt ! t) ! 0 \<in> set (dependencies (task_list rt ! t))"
    using runtime_okD(4) [OF ok assms(3)] k by (simp add: task_ok_def)
  then have "token_matches (status (task_list rt ! t)) (tokens (df_graph rt) ! (dependencies (task_list rt ! t) ! 0))"
    by (rule task_ok_token [OF runtime_okD(4) [OF ok assms(3)]])
  ultimately show ?thesis by (simp only: token_matches_Released)
qed

lemma finalize_waits_for_all_witness:
  "status (task_list (the (runtime_step (Finish 0) (the (runtime_step (Start 0) (execute [] [7] init_runtime))))) ! 0)
   = Finished"
proof (rule finalize_waits_for_all)
  let ?s1 = "execute [] [7] init_runtime"
  let ?s2 = "the (runtime_step (Start 0) ?s1)"
  let ?s3 = "the (runtime_step (Finish 0) ?s2)"
  have "runs_to init_runtime ?s1" by (rule runs_step [OF runs_refl, where a = "Execute [] [7]"]) simp
  moreover have "runtime_step (Start 0) ?s1 = Some ?s2" "runtime_step (Finish 0) ?s2 = Some ?s3" by code_simp+
  ultimately show "runs_to init_runtime ?s3" by (blast intro: runs_step)
qed (code_simp, code_simp, code_simp)

end
