(* ===== verification/RuntimeProgress.thy ===== *)
theory RuntimeProgress
  imports RuntimeTasks
begin

text \<open>
  Progress of the tasks of the runtime.  A run is an infinite sequence of states in which every step is
  an action of the runtime or nothing happens; it is fair if no continuation, start or end of a task
  is possible forever without being taken.
\<close>

section \<open>Tasks that wait for themselves\<close>

lemma dependencies_sorted:
  assumes "runtime_ok rt" "i < length (task_list rt)"
  shows "sorted_wrt (<) (dependencies (task_list rt ! i))"
proof -
  have "sorted_wrt (<) (concat (map dependencies (task_list rt)))"
    using runtime_okD(2) [OF assms(1)] by simp
  moreover have "task_list rt = take i (task_list rt) @ task_list rt ! i # drop (Suc i) (task_list rt)"
    using assms(2) by (rule id_take_nth_drop)
  ultimately show ?thesis
    by (metis (no_types) concat.simps(2) concat_append list.simps(9) map_append sorted_wrt_append)
qed

lemma duplicate_not_running:
  assumes ok: "runtime_ok rt" and t: "t < length (task_list rt)" and dup: "\<not> distinct (objects (task_list rt ! t))"
  shows "status (task_list rt ! t) \<noteq> Running"
proof
  let ?t = "task_list rt ! t"
  assume run: "status ?t = Running"
  from dup obtain k l where kl: "k < l" "l < length (objects ?t)" "objects ?t ! k = objects ?t ! l"
    by (metis distinct_conv_nth linorder_neqE_nat)
  have len: "length (dependencies ?t) = length (objects ?t)"
    using runtime_okD(4) [OF ok t] by (simp add: task_ok_def)
  have "dependencies ?t ! k < dependencies ?t ! l"
    using dependencies_sorted [OF ok t] kl len by (simp add: sorted_wrt_iff_nth_less)
  moreover have held: "tokens (df_graph rt) ! (dependencies ?t ! m) = Held 1" if "m \<le> l" for m
    using task_ok_token [OF runtime_okD(4) [OF ok t], of "dependencies ?t ! m"] run that kl(2) len by simp
  moreover have "fst (trace rt ! (dependencies ?t ! k)) = fst (trace rt ! (dependencies ?t ! l))"
    using access_in_trace(1) [OF ok t] kl by simp
  ultimately have "tokens (df_graph rt) ! (dependencies ?t ! k) = Released"
    using kl by (intro token_not_queued [OF runtime_okD(1) [OF ok] access_in_trace(2) [OF ok t kl(2)]]) simp_all
  with held [of k] kl(1) show False by simp
qed

lemma start_taskD:
  assumes "start_task t rt = Some rt'"
  shows "t < length (task_list rt)" "status (task_list rt ! t) = Waiting" "df_graph rt' = df_graph rt"
    "task_list rt' = (task_list rt)[t := (task_list rt ! t)\<lparr>status := Running\<rparr>]"
  using assms by (auto simp: start_task_def split: if_splits)

lemma finish_taskD:
  assumes "runtime_ok rt" "finish_task t rt = Some rt'"
  shows "t < length (task_list rt)" "status (task_list rt ! t) = Running"
    "task_list rt' = (task_list rt)[t := (task_list rt ! t)\<lparr>status := Finished\<rparr>]"
proof -
  show t: "t < length (task_list rt)" "status (task_list rt ! t) = Running"
    using assms(2) by (auto simp: finish_task_def split: if_splits)
  show "task_list rt' = (task_list rt)[t := (task_list rt ! t)\<lparr>status := Finished\<rparr>]"
    using finish_ok [OF assms(1) t] assms(2) by auto
qed

lemma execute_task_list:
  "\<exists>es. task_list (execute as rs rt) =
     task_list rt @ [\<lparr>args = as, results = rs, dependencies = es, status = Waiting\<rparr>]"
  by (simp add: execute_def split: prod.splits)

lemma duplicate_stays_waiting:
  "runs_to rt rt' \<Longrightarrow> runtime_ok rt \<Longrightarrow>
   \<forall>t < length (task_list rt). \<not> distinct (objects (task_list rt ! t)) \<longrightarrow> status (task_list rt ! t) = Waiting \<Longrightarrow>
   \<forall>t < length (task_list rt'). \<not> distinct (objects (task_list rt' ! t)) \<longrightarrow> status (task_list rt' ! t) = Waiting"
proof (induction rule: runs_to.induct)
  case (runs_refl rt)
  then show ?case by simp
next
  case (runs_step rt rt' a rt'')
  have ok: "runtime_ok rt'" by (rule runs_to_ok [OF runs_step(1,4)])
  have ok': "runtime_ok rt''" by (rule runtime_step_ok [OF ok runs_step(2)])
  note ih = runs_step.IH [OF runs_step(4,5)]
  show ?case
  proof (cases a)
    case (Execute as rs)
    then show ?thesis using ih runs_step(2) execute_task_list [of as rs rt'] by (auto simp: nth_append less_Suc_eq)
  next
    case (Acquire obj)
    then show ?thesis
      using ih runs_step(2) execute_task_list [of "[]" "[obj]" rt']
      by (auto simp: acquire_access_execute nth_append less_Suc_eq)
  next
    case (Continue e)
    then show ?thesis using ih runs_step(2) by auto
  next
    case (Start t)
    then have s: "start_task t rt' = Some rt''" using runs_step(2) by simp
    have "distinct (objects (task_list rt'' ! t))"
      using duplicate_not_running [OF ok', of t] start_taskD [OF s] by auto
    then show ?thesis using ih start_taskD [OF s] by (auto simp: nth_list_update)
  next
    case (Finish t)
    then have f: "finish_task t rt' = Some rt''" using runs_step(2) by simp
    have "distinct (objects (task_list rt' ! t))"
      using duplicate_not_running [OF ok finish_taskD(1) [OF ok f]] finish_taskD(2) [OF ok f] by blast
    then show ?thesis using ih finish_taskD [OF ok f] by (auto simp: nth_list_update)
  qed
qed

text \<open>C25. A task that names an object twice, among its arguments and results together, queues its second
  access behind its own first one: it never starts, in no reachable state, and the wait of finalize
  for its tokens never ends.\<close>
theorem duplicate_object_deadlock:
  assumes "runs_to init_runtime rt" "t < length (task_list rt)"
    and "\<not> distinct (args (task_list rt ! t) @ results (task_list rt ! t))"
  shows "status (task_list rt ! t) = Waiting \<and> \<not> finalize_returns (df_graph rt)"
proof -
  have w: "status (task_list rt ! t) = Waiting"
    using duplicate_stays_waiting [OF assms(1) init_runtime_ok] assms(2,3)
    by (auto simp: objects_def init_runtime_def)
  have ok: "runtime_ok rt" by (rule runs_to_ok [OF assms(1) init_runtime_ok])
  have k: "0 < length (objects (task_list rt ! t))" using assms(3) by (auto simp: objects_def)
  let ?e = "dependencies (task_list rt ! t) ! 0"
  have "?e \<in> set (dependencies (task_list rt ! t))"
    using runtime_okD(4) [OF ok assms(2)] k by (simp add: task_ok_def)
  then have "tokens (df_graph rt) ! ?e \<noteq> Released"
    using task_ok_token [OF runtime_okD(4) [OF ok assms(2)]] w by fastforce
  then have "\<not> finalize_returns (df_graph rt)"
    using wavefront_holds_last [OF ok _ access_in_trace(2) [OF ok assms(2) k]] by blast
  with w show ?thesis by simp
qed

text \<open>A kernel called with the same object as argument and result, e.g. to update it in place.\<close>
lemma duplicate_object_deadlock_witness:
  "status (task_list (execute [7] [7] init_runtime) ! 0) = Waiting \<and>
   \<not> finalize_returns (df_graph (execute [7] [7] init_runtime))"
proof (rule duplicate_object_deadlock)
  show "runs_to init_runtime (execute [7] [7] init_runtime)"
    by (rule runs_step [OF runs_refl, where a = "Execute [7] [7]"]) simp
qed (code_simp, code_simp)

section \<open>What every step keeps\<close>

definition advances :: "runtime_server \<Rightarrow> runtime_server \<Rightarrow> bool" where
  "advances rt rt' \<longleftrightarrow>
     length (task_list rt) \<le> length (task_list rt') \<and>
     length (tokens (df_graph rt)) \<le> length (tokens (df_graph rt')) \<and>
     (\<forall>t < length (task_list rt).
        args (task_list rt' ! t) = args (task_list rt ! t) \<and>
        results (task_list rt' ! t) = results (task_list rt ! t) \<and>
        dependencies (task_list rt' ! t) = dependencies (task_list rt ! t) \<and>
        (status (task_list rt ! t) = Finished \<longrightarrow> status (task_list rt' ! t) = Finished) \<and>
        (status (task_list rt ! t) \<noteq> Waiting \<longrightarrow> status (task_list rt' ! t) \<noteq> Waiting)) \<and>
     (\<forall>e < length (tokens (df_graph rt)).
        (\<forall>f. tokens (df_graph rt) ! e \<noteq> Queued f) \<longrightarrow> (\<forall>f. tokens (df_graph rt') ! e \<noteq> Queued f))"

lemma advances_refl: "advances rt rt"
  by (simp add: advances_def)

lemma advances_trans: "advances rt1 rt2 \<Longrightarrow> advances rt2 rt3 \<Longrightarrow> advances rt1 rt3"
  by (auto simp: advances_def)

lemma execute_advances:
  assumes "runtime_ok rt"
  shows "advances rt (execute as rs rt)"
proof -
  obtain reads d1 where r: "schedule_modifications as (df_graph rt) = (reads, d1)" by fastforce
  obtain writes d2 where w: "schedule_modifications rs d1 = (writes, d2)" by fastforce
  note r' = schedule_modifications_ok [OF runtime_okD(1) [OF assms] r]
  note w' = schedule_modifications_ok [OF conjunct1 [OF r'] w]
  have "df_graph (execute as rs rt) = d2"
    using r w by (simp add: execute_def schedule_reads_modifications)
  moreover have "length (tokens (df_graph rt)) \<le> length (tokens d2)" using r' w' by simp
  moreover have "\<forall>e < length (tokens (df_graph rt)). tokens d2 ! e = tokens (df_graph rt) ! e"
    using r' w' by simp
  ultimately show ?thesis
    using execute_task_list [of as rs rt] by (auto simp: advances_def nth_append)
qed

lemma drop_token_extends:
  "drop_token e d = Some d' \<Longrightarrow> length (tokens d') = length (tokens d) \<and>
   (\<forall>g. (\<forall>f. tokens d ! g \<noteq> Queued f) \<longrightarrow> (\<forall>f. tokens d' ! g \<noteq> Queued f))"
  by (auto simp: drop_token_def nth_list_update split: if_splits token_state.splits)

lemma drop_tokens_extends:
  "drop_tokens es d = Some d' \<Longrightarrow> length (tokens d') = length (tokens d) \<and>
   (\<forall>g. (\<forall>f. tokens d ! g \<noteq> Queued f) \<longrightarrow> (\<forall>f. tokens d' ! g \<noteq> Queued f))"
proof (induction es arbitrary: d)
  case (Cons e es)
  then obtain d1 where "drop_token e d = Some d1" "drop_tokens es d1 = Some d'"
    by (auto split: bind_splits)
  with Cons.IH [of d1] drop_token_extends [of e d d1] show ?case by simp
qed simp

lemma step_advances:
  assumes "runtime_ok rt" "runtime_step a rt = Some rt'"
  shows "advances rt rt'"
proof (cases a)
  case (Execute as rs)
  then show ?thesis using execute_advances [OF assms(1)] assms(2) by auto
next
  case (Acquire obj)
  then show ?thesis using execute_advances [OF assms(1)] assms(2) by (auto simp: acquire_access_execute)
next
  case (Continue e)
  then show ?thesis
    using assms(2)
    by (auto simp: advances_def run_continuation_def nth_list_update split: if_splits token_state.splits)
next
  case (Start t)
  then have "start_task t rt = Some rt'" using assms(2) by simp
  from start_taskD [OF this] show ?thesis by (auto simp: advances_def nth_list_update)
next
  case (Finish t)
  then have f: "finish_task t rt = Some rt'" using assms(2) by simp
  then obtain d where d: "drop_tokens (dependencies (task_list rt ! t)) (df_graph rt) = Some d" "df_graph rt' = d"
    by (auto simp: finish_task_def split: if_splits)
  then show ?thesis
    using finish_taskD [OF assms(1) f] drop_tokens_extends [OF d(1)]
    by (auto simp: advances_def nth_list_update)
qed

section \<open>Fair runs\<close>

definition is_run :: "(nat \<Rightarrow> runtime_server) \<Rightarrow> bool" where
  "is_run r \<longleftrightarrow> r 0 = init_runtime \<and>
     (\<forall>i. r (Suc i) = r i \<or> (\<exists>a. runtime_step a (r i) = Some (r (Suc i))))"

fun internal :: "action \<Rightarrow> bool" where
  "internal (Execute as rs) = False"
| "internal (Acquire obj) = False"
| "internal a = True"

definition fair :: "(nat \<Rightarrow> runtime_server) \<Rightarrow> bool" where
  "fair r \<longleftrightarrow> (\<forall>a i. internal a \<longrightarrow>
     (\<exists>j \<ge> i. runtime_step a (r j) = None \<or> runtime_step a (r j) = Some (r (Suc j))))"

lemma run_ok: "is_run r \<Longrightarrow> runtime_ok (r i)"
proof (induction i)
  case 0
  then show ?case using init_runtime_ok by (simp add: is_run_def)
next
  case (Suc i)
  then show ?case unfolding is_run_def by (metis runtime_step_ok)
qed

lemma run_advances: "is_run r \<Longrightarrow> i \<le> j \<Longrightarrow> advances (r i) (r j)"
proof (induction j)
  case 0
  then show ?case by (simp add: advances_refl)
next
  case (Suc j)
  have "advances (r j) (r (Suc j))"
    using Suc.prems(1) run_ok [OF Suc.prems(1)] step_advances advances_refl unfolding is_run_def by metis
  with Suc show ?case by (cases "i = Suc j") (auto simp: advances_refl le_Suc_eq intro: advances_trans)
qed

lemma taken_disables:
  assumes "runtime_ok rt" "internal a" "runtime_step a rt = Some rt'"
  shows "runtime_step a rt' = None"
proof (cases a)
  case (Continue e)
  then show ?thesis
    using assms(3) by (auto simp: run_continuation_def nth_list_update split: if_splits token_state.splits)
next
  case (Start t)
  then have "start_task t rt = Some rt'" using assms(3) by simp
  from start_taskD [OF this] Start show ?thesis by (simp add: start_task_def)
next
  case (Finish t)
  then have "finish_task t rt = Some rt'" using assms(3) by simp
  from finish_taskD [OF assms(1) this] Finish show ?thesis by (simp add: finish_task_def)
qed (use assms in auto)

lemma eventually_disabled:
  assumes "is_run r" "fair r" "internal a"
  shows "\<exists>j \<ge> i. runtime_step a (r j) = None"
proof -
  obtain j where j: "j \<ge> i" "runtime_step a (r j) = None \<or> runtime_step a (r j) = Some (r (Suc j))"
    using assms(2,3) unfolding fair_def by blast
  from j(2) show ?thesis
  proof
    assume "runtime_step a (r j) = Some (r (Suc j))"
    then have "runtime_step a (r (Suc j)) = None"
      by (rule taken_disables [OF run_ok [OF assms(1)] assms(3)])
    with j(1) show ?thesis by (intro exI [of _ "Suc j"]) simp
  qed (use j(1) in blast)
qed

text \<open>Finitely many conditions that each come to hold and stay come to hold together.\<close>

lemma eventually_all:
  assumes "finite S" "\<And>x. x \<in> S \<Longrightarrow> \<exists>j \<ge> i. P x j" "\<And>x j k. x \<in> S \<Longrightarrow> P x j \<Longrightarrow> j \<le> k \<Longrightarrow> P x k"
  shows "\<exists>j \<ge> (i::nat). \<forall>x \<in> S. P x j"
  using assms
proof (induction S rule: finite_induct)
  case empty
  then show ?case by blast
next
  case (insert x S)
  have "\<exists>j \<ge> i. \<forall>y \<in> S. P y j" by (rule insert.IH) (use insert.prems in blast)+
  then obtain j where j: "j \<ge> i" "\<forall>y \<in> S. P y j" by blast
  obtain k where k: "k \<ge> i" "P x k" using insert.prems(1) by blast
  have "P y (max j k)" if "y \<in> insert x S" for y
  proof (cases "y = x")
    case True
    then show ?thesis using insert.prems(2) [OF insertI1 k(2) max.cobounded2] by simp
  next
    case False
    then show ?thesis using insert.prems(2) [OF that _ max.cobounded1] j(2) that by simp
  qed
  then show ?case using j(1) by (intro exI [of _ "max j k"]) simp
qed

section \<open>Every task finishes\<close>

lemma queued_behind_finished:
  assumes ok: "runtime_ok rt" and t: "t < length (task_list rt)"
    and before: "\<forall>u < t. status (task_list rt ! u) = Finished"
    and distinct: "distinct (objects (task_list rt ! t))"
    and e: "e \<in> set (dependencies (task_list rt ! t))" "tokens (df_graph rt) ! e = Queued f"
  shows "tokens (df_graph rt) ! f = Released"
proof -
  note g = runtime_okD(1) [OF ok]
  have eh: "e < length (trace rt)" using dependency_bound [OF ok t e(1)] runtime_okD(3) [OF ok] by simp
  have prev: "previous (trace rt) e = Some f"
    using graph_okD(4) [OF g eh] e(2) by (auto simp: token_ok_def split: option.splits)
  have f: "f < e" "fst (trace rt ! f) = fst (trace rt ! e)" using previous_SomeD [OF g eh prev] by auto
  have "f < length (trace rt)" using f(1) eh by simp
  then obtain u k where u: "u < length (task_list rt)" "k < length (objects (task_list rt ! u))"
      "dependencies (task_list rt ! u) ! k = f"
    by (rule trace_token_owner [OF ok])
  have fu: "f \<in> set (dependencies (task_list rt ! u))"
    using u runtime_okD(4) [OF ok u(1)] by (auto simp: task_ok_def)
  have "\<not> t < u" using dependencies_order [OF ok _ u(1) e(1) fu] f(1) by auto
  moreover have "u \<noteq> t"
  proof
    assume ut: "u = t"
    from e(1) obtain l where l: "l < length (dependencies (task_list rt ! t))"
        "dependencies (task_list rt ! t) ! l = e" by (meson in_set_conv_nth)
    have lo: "l < length (objects (task_list rt ! t))"
      using l(1) runtime_okD(4) [OF ok t] by (simp add: task_ok_def)
    have "objects (task_list rt ! t) ! k = objects (task_list rt ! t) ! l"
      using access_in_trace(1) [OF ok t lo] access_in_trace(1) [OF ok u(1,2)] f(2) u(3) l(2) ut by simp
    then have "k = l" using distinct lo u(2) ut by (simp add: nth_eq_iff_index_eq)
    then show False using u(3) l(2) ut f(1) by simp
  qed
  ultimately have "status (task_list rt ! u) = Finished" using before by simp
  then show ?thesis using task_ok_token [OF runtime_okD(4) [OF ok u(1)] fu] by simp
qed

lemma token_delivered:
  assumes "is_run r" "fair r" "e < length (tokens (df_graph (r i)))"
    and "\<And>j f. i \<le> j \<Longrightarrow> tokens (df_graph (r j)) ! e = Queued f \<Longrightarrow> tokens (df_graph (r j)) ! f = Released"
  shows "\<exists>j \<ge> i. \<forall>f. tokens (df_graph (r j)) ! e \<noteq> Queued f"
proof -
  obtain j where j: "j \<ge> i" "runtime_step (Continue e) (r j) = None"
    using eventually_disabled [OF assms(1,2), of "Continue e" i] by auto
  have "e < length (tokens (df_graph (r j)))"
    using run_advances [OF assms(1) j(1)] assms(3) by (auto simp: advances_def)
  then have "tokens (df_graph (r j)) ! e \<noteq> Queued f" for f
    using j assms(4) [OF j(1), of f] by (auto simp: run_continuation_def)
  with j(1) show ?thesis by blast
qed

lemma task_finishes_after:
  assumes run: "is_run r" and fair: "fair r" and t: "t < length (task_list (r i))"
    and before: "\<forall>u < t. status (task_list (r i) ! u) = Finished"
    and distinct: "distinct (objects (task_list (r i) ! t))"
  shows "\<exists>j \<ge> i. status (task_list (r j) ! t) = Finished"
proof -
  let ?es = "dependencies (task_list (r i) ! t)"
  have later: "t < length (task_list (r j)) \<and> dependencies (task_list (r j) ! t) = ?es \<and>
      objects (task_list (r j) ! t) = objects (task_list (r i) ! t) \<and>
      (\<forall>u < t. status (task_list (r j) ! u) = Finished)" if "i \<le> j" for j
    using run_advances [OF run that] t before by (auto simp: advances_def objects_def)
  have stays: "\<forall>f. tokens (df_graph (r k)) ! e \<noteq> Queued f"
    if "e \<in> set ?es" "i \<le> j" "\<forall>f. tokens (df_graph (r j)) ! e \<noteq> Queued f" "j \<le> k" for e j k
  proof -
    have "e < length (tokens (df_graph (r j)))"
      using dependency_bound [OF run_ok [OF run, of j], of t e] later [OF that(2)] that(1) by auto
    then show ?thesis using run_advances [OF run that(4)] that(3) by (auto simp: advances_def)
  qed
  have "\<exists>j \<ge> i. \<forall>e \<in> set ?es. i \<le> j \<and> (\<forall>f. tokens (df_graph (r j)) ! e \<noteq> Queued f)"
  proof (rule eventually_all)
    fix e assume e: "e \<in> set ?es"
    have "e < length (tokens (df_graph (r i)))" by (rule dependency_bound [OF run_ok [OF run] t e])
    moreover have "tokens (df_graph (r j)) ! f = Released"
      if "i \<le> j" "tokens (df_graph (r j)) ! e = Queued f" for j f
      using queued_behind_finished [OF run_ok [OF run, of j], of t e f] later [OF that(1)] distinct e that(2)
      by simp
    ultimately show "\<exists>j \<ge> i. i \<le> j \<and> (\<forall>f. tokens (df_graph (r j)) ! e \<noteq> Queued f)"
      using token_delivered [OF run fair] by blast
  qed (use stays in auto)
  then obtain j where j: "j \<ge> i" "\<forall>e \<in> set ?es. \<forall>f. tokens (df_graph (r j)) ! e \<noteq> Queued f" by blast
  obtain k where k: "k \<ge> j" "runtime_step (Start t) (r k) = None"
    using eventually_disabled [OF run fair, of "Start t" j] by auto
  have ik: "i \<le> k" using j(1) k(1) by simp
  note tk = later [OF ik]
  have started: "status (task_list (r k) ! t) \<noteq> Waiting"
  proof
    assume w: "status (task_list (r k) ! t) = Waiting"
    have "is_held (tokens (df_graph (r k)) ! e)" if "e \<in> set ?es" for e
    proof -
      have "tokens (df_graph (r k)) ! e \<noteq> Released"
        using task_ok_token [OF runtime_okD(4) [OF run_ok [OF run, of k]], of t e] tk w that by auto
      then show ?thesis
        using stays [OF that j(1) j(2) [rule_format, OF that, THEN allI] k(1)]
        by (cases "tokens (df_graph (r k)) ! e") (auto simp: is_held_def)
    qed
    then show False using k(2) w tk by (simp add: start_task_def list_all_iff)
  qed
  obtain m where m: "m \<ge> k" "runtime_step (Finish t) (r m) = None"
    using eventually_disabled [OF run fair, of "Finish t" k] by auto
  have "i \<le> m" using ik m(1) by simp
  note tm = later [OF this]
  have "status (task_list (r m) ! t) \<noteq> Waiting"
    using run_advances [OF run m(1)] started tk by (auto simp: advances_def)
  moreover have "status (task_list (r m) ! t) \<noteq> Running"
    using finish_ok [OF run_ok [OF run, of m], of t] m(2) tm by auto
  ultimately show ?thesis using \<open>i \<le> m\<close> by (metis task_status.exhaust)
qed

text \<open>C22. In a fair run every submitted task finishes, if neither it nor a task submitted before it names an
  object twice: tasks that wait for each other's objects never block forever.\<close>
theorem every_task_finishes:
  assumes "is_run r" "fair r" "t < length (task_list (r i))"
    and "\<forall>u \<le> t. distinct (args (task_list (r i) ! u) @ results (task_list (r i) ! u))"
  shows "\<exists>j \<ge> i. status (task_list (r j) ! t) = Finished"
  using assms(3,4)
proof (induction t rule: less_induct)
  case (less t)
  have "\<exists>j \<ge> i. \<forall>u \<in> {..<t}. i \<le> j \<and> status (task_list (r j) ! u) = Finished"
  proof (rule eventually_all)
    show "\<exists>j \<ge> i. i \<le> j \<and> status (task_list (r j) ! u) = Finished" if "u \<in> {..<t}" for u
      using less.IH [of u] less.prems that by auto
    show "i \<le> k \<and> status (task_list (r k) ! u) = Finished"
      if "u \<in> {..<t}" "i \<le> j \<and> status (task_list (r j) ! u) = Finished" "j \<le> k" for u j k
      using run_advances [OF assms(1), of j k] run_advances [OF assms(1), of i j] that less.prems(1)
      by (auto simp: advances_def)
  qed simp
  then obtain j where j: "j \<ge> i" "\<forall>u < t. status (task_list (r j) ! u) = Finished" by auto
  have "t < length (task_list (r j))" "distinct (objects (task_list (r j) ! t))"
    using run_advances [OF assms(1) j(1)] less.prems by (auto simp: advances_def objects_def)
  then obtain k where "k \<ge> j" "status (task_list (r k) ! t) = Finished"
    using task_finishes_after [OF assms(1,2) _ j(2)] by blast
  then show ?case using j(1) by (meson le_trans)
qed

text \<open>A run of two kernels: the second reads what the first one writes; then nothing more happens.\<close>

definition sample_actions :: "action list" where
  "sample_actions = [Execute [] [7], Execute [7] [8], Start 0, Finish 0, Continue 1, Start 1, Finish 1]"

definition sample_run :: "nat \<Rightarrow> runtime_server" where
  "sample_run i = foldl (\<lambda>rt a. the (runtime_step a rt)) init_runtime (take i sample_actions)"

lemma sample_run_step:
  assumes "i < length sample_actions"
  shows "sample_run (Suc i) = the (runtime_step (sample_actions ! i) (sample_run i))"
  using assms by (simp add: sample_run_def take_Suc_conv_app_nth)

lemma sample_run_end: "7 \<le> i \<Longrightarrow> sample_run i = sample_run 7"
  by (simp add: sample_run_def sample_actions_def)

lemma sample_run_final:
  "sample_run 7 = \<lparr>df_graph = \<lparr>wavefront_map = [(7, 1), (8, 2)], tokens = [Released, Released, Released]\<rparr>,
     task_list = [\<lparr>args = [], results = [7], dependencies = [0], status = Finished\<rparr>,
                  \<lparr>args = [7], results = [8], dependencies = [1, 2], status = Finished\<rparr>]\<rparr>"
  by code_simp

lemma sample_run_enabled: "list_all (\<lambda>i. runtime_step (sample_actions ! i) (sample_run i) \<noteq> None) [0..<7]"
  by code_simp

lemma sample_is_run: "is_run sample_run"
  unfolding is_run_def
proof (intro conjI allI)
  show "sample_run 0 = init_runtime" by (simp add: sample_run_def)
  show "sample_run (Suc i) = sample_run i \<or> (\<exists>a. runtime_step a (sample_run i) = Some (sample_run (Suc i)))" for i
  proof (cases "i < 7")
    case True
    then have "runtime_step (sample_actions ! i) (sample_run i) \<noteq> None"
      using sample_run_enabled by (simp add: list_all_iff)
    then show ?thesis using sample_run_step [of i] True by (auto simp: sample_actions_def)
  next
    case False
    then show ?thesis using sample_run_end [of i] sample_run_end [of "Suc i"] by simp
  qed
qed

lemma sample_fair: "fair sample_run"
  unfolding fair_def
proof (intro allI impI)
  fix a i assume a: "internal a"
  have "runtime_step a (sample_run 7) = None"
  proof (cases a)
    case (Continue e)
    have "e < 3 \<Longrightarrow> [Released, Released, Released] ! e = Released"
      using nth_mem [of e "[Released, Released, Released]"] by auto
    then show ?thesis using Continue by (simp add: sample_run_final run_continuation_def)
  qed (use a in \<open>auto simp: sample_run_final start_task_def finish_task_def less_Suc_eq nth_Cons' split: if_splits\<close>)
  then show "\<exists>j \<ge> i. runtime_step a (sample_run j) = None \<or> runtime_step a (sample_run j) = Some (sample_run (Suc j))"
    using sample_run_end [of "max i 7"] by (intro exI [of _ "max i 7"]) simp
qed

lemma every_task_finishes_witness: "\<exists>j \<ge> 2. status (task_list (sample_run j) ! 1) = Finished"
  by (rule every_task_finishes [OF sample_is_run sample_fair]) (code_simp, code_simp)

end
