(* ===== verification/ObjectLayout.thy ===== *)
theory ObjectLayout
  imports Types
begin

text \<open>
  The memory layout of objects: sizes and array layouts of the ABI (\<open>qubus/src/abi_info.cpp\<close>), the layout of
  an object description (\<open>qubus/src/object_description.cpp\<close>) and the initialisation of the memory of an
  object (\<open>construct_object\<close> and \<open>create_native_object\<close> of \<open>qubus/src/local_object_factory.cpp\<close>).

  \<open>std::size_t\<close> is a word of 64 bits; positions (\<open>long int\<close>) are kept as words too, since they
  are only added and compared.  The number of elements of an array is accumulated in an \<open>int\<close>, a word of
  32 bits, because the initial value of the accumulation is the literal 1.  Memory maps addresses to bytes and
  integers are stored little endian.  A default constructed description is \<open>Null_description\<close>.
\<close>

type_synonym size_t = "64 word"

section \<open>Sizes\<close>

definition get_align_of :: "qtype \<Rightarrow> size_t result" where
  "get_align_of t = (if is_primitive t then Inr 32 else Inl Assertion_failed)"

fun get_size_of :: "qtype \<Rightarrow> size_t result" where
  "get_size_of Double_t = Inr 8"
| "get_size_of Float_t = Inr 4"
| "get_size_of Integer_t = Inr 8"
| "get_size_of Bool_t = Inr 1"
| "get_size_of (Complex_t t) = rbind (get_size_of t) (\<lambda>s. Inr (2 * s))"
| "get_size_of t = (if is_primitive t then Inl No_case_applicable else Inl Assertion_failed)"

record array_layout =
  array_size :: size_t
  array_alignment :: size_t
  shape_offset :: size_t
  shape_size :: size_t
  data_offset :: size_t
  data_size :: size_t

definition element_count :: "int list \<Rightarrow> 32 word" where
  "element_count shape = foldl (\<lambda>acc extent. ucast ((scast acc :: size_t) * of_int extent)) 1 shape"

definition get_array_layout :: "qtype \<Rightarrow> int list \<Rightarrow> array_layout result" where
  "get_array_layout val_type shape =
     rbind (get_size_of val_type) (\<lambda>value_type_size.
     rbind (get_size_of Integer_t) (\<lambda>size_type_size.
     rbind (get_align_of val_type) (\<lambda>data_alignment.
     rbind (get_align_of Integer_t) (\<lambda>shape_alignment.
       let rank = of_nat (length shape);
           block_alignment = max data_alignment shape_alignment;
           shape_bytes = rank * size_type_size;
           data_bytes = scast (element_count shape) * value_type_size;
           meta_data_size = size_type_size;
           shape_padding = shape_alignment - meta_data_size mod shape_alignment;
           current_size = meta_data_size + shape_padding + shape_bytes;
           data_padding = data_alignment - current_size mod data_alignment;
           shape_start = meta_data_size + shape_padding
       in Inr \<lparr>array_size = current_size + data_padding + data_bytes, array_alignment = block_alignment,
               shape_offset = shape_start, shape_size = shape_bytes,
               data_offset = shape_start + shape_bytes + data_padding, data_size = data_bytes\<rparr>))))"

section \<open>Descriptions and layouts\<close>

datatype object_description =
    Null_description
  | Array_description qtype "int list"
  | Scalar_description qtype
  | Struct_description qtype "(string \<times> object_description) list"

fun compute_type :: "object_description \<Rightarrow> qtype result" where
  "compute_type (Array_description t shape) = Inr (Array_t t (int (length shape)))"
| "compute_type (Scalar_description t) = Inr t"
| "compute_type (Struct_description t members) = Inr t"
| "compute_type Null_description = Inl Thrown_int"

datatype object_layout =
  Object_layout (layout_description: object_description) (layout_position: size_t) (layout_size: size_t)
    (layout_partitions: "object_layout list")

fun compute_layout :: "object_description \<Rightarrow> size_t \<Rightarrow> (object_layout \<times> size_t) result"
and compute_partitions ::
  "(string \<times> object_description) list \<Rightarrow> size_t \<Rightarrow> (object_layout list \<times> size_t) result"
where
  "compute_layout (Array_description t shape) position =
     rbind (get_array_layout t shape) (\<lambda>layout.
       Inr (Object_layout (Array_description t shape) position (array_size layout) [], position + array_size layout))"
| "compute_layout (Scalar_description t) position =
     rbind (get_align_of t) (\<lambda>alignment. rbind (get_size_of t) (\<lambda>bytes.
       Inr (Object_layout (Scalar_description t) position bytes [], position + bytes)))"
| "compute_layout (Struct_description t members) position =
     (let bytes = of_nat (length members * 8)
      in rbind (compute_partitions members (position + bytes)) (\<lambda>(partitions, end_position).
           Inr (Object_layout (Struct_description t members) position bytes partitions, end_position)))"
| "compute_layout Null_description position = Inl Thrown_int"
| "compute_partitions [] position = Inr ([], position)"
| "compute_partitions ((name, member) # members) position =
     rbind (compute_layout member position) (\<lambda>(partition, position').
     rbind (compute_partitions members position') (\<lambda>(partitions, position'').
       Inr (partition # partitions, position'')))"

section \<open>Construction\<close>

type_synonym memory = "size_t \<Rightarrow> 8 word"

definition store_i64 :: "size_t \<Rightarrow> size_t \<Rightarrow> memory \<Rightarrow> memory" where
  "store_i64 a v m = (\<lambda>x. if unat (x - a) < 8 then ucast (drop_bit (8 * unat (x - a)) v) else m x)"

definition load_i64 :: "memory \<Rightarrow> size_t \<Rightarrow> size_t" where
  "load_i64 m a = word_rcat (map (\<lambda>k. m (a + k)) [7, 6, 5, 4, 3, 2, 1, 0])"

fun store_all :: "size_t \<Rightarrow> size_t list \<Rightarrow> memory \<Rightarrow> memory" where
  "store_all a [] m = m"
| "store_all a (v # vs) m = store_all (a + 8) vs (store_i64 a v m)"

fun construct_object :: "size_t \<Rightarrow> object_layout \<Rightarrow> memory \<Rightarrow> memory"
and construct_partitions :: "size_t \<Rightarrow> object_layout list \<Rightarrow> memory \<Rightarrow> memory"
where
  "construct_object base_ptr (Object_layout desc position bytes partitions) m =
     (let location = base_ptr + position
      in case desc of
           Array_description t shape \<Rightarrow>
             store_all (location + 8) (map of_int shape) (store_i64 location (of_nat (length shape)) m)
         | Struct_description t members \<Rightarrow>
             construct_partitions base_ptr partitions
               (store_all location (map (\<lambda>p. layout_position p - position) partitions) m)
         | _ \<Rightarrow> m)"
| "construct_partitions base_ptr [] m = m"
| "construct_partitions base_ptr (p # ps) m = construct_partitions base_ptr ps (construct_object base_ptr p m)"

text \<open>\<open>allocate size alignment\<close> is the address of the page that \<open>allocate_page\<close> of the address space hands out.\<close>

definition create_native_object ::
  "(size_t \<Rightarrow> size_t \<Rightarrow> size_t) \<Rightarrow> object_description \<Rightarrow> memory \<Rightarrow> (qtype \<times> size_t \<times> size_t \<times> memory) result" where
  "create_native_object allocate description m =
     rbind (compute_layout description 0) (\<lambda>(layout, _).
       let base_ptr = allocate (layout_size layout) 8;
           m' = construct_object base_ptr layout m
       in rbind (compute_type description) (\<lambda>data_type.
            Inr (data_type, layout_size layout, base_ptr, m')))"

section \<open>Bytes\<close>

lemma horner_bytes:
  fixes v :: int
  shows "horner_sum (\<lambda>k. take_bit 8 (drop_bit (8 * k) v)) (2 ^ 8) [0..<n] = take_bit (8 * n) v"
proof (induction n arbitrary: v)
  case (Suc n)
  have "horner_sum (\<lambda>k. take_bit 8 (drop_bit (8 * k) v)) (2 ^ 8) [0..<Suc n] =
        take_bit 8 v + 2 ^ 8 * horner_sum (\<lambda>k. take_bit 8 (drop_bit (8 * Suc k) v)) (2 ^ 8) [0..<n]"
    by (simp only: upt_conv_Cons [of 0 "Suc n", OF zero_less_Suc] map_Suc_upt [symmetric])
      (simp add: horner_sum_foldr foldr_map comp_def)
  also have "horner_sum (\<lambda>k. take_bit 8 (drop_bit (8 * Suc k) v)) (2 ^ 8) [0..<n] = take_bit (8 * n) (drop_bit 8 v)"
    using Suc.IH [of "drop_bit 8 v"] by (simp add: drop_bit_drop_bit ac_simps)
  also have "take_bit 8 v + 2 ^ 8 * take_bit (8 * n) (drop_bit 8 v) = take_bit (8 * Suc n) v"
    using zmod_zmult2_eq [of "2 ^ (8 * n)" v "2 ^ 8"]
    by (simp add: take_bit_eq_mod drop_bit_eq_div power_add ac_simps)
  finally show ?case .
qed simp

lemma load_store_same: "load_i64 (store_i64 a v m) a = v"
proof -
  let ?byte = "\<lambda>k. ucast (drop_bit (8 * k) v) :: 8 word"
  have "map (\<lambda>k. store_i64 a v m (a + k)) [7, 6, 5, 4, 3, 2, 1, 0] = map ?byte [7, 6, 5, 4, 3, 2, 1, 0]"
    by (simp add: store_i64_def)
  then have "load_i64 (store_i64 a v m) a = word_rcat (map ?byte [7, 6, 5, 4, 3, 2, 1, 0])"
    by (simp only: load_i64_def)
  also have "[7, 6, 5, 4, 3, 2, 1, 0] = rev [0..<8]" by (simp add: upt_rec)
  also have "word_rcat (map ?byte (rev [0..<8])) = (word_of_int (horner_sum (\<lambda>k. uint (?byte k)) (2 ^ 8) [0..<8]) :: size_t)"
    by (simp only: word_rcat_def comp_def rev_map rev_rev_ident) (simp add: horner_sum_foldr foldr_map comp_def)
  also have "(\<lambda>k. uint (?byte k)) = (\<lambda>k. take_bit 8 (drop_bit (8 * k) (uint v)))"
    using uint_lt2p [of v] by (simp add: unsigned_ucast_eq unsigned_drop_bit_eq take_bit_int_eq_self)
  also have "word_of_int (horner_sum \<dots> (2 ^ 8) [0..<8]) = v"
    using uint_lt2p [of v] by (simp only: horner_bytes) (simp add: take_bit_int_eq_self)
  finally show ?thesis .
qed

lemma load_cong: "(\<And>k. k < 8 \<Longrightarrow> m (a + of_nat k) = m' (a + of_nat k)) \<Longrightarrow> load_i64 m a = load_i64 m' a"
proof -
  assume eq: "\<And>k. k < 8 \<Longrightarrow> m (a + of_nat k) = m' (a + of_nat k)"
  have "m (a + k) = m' (a + k)" if "k \<in> set [7, 6, 5, 4, 3, 2, 1, 0]" for k
    using that eq [of 7] eq [of 6] eq [of 5] eq [of 4] eq [of 3] eq [of 2] eq [of 1] eq [of 0] by auto
  then have "map (\<lambda>k. m (a + k)) [7, 6, 5, 4, 3, 2, 1, 0] = map (\<lambda>k. m' (a + k)) [7, 6, 5, 4, 3, 2, 1, 0]"
    by (intro map_cong refl)
  then show ?thesis by (simp only: load_i64_def)
qed

definition outside :: "size_t \<Rightarrow> nat \<Rightarrow> size_t \<Rightarrow> bool" where
  "outside a n x \<longleftrightarrow> unat x < unat a \<or> unat a + n \<le> unat x"

lemma unat_add_small: "unat (a :: size_t) + n < 2 ^ 64 \<Longrightarrow> unat (a + of_nat n) = unat a + n"
  by (simp add: unat_word_ariths unat_of_nat)

lemma unat_plus: "unat (a :: size_t) + unat b < 2 ^ 64 \<Longrightarrow> unat (a + b) = unat a + unat b"
  by (simp add: unat_word_ariths)

lemma unat_of_nat_small: "n < 2 ^ 64 \<Longrightarrow> unat (of_nat n :: size_t) = n"
  by (simp add: unat_of_nat)

lemma unat_add_8: "unat (a :: size_t) + 8 * Suc n \<le> 2 ^ 64 \<Longrightarrow> 0 < n \<Longrightarrow> unat (a + 8) = unat a + 8"
  using unat_add_small [of a 8] by simp

lemma distance_inside:
  fixes a x :: size_t
  assumes "unat a + n \<le> 2 ^ 64"
  shows "unat (x - a) < n \<longleftrightarrow> \<not> outside a n x"
proof (cases "unat a \<le> unat x")
  case True
  then have "unat (x - a) = unat x - unat a" by (simp add: unat_sub word_le_nat_alt)
  with True show ?thesis by (auto simp: outside_def)
next
  case False
  then have "unat (x - a) = 2 ^ 64 + unat x - unat a"
    using unat_sub_if_size [of x a] by (simp add: word_size word_le_nat_alt)
  with False assms unsigned_less [of a] show ?thesis by (auto simp: outside_def)
qed

lemma store_outside:
  "unat a + 8 \<le> 2 ^ 64 \<Longrightarrow> outside a 8 x \<Longrightarrow> store_i64 a v m x = m x"
  by (simp add: store_i64_def distance_inside)

lemma store_all_outside:
  "unat a + 8 * length vs \<le> 2 ^ 64 \<Longrightarrow> outside a (8 * length vs) x \<Longrightarrow> store_all a vs m x = m x"
proof (induction vs arbitrary: a m)
  case (Cons v vs)
  have here: "store_i64 a v m x = m x"
    using Cons.prems by (intro store_outside) (auto simp: outside_def)
  show ?case
  proof (cases "vs = []")
    case False
    then have "unat (a + 8) = unat a + 8" using unat_add_8 [of a "length vs"] Cons.prems(1) by simp
    then have "unat (a + 8) + 8 * length vs \<le> 2 ^ 64" "outside (a + 8) (8 * length vs) x"
      using Cons.prems by (auto simp: outside_def)
    with Cons.IH here show ?thesis by simp
  qed (use here in simp)
qed simp

lemma load_outside:
  assumes "unat a + 8 \<le> 2 ^ 64" "\<And>x. \<not> outside a 8 x \<Longrightarrow> m x = m' x"
  shows "load_i64 m a = load_i64 m' a"
proof (rule load_cong)
  fix k :: nat assume k: "k < 8"
  have "unat (a + of_nat k) = unat a + k" using assms(1) k by (intro unat_add_small) simp
  then show "m (a + of_nat k) = m' (a + of_nat k)" using k by (intro assms(2)) (simp add: outside_def)
qed

lemma load_store_all:
  "unat a + 8 * length vs \<le> 2 ^ 64 \<Longrightarrow> k < length vs \<Longrightarrow> load_i64 (store_all a vs m) (a + of_nat (8 * k)) = vs ! k"
proof (induction vs arbitrary: a m k)
  case (Cons v vs)
  show ?case
  proof (cases k)
    case 0
    have "load_i64 (store_all (a + 8) vs (store_i64 a v m)) a = load_i64 (store_i64 a v m) a"
    proof (cases "vs = []")
      case False
      then have "unat (a + 8) = unat a + 8" using unat_add_8 [of a "length vs"] Cons.prems(1) by simp
      then show ?thesis
        using Cons.prems(1) by (intro load_outside store_all_outside) (auto simp: outside_def)
    qed simp
    then show ?thesis using 0 by (simp add: load_store_same)
  next
    case (Suc j)
    then have "0 < length vs" using Cons.prems(2) by auto
    then have "unat (a + 8) = unat a + 8" using unat_add_8 [of a "length vs"] Cons.prems(1) by simp
    then have "load_i64 (store_all (a + 8) vs (store_i64 a v m)) (a + 8 + of_nat (8 * j)) = vs ! j"
      using Cons.prems Suc by (intro Cons.IH) auto
    then show ?thesis using Suc by (simp add: algebra_simps)
  qed
qed simp

section \<open>Bytes of an object\<close>

fun value_bytes :: "qtype \<Rightarrow> nat" where
  "value_bytes Double_t = 8"
| "value_bytes Float_t = 4"
| "value_bytes Integer_t = 8"
| "value_bytes Bool_t = 1"
| "value_bytes (Complex_t t) = 2 * value_bytes t"
| "value_bytes t = 0"

lemma get_size_of_value: "get_size_of t = Inr s \<Longrightarrow> s = of_nat (value_bytes t)"
  by (induction t arbitrary: s rule: get_size_of.induct) (auto simp: rbind_Inr_iff split: if_splits)

lemma get_size_of_primitive: "get_size_of t = Inr s \<Longrightarrow> is_primitive t"
  by (cases t) (auto split: if_splits)

definition array_bytes :: "qtype \<Rightarrow> int list \<Rightarrow> nat" where
  "array_bytes t shape =
     64 + 8 * length shape - 8 * length shape mod 32 + nat (prod_list shape) * value_bytes t"

fun object_bytes :: "object_description \<Rightarrow> nat" where
  "object_bytes Null_description = 0"
| "object_bytes (Array_description t shape) = array_bytes t shape"
| "object_bytes (Scalar_description t) = value_bytes t"
| "object_bytes (Struct_description t members) = 8 * length members + sum_list (map (\<lambda>m. object_bytes (snd m)) members)"

fun description_ok :: "object_description \<Rightarrow> bool" where
  "description_ok (Array_description t shape) =
     ((\<forall>n \<in> set shape. 0 \<le> n) \<and> prod_list shape < 2 ^ 31 \<and> value_bytes t < 2 ^ 32 \<and> length shape < 2 ^ 32)"
| "description_ok (Scalar_description t) = (value_bytes t < 2 ^ 32)"
| "description_ok (Struct_description t members) = (\<forall>m \<in> set members. description_ok (snd m))"
| "description_ok Null_description = True"

lemma element_count_step: "ucast ((scast acc :: size_t) * of_int n) = (acc :: 32 word) * of_int n"
proof -
  have eq: "(scast acc :: size_t) * of_int n = word_of_int (sint acc * n)"
    by (simp only: scast_eq of_int_mult)
  have down: "(ucast (word_of_int (sint acc * n) :: size_t) :: 32 word) = word_of_int (sint acc * n)"
    by (rule ucast_down_wi) (simp add: is_down_def source_size_def target_size_def word_size)
  have "word_of_int (sint acc * n) = acc * of_int n"
    by (simp only: of_int_mult of_int_sint scast_id)
  with eq down show ?thesis by (simp only:)
qed

lemma element_count_prod: "element_count shape = of_int (prod_list shape)"
proof -
  have "foldl (\<lambda>acc extent. ucast ((scast acc :: size_t) * of_int extent)) a shape = a * of_int (prod_list shape)"
    for a :: "32 word"
    by (induction shape arbitrary: a) (simp_all only: foldl.simps element_count_step prod_list.Nil prod_list.Cons of_int_mult of_int_1 mult_1_right mult.assoc)
  from this [of 1] show ?thesis by (simp only: element_count_def mult_1_left)
qed

lemma of_nat_mod_32: "n < 2 ^ 64 \<Longrightarrow> (of_nat n :: size_t) mod 32 = of_nat (n mod 32)"
proof (rule word_unat_eq_iff [THEN iffD2])
  assume "n < 2 ^ 64"
  then show "unat ((of_nat n :: size_t) mod 32) = unat (of_nat (n mod 32) :: size_t)"
    using mod_less_eq_dividend [of n 32] by (simp add: unat_mod unat_of_nat)
qed

lemma padding: "32 + k + (32 - k mod 32) = 32 * (2 + k div 32)" for k :: nat
  by presburger

lemma scast_small: "0 \<le> p \<Longrightarrow> p < 2 ^ 31 \<Longrightarrow> (scast (of_int p :: 32 word) :: size_t) = of_nat (nat p)"
proof -
  assume p: "0 \<le> p" "p < 2 ^ 31"
  then have "sint (word_of_int p :: 32 word) = p"
    by (simp add: sint_sbintrunc' signed_take_bit_int_eq_self)
  then have "(scast (of_int p :: 32 word) :: size_t) = of_int p" by (simp only: scast_eq)
  with p(1) show ?thesis by simp
qed

lemma get_array_layout_size:
  assumes "get_array_layout t shape = Inr layout" and "description_ok (Array_description t shape)"
  shows "array_size layout = of_nat (array_bytes t shape)"
    and "data_size layout = of_nat (nat (prod_list shape) * value_bytes t)"
    and "unat (data_offset layout) mod 32 = 0"
proof -
  let ?r = "length shape" and ?d = "nat (prod_list shape) * value_bytes t"
  have ok: "\<forall>n \<in> set shape. 0 \<le> n" "prod_list shape < 2 ^ 31" "?r < 2 ^ 32" using assms(2) by auto
  have "0 \<le> prod_list shape" using ok(1) by (induction shape) auto
  then have count: "(scast (element_count shape) :: size_t) = of_nat (nat (prod_list shape))"
    using ok(2) by (simp only: element_count_prod scast_small)
  obtain s where s: "get_size_of t = Inr s" "is_primitive t" "s = of_nat (value_bytes t)"
    using assms(1) get_size_of_value get_size_of_primitive
    by (cases "get_size_of t") (auto simp: get_array_layout_def)
  let ?current = "of_nat (32 + 8 * ?r) :: size_t"
  have cur: "(8 :: size_t) + (32 - 8 mod 32) + of_nat ?r * 8 = ?current" by simp
  have m: "?current mod 32 = of_nat ((32 + 8 * ?r) mod 32)"
    using ok(3) by (intro of_nat_mod_32) simp
  have pad: "32 - ?current mod 32 = of_nat (32 - 8 * ?r mod 32)"
    unfolding m using mod_less_divisor [of 32 "8 * ?r"] by (simp add: of_nat_diff)
  have l: "layout = \<lparr>array_size = ?current + of_nat (32 - 8 * ?r mod 32) + of_nat ?d, array_alignment = 32,
      shape_offset = 32, shape_size = of_nat ?r * 8,
      data_offset = ?current + of_nat (32 - 8 * ?r mod 32), data_size = of_nat ?d\<rparr>"
    using assms(1) s count cur pad by (simp add: get_array_layout_def get_align_of_def Let_def ac_simps)
  have total: "32 + 8 * ?r + (32 - 8 * ?r mod 32) + ?d = array_bytes t shape"
    using mod_less_divisor [of 32 "8 * ?r"] mod_less_eq_dividend [of "8 * ?r" 32] by (simp add: array_bytes_def)
  show "array_size layout = of_nat (array_bytes t shape)"
    unfolding l total [symmetric] by simp
  show "data_size layout = of_nat ?d" by (simp add: l)
  have "32 + 8 * ?r + (32 - 8 * ?r mod 32) < 2 ^ 64" using ok(3) by simp
  then have "unat (data_offset layout) = 32 + 8 * ?r + (32 - 8 * ?r mod 32)"
    by (simp only: l array_layout.simps of_nat_add [symmetric] unat_of_nat) simp
  also have "\<dots> = 32 * (2 + 8 * ?r div 32)" by (rule padding)
  finally show "unat (data_offset layout) mod 32 = 0" by simp
qed

section \<open>Placement\<close>

text \<open>
  A layout is placed at \<open>p\<close> if it starts there, its header has room for what is stored in it, and its
  partitions follow the header one after the other.  Its span is the header with all partitions.
\<close>

fun span :: "object_layout \<Rightarrow> nat" where
  "span (Object_layout desc position bytes partitions) = unat bytes + sum_list (map span partitions)"

fun header_fits :: "object_description \<Rightarrow> nat \<Rightarrow> object_layout list \<Rightarrow> bool" where
  "header_fits (Array_description t shape) bytes ps = (8 + 8 * length shape \<le> bytes \<and> ps = [])"
| "header_fits (Struct_description t members) bytes ps =
     (bytes = 8 * length ps \<and> map layout_description ps = map snd members)"
| "header_fits desc bytes ps = (ps = [])"

fun placed :: "object_layout \<Rightarrow> nat \<Rightarrow> bool" and placed_all :: "object_layout list \<Rightarrow> nat \<Rightarrow> bool" where
  "placed (Object_layout desc position bytes partitions) p =
     (unat position = p \<and> header_fits desc (unat bytes) partitions \<and> placed_all partitions (p + unat bytes))"
| "placed_all [] p = True"
| "placed_all (l # ls) p = (placed l p \<and> placed_all ls (p + span l))"

lemma compute_layout_placed:
  "compute_layout desc position = Inr (l, position') \<Longrightarrow> description_ok desc \<Longrightarrow>
     unat position + object_bytes desc < 2 ^ 64 \<Longrightarrow>
     placed l (unat position) \<and> span l = object_bytes desc \<and> layout_description l = desc \<and>
     layout_position l = position \<and> unat position' = unat position + object_bytes desc"
  "compute_partitions members position = Inr (ls, position') \<Longrightarrow> \<forall>m \<in> set members. description_ok (snd m) \<Longrightarrow>
     unat position + sum_list (map (\<lambda>m. object_bytes (snd m)) members) < 2 ^ 64 \<Longrightarrow>
     placed_all ls (unat position) \<and> map span ls = map (\<lambda>m. object_bytes (snd m)) members \<and>
     map layout_description ls = map snd members \<and>
     unat position' = unat position + sum_list (map (\<lambda>m. object_bytes (snd m)) members)"
proof (induction desc position and members position arbitrary: l position' and ls position'
    rule: compute_layout_compute_partitions.induct)
  case (1 t shape position)
  then obtain layout where layout: "get_array_layout t shape = Inr layout"
      "l = Object_layout (Array_description t shape) position (array_size layout) []"
      "position' = position + array_size layout"
    by (auto simp: rbind_Inr_iff)
  have size: "array_size layout = of_nat (array_bytes t shape)"
    by (rule get_array_layout_size(1) [OF layout(1) 1(2)])
  have n: "unat position + array_bytes t shape < 2 ^ 64" using 1(3) by simp
  then have "unat (array_size layout) = array_bytes t shape" by (simp add: size unat_of_nat)
  moreover have "8 + 8 * length shape \<le> array_bytes t shape"
    using mod_less_divisor [of 32 "8 * length shape", OF zero_less_numeral] unfolding array_bytes_def by linarith
  ultimately show ?case using n by (simp add: layout(2,3) unat_add_small size)
next
  case (2 t position)
  then obtain s where s: "get_size_of t = Inr s"
      "l = Object_layout (Scalar_description t) position s []" "position' = position + s"
    by (auto simp: rbind_Inr_iff)
  have "s = of_nat (value_bytes t)" by (rule get_size_of_value [OF s(1)])
  then show ?case using 2(3) by (simp add: s(2,3) unat_add_small unat_of_nat)
next
  case (3 t members position)
  let ?header = "8 * length members" and ?rest = "sum_list (map (\<lambda>m. object_bytes (snd m)) members)"
  have bound: "unat position + ?header + ?rest < 2 ^ 64" using 3(4) by simp
  then have pos: "unat (position + of_nat (length members * 8)) = unat position + ?header"
    using unat_add_small [of position "length members * 8"] by (simp add: ac_simps)
  obtain ls where ls: "compute_partitions members (position + of_nat (length members * 8)) = Inr (ls, position')"
      "l = Object_layout (Struct_description t members) position (of_nat (length members * 8)) ls"
    using 3(2) by (auto simp: rbind_Inr_iff Let_def)
  have ih: "placed_all ls (unat position + ?header) \<and> map span ls = map (\<lambda>m. object_bytes (snd m)) members \<and>
     map layout_description ls = map snd members \<and> unat position' = unat position + ?header + ?rest"
    using 3(1) [OF refl ls(1)] 3(3) bound pos by simp
  moreover have "length ls = length members" using ih by (metis length_map)
  moreover
  have "length members * 8 < 2 ^ 64" using bound by linarith
  then have "unat (of_nat (length members * 8) :: size_t) = ?header" by (simp only: unat_of_nat_small)
  ultimately show ?case by (simp add: ls(2))
next
  case (6 name member members position)
  let ?rest = "sum_list (map (\<lambda>m. object_bytes (snd m)) members)"
  obtain l1 pos1 ls1 where l1: "compute_layout member position = Inr (l1, pos1)"
      "compute_partitions members pos1 = Inr (ls1, position')" "ls = l1 # ls1"
    using 6(3) by (auto simp: rbind_Inr_iff)
  have bound: "unat position + object_bytes member + ?rest < 2 ^ 64" using 6(5) by simp
  have ih1: "placed l1 (unat position) \<and> span l1 = object_bytes member \<and> layout_description l1 = member \<and>
      unat pos1 = unat position + object_bytes member"
    using 6(1) [OF l1(1)] 6(4) bound by simp
  then show ?case using 6(2) [OF l1(1) refl l1(2)] 6(4) bound l1(3) by simp
qed simp_all

section \<open>What construction writes\<close>

lemma header_outside:
  assumes "unat base_ptr + p + n < 2 ^ 64" "unat position = p" "8 * length vs \<le> n"
    "unat x < unat base_ptr + p \<or> unat base_ptr + p + n \<le> unat x"
  shows "store_all (base_ptr + position) vs m x = m x"
proof -
  have "unat (base_ptr + position) = unat base_ptr + p"
    using unat_plus [of base_ptr position] assms(1,2) by simp
  then show ?thesis using assms by (intro store_all_outside) (auto simp: outside_def)
qed

lemma array_header:
  "store_all (a + 8) vs (store_i64 a v m) = store_all a (v # vs) m"
  by simp

lemma construct_outside:
  "placed l p \<Longrightarrow> unat base_ptr + p + span l < 2 ^ 64 \<Longrightarrow>
     unat x < unat base_ptr + p \<or> unat base_ptr + p + span l \<le> unat x \<Longrightarrow> construct_object base_ptr l m x = m x"
  "placed_all ls p \<Longrightarrow> unat base_ptr + p + sum_list (map span ls) < 2 ^ 64 \<Longrightarrow>
     unat x < unat base_ptr + p \<or> unat base_ptr + p + sum_list (map span ls) \<le> unat x \<Longrightarrow>
     construct_partitions base_ptr ls m x = m x"
proof (induction base_ptr l m and base_ptr ls m arbitrary: p and p rule: construct_object_construct_partitions.induct)
  case (1 base_ptr desc position bytes partitions m)
  have pos: "unat position = p" and rest: "placed_all partitions (p + unat bytes)"
    and fits: "header_fits desc (unat bytes) partitions" using 1(2) by simp_all
  have bound: "unat base_ptr + p + unat bytes < 2 ^ 64" using 1(3) by simp
  have x: "unat x < unat base_ptr + p \<or> unat base_ptr + p + unat bytes \<le> unat x" using 1(4) by auto
  show ?case
  proof (cases desc)
    case (Array_description t shape)
    then show ?thesis
      using header_outside [OF bound pos _ x, of "of_nat (length shape) # map of_int shape"] fits
      by (simp add: Let_def)
  next
    case (Struct_description t members)
    let ?m = "store_all (base_ptr + position) (map (\<lambda>p. layout_position p - position) partitions) m"
    have "construct_partitions base_ptr partitions ?m x = ?m x"
      using 1(1) [OF refl Struct_description rest] 1(3,4) by (auto simp: add.assoc)
    then show ?thesis using Struct_description header_outside [OF bound pos _ x] fits by (simp add: Let_def)
  qed (simp_all add: Let_def)
qed auto

fun holds :: "size_t \<Rightarrow> memory \<Rightarrow> object_layout \<Rightarrow> bool" where
  "holds base_ptr m (Object_layout desc position bytes partitions) =
     ((case desc of
         Array_description t shape \<Rightarrow>
           (\<forall>i \<le> length shape. load_i64 m (base_ptr + position + of_nat (8 * i)) = (of_nat (length shape) # map of_int shape) ! i)
       | Struct_description t members \<Rightarrow>
           (\<forall>i < length partitions. load_i64 m (base_ptr + position + of_nat (8 * i)) = layout_position (partitions ! i) - position)
       | _ \<Rightarrow> True) \<and>
      list_all (holds base_ptr m) partitions)"

lemma load_frame:
  assumes "unat base_ptr + p + n < 2 ^ 64" "unat position = p" "8 * i + 8 \<le> n"
    "\<And>x. unat base_ptr + p \<le> unat x \<Longrightarrow> unat x < unat base_ptr + p + n \<Longrightarrow> m x = m' x"
  shows "load_i64 m (base_ptr + position + of_nat (8 * i)) = load_i64 m' (base_ptr + position + of_nat (8 * i))"
proof -
  have base: "unat (base_ptr + position) = unat base_ptr + p"
    using unat_plus [of base_ptr position] assms(1,2) by simp
  then have "unat (base_ptr + position + of_nat (8 * i)) = unat base_ptr + p + 8 * i"
    using unat_add_small [of "base_ptr + position" "8 * i"] assms(1,3) by simp
  then show ?thesis using assms by (intro load_outside assms(4)) (auto simp: outside_def)
qed

lemma holds_frame:
  "holds base_ptr m l \<Longrightarrow> placed l p \<Longrightarrow> unat base_ptr + p + span l < 2 ^ 64 \<Longrightarrow>
   (\<And>x. unat base_ptr + p \<le> unat x \<Longrightarrow> unat x < unat base_ptr + p + span l \<Longrightarrow> m x = m' x) \<Longrightarrow> holds base_ptr m' l"
proof (induction l arbitrary: p)
  case (Object_layout desc position bytes partitions)
  have pos: "unat position = p" and rest: "placed_all partitions (p + unat bytes)"
    and fits: "header_fits desc (unat bytes) partitions" using Object_layout.prems(2) by simp_all
  have bound: "unat base_ptr + p + unat bytes < 2 ^ 64" using Object_layout.prems(3) by simp
  have same: "m x = m' x" if "unat base_ptr + p \<le> unat x" "unat x < unat base_ptr + p + unat bytes" for x
    using Object_layout.prems(4) [of x] that by simp
  note frame = load_frame [OF bound pos _ same]
  have sub: "\<forall>l \<in> set ls. holds base_ptr m' l"
    if "placed_all ls q" "p \<le> q" "q + sum_list (map span ls) \<le> p + span (Object_layout desc position bytes partitions)"
      "set ls \<subseteq> set partitions" for ls q
    using that
  proof (induction ls arbitrary: q)
    case (Cons l ls)
    have "holds base_ptr m l" using Object_layout.prems(1) Cons.prems(4) by (auto simp: list_all_iff)
    then have "holds base_ptr m' l"
      using Object_layout.IH [of l q] Cons.prems Object_layout.prems(3,4) by simp
    moreover have "\<forall>l \<in> set ls. holds base_ptr m' l" using Cons.IH [of "q + span l"] Cons.prems by simp
    ultimately show ?case by simp
  qed simp
  have "\<forall>l \<in> set partitions. holds base_ptr m' l" using sub [OF rest] by simp
  then show ?case
    using Object_layout.prems(1) fits frame
    by (cases desc) (auto simp: list_all_iff)
qed

lemma construct_holds:
  "placed l p \<Longrightarrow> unat base_ptr + p + span l < 2 ^ 64 \<Longrightarrow> holds base_ptr (construct_object base_ptr l m) l"
  "placed_all ls p \<Longrightarrow> unat base_ptr + p + sum_list (map span ls) < 2 ^ 64 \<Longrightarrow>
     list_all (holds base_ptr (construct_partitions base_ptr ls m)) ls"
proof (induction base_ptr l m and base_ptr ls m arbitrary: p and p rule: construct_object_construct_partitions.induct)
  case (1 base_ptr desc position bytes partitions m)
  let ?a = "base_ptr + position"
  have pos: "unat position = p" and rest: "placed_all partitions (p + unat bytes)"
    and fits: "header_fits desc (unat bytes) partitions" using 1(2) by simp_all
  have bound: "unat base_ptr + p + unat bytes < 2 ^ 64" using 1(3) by simp
  have a: "unat ?a = unat base_ptr + p" using unat_plus [of base_ptr position] bound pos by simp
  show ?case
  proof (cases desc)
    case (Array_description t shape)
    let ?vs = "of_nat (length shape) # map of_int shape :: size_t list"
    have "load_i64 (store_all ?a ?vs m) (?a + of_nat (8 * i)) = ?vs ! i" if "i \<le> length shape" for i
      using that bound a fits Array_description by (intro load_store_all) auto
    then show ?thesis using Array_description fits by (simp add: Let_def)
  next
    case (Struct_description t members)
    let ?vs = "map (\<lambda>p. layout_position p - position) partitions"
    let ?m = "store_all ?a ?vs m"
    have eight: "unat bytes = 8 * length partitions" using fits Struct_description by simp
    have "load_i64 (construct_partitions base_ptr partitions ?m) (?a + of_nat (8 * i)) = ?vs ! i"
      if i: "i < length partitions" for i
    proof -
      have "construct_partitions base_ptr partitions ?m x = ?m x"
        if "unat x < unat base_ptr + p + unat bytes" for x
        using construct_outside(2) [OF rest] 1(3) that by (simp add: add.assoc)
      then have "load_i64 (construct_partitions base_ptr partitions ?m) (?a + of_nat (8 * i)) =
          load_i64 ?m (?a + of_nat (8 * i))"
        using i eight by (intro load_frame [OF bound pos]) simp_all
      also have "\<dots> = ?vs ! i" using i bound a eight by (intro load_store_all) simp_all
      finally show ?thesis .
    qed
    moreover have "list_all (holds base_ptr (construct_partitions base_ptr partitions ?m)) partitions"
      using 1(1) [OF refl Struct_description rest] 1(3) by (simp add: add.assoc)
    ultimately show ?thesis using Struct_description by (simp add: Let_def)
  qed (use fits in \<open>simp_all add: Let_def\<close>)
next
  case (3 base_ptr l ls m)
  have l: "placed l p" "unat base_ptr + p + span l < 2 ^ 64" using 3(3,4) by simp_all
  have ls: "placed_all ls (p + span l)" "unat base_ptr + (p + span l) + sum_list (map span ls) < 2 ^ 64"
    using 3(3,4) by simp_all
  have "holds base_ptr (construct_partitions base_ptr ls (construct_object base_ptr l m)) l"
    by (rule holds_frame [OF 3(1) [OF l] l]) (rule construct_outside(2) [OF ls, symmetric], simp)
  then show ?case using 3(2) [OF ls] by simp
qed simp

section \<open>Reading an object\<close>

text \<open>
  Generated code reaches a member of a struct by adding the offset that it loads from the table at
  the start of the struct (\<open>member_access\<close> in \<open>qubus/src/jit/compile.cpp\<close>).
\<close>

definition member_address :: "memory \<Rightarrow> size_t \<Rightarrow> nat \<Rightarrow> size_t" where
  "member_address m a k = a + load_i64 m (a + of_nat (8 * k))"

fun layout_at :: "object_layout \<Rightarrow> nat list \<Rightarrow> object_layout option" where
  "layout_at l [] = Some l"
| "layout_at l (k # ks) =
     (if k < length (layout_partitions l) then layout_at (layout_partitions l ! k) ks else None)"

lemma holds_partition: "holds base_ptr m l \<Longrightarrow> p \<in> set (layout_partitions l) \<Longrightarrow> holds base_ptr m p"
  by (cases l) (auto simp: list_all_iff)

lemma placed_struct:
  "placed l p \<Longrightarrow> k < length (layout_partitions l) \<Longrightarrow> \<exists>t members. layout_description l = Struct_description t members"
  by (cases l; cases "layout_description l") auto

lemma placed_partition: "placed_all ls p \<Longrightarrow> l \<in> set ls \<Longrightarrow> \<exists>q. placed l q"
  by (induction ls arbitrary: p) auto

lemma member_path:
  "holds base_ptr m l \<Longrightarrow> placed l p \<Longrightarrow> layout_at l path = Some s \<Longrightarrow>
   foldl (member_address m) (base_ptr + layout_position l) path = base_ptr + layout_position s \<and> holds base_ptr m s"
proof (induction path arbitrary: l p)
  case (Cons k path)
  let ?ps = "layout_partitions l"
  have k: "k < length ?ps" "layout_at (?ps ! k) path = Some s" using Cons.prems(3) by (auto split: if_splits)
  obtain t members where "layout_description l = Struct_description t members"
    using placed_struct [OF Cons.prems(2) k(1)] by blast
  then have "load_i64 m (base_ptr + layout_position l + of_nat (8 * k)) = layout_position (?ps ! k) - layout_position l"
    using Cons.prems(1) k(1) by (cases l) auto
  then have "member_address m (base_ptr + layout_position l) k = base_ptr + layout_position (?ps ! k)"
    by (simp add: member_address_def)
  moreover have "holds base_ptr m (?ps ! k)" using Cons.prems(1) k(1) by (simp add: holds_partition)
  moreover obtain q where "placed (?ps ! k) q"
    using placed_partition [of ?ps _ "?ps ! k"] Cons.prems(2) k(1) by (cases l) auto
  ultimately show ?case using Cons.IH k(2) by simp
qed simp


definition sample_struct :: object_description where
  "sample_struct = Struct_description (Struct_t ''s'' [(Integer_t, ''n''), (Array_t Double_t 2, ''a'')])
     [(''n'', Scalar_description Integer_t), (''a'', Array_description Double_t [3, 5])]"

lemma sample_layout:
  "compute_layout sample_struct 0 = Inr (Object_layout sample_struct 0 16
     [Object_layout (Scalar_description Integer_t) 16 8 [],
      Object_layout (Array_description Double_t [3, 5]) 24 184 []], 208)"
  by code_simp


text \<open>A native object is given the memory that its layout calls its size: all bytes of an array or a scalar,
  but for a struct the table of its members only.  Construction writes inside the bytes of the object, which for
  a struct with members go beyond the memory allocated.\<close>
lemma native_object_memory:
  assumes "create_native_object allocate desc m = Inr (t, bytes, base_ptr, m')" "description_ok desc"
    and "unat base_ptr + object_bytes desc < 2 ^ 64"
  shows "unat bytes = (case desc of Struct_description t members \<Rightarrow> 8 * length members | _ \<Rightarrow> object_bytes desc) \<and>
    base_ptr = allocate bytes 8 \<and>
    (\<forall>x. outside base_ptr (object_bytes desc) x \<longrightarrow> m' x = m x)"
proof -
  obtain l end_position where l: "compute_layout desc 0 = Inr (l, end_position)" "bytes = layout_size l"
      "base_ptr = allocate bytes 8" "m' = construct_object base_ptr l m"
    using assms(1) by (auto simp: create_native_object_def rbind_Inr_iff Let_def)
  have p: "placed l 0" "span l = object_bytes desc" "layout_description l = desc"
    using compute_layout_placed(1) [OF l(1) assms(2)] assms(3) by simp_all
  have "unat bytes = (case desc of Struct_description t members \<Rightarrow> 8 * length members | _ \<Rightarrow> object_bytes desc)"
  proof (cases l)
    case (Object_layout d position n partitions)
    moreover have "length partitions = length members" if "map layout_description partitions = map snd members"
      for members :: "(string \<times> object_description) list"
      using that by (metis length_map)
    ultimately show ?thesis using p l(2) by (cases desc) auto
  qed
  moreover have "m' x = m x" if "outside base_ptr (object_bytes desc) x" for x
    using construct_outside(1) [OF p(1), of base_ptr x m] p(2) assms(3) l(4) that by (simp add: outside_def)
  ultimately show ?thesis using l(3) by blast
qed

lemma native_object_memory_example:
  "(case create_native_object (\<lambda>_ _. 4096) sample_struct (\<lambda>_. 0) of
      Inr (t, bytes, base_ptr, m') \<Rightarrow> unat bytes = 16 | Inl _ \<Rightarrow> False)"
proof -
  have eq: "create_native_object (\<lambda>_ _. 4096) sample_struct (\<lambda>_. 0) =
      Inr (Struct_t ''s'' [(Integer_t, ''n''), (Array_t Double_t 2, ''a'')], 16, 4096,
           construct_object 4096 (fst (projr (compute_layout sample_struct 0))) (\<lambda>_. 0))"
    by (simp add: create_native_object_def sample_layout) (simp add: sample_struct_def)
  have ok: "description_ok sample_struct" by (simp add: sample_struct_def)
  have small: "unat (4096 :: size_t) + object_bytes sample_struct < 2 ^ 64"
    by (simp add: sample_struct_def array_bytes_def)
  from conjunct1 [OF native_object_memory [OF eq ok small]]
  have "unat (16 :: size_t) = 16" by (simp add: sample_struct_def)
  then show ?thesis by (simp only: eq sum.case prod.case)
qed

lemma element_count_signed:
  "sint (element_count shape) = signed_take_bit 31 (prod_list shape)"
  by (simp add: element_count_prod sint_sbintrunc')

text \<open>The size that the layout reserves for the elements of an array is right exactly if there are
  fewer than \<open>2^31\<close> of them, since they are counted in an \<open>int\<close>.\<close>
lemma array_data_size_exact:
  assumes "get_array_layout t shape = Inr layout" "\<forall>n \<in> set shape. 0 \<le> n"
    and "0 < value_bytes t" "prod_list shape * int (value_bytes t) < 2 ^ 63"
  shows "data_size layout = of_int (prod_list shape * int (value_bytes t)) \<longleftrightarrow> prod_list shape < 2 ^ 31"
proof -
  let ?p = "prod_list shape" and ?v = "int (value_bytes t)" and ?s = "signed_take_bit 31 (prod_list shape)"
  have p: "0 \<le> ?p" using assms(2) by (induction shape) auto
  have s: "- (2 ^ 31) \<le> ?s" "?s < 2 ^ 31"
    using signed_take_bit_int_greater_eq_minus_exp [of 31 ?p] signed_take_bit_int_less_exp [of 31 ?p] by simp_all
  have "data_size layout = scast (element_count shape) * of_nat (value_bytes t)"
    using assms(1) get_size_of_value [of t] by (auto simp: get_array_layout_def rbind_Inr_iff Let_def)
  then have d: "data_size layout = of_int (?s * ?v)"
    by (simp only: scast_eq element_count_signed of_int_mult of_int_of_nat_eq)
  show ?thesis
  proof
    assume small: "?p < 2 ^ 31"
    then have "?s = ?p" using p by (intro signed_take_bit_int_eq_self) simp_all
    with d show "data_size layout = of_int (?p * ?v)" by (simp only:)
  next
    assume "data_size layout = of_int (?p * ?v)"
    with d have "(of_int (?s * ?v) :: size_t) = of_int (?p * ?v)" by (simp only:)
    then have eq: "?s * ?v mod 2 ^ 64 = ?p * ?v mod 2 ^ 64"
      by (simp only: word_of_int_eq_iff take_bit_eq_mod len_num0 len_bit0) simp
    show "?p < 2 ^ 31"
    proof (rule ccontr)
      assume big: "\<not> ?p < 2 ^ 31"
      then have "2 ^ 31 * ?v \<le> ?p * ?v" by (intro mult_right_mono) simp_all
      then have v: "2 ^ 31 * ?v < 2 ^ 63" using assms(4) by linarith
      have lower: "- (2 ^ 31 * ?v) \<le> ?s * ?v" using mult_right_mono [OF s(1), of ?v] by simp
      have upper: "?s * ?v < ?p * ?v" using s(2) big assms(3) by (intro mult_strict_right_mono) simp_all
      define diff where "diff = ?p * ?v - ?s * ?v"
      have "0 < diff" "diff < 2 ^ 64" using lower upper v assms(4) by (simp_all add: diff_def)
      then have "diff mod 2 ^ 64 \<noteq> 0" by simp
      moreover have "diff mod 2 ^ 64 = 0"
        unfolding diff_def using eq mod_diff_eq [of "?p * ?v" "2 ^ 64" "?s * ?v"] by (metis diff_self mod_0)
      ultimately show False by simp
    qed
  qed
qed

text \<open>A square matrix of 65536 rows: its elements take no memory.\<close>
lemma array_data_size_exact_example:
  "data_size (projr (get_array_layout Double_t [65536, 65536])) \<noteq> of_int (65536 * 65536 * 8)"
proof -
  have "get_array_layout Double_t [65536, 65536] = Inr (projr (get_array_layout Double_t [65536, 65536]))"
    by code_simp
  from array_data_size_exact [OF this] show ?thesis by simp
qed

end
