(* ===== verification/ArrayAccess.thy ===== *)
theory ArrayAccess
  imports Expressions ObjectLayout
begin

text \<open>
  The addresses that generated code computes for elements of arrays and slices
  (\<open>qubus/src/jit/array_access.cpp\<close>).  The instructions themselves are emitted through LLVM; what is modelled is
  the index expression that is compiled, the numbers that the emitted additions, multiplications and
  address computations produce, and the choice between an element and a slice.  The types that
  \<open>typeof_\<close> finds for the indices are arguments.
\<close>

section \<open>Index expressions\<close>

definition extent_call :: "expr \<Rightarrow> nat \<Rightarrow> expr" where
  "extent_call a dim = Intrinsic_function_expr ''extent'' [a, Integer_literal_expr (int dim)]"

fun linearize_from :: "expr \<Rightarrow> nat \<Rightarrow> expr list \<Rightarrow> expr \<Rightarrow> expr" where
  "linearize_from a dim [] acc = acc"
| "linearize_from a dim (i # is) acc =
     linearize_from a (dim + 1) is
       (Binary_operator_expr Plus (Binary_operator_expr Multiplies (extent_call a dim) acc) i)"

definition linearized_index :: "expr \<Rightarrow> expr list \<Rightarrow> expr" where
  "linearized_index a indices = linearize_from a 0 indices (Integer_literal_expr 0)"

text \<open>The constant is collected in a variable of the enclosing function, threaded here.\<close>

fun literal_value :: "expr \<Rightarrow> int option" where
  "literal_value (Integer_literal_expr n) = Some n"
| "literal_value e = None"

fun collect_constant_terms :: "expr \<Rightarrow> int \<Rightarrow> (expr \<times> int) result" where
  "collect_constant_terms (Binary_operator_expr Plus l r) c =
     (case literal_value l of
        Some n \<Rightarrow> rbind (checked_i64 (c + n)) (collect_constant_terms r)
      | None \<Rightarrow> (case literal_value r of
                Some n \<Rightarrow> rbind (checked_i64 (c + n)) (collect_constant_terms l)
              | None \<Rightarrow> rbind (collect_constant_terms l c) (\<lambda>(l', c').
                       rbind (collect_constant_terms r c') (\<lambda>(r', c'').
                         Inr (Binary_operator_expr Plus l' r', c'')))))"
| "collect_constant_terms e c = Inr (e, c)"

definition reassociate_index_expression :: "expr \<Rightarrow> expr result" where
  "reassociate_index_expression e =
     rbind (collect_constant_terms e 0) (\<lambda>(simplified, constant).
       Inr (if constant \<noteq> 0 then Binary_operator_expr Plus simplified (Integer_literal_expr constant)
            else simplified))"

definition permute_indices :: "'a list \<Rightarrow> nat list \<Rightarrow> 'a list result" where
  "permute_indices indices permutation =
     traverse (\<lambda>i. if i < length permutation \<and> permutation ! i < length indices
                   then Inr (indices ! (permutation ! i)) else Inl Undefined_behaviour) [0..<length indices]"

section \<open>Addresses\<close>

definition array_data_ptr :: "size_t \<Rightarrow> nat \<Rightarrow> size_t" where
  "array_data_ptr a rank = a + of_nat (8 * (rank + 1))"

definition array_shape_ptr :: "size_t \<Rightarrow> size_t" where
  "array_shape_ptr a = a + of_nat (8 * 1)"

definition extent_ptr :: "size_t \<Rightarrow> nat \<Rightarrow> size_t" where
  "extent_ptr a dim = array_shape_ptr a + of_nat (8 * dim)"

definition element_ptr :: "size_t \<Rightarrow> nat \<Rightarrow> nat \<Rightarrow> int \<Rightarrow> size_t" where
  "element_ptr a rank element_bytes index = array_data_ptr a rank + of_int (index * int element_bytes)"

text \<open>The loop over the extents of the array behind a slice, and the transformation of the indices of a slice.\<close>

fun linearize_values :: "int list \<Rightarrow> int list \<Rightarrow> int \<Rightarrow> int" where
  "linearize_values (n # shape) (i # indices) acc = linearize_values shape indices (n * acc + i)"
| "linearize_values shape indices acc = acc"

definition transformed_index :: "int \<times> int \<times> int \<Rightarrow> int \<Rightarrow> int" where
  "transformed_index s i = (case s of (offset, bound, stride) \<Rightarrow> offset + stride * i)"

definition slice_element_ptr ::
  "size_t \<Rightarrow> int list \<Rightarrow> (int \<times> int \<times> int) list \<Rightarrow> nat \<Rightarrow> int list \<Rightarrow> size_t" where
  "slice_element_ptr a shape dims element_bytes indices =
     array_data_ptr a (length shape) +
     of_int (linearize_values shape (map2 transformed_index dims indices) 0 * int element_bytes)"

definition slice_extent :: "int \<times> int \<times> int \<Rightarrow> int" where
  "slice_extent s = (case s of (offset, bound, stride) \<Rightarrow> (bound - offset) sdiv stride)"

section \<open>Dispatch\<close>

text \<open>The dimensions of a slice are ranges: lower bound, upper bound and stride.\<close>

fun slice_dimension :: "expr \<times> qtype \<Rightarrow> (expr \<times> expr \<times> expr) result" where
  "slice_dimension (Integer_range_expr a b c, t) = Inr (a, b, c)"
| "slice_dimension (e, t) =
     (if t = Integer_t
      then Inl (Compilation_error ''Found an integer argument as part of an array slice.This is currently not supported.'')
      else Inl No_case_applicable)"

definition emit_array_slice :: "qtype \<Rightarrow> (expr \<times> qtype) list \<Rightarrow> ((expr \<times> expr \<times> expr) list \<times> qtype) result" where
  "emit_array_slice array_type indices =
     (case array_type of
        Array_t t rank \<Rightarrow>
          rbind (traverse (\<lambda>k. if k < length indices then slice_dimension (indices ! k) else Inl Undefined_behaviour)
                  [0..<nat rank]) (\<lambda>dims. Inr (dims, Array_slice_t t rank))
      | Array_slice_t t rank \<Rightarrow>
          rbind (traverse (\<lambda>k. if k < length indices then slice_dimension (indices ! k) else Inl Undefined_behaviour)
                  [0..<nat rank])
                (\<lambda>dims. Inl (Compilation_error ''Slicing is currently not supported on slices.''))
      | _ \<Rightarrow> Inl No_case_applicable)"

datatype access_code =
    Element_of_array expr
  | Element_of_slice "expr list"
  | Slice "(expr \<times> expr \<times> expr) list" qtype

definition emit_array_like_access :: "expr \<Rightarrow> qtype \<Rightarrow> expr list \<Rightarrow> access_code result" where
  "emit_array_like_access array_like array_type indices =
     (case array_type of
        Array_t t rank \<Rightarrow>
          rbind (reassociate_index_expression (linearized_index array_like indices)) (\<lambda>i. Inr (Element_of_array i))
      | Array_slice_t t rank \<Rightarrow> Inr (Element_of_slice indices)
      | _ \<Rightarrow> Inl No_case_applicable)"

definition emit_subscription :: "expr \<Rightarrow> qtype \<Rightarrow> (expr \<times> qtype) list \<Rightarrow> access_code result" where
  "emit_subscription array_like array_type indices =
     (if \<exists>i \<in> set indices. snd i = Integer_range_t
      then rbind (emit_array_slice array_type indices) (\<lambda>(dims, t). Inr (Slice dims t))
      else if \<forall>i \<in> set indices. snd i = Integer_t
      then emit_array_like_access array_like array_type (map fst indices)
      else Inl No_case_applicable)"

section \<open>The value of an index expression\<close>

text \<open>\<open>v\<close> gives the values of all expressions other than sums, products and literals.\<close>

fun index_value :: "(expr \<Rightarrow> int) \<Rightarrow> expr \<Rightarrow> int" where
  "index_value v (Integer_literal_expr n) = n"
| "index_value v (Binary_operator_expr Plus l r) = index_value v l + index_value v r"
| "index_value v (Binary_operator_expr Multiplies l r) = index_value v l * index_value v r"
| "index_value v e = v e"

lemma literal_value_Some: "literal_value e = Some n \<longleftrightarrow> e = Integer_literal_expr n"
  by (cases e) auto

lemma collect_constant_terms_value:
  "collect_constant_terms e c = Inr (e', c') \<Longrightarrow> index_value v e' + c' = index_value v e + c"
proof (induction e c arbitrary: e' c' rule: collect_constant_terms.induct)
  case (1 l r c)
  show ?case
  proof (cases "literal_value l")
    case (Some n)
    then have c: "checked_i64 (c + n) = Inr (c + n)" "collect_constant_terms r (c + n) = Inr (e', c')"
      using 1(5) by (auto simp: rbind_Inr_iff checked_i64_Inr)
    then show ?thesis using 1(4) [OF Some c] Some by (simp add: literal_value_Some)
  next
    case None
    show ?thesis
    proof (cases "literal_value r")
      case (Some n)
      then have c: "checked_i64 (c + n) = Inr (c + n)" "collect_constant_terms l (c + n) = Inr (e', c')"
        using 1(5) None by (auto simp: rbind_Inr_iff checked_i64_Inr)
      then show ?thesis using 1(3) [OF None Some c] Some by (simp add: literal_value_Some)
    next
      case None2: None
      obtain l' c1 r' where "collect_constant_terms l c = Inr (l', c1)"
          "collect_constant_terms r c1 = Inr (r', c')" "e' = Binary_operator_expr Plus l' r'"
        using 1(5) None None2 by (auto simp: rbind_Inr_iff)
      then show ?thesis using 1(1) [OF None None2] 1(2) [OF None None2] by fastforce
    qed
  qed
qed auto

lemma reassociate_value:
  "reassociate_index_expression e = Inr e' \<Longrightarrow> index_value v e' = index_value v e"
  using collect_constant_terms_value [of e 0 _ _ v]
  by (auto simp: reassociate_index_expression_def rbind_Inr_iff split: if_splits)

lemma linearize_from_value:
  "index_value v (linearize_from a dim is acc) =
   linearize_values (map (\<lambda>k. v (extent_call a k)) [dim..<dim + length is]) (map (index_value v) is) (index_value v acc)"
proof (induction "is" arbitrary: dim acc)
  case (Cons i "is")
  have "[dim..<dim + length (i # is)] = dim # [Suc dim..<Suc dim + length is]" by (simp add: upt_rec)
  then show ?case using Cons by (simp add: extent_call_def)
qed simp

definition within :: "int list \<Rightarrow> int list \<Rightarrow> bool" where
  "within shape indices \<longleftrightarrow> list_all2 (\<lambda>i n. 0 \<le> i \<and> i < n) indices shape"

lemma within_Cons [simp]:
  "within (n # shape) (i # is) \<longleftrightarrow> 0 \<le> i \<and> i < n \<and> within shape is" "within [] []"
  by (auto simp: within_def)

lemma linearize_values_bounds:
  "within shape indices \<Longrightarrow> acc * prod_list shape \<le> linearize_values shape indices acc \<and>
   linearize_values shape indices acc < (acc + 1) * prod_list shape \<and> 0 < prod_list shape"
proof (induction shape indices acc rule: linearize_values.induct)
  case (1 n shape i indices acc)
  let ?p = "prod_list shape"
  have ih: "(n * acc + i) * ?p \<le> linearize_values shape indices (n * acc + i)"
      "linearize_values shape indices (n * acc + i) < (n * acc + i + 1) * ?p" "0 < ?p" and i: "0 \<le> i" "i < n"
    using 1 by simp_all
  have lo: "acc * (n * ?p) \<le> (n * acc + i) * ?p" using i ih(3) by (simp add: algebra_simps)
  have "n * acc + i + 1 \<le> n * (acc + 1)" using i by (simp add: algebra_simps)
  then have "(n * acc + i + 1) * ?p \<le> n * (acc + 1) * ?p" using ih(3) by (intro mult_right_mono) simp_all
  then have hi: "(n * acc + i + 1) * ?p \<le> (acc + 1) * (n * ?p)" by (simp only: mult.commute [of n] mult.assoc)
  have "0 < n * ?p" using i ih(3) by simp
  then show ?case unfolding prod_list.Cons linearize_values.simps using lo hi ih(1,2) by linarith
qed (auto simp: within_def)

lemma linearize_values_inj:
  "within shape is \<Longrightarrow> within shape js \<Longrightarrow> linearize_values shape is a = linearize_values shape js b \<Longrightarrow> a = b \<and> is = js"
proof (induction shape "is" a arbitrary: js b rule: linearize_values.induct)
  case (1 n shape i "is" a)
  obtain j js' where js: "js = j # js'" using 1(3) by (cases js) (auto simp: within_def)
  then have eq: "n * a + i = n * b + j" "is = js'"
    using 1(1) [of js' "n * b + j"] 1(2-4) by auto
  have ij: "0 \<le> i" "i < n" "0 \<le> j" "j < n" using 1(2,3) js by auto
  have "(n * a + i) div n = a" "(n * b + j) div n = b" using ij by simp_all
  with eq(1) have "a = b" by simp
  with eq js show ?case by simp
qed (auto simp: within_def)

section \<open>Elements of arrays\<close>

lemma array_bytes_header: "32 + 8 * length shape + nat (prod_list shape) * value_bytes t \<le> array_bytes t shape"
proof -
  have "32 + x + d \<le> 64 + x - y + d" if "y < 32" for x y d :: nat using that by simp
  then show ?thesis by (simp add: array_bytes_def)
qed

lemma element_ptr_unat:
  assumes "0 \<le> index" "index < prod_list shape" "description_ok (Array_description t shape)"
    and "unat a + array_bytes t shape < 2 ^ 64"
  shows "unat (element_ptr a (length shape) (value_bytes t) index) =
      unat a + 8 * (length shape + 1) + nat index * value_bytes t"
    and "unat a + 8 * (length shape + 1) + nat index * value_bytes t + value_bytes t \<le> unat a + array_bytes t shape"
proof -
  let ?r = "length shape" and ?v = "value_bytes t"
  have "nat index * ?v + ?v = (nat index + 1) * ?v" by simp
  also have "\<dots> \<le> nat (prod_list shape) * ?v" using assms(1,2) by (intro mult_right_mono) auto
  finally have "nat index * ?v + ?v \<le> nat (prod_list shape) * ?v" .
  then show bound: "unat a + 8 * (?r + 1) + nat index * ?v + ?v \<le> unat a + array_bytes t shape"
  proof -
    assume le: "nat index * ?v + ?v \<le> nat (prod_list shape) * ?v"
    have "u + 8 * (r + 1) + x + w \<le> u + b" if "x + w \<le> y" "32 + 8 * r + y \<le> b" for u r x w y b :: nat
      using that by simp
    then show ?thesis using le array_bytes_header by blast
  qed
  have "of_int (index * int ?v) = (of_nat (nat index * ?v) :: size_t)" using assms(1) by simp
  then have "element_ptr a ?r ?v index = a + of_nat (8 * (?r + 1) + nat index * ?v)"
    by (simp only: element_ptr_def array_data_ptr_def of_nat_add add.assoc)
  then show "unat (element_ptr a ?r ?v index) = unat a + 8 * (?r + 1) + nat index * ?v"
    using unat_add_small [of a "8 * (?r + 1) + nat index * ?v"] bound assms(4) by simp
qed


definition sample_array :: expr where
  "sample_array = Variable_ref_expr \<lparr>var_id = 0, var_name = ''A'', var_type = Array_t Double_t 2\<rparr>"

definition sample_subscript :: expr where
  "sample_subscript = Variable_ref_expr \<lparr>var_id = 1, var_name = ''i'', var_type = Integer_t\<rparr>"

definition sample_value :: "expr \<Rightarrow> int" where
  "sample_value e = (if e = extent_call sample_array 0 then 3 else if e = extent_call sample_array 1 then 5 else 2)"


text \<open>Different indices within the shape of an array lead to elements that do not overlap.\<close>
lemma array_elements_disjoint:
  assumes "description_ok (Array_description t shape)" "unat a + array_bytes t shape < 2 ^ 64"
    and "within shape is" "within shape js" "is \<noteq> js"
    and "p = element_ptr a (length shape) (value_bytes t) (linearize_values shape is 0)"
    and "q = element_ptr a (length shape) (value_bytes t) (linearize_values shape js 0)"
  shows "unat p + value_bytes t \<le> unat q \<or> unat q + value_bytes t \<le> unat p"
proof -
  let ?i = "linearize_values shape is 0" and ?j = "linearize_values shape js 0"
  have i: "0 \<le> ?i" "?i < prod_list shape" and j: "0 \<le> ?j" "?j < prod_list shape"
    using linearize_values_bounds [OF assms(3), of 0] linearize_values_bounds [OF assms(4), of 0] by simp_all
  have "?i \<noteq> ?j" using linearize_values_inj [OF assms(3,4), of 0 0] assms(5) by blast
  then have "nat ?i \<noteq> nat ?j" using i(1) j(1) by (simp add: eq_nat_nat_iff)
  then have "nat ?i + 1 \<le> nat ?j \<or> nat ?j + 1 \<le> nat ?i" by linarith
  then have "(nat ?i + 1) * value_bytes t \<le> nat ?j * value_bytes t \<or> (nat ?j + 1) * value_bytes t \<le> nat ?i * value_bytes t"
    using mult_le_mono1 by blast
  then show ?thesis
    unfolding assms(6,7) element_ptr_unat(1) [OF i assms(1,2)] element_ptr_unat(1) [OF j assms(1,2)] by auto
qed

lemma array_elements_disjoint_example:
  "unat (element_ptr 4096 (length [3, 5 :: int]) 8 7) + 8 \<le> unat (element_ptr 4096 (length [3, 5 :: int]) 8 12) \<or>
   unat (element_ptr 4096 (length [3, 5 :: int]) 8 12) + 8 \<le> unat (element_ptr 4096 (length [3, 5 :: int]) 8 7)"
proof -
  have small: "unat (4096 :: size_t) + array_bytes Double_t [3, 5] < 2 ^ 64" by (simp add: array_bytes_def)
  have ok: "description_ok (Array_description Double_t [3, 5])" by simp
  have "within [3, 5] [1, 2]" "within [3, 5] [2, 2]" "linearize_values [3, 5] [1, 2] 0 = 7"
    "linearize_values [3, 5] [2, 2] 0 = 12" by code_simp+
  with array_elements_disjoint [OF ok small, of "[1, 2]" "[2, 2]" _ _, OF _ _ _ refl refl]
  show ?thesis by simp
qed

section \<open>Slices\<close>

text \<open>A slice of an array stays inside the array: the lower bound is not negative, the upper bound is at most the
  extent, and the stride is positive.\<close>

definition slice_of :: "int list \<Rightarrow> (int \<times> int \<times> int) list \<Rightarrow> bool" where
  "slice_of shape dims \<longleftrightarrow> list_all2 (\<lambda>n (lower, upper, stride). 0 \<le> lower \<and> upper \<le> n \<and> 0 < stride) shape dims"

lemma transformed_index_range:
  assumes "0 \<le> i" "i < slice_extent (lower, upper, stride)" "0 \<le> lower" "0 < stride"
  shows "0 \<le> transformed_index (lower, upper, stride) i \<and> transformed_index (lower, upper, stride) i < upper"
proof -
  let ?d = "upper - lower"
  have pos: "0 < ?d sdiv stride" using assms(1,2) by (simp add: slice_extent_def)
  have d: "0 < ?d"
  proof (rule ccontr)
    assume "\<not> 0 < ?d"
    then have "sgn ?d = 0 \<or> sgn ?d = - 1" by (auto simp: sgn_if)
    moreover have "0 \<le> \<bar>?d\<bar> div \<bar>stride\<bar>" using assms(4) by (simp add: pos_imp_zdiv_nonneg_iff)
    ultimately show False using pos assms(4) by (auto simp: signed_divide_int_def)
  qed
  then have "?d sdiv stride = ?d div stride" using assms(4) by (simp add: signed_divide_int_def)
  then have "i + 1 \<le> ?d div stride" using assms(2) by (simp add: slice_extent_def)
  then have "stride * (i + 1) \<le> stride * (?d div stride)" using assms(4) by (intro mult_left_mono) simp_all
  also have "\<dots> \<le> ?d" using mult_div_mod_eq [of stride ?d] pos_mod_sign [OF assms(4), of ?d] by linarith
  finally have "stride * i + stride \<le> ?d" by (simp add: algebra_simps)
  moreover have "0 \<le> stride * i" using assms(1,4) by simp
  ultimately show ?thesis using assms(3,4) by (simp add: transformed_index_def)
qed

lemma transformed_within:
  "slice_of shape dims \<Longrightarrow> within (map slice_extent dims) is \<Longrightarrow> within shape (map2 transformed_index dims is)"
proof (induction dims arbitrary: shape "is")
  case (Cons d dims)
  obtain lower upper stride where d: "d = (lower, upper, stride)" by (cases d)
  obtain n shape' where s: "shape = n # shape'" "0 \<le> lower" "upper \<le> n" "0 < stride" "slice_of shape' dims"
    using Cons.prems(1) by (cases shape) (auto simp: slice_of_def d)
  obtain i is' where i: "is = i # is'" "0 \<le> i" "i < slice_extent d" "within (map slice_extent dims) is'"
    using Cons.prems(2) by (cases "is") (auto simp: within_def)
  show ?case
    using Cons.IH [OF s(5) i(4)] transformed_index_range [OF i(2) _ s(2,4), of upper] i(3) s(1,3) i(1) d by simp
qed (auto simp: slice_of_def within_def)

text \<open>An element of a slice, for indices below the extents of the slice, is an element of the array that
  the slice was taken from.\<close>
lemma slice_element_in_bounds:
  assumes "get_array_layout t shape = Inr layout" "description_ok (Array_description t shape)"
    and "unat a + array_bytes t shape < 2 ^ 64"
    and "slice_of shape dims" "within (map slice_extent dims) indices"
  shows "unat a + 8 * (length shape + 1) \<le> unat (slice_element_ptr a shape dims (value_bytes t) indices) \<and>
    unat (slice_element_ptr a shape dims (value_bytes t) indices) + value_bytes t \<le> unat a + unat (array_size layout)"
proof -
  let ?i = "linearize_values shape (map2 transformed_index dims indices) 0"
  have range: "0 \<le> ?i" "?i < prod_list shape"
    using linearize_values_bounds [OF transformed_within [OF assms(4,5)], of 0] by simp_all
  have "slice_element_ptr a shape dims (value_bytes t) indices = element_ptr a (length shape) (value_bytes t) ?i"
    by (simp add: slice_element_ptr_def element_ptr_def)
  moreover have "unat (array_size layout) = array_bytes t shape"
    using get_array_layout_size(1) [OF assms(1,2)] assms(3) by (simp add: unat_of_nat_small)
  ultimately show ?thesis using element_ptr_unat [OF range assms(2,3)] by simp
qed

lemma slice_element_in_bounds_example:
  "unat (slice_element_ptr 4096 [8] [(1, 8, 3)] 8 [1]) + 8 \<le> 4096 + unat (array_size (projr (get_array_layout Double_t [8])))"
proof -
  have layout: "get_array_layout Double_t [8] = Inr (projr (get_array_layout Double_t [8]))" by code_simp
  have small: "unat (4096 :: size_t) + array_bytes Double_t [8] < 2 ^ 64" by (simp add: array_bytes_def)
  have "slice_extent (1, 8, 3) = 2" by code_simp
  then have "within (map slice_extent [(1, 8, 3)]) [1]" by simp
  moreover have "slice_of [8] [(1, 8, 3)]" by (simp add: slice_of_def)
  ultimately have "unat (slice_element_ptr 4096 [8] [(1, 8, 3)] (value_bytes Double_t) [1]) + value_bytes Double_t
      \<le> unat (4096 :: size_t) + unat (array_size (projr (get_array_layout Double_t [8])))"
    by (intro conjunct2 [OF slice_element_in_bounds [OF layout _ small]]) simp_all
  then show ?thesis by simp
qed

text \<open>The extent rounds down: the last index of a range is lost if the stride does not divide its length.\<close>

lemma slice_extent_rounds_down:
  assumes "lower < upper" "0 < stride" "\<not> stride dvd upper - lower"
  shows "transformed_index (lower, upper, stride) (slice_extent (lower, upper, stride)) < upper"
proof -
  let ?d = "upper - lower"
  have "?d sdiv stride = ?d div stride" using assms(1,2) by (simp add: signed_divide_int_def)
  moreover have "stride * (?d div stride) < ?d"
  proof -
    have "?d mod stride \<noteq> 0" using assms(3) by (simp add: dvd_eq_mod_eq_0)
    then show ?thesis using mult_div_mod_eq [of stride ?d] pos_mod_sign [OF assms(2), of ?d] by linarith
  qed
  ultimately show ?thesis by (simp add: transformed_index_def slice_extent_def)
qed

end
