(* ===== verification/IndexSpace.thy ===== *)
theory IndexSpace
  imports ArrayAccess
begin

text \<open>
  Index spaces and multi-dimensional arrays (\<open>util/include/qubus/util/index_space.hpp\<close>,
  \<open>multi_array.hpp\<close>).  A space is the list of its bounds, per dimension the lower bound, the upper bound and the
  stride; its template parameter \<open>Rank\<close> is the length of the list.  An iterator is an offset, or \<open>None\<close> once it has
  been made invalid, which is what the end iterator is.  Indices are integers without a bound, since
  the type of indices is a template parameter; the accumulation in \<open>cardinality\<close> however starts from the
  literal 1 and keeps an \<open>int\<close>, a word of 32 bits.
\<close>

type_synonym index_space = "(int \<times> int \<times> int) list"

section \<open>Index spaces\<close>

definition lower_bound :: "index_space \<Rightarrow> nat \<Rightarrow> int" where
  "lower_bound space dim = fst (space ! dim)"

definition upper_bound :: "index_space \<Rightarrow> nat \<Rightarrow> int" where
  "upper_bound space dim = fst (snd (space ! dim))"

definition stride :: "index_space \<Rightarrow> nat \<Rightarrow> int" where
  "stride space dim = snd (snd (space ! dim))"

definition extent :: "index_space \<Rightarrow> nat \<Rightarrow> int" where
  "extent space dim = upper_bound space dim - lower_bound space dim"

fun cardinality_from :: "32 word \<Rightarrow> index_space \<Rightarrow> 32 word result" where
  "cardinality_from acc [] = Inr acc"
| "cardinality_from acc ((l, u, s) # space) =
     (if s = 0 then Inl Undefined_behaviour else cardinality_from (of_int (sint acc * (u - l) sdiv s)) space)"

definition cardinality :: "index_space \<Rightarrow> 32 word result" where
  "cardinality space = cardinality_from 1 space"

definition space_product :: "index_space \<Rightarrow> index_space \<Rightarrow> index_space" where
  "space_product lhs rhs = lhs @ rhs"

definition make_index_space_from_shape :: "int list \<Rightarrow> index_space" where
  "make_index_space_from_shape shape = map (\<lambda>n. (0, n, 1)) shape"

definition linearize :: "int list \<Rightarrow> index_space \<Rightarrow> int" where
  "linearize off space =
     foldl (\<lambda>linear_index dim. linear_index + (extent space dim * linear_index + off ! dim)) 0 [0..<length space]"

section \<open>Iteration\<close>

definition space_begin :: "index_space \<Rightarrow> int list option" where
  "space_begin space = Some (map (lower_bound space) [0..<length space])"

text \<open>The loop of \<open>operator++\<close> runs from the last dimension to the first: both lists are reversed.\<close>

fun increment :: "index_space \<Rightarrow> int list \<Rightarrow> int list option" where
  "increment [] [] = None"
| "increment ((l, u, s) # dims) (x # xs) =
     (if x + s < u then Some ((x + s) # xs)
      else map_option (\<lambda>ys. l # ys) (increment dims xs))"
| "increment dims xs = None"

definition space_next :: "index_space \<Rightarrow> int list \<Rightarrow> int list option" where
  "space_next space off = map_option rev (increment (rev space) (rev off))"

text \<open>The offsets that \<open>for_each\<close> passes to its function, in order; fuel bounds the number of steps.\<close>

fun visit :: "nat \<Rightarrow> index_space \<Rightarrow> int list option \<Rightarrow> int list list option" where
  "visit fuel space None = Some []"
| "visit 0 space (Some off) = None"
| "visit (Suc fuel) space (Some off) = map_option (\<lambda>offs. off # offs) (visit fuel space (space_next space off))"

definition for_each_offset :: "nat \<Rightarrow> index_space \<Rightarrow> int list list option" where
  "for_each_offset fuel space = visit fuel space (space_begin space)"

section \<open>Arrays\<close>

record 'a multi_array =
  array_data :: "'a list"
  array_shape :: "int list"

text \<open>A vector of a negative size (a huge one as \<open>size_t\<close>) throws.\<close>

definition make_multi_array :: "int list \<Rightarrow> 'a \<Rightarrow> 'a multi_array result" where
  "make_multi_array shape value =
     (let n = foldl (*) 1 shape
      in if n < 0 then Inl (Runtime_error ''length_error'')
         else Inr \<lparr>array_data = replicate (nat n) value, array_shape = shape\<rparr>)"

definition multi_array_at :: "'a multi_array \<Rightarrow> int list \<Rightarrow> 'a result" where
  "multi_array_at a indices =
     (let linear_index = linearize_values (array_shape a) indices 0
      in if 0 \<le> linear_index \<and> linear_index < int (length (array_data a)) then Inr (array_data a ! nat linear_index)
         else Inl Undefined_behaviour)"

definition multi_array_set :: "'a multi_array \<Rightarrow> int list \<Rightarrow> 'a \<Rightarrow> 'a multi_array result" where
  "multi_array_set a indices value =
     (let linear_index = linearize_values (array_shape a) indices 0
      in if 0 \<le> linear_index \<and> linear_index < int (length (array_data a))
         then Inr (a\<lparr>array_data := (array_data a)[nat linear_index := value]\<rparr>) else Inl Undefined_behaviour)"

definition reshape :: "'a multi_array \<Rightarrow> int list \<Rightarrow> 'a \<Rightarrow> 'a multi_array result" where
  "reshape a new_shape initial =
     (let n = foldl (*) 1 new_shape
      in if n < 0 then Inl (Runtime_error ''length_error'')
         else Inr (a\<lparr>array_data := take (nat n) (array_data a) @ replicate (nat n - length (array_data a)) initial,
                array_shape := new_shape\<rparr>))"

section \<open>The offsets of a space\<close>

text \<open>The reference: all combinations of the indices of each dimension, the last dimension fastest.\<close>

definition dim_indices :: "int \<times> int \<times> int \<Rightarrow> int list" where
  "dim_indices d = (case d of (l, u, s) \<Rightarrow> map (\<lambda>k. l + int k * s) [0..<nat ((u - l + s - 1) div s)])"

definition space_ok :: "index_space \<Rightarrow> bool" where
  "space_ok space \<longleftrightarrow> (\<forall>(l, u, s) \<in> set space. l < u \<and> 0 < s)"

text \<open>On reversed dimensions: the first list varies fastest.\<close>

fun combinations :: "'a list list \<Rightarrow> 'a list list" where
  "combinations [] = [[]]"
| "combinations (xs # xss) = concat (map (\<lambda>ys. map (\<lambda>x. x # ys) xs) (combinations xss))"

lemma combinations_snoc:
  "combinations (xss @ [xs]) = concat (map (\<lambda>x. map (\<lambda>zs. zs @ [x]) (combinations xss)) xs)"
proof (induction xss)
  case Nil
  then show ?case by (induction xs) simp_all
next
  case (Cons ys xss)
  have "concat (map (\<lambda>zs. map (\<lambda>y. y # zs) ys) (concat (map (\<lambda>x. map (\<lambda>zs. zs @ [x]) (combinations xss)) xs))) =
      concat (map (\<lambda>x. map (\<lambda>zs. zs @ [x]) (concat (map (\<lambda>zs. map (\<lambda>y. y # zs) ys) (combinations xss)))) xs)"
    by (induction xs) (simp_all add: map_concat comp_def)
  then show ?case using Cons by simp
qed

lemma rev_combinations: "map rev (combinations (rev xss)) = product_lists xss"
proof (induction xss)
  case (Cons xs xss)
  have "map rev (map (\<lambda>zs. zs @ [x]) (combinations (rev xss))) = map ((#) x) (product_lists xss)" for x
    by (simp add: Cons [symmetric] comp_def)
  then show ?case by (simp only: rev.simps combinations_snoc map_concat map_map comp_def product_lists.simps)
qed simp

section \<open>Iteration visits every offset once\<close>

fun chain :: "('a \<Rightarrow> 'a option) \<Rightarrow> 'a list \<Rightarrow> bool" where
  "chain f [] = True"
| "chain f [x] = (f x = None)"
| "chain f (x # y # zs) = (f x = Some y \<and> chain f (y # zs))"

lemma chain_nth:
  "chain f zs \<longleftrightarrow> (\<forall>i < length zs. f (zs ! i) = (if Suc i < length zs then Some (zs ! Suc i) else None))"
  by (induction f zs rule: chain.induct) (auto simp: All_less_Suc2)

lemma nth_concat_map:
  "q < length ys \<Longrightarrow> r < length xs \<Longrightarrow>
   concat (map (\<lambda>y. map (\<lambda>x. f x y) xs) ys) ! (q * length xs + r) = f (xs ! r) (ys ! q)"
proof (induction ys arbitrary: q)
  case (Cons y ys)
  then show ?case by (cases q) (simp_all add: nth_append)
qed simp

lemma length_concat_map: "length (concat (map (\<lambda>y. map (\<lambda>x. f x y) xs) ys)) = length ys * length xs"
  by (induction ys) simp_all

lemma le_div_iff: "0 < c \<Longrightarrow> a \<le> b div c \<longleftrightarrow> a * c \<le> b" for a b c :: int
proof
  assume c: "0 < c" and "a \<le> b div c"
  then have "a * c \<le> b div c * c" by (intro mult_right_mono) simp_all
  also have "\<dots> \<le> b" using div_mult_mod_eq [of b c] pos_mod_sign [OF c, of b] by linarith
  finally show "a * c \<le> b" .
next
  assume c: "0 < c" and "a * c \<le> b"
  then have "a * c div c \<le> b div c" by (intro zdiv_mono1)
  with c show "a \<le> b div c" by simp
qed

lemma dim_indices_last:
  assumes "0 < (s :: int)" "k < nat ((u - l + s - 1) div s)"
  shows "l + int k * s + s < u \<longleftrightarrow> Suc k < nat ((u - l + s - 1) div s)"
proof -
  have "Suc k < nat ((u - l + s - 1) div s) \<longleftrightarrow> int k + 2 \<le> (u - l + s - 1) div s" by linarith
  also have "\<dots> \<longleftrightarrow> (int k + 2) * s \<le> u - l + s - 1" by (rule le_div_iff [OF assms(1)])
  also have "\<dots> \<longleftrightarrow> l + int k * s + s < u" by (simp add: algebra_simps) linarith
  finally show ?thesis by simp
qed

lemma dim_indices_nonempty:
  assumes "l < u" "0 < (s :: int)"
  shows "0 < nat ((u - l + s - 1) div s)"
proof -
  have "1 \<le> (u - l + s - 1) div s" using assms by (subst le_div_iff) simp_all
  then show ?thesis by simp
qed

lemma chain_combinations:
  "space_ok dims \<Longrightarrow> chain (increment dims) (combinations (map dim_indices dims)) \<and>
     combinations (map dim_indices dims) \<noteq> [] \<and> hd (combinations (map dim_indices dims)) = map fst dims"
proof (induction dims)
  case (Cons d dims)
  obtain l u s where d: "d = (l, u, s)" by (cases d)
  have lus: "l < u" "0 < s" and ok: "space_ok dims" using Cons.prems by (auto simp: space_ok_def d)
  let ?xs = "dim_indices d" and ?cs = "combinations (map dim_indices dims)"
  let ?zs = "concat (map (\<lambda>ys. map (\<lambda>x. x # ys) ?xs) ?cs)"
  note ih = Cons.IH [OF ok]
  define n where "n = nat ((u - l + s - 1) div s)"
  have n: "0 < n" unfolding n_def by (rule dim_indices_nonempty [OF lus])
  have xs: "length ?xs = n" "\<And>k. k < n \<Longrightarrow> ?xs ! k = l + int k * s" by (simp_all add: dim_indices_def d n_def)
  have at: "?zs ! (q * n + r) = ?xs ! r # ?cs ! q" if "q < length ?cs" "r < n" for q r
    using nth_concat_map [of q ?cs r ?xs "\<lambda>x ys. x # ys"] that xs(1) by simp
  have len: "length ?zs = length ?cs * n" by (simp add: length_concat_map xs(1))
  have "increment (d # dims) (?zs ! i) = (if Suc i < length ?zs then Some (?zs ! Suc i) else None)"
    if i: "i < length ?zs" for i
  proof -
    define q r where "q = i div n" and "r = i mod n"
    have qr: "i = q * n + r" "r < n" "q < length ?cs"
      using n i len by (simp_all add: q_def r_def less_mult_imp_div_less)
    show ?thesis
    proof (cases "Suc r < n")
      case True
      then have "Suc i < length ?zs" using qr len by (metis add_Suc_right mult_Suc mult_le_mono1 Suc_leI add.commute add_less_cancel_right less_le_trans)
      then show ?thesis
        using at [OF qr(3) qr(2)] at [OF qr(3) True] xs(2) qr dim_indices_last [OF lus(2), of r u l] True
        by (simp add: d n_def algebra_simps)
    next
      case False
      then have r: "Suc r = n" using qr(2) by simp
      have next_q: "Suc i = Suc q * n + 0" using qr(1) r by simp
      have "increment dims (?cs ! q) = (if Suc q < length ?cs then Some (?cs ! Suc q) else None)"
        using ih qr(3) by (simp add: chain_nth)
      moreover have "Suc i < length ?zs \<longleftrightarrow> Suc q < length ?cs"
        using mult_less_cancel2 [of "Suc q" n "length ?cs"] n by (simp only: next_q len add_0_right) simp
      moreover have "?zs ! i = (l + int r * s) # ?cs ! q" using at [OF qr(3,2)] xs(2) [OF qr(2)] qr(1) by simp
      moreover have "?zs ! Suc i = l # ?cs ! Suc q" if "Suc q < length ?cs"
        using at [OF that n] xs(2) [OF n] unfolding next_q by simp
      moreover have "\<not> l + int r * s + s < u" using dim_indices_last [OF lus(2), of r u l] qr(2) r by (simp add: n_def)
      ultimately show ?thesis by (simp add: d del: concat.simps)
    qed
  qed
  then have "chain (increment (d # dims)) ?zs" by (simp add: chain_nth)
  moreover have "?zs \<noteq> []" using len n ih by (metis length_0_conv mult_is_0 not_gr_zero)
  moreover have "hd ?zs = map fst (d # dims)"
  proof -
    have "?cs ! 0 = map fst dims" "0 < length ?cs" using ih hd_conv_nth [of ?cs] by auto
    then show ?thesis using at [of 0 0] n xs(2) [OF n] \<open>?zs \<noteq> []\<close> by (simp add: hd_conv_nth d del: concat.simps)
  qed
  ultimately show ?case by simp
qed (simp add: space_ok_def)

lemma visit_chain:
  "chain f zs \<Longrightarrow> zs \<noteq> [] \<Longrightarrow> (\<And>off. space_next space off = f off) \<Longrightarrow>
   visit fuel space (Some (hd zs)) = (if length zs \<le> fuel then Some zs else None)"
proof (induction f zs arbitrary: fuel rule: chain.induct)
  case (2 f x)
  then show ?case by (cases fuel) simp_all
next
  case (3 f x y zs)
  then show ?case by (cases fuel) auto
qed simp

lemma chain_rev: "chain f zs \<Longrightarrow> chain (\<lambda>x. map_option rev (f (rev x))) (map rev zs)"
  by (induction f zs rule: chain.induct) auto

lemma space_begin_lower: "space_begin space = Some (map fst space)"
  by (auto simp: space_begin_def lower_bound_def intro: nth_equalityI)


lemma dim_indices_set:
  assumes "0 < s"
  shows "set (dim_indices (l, u, s)) = {x. l \<le> x \<and> x < u \<and> s dvd x - l}"
proof (intro set_eqI iffI)
  fix x assume "x \<in> set (dim_indices (l, u, s))"
  then obtain k where k: "k < nat ((u - l + s - 1) div s)" "x = l + int k * s" by (auto simp: dim_indices_def)
  then have "int k + 1 \<le> (u - l + s - 1) div s" by linarith
  then have "(int k + 1) * s \<le> u - l + s - 1" by (simp only: le_div_iff [OF assms])
  with k(2) assms show "x \<in> {x. l \<le> x \<and> x < u \<and> s dvd x - l}" by (simp add: algebra_simps)
next
  fix x assume "x \<in> {x. l \<le> x \<and> x < u \<and> s dvd x - l}"
  then have x: "l \<le> x" "x < u" "s dvd x - l" by simp_all
  then obtain c where "x - l = s * c" by (elim dvdE)
  then have c: "x = l + s * c" "0 \<le> s * c" "l + s * c < u" using x by simp_all
  then have "0 \<le> c" using assms by (simp add: zero_le_mult_iff)
  moreover have "(c + 1) * s \<le> u - l + s - 1" using c(3) by (simp add: algebra_simps)
  then have "c + 1 \<le> (u - l + s - 1) div s" using le_div_iff [OF assms] by simp
  ultimately show "x \<in> set (dim_indices (l, u, s))"
    using c(1) by (auto simp: dim_indices_def image_iff intro!: bexI [of _ "nat c"])
qed

text \<open>An empty dimension is not noticed: its lower bound is visited.\<close>

lemma empty_space_visited:
  "for_each_offset fuel space = Some offs \<Longrightarrow> offs \<noteq> [] \<and> hd offs = map (lower_bound space) [0..<length space]"
  by (cases fuel) (auto simp: for_each_offset_def space_begin_def)

section \<open>Linear indices\<close>

text \<open>\<open>linearize\<close> adds the new index to the old one, so it works on extents that are one too large.\<close>

lemma linearize_extents:
  "length off = length space \<Longrightarrow>
   linearize off space = linearize_values (map (\<lambda>dim. extent space dim + 1) [0..<length space]) off 0"
proof -
  have "foldl (\<lambda>acc dim. acc + (f dim * acc + g dim)) a dims =
      linearize_values (map (\<lambda>dim. f dim + 1) dims) (map g dims) a" for f g :: "nat \<Rightarrow> int" and a dims
    by (induction dims arbitrary: a) (simp_all add: algebra_simps)
  from this [of "extent space" "\<lambda>dim. off ! dim" 0 "[0..<length space]"]
  show "length off = length space \<Longrightarrow> ?thesis" using map_nth [of off] by (simp add: linearize_def)
qed

lemma linearize_out_of_bounds:
  "linearize [1, 1] (make_index_space_from_shape [2, 2]) = 4"
  by code_simp

section \<open>Elements of multi-dimensional arrays\<close>

definition array_ok :: "'a multi_array \<Rightarrow> bool" where
  "array_ok a \<longleftrightarrow> int (length (array_data a)) = prod_list (array_shape a)"

lemma foldl_prod: "foldl (*) (x :: int) shape = x * prod_list shape"
  by (induction shape arbitrary: x) (simp_all add: mult.assoc)

lemma linear_index_inside:
  assumes "array_ok a" "within (array_shape a) is"
  shows "0 \<le> linearize_values (array_shape a) is 0" "linearize_values (array_shape a) is 0 < int (length (array_data a))"
  using linearize_values_bounds [OF assms(2), of 0] assms(1) by (simp_all add: array_ok_def)

text \<open>A multi-dimensional array is a map from the indices within its shape: it is constructed with the same
  value everywhere, an assignment to an element changes this element and no other, and no access within the
  shape leaves the underlying vector.\<close>
lemma multi_array_map:
  assumes "array_ok a" "within (array_shape a) is" "within (array_shape a) js"
  shows "\<exists>a'. multi_array_set a is x = Inr a' \<and> array_ok a' \<and> array_shape a' = array_shape a \<and>
    multi_array_at a' js = (if js = is then Inr x else multi_array_at a js) \<and>
    rbind (make_multi_array (array_shape a) x) (\<lambda>b. multi_array_at b js) = Inr x"
proof -
  let ?i = "linearize_values (array_shape a) is 0" and ?j = "linearize_values (array_shape a) js 0"
  let ?a = "a\<lparr>array_data := (array_data a)[nat ?i := x]\<rparr>"
  note i = linear_index_inside [OF assms(1,2)] and j = linear_index_inside [OF assms(1,3)]
  have "nat ?i = nat ?j \<longleftrightarrow> js = is"
    using i j linearize_values_inj [OF assms(2,3), of 0 0] by (auto simp: eq_nat_nat_iff)
  then have "multi_array_at ?a js = (if js = is then Inr x else multi_array_at a js)"
    using i j by (auto simp: multi_array_at_def Let_def nth_list_update)
  moreover have "rbind (make_multi_array (array_shape a) x) (\<lambda>b. multi_array_at b js) = Inr x"
    using j assms(1) linearize_values_bounds [OF assms(3), of 0]
    by (simp add: multi_array_at_def make_multi_array_def Let_def foldl_prod array_ok_def)
  moreover have "array_ok ?a" using assms(1) by (simp add: array_ok_def)
  moreover have "multi_array_set a is x = Inr ?a" using i by (simp add: multi_array_set_def Let_def)
  ultimately show ?thesis by simp
qed

lemma multi_array_map_example:
  "\<exists>a'. multi_array_set \<lparr>array_data = replicate 6 (0 :: int), array_shape = [2, 3]\<rparr> [1, 0] 7 = Inr a' \<and>
     multi_array_at a' [1, 0] = Inr 7"
proof -
  let ?a = "\<lparr>array_data = replicate 6 (0 :: int), array_shape = [2, 3]\<rparr>"
  have "array_ok ?a" "within (array_shape ?a) [1, 0]" by (simp_all add: array_ok_def)
  from multi_array_map [OF this this(2), of 7] show ?thesis by auto
qed


end
