(* ===== verification/DenseHashTable.thy ===== *)
theory DenseHashTable
  imports Prelude "HOL-Library.Multiset"
begin

text \<open>
  The hash table of the address space, \<open>util::detail::dense_hash_table\<close> (\<open>util/include/qubus/util/detail\<close>)
  with the prime number policy: open addressing, elements ordered by the distance from their desired slot
  (robin hood hashing).  An entry is its distance and, if it holds one, its element; the slots beyond
  the last bucket take the elements that are pushed over the end, and the last entry, with the distance 0, marks
  the end.  Positions are indices of the list of entries.  The hash function of the keys is the
  parameter \<open>hash\<close>, keys are compared by equality.  Allocation of more than \<open>max_entries\<close> entries fails with
  \<open>Bad_alloc\<close>.  The maximal load factor is its default 0.5, and counts are below \<open>2^52\<close>, so that the comparison of the
  load in double precision is exact.
\<close>

section \<open>Prime numbers\<close>

definition prime_list :: "nat list" where
  "prime_list =
   [
    2, 3, 5, 7, 11, 13, 17, 23, 29, 37, 47, 59, 73, 97, 127, 151, 197, 251, 313, 397, 499, 631, 797, 1009,
    1259, 1597, 2011, 2539, 3203, 4027, 5087, 6421, 8089, 10193, 12853, 16193, 20399, 25717, 32401, 40823,
    51437, 64811, 81649, 102877, 129607, 163307, 205759, 259229, 326617, 411527, 518509, 653267, 823117,
    1037059, 1306601, 1646237, 2074129, 2613229, 3292489, 4148279, 5226491, 6584983, 8296553, 10453007,
    13169977, 16593127, 20906033, 26339969, 33186281, 41812097, 52679969, 66372617, 83624237, 105359939,
    132745199, 167248483, 210719881, 265490441, 334496971, 421439783, 530980861, 668993977, 842879579,
    1061961721, 1337987929, 1685759167, 2123923447, 2675975881, 3371518343, 4247846927, 5351951779,
    6743036717, 8495693897, 10703903591, 13486073473, 16991387857, 21407807219, 26972146961, 33982775741,
    42815614441, 53944293929, 67965551447, 85631228929, 107888587883, 135931102921, 171262457903,
    215777175787, 271862205833, 342524915839, 431554351609, 543724411781, 685049831731, 863108703229,
    1087448823553, 1370099663459, 1726217406467, 2174897647073, 2740199326961, 3452434812973, 4349795294267,
    5480398654009, 6904869625999, 8699590588571, 10960797308051, 13809739252051, 17399181177241,
    21921594616111, 27619478504183, 34798362354533, 43843189232363, 55238957008387, 69596724709081,
    87686378464759, 110477914016779, 139193449418173, 175372756929481, 220955828033581, 278386898836457,
    350745513859007, 441911656067171, 556773797672909, 701491027718027, 883823312134381, 1113547595345903,
    1402982055436147, 1767646624268779, 2227095190691797, 2805964110872297, 3535293248537579,
    4454190381383713, 5611928221744609, 7070586497075177, 8908380762767489, 11223856443489329,
    14141172994150357, 17816761525534927, 22447712886978529, 28282345988300791, 35633523051069991,
    44895425773957261, 56564691976601587, 71267046102139967, 89790851547914507, 113129383953203213,
    142534092204280003, 179581703095829107, 226258767906406483, 285068184408560057, 359163406191658253,
    452517535812813007, 570136368817120201, 718326812383316683, 905035071625626043, 1140272737634240411,
    1436653624766633509, 1810070143251252131, 2280545475268481167, 2873307249533267101, 3620140286502504283,
    4561090950536962147, 5746614499066534157, 7240280573005008577, 9122181901073924329, 11493228998133068689,
    14480561146010017169, 18446744073709551557]"

text \<open>The divisors of the functions that the table \<open>mod_functions\<close> lists, 0 for \<open>mod0\<close>, which answers 0.\<close>

definition mod_functions :: "nat list" where
  "mod_functions =
   [
    0, 2, 3, 5, 7, 11, 13, 17, 23, 29, 37, 47, 59, 73, 97, 127, 151, 197, 251, 313, 397, 499, 631, 797, 1009,
    1259, 1597, 2011, 2539, 3203, 4027, 5087, 6421, 8089, 10193, 12853, 16193, 20399, 25717, 32401, 40823,
    51437, 64811, 81649, 102877, 129607, 163307, 205759, 259229, 326617, 411527, 518509, 653267, 823117,
    1037059, 1306601, 1646237, 2074129, 2613229, 3292489, 4148279, 5226491, 6584983, 8296553, 10453007,
    13169977, 16593127, 20906033, 26339969, 33186281, 41812097, 52679969, 66372617, 83624237, 105359939,
    132745199, 167248483, 210719881, 265490441, 334496971, 421439783, 530980861, 668993977, 842879579,
    1061961721, 1337987929, 1685759167, 2123923447, 2675975881, 3371518343, 4247846927, 5351951779,
    6743036717, 8495693897, 10703903591, 13486073473, 16991387857, 21407807219, 26972146961, 33982775741,
    42815614441, 53944293929, 67965551447, 85631228929, 107888587883, 135931102921, 171262457903,
    215777175787, 271862205833, 342524915839, 431554351609, 543724411781, 685049831731, 863108703229,
    1087448823553, 1370099663459, 1726217406467, 2174897647073, 2740199326961, 3452434812973, 4349795294267,
    5480398654009, 6904869625999, 8699590588571, 10960797308051, 13809739252051, 17399181177241,
    21921594616111, 27619478504183, 34798362354533, 43843189232363, 55238957008387, 69596724709081,
    87686378464759, 110477914016779, 139193449418173, 175372756929481, 220955828033581, 278386898836457,
    350745513859007, 441911656067171, 556773797672909, 701491027718027, 883823312134381, 1113547595345903,
    1402982055436147, 1767646624268779, 2227095190691797, 2805964110872297, 3535293248537579,
    4454190381383713, 5611928221744609, 7070586497075177, 8908380762767489, 11223856443489329,
    14141172994150357, 17816761525534927, 22447712886978529, 28282345988300791, 35633523051069991,
    44895425773957261, 56564691976601587, 71267046102139967, 89790851547914507, 113129383953203213,
    142534092204280003, 179581703095829107, 226258767906406483, 285068184408560057, 359163406191658253,
    452517535812813007, 570136368817120201, 718326812383316683, 905035071625626043, 1140272737634240411,
    1436653624766633509, 1810070143251252131, 2280545475268481167, 2873307249533267101, 3620140286502504283,
    4561090950536962147, 5746614499066534157, 7240280573005008577, 9122181901073924329, 11493228998133068689,
    14480561146010017169, 18446744073709551557]"

definition next_size_over :: "nat \<Rightarrow> nat \<times> nat" where
  "next_size_over n =
     (let found = length (takeWhile (\<lambda>p. p < n) (butlast prime_list)) in (prime_list ! found, 1 + found))"

definition mod_function :: "nat \<Rightarrow> nat \<Rightarrow> nat" where
  "mod_function divisor h = (if divisor = 0 then 0 else h mod divisor)"

definition log2_table :: "nat list" where
  "log2_table =
     [63, 0, 58, 1, 59, 47, 53, 2, 60, 39, 48, 27, 54, 33, 42, 3, 61, 51, 37, 40, 49, 18,
      28, 20, 55, 30, 34, 11, 43, 14, 22, 4, 62, 57, 46, 52, 38, 26, 32, 41, 50, 36, 17, 19,
      29, 10, 13, 21, 56, 45, 25, 31, 35, 16, 9, 12, 44, 24, 15, 8, 23, 7, 6, 5]"

definition fill_below :: "64 word \<Rightarrow> 64 word" where
  "fill_below value0 =
     (let value1 = or value0 (drop_bit 1 value0); value2 = or value1 (drop_bit 2 value1);
          value3 = or value2 (drop_bit 4 value2); value4 = or value3 (drop_bit 8 value3);
          value5 = or value4 (drop_bit 16 value4)
      in or value5 (drop_bit 32 value5))"

definition log2 :: "64 word \<Rightarrow> nat" where
  "log2 value0 =
     (let v = fill_below value0
      in log2_table ! unat (drop_bit 58 ((v - drop_bit 1 v) * 0x07EDD5E59A4E28C2)))"

definition min_lookups :: nat where
  "min_lookups = 4"

definition compute_max_lookups :: "nat \<Rightarrow> nat" where
  "compute_max_lookups num_buckets = max min_lookups (log2 (of_nat num_buckets))"

section \<open>The table\<close>

record ('k, 'v) hash_entry =
  distance_from_desired :: int
  content :: "('k \<times> 'v) option"

record ('k, 'v) hash_table =
  entries :: "('k, 'v) hash_entry list"
  num_slots_minus_one :: nat
  prime_index :: nat
  max_lookups :: nat
  num_elements :: nat

definition empty_entry :: "('k, 'v) hash_entry" where
  "empty_entry = \<lparr>distance_from_desired = -1, content = None\<rparr>"

definition special_end_entry :: "('k, 'v) hash_entry" where
  "special_end_entry = \<lparr>distance_from_desired = 0, content = None\<rparr>"

definition filled_entry :: "int \<Rightarrow> 'k \<times> 'v \<Rightarrow> ('k, 'v) hash_entry" where
  "filled_entry distance x = \<lparr>distance_from_desired = distance, content = Some x\<rparr>"

definition is_empty :: "('k, 'v) hash_entry \<Rightarrow> bool" where
  "is_empty e \<longleftrightarrow> distance_from_desired e < 0"

definition is_at_desired_position :: "('k, 'v) hash_entry \<Rightarrow> bool" where
  "is_at_desired_position e \<longleftrightarrow> distance_from_desired e \<le> 0"

definition value_of :: "('k, 'v) hash_entry \<Rightarrow> ('k \<times> 'v) result" where
  "value_of e = (case content e of None \<Rightarrow> Inl Undefined_behaviour | Some x \<Rightarrow> Inr x)"

definition fresh_entries :: "nat \<Rightarrow> ('k, 'v) hash_entry list" where
  "fresh_entries n = replicate (n - 1) empty_entry @ [special_end_entry]"

definition default_table :: "('k, 'v) hash_table" where
  "default_table = \<lparr>entries = fresh_entries min_lookups, num_slots_minus_one = 0, prime_index = 0,
     max_lookups = min_lookups - 1, num_elements = 0\<rparr>"

definition bucket_count :: "('k, 'v) hash_table \<Rightarrow> nat" where
  "bucket_count t = num_slots_minus_one t + 1"

definition index_for_hash :: "nat \<Rightarrow> nat \<Rightarrow> nat" where
  "index_for_hash p h = mod_function (mod_functions ! p) h"

definition end_position :: "('k, 'v) hash_table \<Rightarrow> nat" where
  "end_position t = num_slots_minus_one t + max_lookups t"

section \<open>Lookup\<close>

text \<open>The loop that \<open>find\<close> and \<open>emplace\<close> share: it stops at an element with the key or at the first entry that is nearer to
  its desired position.\<close>

datatype probe_result = Found nat | Stopped nat int

function probe :: "('k, 'v) hash_entry list \<Rightarrow> 'k \<Rightarrow> nat \<Rightarrow> int \<Rightarrow> probe_result result" where
  "probe es key it distance =
     (if length es \<le> it then Inl Undefined_behaviour
      else if distance_from_desired (es ! it) \<ge> distance
      then rbind (value_of (es ! it)) (\<lambda>x.
        if key = fst x then Inr (Found it) else probe es key (it + 1) (distance + 1))
      else Inr (Stopped it distance))"
  by pat_completeness auto
termination by (relation "measure (\<lambda>(es, key, it, distance). length es - it)") auto

declare probe.simps [simp del]

definition find_key :: "('k \<Rightarrow> nat) \<Rightarrow> ('k, 'v) hash_table \<Rightarrow> 'k \<Rightarrow> nat result" where
  "find_key hash t key = rbind (probe (entries t) key (index_for_hash (prime_index t) (hash key)) 0)
     (\<lambda>r. case r of Found it \<Rightarrow> Inr it | Stopped _ _ \<Rightarrow> Inr (end_position t))"

section \<open>Insertion\<close>

datatype ('k, 'v) shift_result =
    Placed "('k, 'v) hash_entry list"
  | Lookups_exhausted "('k, 'v) hash_entry list" "'k \<times> 'v"

function shift_in ::
  "nat \<Rightarrow> ('k, 'v) hash_entry list \<Rightarrow> nat \<Rightarrow> int \<Rightarrow> 'k \<times> 'v \<Rightarrow> ('k, 'v) shift_result result" where
  "shift_in ml es it distance to_insert =
     (if length es \<le> it then Inl Undefined_behaviour
      else if is_empty (es ! it) then Inr (Placed (es[it := filled_entry distance to_insert]))
      else if distance_from_desired (es ! it) < distance
      then rbind (value_of (es ! it)) (\<lambda>x.
        shift_in ml (es[it := filled_entry distance to_insert]) (it + 1) (distance_from_desired (es ! it) + 1) x)
      else if distance + 1 = int ml then Inr (Lookups_exhausted es to_insert)
      else shift_in ml es (it + 1) (distance + 1) to_insert)"
  by pat_completeness auto
termination by (relation "measure (\<lambda>(ml, es, it, distance, x). length es - it)") auto

declare shift_in.simps [simp del]

text \<open>\<open>rehash\<close>, \<open>grow\<close> and \<open>emplace\<close> call each other; \<open>emp\<close> stands for the inner calls of \<open>emplace\<close>.\<close>

type_synonym ('k, 'v) emplacer =
  "('k, 'v) hash_table \<Rightarrow> 'k \<times> 'v \<Rightarrow> (('k, 'v) hash_table \<times> nat \<times> bool) result"

fun emplace_all :: "('k, 'v) emplacer \<Rightarrow> ('k, 'v) hash_table \<Rightarrow> ('k \<times> 'v) list \<Rightarrow> ('k, 'v) hash_table result" where
  "emplace_all emp t [] = Inr t"
| "emplace_all emp t (x # xs) = rbind (emp t x) (\<lambda>r. emplace_all emp (fst r) xs)"

definition elements :: "('k, 'v) hash_entry list \<Rightarrow> ('k \<times> 'v) list" where
  "elements es = List.map_filter content es"

definition rehash ::
  "('k, 'v) emplacer \<Rightarrow> nat \<Rightarrow> ('k, 'v) hash_table \<Rightarrow> nat \<Rightarrow> ('k, 'v) hash_table result" where
  "rehash emp max_entries t n =
     (let num_buckets = max n (2 * num_elements t)
      in if num_buckets = 0 then Inr (default_table\<lparr>num_elements := num_elements t\<rparr>)
         else case next_size_over num_buckets of (num_buckets, new_prime_index) \<Rightarrow>
           if num_buckets = bucket_count t then Inr t
           else let new_max_lookups = compute_max_lookups num_buckets
                in if max_entries < num_buckets + new_max_lookups then Inl Bad_alloc
                   else emplace_all emp
                     \<lparr>entries = fresh_entries (num_buckets + new_max_lookups), num_slots_minus_one = num_buckets - 1,
                      prime_index = new_prime_index, max_lookups = new_max_lookups, num_elements = 0\<rparr>
                     (elements (take (bucket_count t - 1 + max_lookups t) (entries t))))"

definition grow :: "('k, 'v) emplacer \<Rightarrow> nat \<Rightarrow> ('k, 'v) hash_table \<Rightarrow> ('k, 'v) hash_table result" where
  "grow emp max_entries t = rehash emp max_entries t (max 4 (2 * bucket_count t))"

definition emplace_new_key ::
  "('k, 'v) emplacer \<Rightarrow> nat \<Rightarrow> ('k, 'v) hash_table \<Rightarrow> int \<Rightarrow> nat \<Rightarrow> 'k \<times> 'v \<Rightarrow>
     (('k, 'v) hash_table \<times> nat \<times> bool) result" where
  "emplace_new_key emp max_entries t distance it x =
     (let e = entries t ! it
      in if num_slots_minus_one t = 0 \<or> distance = int (max_lookups t) \<or> bucket_count t < 2 * (num_elements t + 1)
         then rbind (grow emp max_entries t) (\<lambda>t'. emp t' x)
         else if is_empty e
         then Inr (t\<lparr>entries := (entries t)[it := filled_entry distance x], num_elements := num_elements t + 1\<rparr>, it, True)
         else rbind (value_of e) (\<lambda>y.
           rbind (shift_in (max_lookups t) ((entries t)[it := filled_entry distance x]) (it + 1)
             (distance_from_desired e + 1) y) (\<lambda>r. case r of
             Placed es \<Rightarrow> Inr (t\<lparr>entries := es, num_elements := num_elements t + 1\<rparr>, it, True)
           | Lookups_exhausted es z \<Rightarrow>
               rbind (value_of (es ! it)) (\<lambda>w.
                 rbind (grow emp max_entries (t\<lparr>entries := es[it := (es ! it)\<lparr>content := Some z\<rparr>]\<rparr>)) (\<lambda>t'. emp t' w)))))"

definition emplace_body :: "('k \<Rightarrow> nat) \<Rightarrow> ('k, 'v) emplacer \<Rightarrow> nat \<Rightarrow> ('k, 'v) emplacer" where
  "emplace_body hash emp max_entries t x =
     rbind (probe (entries t) (fst x) (index_for_hash (prime_index t) (hash (fst x))) 0) (\<lambda>r. case r of
       Found it \<Rightarrow> Inr (t, it, False)
     | Stopped it distance \<Rightarrow> emplace_new_key emp max_entries t distance it x)"

primrec emplace_fuel :: "('k \<Rightarrow> nat) \<Rightarrow> nat \<Rightarrow> nat \<Rightarrow> ('k, 'v) emplacer" where
  "emplace_fuel hash max_entries 0 = (\<lambda>t x. Inl Diverged)"
| "emplace_fuel hash max_entries (Suc fuel) = emplace_body hash (emplace_fuel hash max_entries fuel) max_entries"

text \<open>Every nested call works on a table of the next prime number or a later one, so there are at most as
  many of them as there are prime numbers in the list.\<close>

definition emplace :: "('k \<Rightarrow> nat) \<Rightarrow> nat \<Rightarrow> ('k, 'v) emplacer" where
  "emplace hash max_entries = emplace_fuel hash max_entries (Suc (length prime_list))"

section \<open>Removal and iteration\<close>

function shift_back :: "('k, 'v) hash_entry list \<Rightarrow> nat \<Rightarrow> ('k, 'v) hash_entry list result" where
  "shift_back es current =
     (if length es \<le> current + 1 then Inl Undefined_behaviour
      else if is_at_desired_position (es ! (current + 1)) then Inr es
      else rbind (value_of (es ! (current + 1))) (\<lambda>x.
        shift_back (es[current := filled_entry (distance_from_desired (es ! (current + 1)) - 1) x,
          current + 1 := empty_entry]) (current + 1)))"
  by pat_completeness auto
termination by (relation "measure (\<lambda>(es, current). length es - current)") auto

declare shift_back.simps [simp del]

definition erase_at :: "('k, 'v) hash_table \<Rightarrow> nat \<Rightarrow> ('k, 'v) hash_table result" where
  "erase_at t it =
     (if length (entries t) \<le> it then Inl Undefined_behaviour
      else rbind (value_of (entries t ! it)) (\<lambda>_.
        rbind (shift_back ((entries t)[it := empty_entry]) it) (\<lambda>es.
          Inr (t\<lparr>entries := es, num_elements := num_elements t - 1\<rparr>))))"

definition erase_key :: "('k \<Rightarrow> nat) \<Rightarrow> ('k, 'v) hash_table \<Rightarrow> 'k \<Rightarrow> (('k, 'v) hash_table \<times> nat) result" where
  "erase_key hash t key = rbind (find_key hash t key) (\<lambda>found.
     if found = end_position t then Inr (t, 0) else rbind (erase_at t found) (\<lambda>t'. Inr (t', 1)))"

definition clear :: "('k, 'v) hash_table \<Rightarrow> ('k, 'v) hash_table" where
  "clear t = t\<lparr>entries := map (\<lambda>i. if i < end_position t \<and> \<not> is_empty (entries t ! i) then empty_entry else entries t ! i)
     [0..<length (entries t)], num_elements := 0\<rparr>"

text \<open>The first position from \<open>it\<close> on that is not empty: \<open>begin\<close> and \<open>operator++\<close>.\<close>

function skip_empty :: "('k, 'v) hash_entry list \<Rightarrow> nat \<Rightarrow> nat result" where
  "skip_empty es it =
     (if length es \<le> it then Inl Undefined_behaviour
      else if is_empty (es ! it) then skip_empty es (it + 1) else Inr it)"
  by pat_completeness auto
termination by (relation "measure (\<lambda>(es, it). length es - it)") auto

declare skip_empty.simps [simp del]

definition begin_position :: "('k, 'v) hash_table \<Rightarrow> nat result" where
  "begin_position t = skip_empty (entries t) 0"

definition next_position :: "('k, 'v) hash_table \<Rightarrow> nat \<Rightarrow> nat result" where
  "next_position t it = skip_empty (entries t) (it + 1)"

lemma skip_empty_forward: "skip_empty es i = Inr j \<Longrightarrow> i \<le> j"
  by (induction es i rule: skip_empty.induct) (subst (asm) skip_empty.simps, fastforce split: if_splits)

text \<open>A loop over the table, \<open>for (auto& x : table)\<close>, whose body does not change it.\<close>

function iterate :: "('k, 'v) hash_entry list \<Rightarrow> nat \<Rightarrow> nat \<Rightarrow> ('k \<times> 'v) list result" where
  "iterate es last_it it =
     (if it = last_it then Inr []
      else if length es \<le> it then Inl Undefined_behaviour
      else rbind (value_of (es ! it)) (\<lambda>x. rbind (skip_empty es (it + 1)) (\<lambda>it'.
        rbind (iterate es last_it it') (\<lambda>xs. Inr (x # xs)))))"
  by pat_completeness auto
termination
  by (relation "measure (\<lambda>(es, last_it, it). length es - it)") (auto dest!: skip_empty_forward)

declare iterate.simps [simp del]

definition table_iterate :: "('k, 'v) hash_table \<Rightarrow> ('k \<times> 'v) list result" where
  "table_iterate t = rbind (begin_position t) (iterate (entries t) (end_position t))"

end
