(* ===== verification/HashTablePrimes.thy ===== *)
theory HashTablePrimes
  imports DenseHashTable
begin

text \<open>
  The numbers of the hash table: the logarithm that bounds the distances and the list of prime numbers that the
  sizes are taken from.
\<close>

section \<open>The logarithm\<close>

lemma fill_step:
  fixes v w :: "64 word"
  assumes "\<And>i. bit v i \<longleftrightarrow> (\<exists>k < m. bit w (i + k))"
  shows "bit (or v (drop_bit m v)) i \<longleftrightarrow> (\<exists>k < 2 * m. bit w (i + k))"
proof -
  have "(\<exists>k < 2 * m. bit w (i + k)) \<longleftrightarrow> (\<exists>k < m. bit w (i + k)) \<or> (\<exists>k < m. bit w (m + i + k))"
  proof
    assume "\<exists>k < 2 * m. bit w (i + k)"
    then obtain k where k: "k < 2 * m" "bit w (i + k)" by blast
    then have "k < m \<or> k - m < m \<and> bit w (m + i + (k - m))" by (auto simp: add.commute add.left_commute)
    then show "(\<exists>k < m. bit w (i + k)) \<or> (\<exists>k < m. bit w (m + i + k))" using k by blast
  next
    assume "(\<exists>k < m. bit w (i + k)) \<or> (\<exists>k < m. bit w (m + i + k))"
    then show "\<exists>k < 2 * m. bit w (i + k)"
    proof
      assume "\<exists>k < m. bit w (m + i + k)"
      then obtain k where "k < m" "bit w (i + (m + k))" by (auto simp: ac_simps)
      then show ?thesis by (intro exI [of _ "m + k"]) simp
    next
      assume "\<exists>k < m. bit w (i + k)"
      then obtain k where "k < m" "bit w (i + k)" by blast
      then show ?thesis by (intro exI [of _ k]) simp
    qed
  qed
  then show ?thesis by (simp add: bit_or_iff bit_drop_bit_eq assms)
qed

lemma bit_fill_below: "bit (fill_below w) i \<longleftrightarrow> (\<exists>k < 64. bit w (i + k))"
proof -
  have "bit w i \<longleftrightarrow> (\<exists>k < 1. bit w (i + k))" for i by simp
  note s1 = fill_step [of w 1 w, OF this]
  note s2 = fill_step [OF s1]
  note s3 = fill_step [OF s2]
  note s4 = fill_step [OF s3]
  note s5 = fill_step [OF s4]
  note s6 = fill_step [OF s5]
  show ?thesis using s6 [of i] by (simp add: fill_below_def Let_def)
qed

lemma highest_bit:
  assumes "w \<noteq> (0 :: 64 word)"
  obtains n where "n < 64" "bit w n" "\<And>m. bit w m \<Longrightarrow> m \<le> n"
proof -
  have fin: "finite {m. bit w m}" by (rule finite_subset [of _ "{..<64}"]) (auto dest: bit_imp_le_length)
  have "{m. bit w m} \<noteq> {}" using assms by (auto simp: bit_eq_iff)
  then have "bit w (Max {m. bit w m})" using Max_in [OF fin] by blast
  moreover have "m \<le> Max {m. bit w m}" if "bit w m" for m using Max_ge [OF fin] that by blast
  ultimately show thesis using that bit_imp_le_length [of w] by fastforce
qed

lemma fill_below_highest:
  assumes "n < 64" "bit w n" "\<And>m. bit w m \<Longrightarrow> m \<le> n"
  shows "fill_below w = mask (Suc n)"
proof (rule bit_eqI)
  fix i
  have "bit (fill_below w) i \<longleftrightarrow> i \<le> n"
  proof
    assume "i \<le> n"
    then show "bit (fill_below w) i" using assms(1,2) by (auto simp: bit_fill_below intro!: exI [of _ "n - i"])
  qed (auto simp: bit_fill_below dest: assms(3))
  then show "bit (fill_below w) i \<longleftrightarrow> bit (mask (Suc n) :: 64 word) i" using assms(1) by (auto simp: bit_mask_iff)
qed

lemma log2_powers: "list_all (\<lambda>n. log2_table ! unat (drop_bit 58 ((push_bit n 1 :: 64 word) * 0x07EDD5E59A4E28C2)) = n) [0..<64]"
  by code_simp

lemma mask_difference: "mask (Suc n) - drop_bit 1 (mask (Suc n)) = (push_bit n 1 :: 64 word)" if "n < 64"
proof -
  have "drop_bit 1 (mask (Suc n)) = (mask n :: 64 word)"
    using that by (intro bit_eqI) (auto simp: bit_drop_bit_eq bit_mask_iff)
  then show ?thesis by (simp add: mask_eq_exp_minus_1 push_bit_eq_mult)
qed

lemma log2_highest:
  assumes "n < 64" "bit w n" "\<And>m. bit w m \<Longrightarrow> m \<le> n"
  shows "log2 w = n"
proof -
  have "log2_table ! unat (drop_bit 58 ((push_bit n 1 :: 64 word) * 0x07EDD5E59A4E28C2)) = n"
    using log2_powers assms(1) unfolding list_all_iff by simp
  moreover have "fill_below w = mask (Suc n)" by (rule fill_below_highest) (use assms in auto)
  ultimately show ?thesis by (simp only: log2_def Let_def mask_difference [OF assms(1)])
qed

lemma log2_floor_bound:
  assumes "w \<noteq> 0"
  shows "2 ^ log2 w \<le> unat w" "unat w < 2 ^ Suc (log2 w)"
proof -
  obtain n where n: "n < 64" "bit w n" "\<And>m. bit w m \<Longrightarrow> m \<le> n" using highest_bit [OF assms] by blast
  have "log2 w = n" by (rule log2_highest) (use n in auto)
  moreover have "bit (unat w) n" using n by (simp add: bit_unsigned_iff)
  then have "odd (unat w div 2 ^ n)" by (simp add: bit_iff_odd)
  then have "2 ^ n \<le> unat w" by (metis div_less even_zero not_le)
  moreover have "take_bit (Suc n) w = w" using n(3) by (intro bit_eqI) (auto simp: bit_take_bit_iff less_Suc_eq_le)
  then have "unat w = take_bit (Suc n) (unat w)" by (metis unsigned_take_bit_eq)
  then have "unat w < 2 ^ Suc n" by (metis take_bit_nat_less_exp)
  ultimately show "2 ^ log2 w \<le> unat w" "unat w < 2 ^ Suc (log2 w)" by simp_all
qed

text \<open>The logarithm by multiplication and table lookup is the number of the highest bit, for every word but zero.\<close>
lemma log2_floor:
  assumes "w \<noteq> 0"
  shows "2 ^ log2 w \<le> unat w \<and> unat w < 2 ^ Suc (log2 w)"
  using log2_floor_bound [OF assms] by simp

lemma log2_floor_example: "2 ^ log2 1597 \<le> unat (1597 :: 64 word) \<and> unat (1597 :: 64 word) < 2 ^ Suc (log2 1597)"
  by (rule log2_floor) simp

lemma log2_bound: "log2 w \<le> 63"
proof (cases "w = 0")
  case True
  then show ?thesis by (simp add: log2_def fill_below_def log2_table_def)
next
  case False
  then obtain n where "n < 64" "bit w n" "\<And>m. bit w m \<Longrightarrow> m \<le> n" using highest_bit by blast
  then show ?thesis using log2_highest by fastforce
qed

section \<open>The prime numbers\<close>

lemma mod_functions_primes: "mod_functions = 0 # prime_list"
  by (simp add: mod_functions_def prime_list_def)

lemma prime_list_length: "length prime_list = 186"
  by (simp add: prime_list_def)

lemma prime_list_sorted: "sorted_wrt (<) prime_list"
proof -
  have "successively (<) prime_list" by (simp add: prime_list_def)
  then show ?thesis by (simp add: successively_conv_sorted_wrt)
qed

lemma prime_list_last: "last prime_list = 18446744073709551557"
  unfolding prime_list_def last_ConsR [OF list.distinct(2)] by simp

lemma prime_list_positive: "p \<in> set prime_list \<Longrightarrow> 2 \<le> p"
proof -
  have "list_all ((\<le>) 2) prime_list" by (simp add: prime_list_def)
  then show "p \<in> set prime_list \<Longrightarrow> 2 \<le> p" by (simp add: list_all_iff)
qed

lemma next_size_over_entry:
  assumes "next_size_over n = (b, p)"
  shows "1 \<le> p" "p \<le> length prime_list" "b = prime_list ! (p - 1)" "b \<in> set prime_list"
    "n \<le> b \<or> b = 18446744073709551557" 
proof -
  let ?f = "length (takeWhile (\<lambda>p. p < n) (butlast prime_list))"
  have b: "b = prime_list ! ?f" "p = 1 + ?f" using assms by (simp_all add: next_size_over_def Let_def)
  have f: "?f \<le> 185" using length_takeWhile_le [of "\<lambda>p. p < n" "butlast prime_list"] by (simp add: prime_list_length)
  then show "1 \<le> p" "p \<le> length prime_list" "b = prime_list ! (p - 1)" "b \<in> set prime_list"
    using b by (simp_all add: prime_list_length)
  show "n \<le> b \<or> b = 18446744073709551557"
  proof (cases "?f < 185")
    case True
    then have "\<not> butlast prime_list ! ?f < n" by (intro nth_length_takeWhile) (simp add: prime_list_length)
    then show ?thesis using b True by (simp add: nth_butlast prime_list_length)
  next
    case False
    then have "?f = 185" using f by simp
    moreover have "last prime_list = prime_list ! 185" by (subst last_conv_nth) (simp_all add: prime_list_length flip: length_0_conv)
    ultimately show ?thesis using b prime_list_last by simp
  qed
qed

lemma prime_list_index:
  assumes "prime_list ! i < prime_list ! j" "i < length prime_list" "j < length prime_list"
  shows "i < j"
proof (rule ccontr)
  assume "\<not> i < j"
  then have "j < i \<or> j = i" by linarith
  then show False using sorted_wrt_nth_less [OF prime_list_sorted, of j i] assms by auto
qed

lemma prime_list_last_nth: "prime_list ! 185 = 18446744073709551557"
proof -
  have "last prime_list = prime_list ! 185" by (subst last_conv_nth) (simp_all add: prime_list_length flip: length_0_conv)
  then show ?thesis by (simp add: prime_list_last)
qed

end
