(* ===== verification/HashTableMap.thy ===== *)
theory HashTableMap
  imports HashTablePrimes
begin

text \<open>
  The hash table is a map: its invariant, which every operation keeps, and what the operations do to
  the map it stands for.
\<close>

section \<open>Lists of entries\<close>

lemma elements_Cons [simp]:
  "elements [] = []" "elements (e # es) = (case content e of None \<Rightarrow> elements es | Some x \<Rightarrow> x # elements es)"
  by (simp_all add: elements_def List.map_filter_def split: option.splits)

lemma elements_append [simp]: "elements (xs @ ys) = elements xs @ elements ys"
  by (induction xs) (simp_all split: option.splits)

lemma elements_split: "i < length es \<Longrightarrow> elements es = elements (take i es) @ elements [es ! i] @ elements (drop (Suc i) es)"
  by (subst id_take_nth_drop [of i es]) (simp_all split: option.splits)

lemma elements_update:
  assumes "i < length es"
  shows "mset (elements (es[i := e])) + mset (elements [es ! i]) = mset (elements es) + mset (elements [e])"
proof -
  have "elements (es[i := e]) = elements (take i es) @ elements [e] @ elements (drop (Suc i) es)"
    using assms by (simp add: upd_conv_take_nth_drop split: option.splits)
  then show ?thesis using elements_split [OF assms] by (simp del: elements_Cons)
qed

lemma elements_set: "x \<in> set (elements es) \<longleftrightarrow> (\<exists>i < length es. content (es ! i) = Some x)"
proof -
  have "x \<in> set (elements es) \<longleftrightarrow> (\<exists>e \<in> set es. content e = Some x)"
    by (induction es) (auto split: option.splits)
  then show ?thesis by (metis in_set_conv_nth)
qed

lemma elements_replicate [simp]: "elements (replicate n empty_entry) = []"
  by (induction n) (simp_all add: empty_entry_def)

section \<open>The invariant of the slots\<close>

definition slot_ok :: "('k \<Rightarrow> nat) \<Rightarrow> nat \<Rightarrow> nat \<Rightarrow> ('k, 'v) hash_entry \<Rightarrow> bool" where
  "slot_ok home ml i e \<longleftrightarrow> e = empty_entry \<or>
     (\<exists>x d. e = filled_entry (int d) x \<and> d < ml \<and> home (fst x) + d = i)"

definition slots_ok :: "('k \<Rightarrow> nat) \<Rightarrow> nat \<Rightarrow> ('k, 'v) hash_entry list \<Rightarrow> bool" where
  "slots_ok home ml es \<longleftrightarrow> es \<noteq> [] \<and> last es = special_end_entry \<and>
     (\<forall>i. Suc i < length es \<longrightarrow> slot_ok home ml i (es ! i) \<and>
       distance_from_desired (es ! Suc i) \<le> distance_from_desired (es ! i) + 1)"

lemma slots_ok_end:
  assumes "slots_ok home ml es" shows "es ! (length es - 1) = special_end_entry"
  using assms by (auto simp: slots_ok_def last_conv_nth)

lemma slots_ok_slot:
  "slots_ok home ml es \<Longrightarrow> Suc i < length es \<Longrightarrow> slot_ok home ml i (es ! i)"
  "slots_ok home ml es \<Longrightarrow> Suc i < length es \<Longrightarrow> distance_from_desired (es ! Suc i) \<le> distance_from_desired (es ! i) + 1"
  by (simp_all add: slots_ok_def)

lemma entry_simps [simp]:
  "distance_from_desired empty_entry = -1" "content empty_entry = None" "content special_end_entry = None"
  "distance_from_desired special_end_entry = 0" "distance_from_desired (filled_entry d x) = d" "content (filled_entry d x) = Some x"
  "is_empty empty_entry" "\<not> is_empty special_end_entry" "is_empty (filled_entry d x) \<longleftrightarrow> d < 0"
  "value_of (filled_entry d x) = Inr x" "empty_entry \<noteq> special_end_entry"
  "filled_entry d x = filled_entry d' x' \<longleftrightarrow> d = d' \<and> x = x'" "filled_entry d x \<noteq> empty_entry" "empty_entry \<noteq> filled_entry d x"
  by (simp_all add: empty_entry_def special_end_entry_def filled_entry_def is_empty_def value_of_def)

lemma slot_ok_simps [simp]: "slot_ok home ml i empty_entry"
  by (simp add: slot_ok_def)

lemma slot_ok_filled: "d < ml \<Longrightarrow> home (fst x) + d = i \<Longrightarrow> slot_ok home ml i (filled_entry (int d) x)"
  unfolding slot_ok_def by blast

lemma slot_cases:
  assumes "slot_ok home ml i e"
  obtains "e = empty_entry" | x d where "e = filled_entry (int d) x" "d < ml" "home (fst x) + d = i"
  using assms by (auto simp: slot_ok_def)

lemma slot_distance: "slots_ok home ml es \<Longrightarrow> Suc i < length es \<Longrightarrow> -1 \<le> distance_from_desired (es ! i)"
  using slots_ok_slot(1) by (fastforce elim!: slot_cases)

lemma slots_ok_update:
  assumes ok: "slots_ok home ml es" and i: "Suc i < length es" and e: "slot_ok home ml i e"
    and before: "0 < i \<Longrightarrow> distance_from_desired e \<le> distance_from_desired (es ! (i - 1)) + 1"
    and after: "distance_from_desired (es ! Suc i) \<le> distance_from_desired e + 1"
  shows "slots_ok home ml (es[i := e])"
  unfolding slots_ok_def
proof (intro conjI allI impI)
  show "es[i := e] \<noteq> []" "last (es[i := e]) = special_end_entry"
    using ok i by (auto simp: slots_ok_def last_list_update)
  fix j assume j: "Suc j < length (es[i := e])"
  then show "slot_ok home ml j (es[i := e] ! j)" using slots_ok_slot(1) [OF ok, of j] e by (cases "j = i") simp_all
  show "distance_from_desired (es[i := e] ! Suc j) \<le> distance_from_desired (es[i := e] ! j) + 1"
    using slots_ok_slot(2) [OF ok, of j] j before after by (cases "j = i"; cases "Suc j = i") auto
qed

section \<open>Lookup\<close>

text \<open>Between the desired slot of an element and its position all entries are at least as far from theirs.\<close>

lemma distances_towards:
  assumes "slots_ok home ml es" "j < length es" "i \<le> j"
  shows "distance_from_desired (es ! j) - int (j - i) \<le> distance_from_desired (es ! i)"
  using assms(3,2)
proof (induction j rule: dec_induct)
  case (step j)
  then show ?case using slots_ok_slot(2) [OF assms(1), of j] by (simp add: Suc_diff_le)
qed simp

definition key_at :: "('k, 'v) hash_entry list \<Rightarrow> 'k \<Rightarrow> nat \<Rightarrow> bool" where
  "key_at es key i \<longleftrightarrow> i < length es \<and> (\<exists>v. content (es ! i) = Some (key, v))"

lemma key_at_slot:
  assumes "slots_ok home ml es" "key_at es key i"
  obtains v d where "Suc i < length es" "es ! i = filled_entry (int d) (key, v)" "d < ml" "home key + d = i"
proof -
  obtain v where v: "i < length es" "content (es ! i) = Some (key, v)" using assms(2) by (auto simp: key_at_def)
  then have "Suc i < length es" using slots_ok_end [OF assms(1)] by (cases "i = length es - 1") auto
  with slots_ok_slot(1) [OF assms(1) this] v that show ?thesis by (auto elim!: slot_cases)
qed

lemma probe_result:
  assumes "slots_ok home ml es" "home key \<le> i" "i < length es" "i - home key \<le> ml" "length es = n + ml + 1" "home key \<le> n" "0 < ml"
    "\<And>j. home key \<le> j \<Longrightarrow> j < i \<Longrightarrow> \<not> key_at es key j"
    "0 < i \<Longrightarrow> home key < i \<Longrightarrow> int (i - home key) \<le> distance_from_desired (es ! (i - 1)) + 1"
  shows "(\<exists>p. probe es key i (int (i - home key)) = Inr (Found p) \<and> key_at es key p) \<or>
    (\<exists>p. probe es key i (int (i - home key)) = Inr (Stopped p (int (p - home key))) \<and> home key \<le> p \<and> p < length es \<and>
      distance_from_desired (es ! p) < int (p - home key) \<and> p - home key \<le> ml \<and>
      (home key < p \<longrightarrow> int (p - home key) \<le> distance_from_desired (es ! (p - 1)) + 1) \<and> (\<forall>j. \<not> key_at es key j))"
  using assms
proof (induction "length es - i" arbitrary: i)
  case 0
  then show ?case by simp
next
  case (Suc k)
  let ?d = "int (i - home key)"
  have ok: "slots_ok home ml es" by fact
  show ?case
  proof (cases "distance_from_desired (es ! i) \<ge> ?d")
    case True
    have "Suc i < length es"
    proof (rule ccontr)
      assume "\<not> Suc i < length es"
      then have "i = length es - 1" using Suc.prems by simp
      with slots_ok_end [OF ok] True Suc.prems show False by simp
    qed
    then obtain x d where x: "es ! i = filled_entry (int d) x" "d < ml" "home (fst x) + d = i"
      using slots_ok_slot(1) [OF ok] True by (fastforce elim!: slot_cases)
    show ?thesis
    proof (cases "key = fst x")
      case True
      then have "key_at es key i" using x Suc.prems by (cases x) (simp add: key_at_def)
      then show ?thesis using True x \<open>distance_from_desired (es ! i) \<ge> ?d\<close> Suc.prems by (subst probe.simps) simp
    next
      case False
      have "probe es key i ?d = probe es key (Suc i) (int (Suc i - home key))"
        using False x True Suc.prems by (subst probe.simps) (simp add: Suc_diff_le add.commute)
      moreover have "\<not> key_at es key j" if "home key \<le> j" "j < Suc i" for j
        using Suc.prems(8) [of j] that False x by (cases "j = i") (auto simp: key_at_def)
      ultimately show ?thesis
        using Suc.hyps(1) [of "Suc i"] Suc.hyps(2) Suc.prems \<open>Suc i < length es\<close> True x by (simp add: Suc_diff_le)
    qed
  next
    case False
    have "\<not> key_at es key j" for j
    proof
      assume k: "key_at es key j"
      then obtain v d where v: "Suc j < length es" "es ! j = filled_entry (int d) (key, v)" "home key + d = j"
        by (rule key_at_slot [OF ok])
      show False
      proof (cases "j < i")
        case True
        then show False using Suc.prems(8) [of j] k v by simp
      next
        case f: False
        then have "distance_from_desired (es ! j) - int (j - i) \<le> distance_from_desired (es ! i)"
          using distances_towards [OF ok, of j i] v by simp
        then show False using False v f Suc.prems by simp
      qed
    qed
    then show ?thesis using False Suc.prems by (subst (1 2) probe.simps) auto
  qed
qed

section \<open>Insertion\<close>

text \<open>What inserting \<open>x\<close> from the position \<open>it\<close> on may do: it keeps the invariant and everything before \<open>it\<close>, and the
  elements gain \<open>x\<close> and lose the one that found no place.\<close>

definition shifted ::
  "('k \<Rightarrow> nat) \<Rightarrow> nat \<Rightarrow> ('k, 'v) hash_entry list \<Rightarrow> nat \<Rightarrow> 'k \<times> 'v \<Rightarrow> ('k, 'v) hash_entry list \<Rightarrow> ('k \<times> 'v) multiset \<Rightarrow> bool" where
  "shifted home ml es it x es' lost \<longleftrightarrow> slots_ok home ml es' \<and> length es' = length es \<and>
     mset (elements es') + lost = add_mset x (mset (elements es)) \<and> (\<forall>j < it. es' ! j = es ! j)"

lemma shifted_trans:
  assumes "shifted home ml (es[it := filled_entry d x]) (Suc it) y es' lost" "content (es ! it) = Some y" "it < length es"
  shows "shifted home ml es it x es' lost"
  using assms elements_update [OF assms(3), of "filled_entry d x"] by (simp add: shifted_def)

lemma shifted_later: "shifted home ml es (Suc it) x es' lost \<Longrightarrow> shifted home ml es it x es' lost"
  by (simp add: shifted_def)

lemma shift_in_spec:
  assumes "slots_ok home ml es" "home (fst x) + d = it" "d < ml" "\<forall>k. home k \<le> n" "length es = n + ml + 1"
    "0 < it \<Longrightarrow> int d \<le> distance_from_desired (es ! (it - 1)) + 1"
  shows "(\<exists>es'. shift_in ml es it (int d) x = Inr (Placed es') \<and> shifted home ml es it x es' {#}) \<or>
    (\<exists>es' y. shift_in ml es it (int d) x = Inr (Lookups_exhausted es' y) \<and> shifted home ml es it x es' {#y#})"
  using assms
proof (induction "length es - it" arbitrary: es it d x)
  case 0
  have "home (fst x) \<le> n" using 0 by simp
  then have False using 0 by linarith
  then show ?case by simp
next
  case (Suc k)
  have ok: "slots_ok home ml es" by fact
  have "home (fst x) \<le> n" using Suc.prems by simp
  then have it: "Suc it < length es" using Suc.prems by linarith
  have new: "slots_ok home ml (es[it := filled_entry (int d) x])" if "distance_from_desired (es ! it) \<le> int d"
    using that slots_ok_slot(2) [OF ok it] Suc.prems by (intro slots_ok_update [OF ok it]) (auto simp: slot_ok_filled)
  from slots_ok_slot(1) [OF ok it] show ?case
  proof (cases rule: slot_cases)
    case 1
    then have "shifted home ml es it x (es[it := filled_entry (int d) x]) {#}"
      using new elements_update [of it es "filled_entry (int d) x"] it by (simp add: shifted_def)
    then show ?thesis using 1 it by (subst (1 2) shift_in.simps) simp
  next
    case (2 y d')
    show ?thesis
    proof (cases "d' < d")
      case True
      let ?es = "es[it := filled_entry (int d) x]"
      have "shift_in ml es it (int d) x = shift_in ml ?es (Suc it) (int (Suc d')) y"
        using 2 True it by (subst shift_in.simps) (simp add: add.commute)
      moreover have "(\<exists>es'. shift_in ml ?es (Suc it) (int (Suc d')) y = Inr (Placed es') \<and> shifted home ml ?es (Suc it) y es' {#}) \<or>
        (\<exists>es' z. shift_in ml ?es (Suc it) (int (Suc d')) y = Inr (Lookups_exhausted es' z) \<and> shifted home ml ?es (Suc it) y es' {#z#})"
        by (rule Suc.hyps(1)) (use 2 True it new Suc.hyps(2) Suc.prems in auto)
      ultimately show ?thesis using shifted_trans [of home ml es it "int d" x y] 2 it by (auto 0 4)
    next
      case False
      show ?thesis
      proof (cases "Suc d = ml")
        case True
        then have "shift_in ml es it (int d) x = Inr (Lookups_exhausted es x)"
          using 2 False it by (subst shift_in.simps) simp
        then show ?thesis using ok by (auto simp: shifted_def)
      next
        case f: False
        have "shift_in ml es it (int d) x = shift_in ml es (Suc it) (int (Suc d)) x"
          using 2 False f it by (subst shift_in.simps) (simp add: add.commute)
        moreover have "(\<exists>es'. shift_in ml es (Suc it) (int (Suc d)) x = Inr (Placed es') \<and> shifted home ml es (Suc it) x es' {#}) \<or>
          (\<exists>es' z. shift_in ml es (Suc it) (int (Suc d)) x = Inr (Lookups_exhausted es' z) \<and> shifted home ml es (Suc it) x es' {#z#})"
          by (rule Suc.hyps(1)) (use 2 False f it Suc.hyps(2) Suc.prems in auto)
        ultimately show ?thesis using shifted_later [of home ml es it x] by (auto 0 4)
      qed
    qed
  qed
qed

section \<open>The invariant of the table\<close>

abbreviation home :: "('k \<Rightarrow> nat) \<Rightarrow> nat \<Rightarrow> 'k \<Rightarrow> nat" where
  "home hash p k \<equiv> index_for_hash p (hash k)"

definition shape_ok :: "('k, 'v) hash_table \<Rightarrow> bool" where
  "shape_ok t \<longleftrightarrow> length (entries t) = num_slots_minus_one t + max_lookups t + 1 \<and> 3 \<le> max_lookups t \<and> max_lookups t \<le> 63 \<and>
     (prime_index t = 0 \<and> num_slots_minus_one t = 0 \<and> max_lookups t = 3 \<or>
      max_lookups t = compute_max_lookups (bucket_count t) \<and> 0 < prime_index t \<and> prime_index t < length prime_list \<and> bucket_count t = prime_list ! (prime_index t - 1))"

definition table_ok :: "('k \<Rightarrow> nat) \<Rightarrow> ('k, 'v) hash_table \<Rightarrow> bool" where
  "table_ok hash t \<longleftrightarrow> shape_ok t \<and> slots_ok (home hash (prime_index t)) (max_lookups t) (entries t) \<and>
     distinct (map fst (elements (entries t))) \<and> num_elements t = length (elements (entries t))"

text \<open>The map that a table stands for.\<close>

definition table_map :: "('k, 'v) hash_table \<Rightarrow> 'k \<rightharpoonup> 'v" where
  "table_map t = map_of (elements (entries t))"

lemma home_bound: "shape_ok t \<Longrightarrow> home hash (prime_index t) k \<le> num_slots_minus_one t"
proof -
  assume s: "shape_ok t"
  show ?thesis
  proof (cases "prime_index t")
    case 0
    then show ?thesis using s by (simp add: index_for_hash_def mod_functions_primes mod_function_def)
  next
    case (Suc p)
    then have "bucket_count t = prime_list ! p" using s by (simp add: shape_ok_def)
    then show ?thesis using Suc
      by (simp add: index_for_hash_def mod_functions_primes mod_function_def bucket_count_def)
        (metis Suc_eq_plus1 less_Suc_eq_le mod_less_divisor zero_less_Suc)
  qed
qed

lemma bucket_count_bound: "shape_ok t \<Longrightarrow> bucket_count t < 18446744073709551557"
  using sorted_wrt_nth_less [OF prime_list_sorted, of "prime_index t - 1" 185]
  unfolding shape_ok_def bucket_count_def prime_list_length prime_list_last_nth by linarith

lemma fresh_entries_ok: "0 < n \<Longrightarrow> slots_ok h ml (fresh_entries n)" "0 < n \<Longrightarrow> length (fresh_entries n) = n"
  "elements (fresh_entries n) = []"
  by (auto simp: slots_ok_def fresh_entries_def nth_append less_Suc_eq)

lemma default_table_ok: "table_ok hash default_table"
  by (simp add: table_ok_def shape_ok_def default_table_def fresh_entries_ok min_lookups_def)

text \<open>What \<open>emplace\<close> promises.\<close>

definition emplaced ::
  "('k \<Rightarrow> nat) \<Rightarrow> ('k, 'v) hash_table \<Rightarrow> 'k \<times> 'v \<Rightarrow> (('k, 'v) hash_table \<times> nat \<times> bool) result \<Rightarrow> bool" where
  "emplaced hash t x r \<longleftrightarrow> (case r of Inl e \<Rightarrow> e = Bad_alloc
     | Inr (t', it, new) \<Rightarrow> table_ok hash t' \<and> prime_index t \<le> prime_index t' \<and> key_at (entries t') (fst x) it \<and>
         new = (fst x \<notin> fst ` set (elements (entries t))) \<and>
         mset (elements (entries t')) = (if new then {#x#} else {#}) + mset (elements (entries t)))"

definition emplaces :: "('k \<Rightarrow> nat) \<Rightarrow> nat \<Rightarrow> ('k, 'v) emplacer \<Rightarrow> bool" where
  "emplaces hash q emp \<longleftrightarrow> (\<forall>t x. table_ok hash t \<longrightarrow> q \<le> prime_index t \<longrightarrow> emplaced hash t x (emp t x))"

definition rehashed ::
  "('k \<Rightarrow> nat) \<Rightarrow> nat \<Rightarrow> ('k \<times> 'v) multiset \<Rightarrow> ('k, 'v) hash_table result \<Rightarrow> bool" where
  "rehashed hash q xs r \<longleftrightarrow> (case r of Inl e \<Rightarrow> e = Bad_alloc
     | Inr t' \<Rightarrow> table_ok hash t' \<and> q \<le> prime_index t' \<and> mset (elements (entries t')) = xs)"

lemma emplace_all_rehashed:
  assumes "emplaces hash q emp"
  shows "table_ok hash t \<Longrightarrow> q \<le> prime_index t \<Longrightarrow> distinct (map fst (xs @ elements (entries t))) \<Longrightarrow>
    rehashed hash q (mset xs + mset (elements (entries t))) (emplace_all emp t xs)"
proof (induction xs arbitrary: t)
  case Nil
  then show ?case by (simp add: rehashed_def)
next
  case (Cons x xs)
  from assms Cons.prems have e: "emplaced hash t x (emp t x)" unfolding emplaces_def by blast
  show ?case
  proof (cases "emp t x")
    case (Inl e)
    then show ?thesis using e by (simp add: rehashed_def emplaced_def)
  next
    case (Inr r)
    then obtain t' it new where r: "emp t x = Inr (t', it, new)" by (cases r) auto
    have new: "fst x \<notin> fst ` set (elements (entries t))" using Cons.prems(3) by auto
    with e r have t': "table_ok hash t'" "q \<le> prime_index t'" "mset (elements (entries t')) = add_mset x (mset (elements (entries t)))"
      using Cons.prems(2) by (auto simp: emplaced_def)
    have "mset (map fst (xs @ elements (entries t'))) = mset (map fst ((x # xs) @ elements (entries t)))"
      by (simp add: t'(3))
    then have "distinct (map fst (xs @ elements (entries t')))" using Cons.prems(3) mset_eq_imp_distinct_iff by blast
    from Cons.IH [OF t'(1,2) this] show ?thesis using r t'(3) by simp
  qed
qed

definition rehashable :: "('k, 'v) hash_table \<Rightarrow> bool" where
  "rehashable t \<longleftrightarrow> shape_ok t \<and> content (entries t ! (length (entries t) - 1)) = None \<and> distinct (map fst (elements (entries t)))"

lemma elements_butlast:
  assumes "content (es ! n) = None" "length es = Suc n"
  shows "elements (take n es) = elements es"
proof -
  have "es = take n es @ [es ! n]" using assms(2) by (metis lessI take_Suc_conv_app_nth take_all le_refl)
  then have "elements es = elements (take n es @ [es ! n])" by simp
  then show ?thesis using assms(1) by simp
qed

lemma max_lookups_bounds: "4 \<le> compute_max_lookups n" "compute_max_lookups n \<le> 63"
  using log2_bound by (simp_all add: compute_max_lookups_def min_lookups_def)

lemma grow_rehashed:
  assumes emp: "emplaces hash (Suc (prime_index t)) emp" and t: "rehashable t"
    and m: "max_entries < 18446744073709551557"
  shows "rehashed hash (Suc (prime_index t)) (mset (elements (entries t))) (grow emp max_entries t)"
proof -
  let ?n = "max (max 4 (2 * bucket_count t)) (2 * num_elements t)"
  obtain b p where bp: "next_size_over ?n = (b, p)" by fastforce
  note next_p = next_size_over_entry [OF bp]
  have shape: "shape_ok t" using t by (simp add: rehashable_def)
  let ?ml = "compute_max_lookups b"
  let ?t = "\<lparr>entries = fresh_entries (b + ?ml), num_slots_minus_one = b - 1, prime_index = p, max_lookups = ?ml, num_elements = 0\<rparr>"
  let ?xs = "elements (take (bucket_count t - 1 + max_lookups t) (entries t))"
  show ?thesis
  proof (cases "max_entries < b + ?ml")
    case True
    have "b \<noteq> bucket_count t"
      using next_p(5) bucket_count_bound [OF shape] by (auto simp: bucket_count_def)
    then show ?thesis using True bp by (simp add: grow_def rehash_def Let_def rehashed_def)
  next
    case False
    have "?n \<le> b" using next_p(5) False m by auto
    then have "2 * bucket_count t \<le> b" "0 < bucket_count t" unfolding bucket_count_def by linarith+
    then have big: "bucket_count t < b" by linarith
    have "prime_index t < p"
    proof (cases "prime_index t")
      case 0
      then show ?thesis using next_p(1) by simp
    next
      case (Suc i)
      then have "bucket_count t = prime_list ! i" "i < length prime_list"
        using shape unfolding shape_ok_def by simp_all
      then have "prime_list ! i < prime_list ! (p - 1)" using big next_p(3) by simp
      then have "i < p - 1" by (rule prime_list_index) (use \<open>i < length prime_list\<close> next_p(1,2) in linarith)+
      then show ?thesis using Suc by simp
    qed
    have b: "2 \<le> b" by (rule prime_list_positive [OF next_p(4)])
    have "p \<noteq> length prime_list"
    proof
      assume "p = length prime_list"
      then have "b = prime_list ! 185" using next_p(3) by (simp add: prime_list_length)
      with m False show False unfolding prime_list_last_nth by linarith
    qed
    then have ok: "table_ok hash ?t"
      using next_p b max_lookups_bounds [of b] by (simp add: table_ok_def shape_ok_def fresh_entries_ok bucket_count_def)
    have "?xs = elements (entries t)"
      using t by (intro elements_butlast) (auto simp: rehashable_def shape_ok_def bucket_count_def)
    then have "distinct (map fst (?xs @ elements (entries ?t)))" using t by (simp add: rehashable_def fresh_entries_ok)
    from emplace_all_rehashed [OF emp ok _ this] \<open>prime_index t < p\<close>
    have "rehashed hash (Suc (prime_index t)) (mset ?xs) (emplace_all emp ?t ?xs)" by (simp add: fresh_entries_ok)
    moreover have "b \<noteq> bucket_count t" using big by simp
    ultimately show ?thesis
      using bp False \<open>?xs = elements (entries t)\<close> by (simp add: grow_def rehash_def Let_def)
  qed
qed

text \<open>The loop of the lookup on a table.\<close>

definition stops_at :: "('k \<Rightarrow> nat) \<Rightarrow> ('k, 'v) hash_table \<Rightarrow> 'k \<Rightarrow> nat \<Rightarrow> nat \<Rightarrow> bool" where
  "stops_at hash t key it d \<longleftrightarrow> home hash (prime_index t) key + d = it \<and> it < length (entries t) \<and>
     distance_from_desired (entries t ! it) < int d \<and> d \<le> max_lookups t \<and>
     (0 < d \<longrightarrow> int d \<le> distance_from_desired (entries t ! (it - 1)) + 1) \<and> (\<forall>j. \<not> key_at (entries t) key j)"

lemma probe_table:
  assumes "table_ok hash t"
  obtains (found) it where "probe (entries t) key (home hash (prime_index t) key) 0 = Inr (Found it)" "key_at (entries t) key it"
  | (stopped) it d where "probe (entries t) key (home hash (prime_index t) key) 0 = Inr (Stopped it (int d))" "stops_at hash t key it d"
proof -
  let ?h = "home hash (prime_index t)"
  have shape: "shape_ok t" and ok: "slots_ok ?h (max_lookups t) (entries t)" using assms by (simp_all add: table_ok_def)
  have "?h key < length (entries t)" "0 < max_lookups t" "length (entries t) = num_slots_minus_one t + max_lookups t + 1"
    using home_bound [OF shape, of hash key] shape by (simp_all add: shape_ok_def)
  with probe_result [OF ok, of key "?h key" "num_slots_minus_one t"] home_bound [OF shape, of hash key]
  have "(\<exists>p. probe (entries t) key (?h key) 0 = Inr (Found p) \<and> key_at (entries t) key p) \<or>
    (\<exists>p. probe (entries t) key (?h key) 0 = Inr (Stopped p (int (p - ?h key))) \<and> stops_at hash t key p (p - ?h key))"
    unfolding stops_at_def by auto
  then show thesis using found stopped by blast
qed

lemma key_at_elements: "(\<exists>j. key_at es key j) \<longleftrightarrow> key \<in> fst ` set (elements es)"
  by (force simp: key_at_def elements_set image_iff)

lemma key_at_update: "it < length es \<Longrightarrow> key_at (es[it := filled_entry d x]) (fst x) it"
  by (cases x) (simp add: key_at_def)

lemma key_at_shifted: "shifted h ml es it y es' lost \<Longrightarrow> i < it \<Longrightarrow> key_at es key i \<Longrightarrow> key_at es' key i"
  by (simp add: key_at_def shifted_def)

text \<open>A new key whose probe stopped at \<open>it\<close> goes there; the element it replaces is shifted.\<close>

lemma table_ok_extend:
  assumes t: "table_ok hash t" and key: "\<forall>j. \<not> key_at (entries t) (fst x) j"
    and es: "slots_ok (home hash (prime_index t)) (max_lookups t) es" "length es = length (entries t)"
      "mset (elements es) = add_mset x (mset (elements (entries t)))" "key_at es (fst x) it"
  shows "emplaced hash t x (Inr (t\<lparr>entries := es, num_elements := num_elements t + 1\<rparr>, it, True))"
proof -
  have new: "fst x \<notin> fst ` set (elements (entries t))" using key key_at_elements by metis
  have "mset (map fst (elements es)) = mset (fst x # map fst (elements (entries t)))" by (simp add: es(3))
  then have "distinct (map fst (elements es))" using new t mset_eq_imp_distinct_iff
    by (fastforce simp: table_ok_def)
  moreover have "length (elements es) = Suc (length (elements (entries t)))"
    using es(3) by (metis size_add_mset size_mset)
  ultimately show ?thesis using es t new by (simp add: emplaced_def table_ok_def shape_ok_def bucket_count_def)
qed

lemma rehashed_emplaced:
  assumes emp: "emplaces hash (Suc (prime_index t)) emp" and re: "rehashed hash (Suc (prime_index t)) (mset (elements (entries t))) r"
    and key: "\<forall>j. \<not> key_at (entries t) (fst x) j"
  shows "emplaced hash t x (rbind r (\<lambda>t'. emp t' x))"
proof (cases r)
  case (Inl e)
  then show ?thesis using re by (simp add: emplaced_def rehashed_def)
next
  case (Inr t')
  then have t': "table_ok hash t'" "Suc (prime_index t) \<le> prime_index t'" "mset (elements (entries t')) = mset (elements (entries t))"
    using re by (simp_all add: rehashed_def)
  then have "emplaced hash t' x (emp t' x)" using emp unfolding emplaces_def by blast
  moreover have "set (elements (entries t')) = set (elements (entries t))" using t'(3) by (rule mset_eq_setD)
  ultimately show ?thesis using Inr t' by (simp add: emplaced_def split: sum.splits prod.splits)
qed

lemma emplace_body_emplaced:
  assumes emp: "emplaces hash (Suc (prime_index t)) emp" and t: "table_ok hash t" and m: "max_entries < 18446744073709551557"
  shows "emplaced hash t x (emplace_body hash emp max_entries t x)"
proof -
  let ?h = "home hash (prime_index t)"
  have shape: "shape_ok t" and ok: "slots_ok ?h (max_lookups t) (entries t)" using t by (simp_all add: table_ok_def)
  have len: "length (entries t) = num_slots_minus_one t + max_lookups t + 1" using shape by (simp add: shape_ok_def)
  have re: "rehashable t" using t slots_ok_end [OF ok] by (simp add: table_ok_def rehashable_def)
  from t show ?thesis
  proof (cases rule: probe_table [where key = "fst x"])
    case (found it)
    then have "fst x \<in> fst ` set (elements (entries t))" using key_at_elements by metis
    then show ?thesis using found t by (simp add: emplace_body_def emplaced_def)
  next
    case (stopped it d)
    note stop = stopped(2) [unfolded stops_at_def]
    have key: "\<forall>j. \<not> key_at (entries t) (fst x) j" using stop by blast
    let ?e = "entries t ! it" and ?es = "(entries t)[it := filled_entry (int d) x]"
    let ?full = "num_slots_minus_one t = 0 \<or> int d = int (max_lookups t) \<or> bucket_count t < 2 * (num_elements t + 1)"
    have body: "emplace_body hash emp max_entries t x = emplace_new_key emp max_entries t (int d) it x"
      using stopped(1) by (simp add: emplace_body_def)
    show ?thesis
    proof (cases ?full)
      case True
      then show ?thesis unfolding body emplace_new_key_def Let_def if_P [OF True]
        using rehashed_emplaced [OF emp grow_rehashed [OF emp re m] key] by simp
    next
      case False
      then have d: "d < max_lookups t" using stop by simp
      have it: "Suc it < length (entries t)" using stop d len home_bound [OF shape, of hash "fst x"] by linarith
      have es: "slots_ok ?h (max_lookups t) ?es"
        using stop slots_ok_slot(2) [OF ok it] slot_distance [OF ok, of "it - 1"] it d
        by (intro slots_ok_update [OF ok it]) (auto simp: slot_ok_filled)
      have at: "key_at ?es (fst x) it" using it by (intro key_at_update) simp
      from slots_ok_slot(1) [OF ok it] show ?thesis
      proof (cases rule: slot_cases)
        case 1
        then have "mset (elements ?es) = add_mset x (mset (elements (entries t)))"
          using elements_update [of it "entries t" "filled_entry (int d) x"] it by simp
        from table_ok_extend [OF t key es _ this at] show ?thesis
          using False 1 unfolding body emplace_new_key_def Let_def by simp
      next
        case (2 y d')
        have less: "d' < d" using stop 2 by simp
        have gain: "mset (elements ?es) + {#y#} = add_mset x (mset (elements (entries t)))"
          using elements_update [of it "entries t" "filled_entry (int d) x"] it 2 by simp
        have new: "emplace_new_key emp max_entries t (int d) it x =
            rbind (shift_in (max_lookups t) ?es (it + 1) (int (Suc d')) y) (case_shift_result
             (\<lambda>es. Inr (t\<lparr>entries := es, num_elements := num_elements t + 1\<rparr>, it, True))
             (\<lambda>es z. rbind (value_of (es ! it)) (\<lambda>w.
               rbind (grow emp max_entries (t\<lparr>entries := es[it := (es ! it)\<lparr>content := Some z\<rparr>]\<rparr>)) (\<lambda>t'. emp t' w))))"
          using False 2 unfolding emplace_new_key_def Let_def by (simp add: add.commute)
        from shift_in_spec [OF es, of y "Suc d'" "Suc it" "num_slots_minus_one t"] less d 2 len it
          home_bound [OF shape, of hash]
        have "(\<exists>es'. shift_in (max_lookups t) ?es (it + 1) (int (Suc d')) y = Inr (Placed es') \<and>
              shifted ?h (max_lookups t) ?es (Suc it) y es' {#}) \<or>
            (\<exists>es' z. shift_in (max_lookups t) ?es (it + 1) (int (Suc d')) y = Inr (Lookups_exhausted es' z) \<and>
              shifted ?h (max_lookups t) ?es (Suc it) y es' {#z#})"
          by auto
        then show ?thesis
        proof (elim disjE exE conjE)
          fix es' assume s: "shift_in (max_lookups t) ?es (it + 1) (int (Suc d')) y = Inr (Placed es')"
            "shifted ?h (max_lookups t) ?es (Suc it) y es' {#}"
          then have "mset (elements es') = add_mset x (mset (elements (entries t)))" using gain by (simp add: shifted_def)
          moreover have "key_at es' (fst x) it" by (rule key_at_shifted [OF s(2) _ at]) simp
          ultimately show ?thesis
            using table_ok_extend [OF t key, of es' it] s unfolding body new by (simp add: shifted_def)
        next
          fix es' z assume s: "shift_in (max_lookups t) ?es (it + 1) (int (Suc d')) y = Inr (Lookups_exhausted es' z)"
            "shifted ?h (max_lookups t) ?es (Suc it) y es' {#z#}"
          let ?es' = "es'[it := (es' ! it)\<lparr>content := Some z\<rparr>]" and ?t = "t\<lparr>entries := es'[it := (es' ! it)\<lparr>content := Some z\<rparr>]\<rparr>"
          have at': "es' ! it = filled_entry (int d) x" "it < length es'" using s(2) it by (simp_all add: shifted_def)
          have "mset (elements ?es') + {#x#} = mset (elements es') + {#z#}"
            using elements_update [of it es' "(es' ! it)\<lparr>content := Some z\<rparr>"] at' by (simp add: filled_entry_def)
          moreover have "mset (elements es') + {#z#} = add_mset x (mset (elements (entries t)))"
            using gain s(2) by (simp add: shifted_def)
          ultimately have same: "mset (elements ?es') = mset (elements (entries t))" by simp
          have "mset (map fst (elements ?es')) = mset (map fst (elements (entries t)))" by (simp add: same)
          then have dist: "distinct (map fst (elements ?es'))"
            using t mset_eq_imp_distinct_iff by (fastforce simp: table_ok_def)
          have "length es' = length (entries t)" using s(2) by (simp add: shifted_def)
          moreover have "content (?es' ! (length es' - 1)) = None"
            using slots_ok_end [of ?h "max_lookups t" es'] s(2) it by (simp add: shifted_def)
          ultimately have "rehashable ?t" using shape dist by (simp add: rehashable_def shape_ok_def bucket_count_def)
          from grow_rehashed [OF _ this m, of hash emp] emp same
          have "rehashed hash (Suc (prime_index t)) (mset (elements (entries t))) (grow emp max_entries ?t)" by simp
          from rehashed_emplaced [OF emp this key] show ?thesis
            unfolding body new using s(1) at'(1) by simp
        qed
      qed
    qed
  qed
qed

lemma emplace_fuel_emplaced:
  fixes t :: "('k, 'v) hash_table"
  assumes "max_entries < 18446744073709551557"
  shows "table_ok hash t \<Longrightarrow> length prime_list - prime_index t < fuel \<Longrightarrow>
    emplaced hash t x (emplace_fuel hash max_entries fuel t x)"
proof (induction fuel arbitrary: t x)
  case (Suc fuel)
  have "prime_index t < length prime_list" using Suc.prems(1) by (auto simp: table_ok_def shape_ok_def prime_list_length)
  have "emplaced hash t' y (emplace_fuel hash max_entries fuel t' y)" if "table_ok hash t'" "Suc (prime_index t) \<le> prime_index t'"
    for t' :: "('k, 'v) hash_table" and y
    by (rule Suc.IH [OF that(1)]) (use Suc.prems(2) that(2) \<open>prime_index t < length prime_list\<close> in linarith)
  then have "emplaces hash (Suc (prime_index t)) (emplace_fuel hash max_entries fuel :: ('k, 'v) emplacer)"
    unfolding emplaces_def by blast
  from emplace_body_emplaced [OF this Suc.prems(1) assms] show ?case by simp
qed simp

lemma emplace_emplaced:
  "max_entries < 18446744073709551557 \<Longrightarrow> table_ok hash t \<Longrightarrow> emplaced hash t x (emplace hash max_entries t x)"
  unfolding emplace_def by (rule emplace_fuel_emplaced) simp_all

section \<open>Removal\<close>

text \<open>While elements move back over a gap, the entries are in order except that the gap stands for an entry with the distance
  of its right neighbour.\<close>

definition gap_ok :: "('k \<Rightarrow> nat) \<Rightarrow> nat \<Rightarrow> ('k, 'v) hash_entry list \<Rightarrow> nat \<Rightarrow> bool" where
  "gap_ok h ml es i \<longleftrightarrow> es \<noteq> [] \<and> last es = special_end_entry \<and> Suc i < length es \<and> es ! i = empty_entry \<and>
     (\<forall>j. Suc j < length es \<longrightarrow> slot_ok h ml j (es ! j)) \<and>
     (\<forall>j. Suc j < length es \<longrightarrow> j \<noteq> i \<longrightarrow> distance_from_desired (es ! Suc j) \<le> distance_from_desired (es ! j) + 1) \<and>
     (0 < i \<longrightarrow> distance_from_desired (es ! Suc i) \<le> distance_from_desired (es ! (i - 1)) + 2)"

lemma gap_made:
  assumes ok: "slots_ok h ml es" and i: "Suc i < length es"
  shows "gap_ok h ml (es[i := empty_entry]) i"
proof -
  have "distance_from_desired (es ! Suc i) \<le> distance_from_desired (es ! (i - 1)) + 2" if "0 < i"
    using slots_ok_slot(2) [OF ok, of i] slots_ok_slot(2) [OF ok, of "i - 1"] i that by simp
  moreover have "distance_from_desired (es[i := empty_entry] ! Suc j) \<le> distance_from_desired (es[i := empty_entry] ! j) + 1"
    if "Suc j < length es" "j \<noteq> i" for j
    using slots_ok_slot(2) [OF ok that(1)] slot_distance [OF ok that(1)] that by (cases "Suc j = i") simp_all
  moreover have "slot_ok h ml j (es[i := empty_entry] ! j)" if "Suc j < length es" for j
    using slots_ok_slot(1) [OF ok that] i that by (cases "j = i") simp_all
  moreover have "last (es[i := empty_entry]) = special_end_entry" "es \<noteq> []"
    using ok i by (auto simp: slots_ok_def last_list_update)
  ultimately show ?thesis using i by (simp add: gap_ok_def)
qed

lemma gap_moves:
  assumes gap: "gap_ok h ml es i" and e: "es ! Suc i = filled_entry (int (Suc d)) x" and i: "Suc (Suc i) < length es"
  shows "gap_ok h ml (es[i := filled_entry (int d) x, Suc i := empty_entry]) (Suc i)"
proof -
  let ?es = "es[i := filled_entry (int d) x, Suc i := empty_entry]"
  have slot: "slot_ok h ml (Suc i) (es ! Suc i)" using gap i by (simp add: gap_ok_def)
  then have "slot_ok h ml i (filled_entry (int d) x)" using e by (auto intro!: slot_ok_filled elim!: slot_cases)
  then have "slot_ok h ml j (?es ! j)" if "Suc j < length es" for j
    using gap that by (cases "j = i"; cases "j = Suc i") (simp_all add: gap_ok_def)
  moreover have "distance_from_desired (?es ! Suc j) \<le> distance_from_desired (?es ! j) + 1" if j: "Suc j < length es" "j \<noteq> Suc i" for j
  proof -
    consider "j = i" | "Suc j = i" | "j \<noteq> i" "Suc j \<noteq> i" by blast
    then show ?thesis
    proof cases
      case 2
      then show ?thesis using gap e by (auto simp: gap_ok_def)
    next
      case 3
      then show ?thesis using gap j by (simp add: gap_ok_def)
    qed (use i in simp)
  qed
  moreover have "distance_from_desired (es ! Suc (Suc i)) \<le> distance_from_desired (es ! Suc i) + 1"
    using gap i by (simp add: gap_ok_def)
  moreover have "last ?es = special_end_entry" "es \<noteq> []" using gap i by (auto simp: gap_ok_def last_list_update)
  ultimately show ?thesis using gap i e by (simp add: gap_ok_def)
qed

lemma gap_closed:
  assumes gap: "gap_ok h ml es i" and d: "distance_from_desired (es ! Suc i) \<le> 0"
  shows "slots_ok h ml es"
  unfolding slots_ok_def
proof (intro conjI allI impI)
  fix j assume j: "Suc j < length es"
  show "distance_from_desired (es ! Suc j) \<le> distance_from_desired (es ! j) + 1"
    using gap d j by (cases "j = i") (simp_all add: gap_ok_def)
qed (use gap in \<open>simp_all add: gap_ok_def\<close>)

lemma shift_back_spec:
  assumes "gap_ok h ml es i"
  shows "\<exists>es'. shift_back es i = Inr es' \<and> slots_ok h ml es' \<and> length es' = length es \<and> mset (elements es') = mset (elements es)"
  using assms
proof (induction "length es - i" arbitrary: es i)
  case 0
  then show ?case by (simp add: gap_ok_def)
next
  case (Suc k)
  have i: "Suc i < length es" using Suc.prems by (simp add: gap_ok_def)
  show ?case
  proof (cases "is_at_desired_position (es ! Suc i)")
    case True
    then show ?thesis using gap_closed [OF Suc.prems] i by (subst shift_back.simps) (simp add: is_at_desired_position_def)
  next
    case False
    have "Suc (Suc i) < length es"
    proof (rule ccontr)
      assume "\<not> Suc (Suc i) < length es"
      then have "length es - 1 = Suc i" using i by simp
      moreover have "last es = es ! (length es - 1)" using i by (intro last_conv_nth) auto
      ultimately have "es ! Suc i = special_end_entry" using Suc.prems by (simp add: gap_ok_def)
      with False show False by (simp add: is_at_desired_position_def)
    qed
    then have "slot_ok h ml (Suc i) (es ! Suc i)" using Suc.prems by (simp add: gap_ok_def)
    with False obtain d x where e: "es ! Suc i = filled_entry (int (Suc d)) x"
      by (elim slot_cases) (auto simp: is_at_desired_position_def gr0_conv_Suc)
    let ?es1 = "es[i := filled_entry (int d) x]" and ?es = "es[i := filled_entry (int d) x, Suc i := empty_entry]"
    have step: "shift_back es i = shift_back ?es (Suc i)" using False e i by (subst shift_back.simps) simp
    have "mset (elements ?es) = mset (elements es)"
      using elements_update [of i es "filled_entry (int d) x"] elements_update [of "Suc i" ?es1 empty_entry] i e Suc.prems
      by (simp add: gap_ok_def)
    moreover have "\<exists>es'. shift_back ?es (Suc i) = Inr es' \<and> slots_ok h ml es' \<and> length es' = length ?es \<and> mset (elements es') = mset (elements ?es)"
      by (rule Suc.hyps(1) [OF _ gap_moves [OF Suc.prems e \<open>Suc (Suc i) < length es\<close>]]) (use Suc.hyps(2) i in simp)
    ultimately show ?thesis using step by simp
  qed
qed

lemma erase_at_spec:
  assumes t: "table_ok hash t" and at: "key_at (entries t) key it"
  shows "\<exists>t' v. erase_at t it = Inr t' \<and> table_ok hash t' \<and> prime_index t' = prime_index t \<and>
    add_mset (key, v) (mset (elements (entries t'))) = mset (elements (entries t))"
proof -
  let ?h = "home hash (prime_index t)"
  have ok: "slots_ok ?h (max_lookups t) (entries t)" using t by (simp add: table_ok_def)
  from at obtain v d where v: "Suc it < length (entries t)" "entries t ! it = filled_entry (int d) (key, v)"
    by (rule key_at_slot [OF ok])
  obtain es where es: "shift_back ((entries t)[it := empty_entry]) it = Inr es" "slots_ok ?h (max_lookups t) es"
    "length es = length (entries t)" "mset (elements es) = mset (elements ((entries t)[it := empty_entry]))"
    using shift_back_spec [OF gap_made [OF ok v(1)]] by auto
  have m: "add_mset (key, v) (mset (elements es)) = mset (elements (entries t))"
    using elements_update [of it "entries t" empty_entry] v es(4) by simp
  then have "Suc (length (elements es)) = length (elements (entries t))" by (metis size_add_mset size_mset)
  moreover have "mset (map fst ((key, v) # elements es)) = mset (map fst (elements (entries t)))"
    using arg_cong [OF m, of "image_mset fst"] by simp
  then have "distinct (map fst ((key, v) # elements es))" using t mset_eq_imp_distinct_iff by (fastforce simp: table_ok_def)
  ultimately have "table_ok hash (t\<lparr>entries := es, num_elements := num_elements t - 1\<rparr>)"
    using t es by (auto simp: table_ok_def shape_ok_def bucket_count_def)
  then show ?thesis using v es(1) m by (auto simp: erase_at_def)
qed

section \<open>Iteration\<close>

lemma skip_empty_spec:
  assumes "slots_ok h ml es" "i < length es"
  shows "\<exists>j. skip_empty es i = Inr j \<and> i \<le> j \<and> j < length es \<and> elements (drop i es) = elements (drop j es) \<and>
    (j = length es - 1 \<or> (\<exists>x. content (es ! j) = Some x))"
  using assms
proof (induction "length es - i" arbitrary: i)
  case (Suc k)
  show ?case
  proof (cases "Suc i = length es")
    case True
    then have "es ! i = special_end_entry" using slots_ok_end [OF Suc.prems(1)] by (metis diff_Suc_1)
    then show ?thesis using True Suc.prems(2) by (subst skip_empty.simps) auto
  next
    case False
    then have i: "Suc i < length es" using Suc.prems(2) by simp
    from slots_ok_slot(1) [OF Suc.prems(1) i] show ?thesis
    proof (cases rule: slot_cases)
      case 1
      then have "skip_empty es i = skip_empty es (Suc i)" using Suc.prems(2) by (subst skip_empty.simps) simp
      moreover have "elements (drop i es) = elements (drop (Suc i) es)"
        using 1 Suc.prems(2) by (simp flip: Cons_nth_drop_Suc)
      ultimately show ?thesis using Suc.hyps(1) [of "Suc i"] Suc.hyps(2) i Suc.prems(1) by fastforce
    next
      case (2 x d)
      then show ?thesis using Suc.prems(2) by (subst skip_empty.simps) auto
    qed
  qed
qed simp

lemma iterate_spec:
  assumes ok: "slots_ok h ml es"
  shows "i < length es \<Longrightarrow> i = length es - 1 \<or> (\<exists>x. content (es ! i) = Some x) \<Longrightarrow>
    iterate es (length es - 1) i = Inr (elements (drop i es))"
proof (induction "length es - i" arbitrary: i rule: less_induct)
  case less
  show ?case
  proof (cases "i = length es - 1")
    case True
    then have "drop i es = [special_end_entry]" using slots_ok_end [OF ok] less.prems(1)
      by (simp flip: Cons_nth_drop_Suc)
    then show ?thesis using True by (subst iterate.simps) simp
  next
    case False
    then obtain x where x: "content (es ! i) = Some x" using less.prems by blast
    have "Suc i < length es" using False less.prems by simp
    from skip_empty_spec [OF ok this] obtain j where j: "skip_empty es (Suc i) = Inr j" "Suc i \<le> j" "j < length es"
      "elements (drop (Suc i) es) = elements (drop j es)" "j = length es - 1 \<or> (\<exists>x. content (es ! j) = Some x)" by blast
    have "iterate es (length es - 1) j = Inr (elements (drop j es))" using less.hyps [of j] j(2,3,5) less.prems(1) by simp
    moreover have "elements (drop i es) = x # elements (drop (Suc i) es)"
      using x less.prems(1) by (simp flip: Cons_nth_drop_Suc)
    ultimately show ?thesis using False x j(1,4) less.prems(1) by (subst iterate.simps) (simp add: value_of_def)
  qed
qed

section \<open>The operations on the map\<close>

lemma table_map_Some: "table_ok hash t \<Longrightarrow> table_map t key = Some v \<longleftrightarrow> (key, v) \<in> set (elements (entries t))"
  by (simp add: table_map_def table_ok_def)

lemma table_map_key_at:
  assumes "table_ok hash t" "key_at (entries t) key it"
  obtains v where "content (entries t ! it) = Some (key, v)" "table_map t key = Some v"
  using assms by (auto simp: key_at_def table_map_Some elements_set)

lemma table_map_dom: "dom (table_map t) = fst ` set (elements (entries t))"
  by (simp add: table_map_def dom_map_of_conv_image_fst)

lemma table_map_update:
  assumes "table_ok hash t'" "table_ok hash t" "mset (elements (entries t')) = add_mset (k, v) (mset (elements (entries t)))"
  shows "table_map t' = (table_map t)(k \<mapsto> v)"
proof -
  have "table_map t' = map_of ((k, v) # elements (entries t))" unfolding table_map_def
    using assms mset_eq_imp_distinct_iff [of "map fst (elements (entries t'))" "map fst ((k, v) # elements (entries t))"]
    by (intro map_of_inject_set [THEN iffD2]) (auto simp: table_ok_def dest: arg_cong [of _ _ set_mset])
  then show ?thesis by (simp add: table_map_def)
qed

lemma find_key_spec:
  assumes t: "table_ok hash t"
  shows "\<exists>it. find_key hash t key = Inr it \<and> it \<le> end_position t \<and> (it = end_position t \<longleftrightarrow> table_map t key = None) \<and>
    (\<forall>v. table_map t key = Some v \<longrightarrow> content (entries t ! it) = Some (key, v)) \<and> (it \<noteq> end_position t \<longrightarrow> key_at (entries t) key it)"
proof -
  have ok: "slots_ok (home hash (prime_index t)) (max_lookups t) (entries t)" using t by (simp add: table_ok_def)
  have e: "end_position t = length (entries t) - 1" using t by (simp add: table_ok_def shape_ok_def end_position_def)
  from t show ?thesis
  proof (cases rule: probe_table [where key = key])
    case (found it)
    obtain v where v: "content (entries t ! it) = Some (key, v)" "table_map t key = Some v"
      using table_map_key_at [OF t found(2)] by blast
    have "it < end_position t" using key_at_slot [OF ok found(2)] e by (metis Suc_lessE diff_Suc_1 lessI)
    then show ?thesis using found v by (auto simp: find_key_def)
  next
    case (stopped it d)
    then have "key \<notin> dom (table_map t)" using key_at_elements table_map_dom by (metis stops_at_def)
    then show ?thesis using stopped(1) by (auto simp: find_key_def domIff)
  qed
qed

lemma table_map_erase:
  assumes "table_ok hash t'" "table_ok hash t" "add_mset (key, v) (mset (elements (entries t'))) = mset (elements (entries t))"
  shows "table_map t' = (table_map t)(key := None)"
proof -
  have "table_map t = (table_map t')(key \<mapsto> v)" using table_map_update [OF assms(2,1)] assms(3) by simp
  moreover have "mset (map fst (elements (entries t))) = mset (key # map fst (elements (entries t')))"
    using arg_cong [OF assms(3), of "image_mset fst"] by simp
  then have "distinct (key # map fst (elements (entries t')))"
    using assms(2) mset_eq_imp_distinct_iff by (fastforce simp: table_ok_def)
  then have "key \<notin> dom (table_map t')" by (simp add: table_map_dom)
  ultimately show ?thesis by (auto simp: fun_eq_iff domIff)
qed

lemma erase_key_spec:
  assumes t: "table_ok hash t" and v: "table_map t key = Some v"
  shows "\<exists>t'. erase_key hash t key = Inr (t', 1) \<and> table_ok hash t' \<and>
    add_mset (key, v) (mset (elements (entries t'))) = mset (elements (entries t)) \<and>
    table_map t' = (table_map t)(key := None)"
proof -
  obtain it where it: "find_key hash t key = Inr it" "it \<noteq> end_position t" "key_at (entries t) key it"
    using find_key_spec [OF t, of key] v by auto
  obtain t' w where t': "erase_at t it = Inr t'" "table_ok hash t'"
    "add_mset (key, w) (mset (elements (entries t'))) = mset (elements (entries t))"
    using erase_at_spec [OF t it(3)] by blast
  have "(key, w) \<in> set (elements (entries t))" by (metis t'(3) set_mset_mset union_single_eq_member)
  then have "w = v" using v table_map_Some [OF t] by (metis option.inject)
  then show ?thesis using it t' table_map_erase [OF t'(2) t t'(3)] by (auto simp: erase_key_def)
qed

lemma erase_key_absent:
  assumes "table_ok hash t" "table_map t key = None"
  shows "erase_key hash t key = Inr (t, 0)"
  using find_key_spec [OF assms(1), of key] assms(2) by (auto simp: erase_key_def)

lemma emplace_present:
  assumes t: "table_ok hash t" and v: "table_map t key = Some v"
  shows "\<exists>it. emplace hash max_entries t (key, w) = Inr (t, it, False)"
proof -
  from t show ?thesis
  proof (cases rule: probe_table [where key = key])
    case (found it)
    then show ?thesis by (simp add: emplace_def emplace_body_def)
  next
    case (stopped it d)
    then have "key \<notin> dom (table_map t)" using key_at_elements table_map_dom by (metis stops_at_def)
    then show ?thesis using v by auto
  qed
qed

text \<open>The hash table is a map.  On every table that satisfies the invariant, \<open>find\<close> answers the position of the
  element with the key if there is one and \<open>end()\<close> otherwise, and a loop over the table passes every
  element once.\<close>
lemma hash_table_lookup:
  assumes "table_ok hash t"
  shows "(\<exists>it. find_key hash t key = Inr it \<and>
      (case table_map t key of None \<Rightarrow> it = end_position t
       | Some v \<Rightarrow> it < end_position t \<and> content (entries t ! it) = Some (key, v))) \<and>
    (\<exists>xs. table_iterate t = Inr xs \<and> distinct (map fst xs) \<and> map_of xs = table_map t \<and> length xs = num_elements t)"
proof -
  have ok: "slots_ok (home hash (prime_index t)) (max_lookups t) (entries t)" using assms by (simp add: table_ok_def)
  have e: "end_position t = length (entries t) - 1" "0 < length (entries t)"
    using assms by (simp_all add: table_ok_def shape_ok_def end_position_def)
  obtain j where j: "skip_empty (entries t) 0 = Inr j" "j < length (entries t)" "elements (entries t) = elements (drop j (entries t))"
    "j = length (entries t) - 1 \<or> (\<exists>x. content (entries t ! j) = Some x)"
    using skip_empty_spec [OF ok e(2)] by auto
  have "table_iterate t = Inr (elements (entries t))"
    using iterate_spec [OF ok j(2,4)] j(1,3) e(1) by (simp add: table_iterate_def begin_position_def)
  moreover have "distinct (map fst (elements (entries t)))" "length (elements (entries t)) = num_elements t"
    using assms by (simp_all add: table_ok_def)
  ultimately show ?thesis using find_key_spec [OF assms, of key]
    by (auto simp: table_map_def split: option.splits intro: le_neq_implies_less)
qed

text \<open>C32. Insertion returns, whatever number of times the table has to grow, or memory is exhausted.  It keeps the
  invariant, adds the key with its value if the key is new and changes nothing otherwise, and the position
  it answers holds the element of the key.\<close>
theorem hash_table_emplace:
  assumes "table_ok hash t" "max_entries < 18446744073709551557"
  shows "emplace hash max_entries t (key, v) = Inl Bad_alloc \<or>
    (\<exists>t' it new. emplace hash max_entries t (key, v) = Inr (t', it, new) \<and> table_ok hash t' \<and>
      (new \<longleftrightarrow> table_map t key = None) \<and> table_map t' = (if new then (table_map t)(key \<mapsto> v) else table_map t) \<and>
      content (entries t' ! it) = Some (key, the (table_map t' key)))"
proof (cases "emplace hash max_entries t (key, v)")
  case (Inl e)
  then show ?thesis using emplace_emplaced [OF assms(2,1), of "(key, v)"] by (simp add: emplaced_def)
next
  case (Inr r)
  obtain t' it new where r: "r = (t', it, new)" by (cases r)
  have t': "table_ok hash t'" "key_at (entries t') key it" "new \<longleftrightarrow> key \<notin> dom (table_map t)"
    "mset (elements (entries t')) = (if new then {#(key, v)#} else {#}) + mset (elements (entries t))"
    using emplace_emplaced [OF assms(2,1), of "(key, v)"] Inr r by (simp_all add: emplaced_def table_map_dom)
  have "table_map t' = (if new then (table_map t)(key \<mapsto> v) else table_map t)"
  proof (cases new)
    case True
    then show ?thesis using table_map_update [OF t'(1) assms(1)] t'(4) by simp
  next
    case False
    then have "set (elements (entries t')) = set (elements (entries t))" using t'(4) by (auto dest: mset_eq_setD)
    then show ?thesis using False t'(1) assms(1) by (auto simp: table_map_def table_ok_def intro!: map_of_inject_set [THEN iffD2])
  qed
  moreover obtain w where "content (entries t' ! it) = Some (key, w)" "table_map t' key = Some w"
    using table_map_key_at [OF t'(1,2)] by blast
  ultimately show ?thesis using Inr r t' by (auto simp: domIff)
qed

text \<open>C33. Removal closes the gap it leaves: it keeps the invariant, removes the key and nothing else, and answers the
  number of removed elements.\<close>
theorem hash_table_erase:
  assumes "table_ok hash t"
  shows "\<exists>t'. erase_key hash t key = Inr (t', if table_map t key = None then 0 else 1) \<and> table_ok hash t' \<and>
    table_map t' = (table_map t)(key := None)"
  using erase_key_spec [OF assms, of key] erase_key_absent [OF assms, of key] assms by (cases "table_map t key") auto

section \<open>Colliding keys\<close>

lemma elements_positions: "length (elements es) = card {i. i < length es \<and> content (es ! i) \<noteq> None}"
proof -
  have "length (elements es) = length (filter (\<lambda>e. content e \<noteq> None) es)"
    by (induction es) (auto split: option.splits)
  then show ?thesis by (simp add: length_filter_conv_card)
qed


lemma hash_table_lookup_example:
  "\<exists>it. find_key id (default_table :: (nat, nat) hash_table) 3 = Inr it \<and> it = 3"
  using hash_table_lookup [OF default_table_ok, of id 3]
  by (auto simp: table_map_def default_table_def fresh_entries_ok end_position_def min_lookups_def)

text \<open>A table of 37 buckets whose \<open>n\<close> keys all have the hash value 0.\<close>

definition collision_table :: "(nat \<Rightarrow> 'v) \<Rightarrow> nat \<Rightarrow> (nat, 'v) hash_table" where
  "collision_table f n = \<lparr>entries = map (\<lambda>d. filled_entry (int d) (d, f d)) [0..<n] @ replicate (41 - n) empty_entry @ [special_end_entry],
     num_slots_minus_one = 36, prime_index = 10, max_lookups = 5, num_elements = n\<rparr>"

lemma collision_elements: "elements (map (\<lambda>d. filled_entry (int d) (d, f d)) xs) = map (\<lambda>d. (d, f d)) xs"
  by (induction xs) simp_all

lemma collision_table_ok:
  assumes "n \<le> 5" shows "table_ok (\<lambda>_. 0) (collision_table f n)"
proof -
  have p: "compute_max_lookups 37 = 5" "prime_list ! 9 = 37"
    by (simp_all add: compute_max_lookups_def log2_def fill_below_def log2_table_def min_lookups_def Let_def prime_list_def)
  have h: "index_for_hash 10 0 = 0" by (simp add: index_for_hash_def mod_functions_primes mod_function_def)
  have "slots_ok (\<lambda>_. 0) 5 (entries (collision_table f n))"
    using assms by (auto simp: slots_ok_def collision_table_def nth_append slot_ok_def)
  then show ?thesis using assms p h
    by (simp add: table_ok_def shape_ok_def collision_table_def bucket_count_def prime_list_length collision_elements comp_def)
qed

lemma hash_table_emplace_witness:
  "\<exists>t' it. emplace (\<lambda>_. 0) 100 (collision_table id 0) (3, 7) = Inr (t', it, True) \<and> table_map t' = [3 \<mapsto> 7]"
proof -
  have "mod_functions ! 10 = 37" by (simp add: mod_functions_def)
  then have "emplace (\<lambda>_. 0) 100 (collision_table id 0) (3, 7) \<noteq> Inl Bad_alloc"
    by (simp add: emplace_def emplace_body_def collision_table_def probe.simps [of _ _ 0] index_for_hash_def mod_function_def
      emplace_new_key_def Let_def bucket_count_def nth_append)
  moreover have "table_map (collision_table id 0) = Map.empty"
    by (simp add: table_map_def collision_table_def)
  ultimately show ?thesis using hash_table_emplace [OF collision_table_ok [of 0 id], of 100 3 7] by fastforce
qed


lemma hash_table_erase_witness:
  "\<exists>t'. erase_key id (default_table :: (nat, nat) hash_table) 3 = Inr (t', 0)"
  using hash_table_erase [OF default_table_ok, of id 3]
  by (auto simp: table_map_def default_table_def fresh_entries_ok)

end
