(* ===== verification/AddressSpace.thy ===== *)
theory AddressSpace
  imports HashTableMap
begin

text \<open>
  The address space of a host (\<open>local_address_space\<close>, \<open>evicting_allocator\<close>, \<open>host_allocator\<close>): a table from the global ids of
  objects to futures of handles, over the hash table of theory \<open>DenseHashTable\<close>.  Handles are shared pointers to
  address entries, which own a memory block.  An address entry is a number, its page; \<open>blocks\<close> holds the size of the
  block of each live page (\<open>None\<close> inside for a null block), \<open>held\<close> the number of handles outside the table.
  A page dies with its last handle.  The operations run under the lock of the table, except for the page fault handler, which
  \<open>resolve_object\<close> calls without it.
\<close>

section \<open>State\<close>

datatype page_future = Pending_page | Ready_page nat | Failed_page qerror

record addr_space =
  entry_table :: "(nat, page_future) hash_table"
  blocks :: "nat \<rightharpoonup> 64 word option"
  held :: "nat \<Rightarrow> nat"
  next_page :: nat

text \<open>What the code gets from outside: the hash of global ids, the memory for the table, and the allocator below, which
  answers a block, answers null or throws, depending on the blocks that are allocated.\<close>

record platform =
  hash_gid :: "nat \<Rightarrow> nat"
  table_memory :: nat
  underlying_allocate :: "(nat \<rightharpoonup> 64 word option) \<Rightarrow> 64 word \<Rightarrow> 64 word \<Rightarrow> 64 word option result"

definition futures :: "addr_space \<Rightarrow> page_future list" where
  "futures s = map snd (elements (entries (entry_table s)))"

definition use_count :: "addr_space \<Rightarrow> nat \<Rightarrow> nat" where
  "use_count s p = count_list (futures s) (Ready_page p) + held s p"

definition release :: "nat \<Rightarrow> addr_space \<Rightarrow> addr_space" where
  "release p s = (if use_count s p = 0 then s\<lparr>blocks := (blocks s)(p := None)\<rparr> else s)"

section \<open>Handles\<close>

definition handle_data :: "addr_space \<Rightarrow> nat \<Rightarrow> 64 word result" where
  "handle_data s p = (case blocks s p of Some (Some n) \<Rightarrow> Inr n | _ \<Rightarrow> Inl Undefined_behaviour)"

definition handle_unique :: "addr_space \<Rightarrow> nat \<Rightarrow> bool" where
  "handle_unique s p \<longleftrightarrow> use_count s p = 1"

definition copy_handle :: "nat \<Rightarrow> addr_space \<Rightarrow> addr_space" where
  "copy_handle p s = s\<lparr>held := (held s)(p := held s p + 1)\<rparr>"

definition free_handle :: "nat \<Rightarrow> addr_space \<Rightarrow> addr_space" where
  "free_handle p s = release p (s\<lparr>held := (held s)(p := held s p - 1)\<rparr>)"

section \<open>Eviction\<close>

lemma shift_back_length: "shift_back es i = Inr es' \<Longrightarrow> length es' = length es"
  by (induction es i arbitrary: es' rule: shift_back.induct)
    (subst (asm) shift_back.simps, fastforce split: if_splits simp: rbind_Inr_iff)

lemma erase_key_length: "erase_key hash t k = Inr (t', n) \<Longrightarrow> length (entries t') = length (entries t)"
  by (auto simp: erase_key_def erase_at_def rbind_Inr_iff split: if_splits dest!: shift_back_length)

lemma next_position_forward: "next_position t it = Inr it' \<Longrightarrow> it < it'"
  by (auto simp: next_position_def dest!: skip_empty_forward)

text \<open>The loop of \<open>evict_objects\<close>: the end is computed once, and after a removal the iterator goes on from the same slot, so that the
  element that moved into it is passed over.\<close>

function evict_from ::
  "platform \<Rightarrow> nat \<Rightarrow> 64 word \<Rightarrow> nat \<Rightarrow> 64 word \<Rightarrow> addr_space \<Rightarrow> (addr_space \<times> bool) result" where
  "evict_from pf last_it hint it freed s =
     (if it = last_it then Inr (s, 0 < freed)
      else if length (entries (entry_table s)) \<le> it then Inl Undefined_behaviour
      else rbind (value_of (entries (entry_table s) ! it)) (\<lambda>entry. case snd entry of
        Failed_page e \<Rightarrow> Inl e
      | Pending_page \<Rightarrow> rbind (next_position (entry_table s) it) (\<lambda>it'. evict_from pf last_it hint it' freed s)
      | Ready_page p \<Rightarrow>
          if handle_unique s p
          then rbind (handle_data s p) (\<lambda>n.
            rbind (erase_key (hash_gid pf) (entry_table s) (fst entry)) (\<lambda>r.
              let s' = release p (s\<lparr>entry_table := fst r\<rparr>)
              in if hint \<le> freed + n then Inr (s', True)
                 else rbind (next_position (fst r) it) (\<lambda>it'. evict_from pf last_it hint it' (freed + n) s')))
          else rbind (next_position (entry_table s) it) (\<lambda>it'. evict_from pf last_it hint it' freed s)))"
  by pat_completeness auto
termination
  by (relation "measure (\<lambda>(pf, last_it, hint, it, freed, s). length (entries (entry_table s)) - it)")
    (auto simp: release_def dest!: erase_key_length next_position_forward)

declare evict_from.simps [simp del]

definition evict_objects :: "platform \<Rightarrow> 64 word \<Rightarrow> addr_space \<Rightarrow> (addr_space \<times> bool) result" where
  "evict_objects pf hint s = rbind (begin_position (entry_table s))
     (\<lambda>it. evict_from pf (end_position (entry_table s)) hint it 0 s)"

section \<open>Allocation\<close>

definition is_power_of_two :: "64 word \<Rightarrow> bool" where
  "is_power_of_two x \<longleftrightarrow> x \<noteq> 0 \<and> and x (x - 1) = 0"

text \<open>The allocator of the host; \<open>memalign\<close> tells whether \<open>posix_memalign\<close> succeeds.\<close>

definition host_allocate ::
  "((nat \<rightharpoonup> 64 word option) \<Rightarrow> 64 word \<Rightarrow> 64 word \<Rightarrow> bool) \<Rightarrow>
     (nat \<rightharpoonup> 64 word option) \<Rightarrow> 64 word \<Rightarrow> 64 word \<Rightarrow> 64 word option result" where
  "host_allocate memalign bs n alignment =
     (if alignment mod 8 \<noteq> 0 then Inl Assertion_failed
      else if \<not> is_power_of_two alignment then Inl Assertion_failed
      else if memalign bs n alignment then Inr (Some n) else Inl Bad_alloc)"

text \<open>The loop of \<open>evicting_allocator::allocate\<close>; it evicts with the hint 0, that is one page per turn.\<close>

fun evicting_allocate ::
  "nat \<Rightarrow> platform \<Rightarrow> 64 word \<Rightarrow> 64 word \<Rightarrow> addr_space \<Rightarrow> (addr_space \<times> 64 word option) result" where
  "evicting_allocate 0 pf n alignment s = Inl Diverged"
| "evicting_allocate (Suc fuel) pf n alignment s =
     rbind (underlying_allocate pf (blocks s) n alignment) (\<lambda>block. case block of
       Some b \<Rightarrow> Inr (s, Some b)
     | None \<Rightarrow> rbind (evict_objects pf 0 s) (\<lambda>r.
         if snd r then evicting_allocate fuel pf n alignment (fst r) else Inr (fst r, None)))"

definition allocate_page :: "platform \<Rightarrow> 64 word \<Rightarrow> 64 word \<Rightarrow> addr_space \<Rightarrow> (addr_space \<times> nat) result" where
  "allocate_page pf n alignment s =
     rbind (evicting_allocate (Suc (num_elements (entry_table s))) pf n alignment s) (\<lambda>r.
       let s' = fst r; p = next_page s'
       in Inr (s'\<lparr>blocks := (blocks s')(p \<mapsto> snd r), held := (held s')(p := 1), next_page := p + 1\<rparr>, p))"

section \<open>Objects\<close>

text \<open>Storing a future for a free address; a ready future takes over a handle from outside the table.\<close>

definition store_entry :: "platform \<Rightarrow> nat \<Rightarrow> page_future \<Rightarrow> addr_space \<Rightarrow> addr_space result" where
  "store_entry pf obj future s =
     rbind (emplace (hash_gid pf) (table_memory pf) (entry_table s) (obj, future)) (\<lambda>(t, it, addr_was_free).
       if \<not> addr_was_free then Inl Assertion_failed
       else Inr (case future of
           Ready_page p \<Rightarrow> s\<lparr>entry_table := t, held := (held s)(p := held s p - 1)\<rparr>
         | _ \<Rightarrow> s\<lparr>entry_table := t\<rparr>))"

definition register_page :: "platform \<Rightarrow> nat \<Rightarrow> nat \<Rightarrow> addr_space \<Rightarrow> addr_space result" where
  "register_page pf obj p s = store_entry pf obj (Ready_page p) s"

definition lookup_entry :: "platform \<Rightarrow> nat \<Rightarrow> addr_space \<Rightarrow> page_future option result" where
  "lookup_entry pf obj s = rbind (find_key (hash_gid pf) (entry_table s) obj) (\<lambda>it.
     if it = end_position (entry_table s) then Inr None
     else rbind (value_of (entries (entry_table s) ! it)) (\<lambda>entry. Inr (Some (snd entry))))"

definition free_object :: "platform \<Rightarrow> nat \<Rightarrow> addr_space \<Rightarrow> addr_space result" where
  "free_object pf obj s = rbind (lookup_entry pf obj s) (\<lambda>entry.
     rbind (erase_key (hash_gid pf) (entry_table s) obj) (\<lambda>r.
       let s' = s\<lparr>entry_table := fst r\<rparr>
       in Inr (case entry of Some (Ready_page p) \<Rightarrow> release p s' | _ \<Rightarrow> s')))"

text \<open>The future that \<open>resolve_object\<close> answers: a handle, an exception, or one that is not ready yet.\<close>

datatype resolution = Resolved nat | Exceptional qerror | Waiting

text \<open>The future of an entry, after its continuation has copied the handle.\<close>

definition continue_with :: "page_future \<Rightarrow> addr_space \<Rightarrow> addr_space \<times> resolution" where
  "continue_with future s = (case future of
       Ready_page p \<Rightarrow> (copy_handle p s, Resolved p)
     | Failed_page e \<Rightarrow> (s, Exceptional e)
     | Pending_page \<Rightarrow> (s, Waiting))"

type_synonym page_fault_handler = "addr_space \<Rightarrow> nat \<Rightarrow> (addr_space \<times> page_future) result"

text \<open>The part of \<open>resolve_object\<close> after a page fault, under the lock again.\<close>

definition finish_page_fault :: "platform \<Rightarrow> nat \<Rightarrow> page_future \<Rightarrow> addr_space \<Rightarrow> (addr_space \<times> resolution) result" where
  "finish_page_fault pf obj future s =
     rbind (store_entry pf obj future s) (\<lambda>s'. Inr (continue_with future s'))"

definition convert_exception :: "'a result \<Rightarrow> 'a result" where
  "convert_exception r = (case r of Inl e \<Rightarrow> if e \<in> {Assertion_failed, Undefined_behaviour, Diverged} then Inl e else Inl Thrown_int
     | Inr x \<Rightarrow> Inr x)"

definition resolve_object ::
  "platform \<Rightarrow> page_fault_handler \<Rightarrow> nat \<Rightarrow> addr_space \<Rightarrow> (addr_space \<times> resolution) result" where
  "resolve_object pf on_page_fault obj s =
     rbind (lookup_entry pf obj s) (\<lambda>entry. case entry of
       Some (Failed_page e) \<Rightarrow> Inl e
     | Some future \<Rightarrow> Inr (continue_with future s)
     | None \<Rightarrow> convert_exception (rbind (on_page_fault s obj) (\<lambda>r. finish_page_fault pf obj (snd r) (fst r))))"

definition try_resolve_object :: "platform \<Rightarrow> nat \<Rightarrow> addr_space \<Rightarrow> (addr_space \<times> nat option) result" where
  "try_resolve_object pf obj s =
     rbind (lookup_entry pf obj s) (\<lambda>entry. case entry of
       Some (Ready_page p) \<Rightarrow> Inr (copy_handle p s, Some p)
     | Some (Failed_page e) \<Rightarrow> Inl e
     | _ \<Rightarrow> Inr (s, None))"

text \<open>The handlers: the default one of an address space, and the one a local address space installs in its host's.\<close>

definition default_page_fault :: page_fault_handler where
  "default_page_fault s obj = Inr (s, Failed_page (Runtime_error ''Page fault''))"

definition local_page_fault :: "platform \<Rightarrow> (nat \<Rightarrow> bool) \<Rightarrow> page_fault_handler \<Rightarrow> page_fault_handler" where
  "local_page_fault pf has_data handler s obj =
     (if \<not> has_data obj then rbind (allocate_page pf 0 8 s) (\<lambda>(s', p). Inr (s', Ready_page p)) else handler s obj)"

text \<open>A page fault that was handled asynchronously becomes ready: the future in the table changes its state.\<close>

definition map_values :: "('k \<Rightarrow> 'v \<Rightarrow> 'v) \<Rightarrow> ('k, 'v) hash_table \<Rightarrow> ('k, 'v) hash_table" where
  "map_values g t = t\<lparr>entries := map (\<lambda>e. e\<lparr>content := map_option (\<lambda>(k, v). (k, g k v)) (content e)\<rparr>) (entries t)\<rparr>"

definition complete_page_fault :: "nat \<Rightarrow> nat \<Rightarrow> addr_space \<Rightarrow> addr_space" where
  "complete_page_fault obj p s =
     s\<lparr>entry_table := map_values (\<lambda>k v. if k = obj \<and> v = Pending_page then Ready_page p else v) (entry_table s),
       held := (held s)(p := held s p - 1)\<rparr>"

text \<open>The steps of the threads that use an address space.  Each runs under the lock of the table or touches only
  reference counts; \<open>resolve_object\<close> takes several, with the steps of other threads between them.\<close>

inductive space_step :: "platform \<Rightarrow> addr_space \<Rightarrow> addr_space \<Rightarrow> bool" for pf where
  allocate: "allocate_page pf n alignment s = Inr (s', p) \<Longrightarrow> space_step pf s s'"
| store: "store_entry pf obj future s = Inr s' \<Longrightarrow> (\<And>p. future = Ready_page p \<Longrightarrow> 0 < held s p) \<Longrightarrow> space_step pf s s'"
| resolve: "lookup_entry pf obj s = Inr (Some future) \<Longrightarrow> space_step pf s (fst (continue_with future s))"
| complete: "lookup_entry pf obj s = Inr (Some Pending_page) \<Longrightarrow> 0 < held s p \<Longrightarrow> space_step pf s (complete_page_fault obj p s)"
| remove: "free_object pf obj s = Inr s' \<Longrightarrow> space_step pf s s'"
| drop: "0 < held s p \<Longrightarrow> space_step pf s (free_handle p s)"

definition empty_space :: addr_space where
  "empty_space = \<lparr>entry_table = default_table, blocks = Map.empty, held = (\<lambda>p. 0), next_page = 0\<rparr>"

end
