(* ===== verification/AddressSpaceSafety.thy ===== *)
theory AddressSpaceSafety
  imports AddressSpace
begin

text \<open>
  The invariant of the address space, that a page is allocated exactly as long as handles refer to it, and what
  eviction, allocation and resolution do.
\<close>

section \<open>Reference counts\<close>

definition space_ok :: "platform \<Rightarrow> addr_space \<Rightarrow> bool" where
  "space_ok pf s \<longleftrightarrow> table_ok (hash_gid pf) (entry_table s) \<and> (\<forall>p. blocks s p \<noteq> None \<longleftrightarrow> 0 < use_count s p) \<and>
     (\<forall>p \<ge> next_page s. blocks s p = None)"

abbreviation entry_map :: "addr_space \<Rightarrow> nat \<rightharpoonup> page_future" where
  "entry_map s \<equiv> table_map (entry_table s)"

lemma use_count_simps [simp]:
  "use_count (s\<lparr>blocks := b\<rparr>) p = use_count s p" "use_count (s\<lparr>next_page := n\<rparr>) p = use_count s p"
  "use_count (s\<lparr>held := h\<rparr>) p = count_list (futures s) (Ready_page p) + h p"
  by (simp_all add: use_count_def futures_def)

lemma futures_simps [simp]:
  "futures (s\<lparr>blocks := b\<rparr>) = futures s" "futures (s\<lparr>next_page := n\<rparr>) = futures s" "futures (s\<lparr>held := h\<rparr>) = futures s"
  by (simp_all add: futures_def)

lemma space_ok_dead: "space_ok pf s \<Longrightarrow> blocks s p = None \<longleftrightarrow> use_count s p = 0"
  unfolding space_ok_def by (metis gr0I less_numeral_extra(3))

lemma release_simps [simp]:
  "entry_table (release p s) = entry_table s" "held (release p s) = held s" "next_page (release p s) = next_page s"
  "use_count (release p s) q = use_count s q"
  by (simp_all add: release_def)

lemma release_counts:
  assumes "\<And>p. p \<noteq> q \<Longrightarrow> blocks s p \<noteq> None \<longleftrightarrow> 0 < use_count s p" "blocks s q \<noteq> None"
  shows "blocks (release q s) p \<noteq> None \<longleftrightarrow> 0 < use_count s p"
  using assms by (cases "p = q") (auto simp: release_def)

lemma futures_count: "count_list (futures s) f = count (image_mset snd (mset (elements (entries (entry_table s))))) f"
  by (simp add: futures_def flip: count_mset)

lemma use_count_erased:
  assumes "add_mset (k, f) (mset (elements (entries t))) = mset (elements (entries (entry_table s)))"
  shows "use_count s p = use_count (s\<lparr>entry_table := t\<rparr>) p + (if f = Ready_page p then 1 else 0)"
  by (simp add: use_count_def futures_count flip: assms)

lemma use_count_entry: "space_ok pf s \<Longrightarrow> entry_map s obj = Some (Ready_page p) \<Longrightarrow> held s p < use_count s p"
  by (auto simp: space_ok_def table_map_Some use_count_def futures_def image_iff count_list_0_iff intro!: gr0I)
    (metis snd_conv)

lemma entry_map_use: "space_ok pf s \<Longrightarrow> entry_map s obj = Some (Ready_page p) \<Longrightarrow> blocks s p \<noteq> None"
  using use_count_entry [of pf s obj p] by (simp add: space_ok_def)

lemma held_alive: "space_ok pf s \<Longrightarrow> 0 < held s p \<Longrightarrow> blocks s p \<noteq> None"
  by (simp add: space_ok_def use_count_def)

text \<open>Erasing an entry and releasing its page.\<close>

lemma erase_entry_ok:
  assumes ok: "space_ok pf s" and f: "entry_map s obj = Some f"
  obtains t where "erase_key (hash_gid pf) (entry_table s) obj = Inr (t, 1)"
    "space_ok pf (case f of Ready_page p \<Rightarrow> release p (s\<lparr>entry_table := t\<rparr>) | _ \<Rightarrow> s\<lparr>entry_table := t\<rparr>)"
    "table_map t = (entry_map s)(obj := None)" "Suc (num_elements t) = num_elements (entry_table s)"
    "\<And>p. use_count s p = use_count (s\<lparr>entry_table := t\<rparr>) p + (if f = Ready_page p then 1 else 0)"
proof -
  have t: "table_ok (hash_gid pf) (entry_table s)" using ok by (simp add: space_ok_def)
  from erase_key_spec [OF t f] obtain t' where t': "erase_key (hash_gid pf) (entry_table s) obj = Inr (t', 1)"
    "table_ok (hash_gid pf) t'" "add_mset (obj, f) (mset (elements (entries t'))) = mset (elements (entries (entry_table s)))"
    "table_map t' = (entry_map s)(obj := None)" by blast
  note u = use_count_erased [OF t'(3)]
  let ?s = "s\<lparr>entry_table := t'\<rparr>"
  have alive: "blocks s p \<noteq> None \<longleftrightarrow> 0 < use_count s p" for p using ok by (simp add: space_ok_def)
  have "space_ok pf (case f of Ready_page p \<Rightarrow> release p ?s | _ \<Rightarrow> ?s)"
  proof (cases "\<exists>p. f = Ready_page p")
    case True
    then obtain q where q: "f = Ready_page q" by blast
    have "blocks (release q ?s) p \<noteq> None \<longleftrightarrow> 0 < use_count (release q ?s) p" for p
      unfolding release_simps by (rule release_counts) (use alive u q in auto)
    then show ?thesis using q t'(2) ok by (auto simp: space_ok_def release_def)
  next
    case False
    then show ?thesis using t'(2) ok alive u by (auto simp: space_ok_def split: page_future.splits)
  qed
  moreover have "Suc (num_elements t') = num_elements (entry_table s)"
    using t t'(2) arg_cong [OF t'(3), of size] by (simp add: table_ok_def)
  ultimately show thesis using that t' u by blast
qed

section \<open>Eviction\<close>

text \<open>What eviction may do: remove entries whose pages nobody else refers to.\<close>

definition evicted :: "platform \<Rightarrow> addr_space \<Rightarrow> addr_space \<Rightarrow> bool" where
  "evicted pf s s' \<longleftrightarrow> space_ok pf s' \<and> held s' = held s \<and> next_page s' = next_page s \<and>
     (\<forall>obj. entry_map s' obj = entry_map s obj \<or>
       entry_map s' obj = None \<and> (\<exists>p. entry_map s obj = Some (Ready_page p) \<and> held s p = 0)) \<and>
     (\<forall>p. blocks s' p = blocks s p \<or> blocks s' p = None \<and> held s p = 0)"

lemma evicted_refl: "space_ok pf s \<Longrightarrow> evicted pf s s"
  by (simp add: evicted_def)

lemma evicted_trans: "evicted pf s s' \<Longrightarrow> evicted pf s' s'' \<Longrightarrow> evicted pf s s''"
  unfolding evicted_def by (intro conjI allI; metis)

lemma evicted_entry:
  assumes ok: "space_ok pf s" and f: "entry_map s obj = Some (Ready_page p)" and one: "handle_unique s p"
    and t: "erase_key (hash_gid pf) (entry_table s) obj = Inr (t, n)"
  shows "evicted pf s (release p (s\<lparr>entry_table := t\<rparr>))" "Suc (num_elements t) = num_elements (entry_table s)"
proof -
  from ok f obtain t' where t': "erase_key (hash_gid pf) (entry_table s) obj = Inr (t', 1)"
    "space_ok pf (release p (s\<lparr>entry_table := t'\<rparr>))" "table_map t' = (entry_map s)(obj := None)"
    "Suc (num_elements t') = num_elements (entry_table s)"
    by (rule erase_entry_ok) auto
  have "t' = t" using t t'(1) by simp
  moreover have "held s p = 0" using use_count_entry [OF ok f] one by (simp add: handle_unique_def)
  ultimately show "evicted pf s (release p (s\<lparr>entry_table := t\<rparr>))" "Suc (num_elements t) = num_elements (entry_table s)"
    using t' f by (auto simp: evicted_def release_def)
qed

lemma entry_at_map:
  assumes "space_ok pf s" "it < length (entries (entry_table s))" "value_of (entries (entry_table s) ! it) = Inr x"
  shows "entry_map s (fst x) = Some (snd x)"
proof -
  have "x \<in> set (elements (entries (entry_table s)))"
    using assms(2,3) by (auto simp: elements_set value_of_def split: option.splits)
  then show ?thesis using assms(1) by (cases x) (auto simp: space_ok_def table_map_Some)
qed

lemma evict_from_evicted:
  "space_ok pf s \<Longrightarrow> evict_from pf last_it hint it freed s = Inr (s', b) \<Longrightarrow> evicted pf s s'"
proof (induction pf last_it hint it freed s rule: evict_from.induct)
  case (1 pf last_it hint it freed s)
  show ?case
  proof (cases "it = last_it")
    case True
    then show ?thesis using "1.prems" by (simp add: evict_from.simps [of pf last_it] evicted_refl)
  next
    case False
    with "1.prems"(2) obtain x where x: "it < length (entries (entry_table s))" "value_of (entries (entry_table s) ! it) = Inr x"
      by (subst (asm) evict_from.simps) (auto split: if_splits simp: rbind_Inr_iff)
    note entry = entry_at_map [OF "1.prems"(1) x]
    have keep: "evicted pf s s'" if "next_position (entry_table s) it = Inr it'" "evict_from pf last_it hint it' freed s = Inr (s', b)"
      "snd x = Pending_page \<or> (\<exists>p. snd x = Ready_page p \<and> \<not> handle_unique s p)" for it'
      using that "1.IH"(1,3) False x "1.prems"(1) by (cases x) (auto simp: not_le)
    show ?thesis
    proof (cases "snd x")
      case Pending_page
      then show ?thesis using "1.prems"(2) keep False x by (subst (asm) evict_from.simps) (auto simp: rbind_Inr_iff)
    next
      case (Failed_page e)
      then show ?thesis using "1.prems"(2) False x by (subst (asm) evict_from.simps) simp
    next
      case (Ready_page p)
      show ?thesis
      proof (cases "handle_unique s p")
        case False
        then show ?thesis using Ready_page "1.prems"(2) keep \<open>it \<noteq> last_it\<close> x
          by (subst (asm) evict_from.simps) (auto simp: rbind_Inr_iff)
      next
        case True
        let ?rest = "\<lambda>n r. let s' = release p (s\<lparr>entry_table := fst r\<rparr>)
              in if hint \<le> freed + n then Inr (s', True)
                 else rbind (next_position (fst r) it) (\<lambda>it'. evict_from pf last_it hint it' (freed + n) s')"
        have "rbind (handle_data s p) (\<lambda>n. rbind (erase_key (hash_gid pf) (entry_table s) (fst x)) (?rest n)) = Inr (s', b)"
          using "1.prems"(2) False x Ready_page True by (subst (asm) evict_from.simps) simp
        then obtain n t m where t: "handle_data s p = Inr n" "erase_key (hash_gid pf) (entry_table s) (fst x) = Inr (t, m)"
          "?rest n (t, m) = Inr (s', b)"
          by (auto simp: rbind_Inr_iff)
        have step: "evicted pf s (release p (s\<lparr>entry_table := t\<rparr>))"
          using evicted_entry [OF "1.prems"(1) _ True t(2)] entry Ready_page by simp
        show ?thesis
        proof (cases "hint \<le> freed + n")
          case True
          then show ?thesis using t(3) step by simp
        next
          case f: False
          then obtain it' where it': "next_position t it = Inr it'"
            "evict_from pf last_it hint it' (freed + n) (release p (s\<lparr>entry_table := t\<rparr>)) = Inr (s', b)"
            using t(3) by (auto simp: Let_def rbind_Inr_iff)
          have "space_ok pf (release p (s\<lparr>entry_table := t\<rparr>))" using step by (simp add: evicted_def)
          then have "evicted pf (release p (s\<lparr>entry_table := t\<rparr>)) s'"
            using "1.IH"(2) False x Ready_page True t(1,2) f it' by (cases x) (auto simp: not_le)
          with step show ?thesis by (rule evicted_trans)
        qed
      qed
    qed
  qed
qed

text \<open>With the hint 0 at most one page goes; nothing goes only if every page is in use or not ready.\<close>

definition evictable :: "addr_space \<Rightarrow> nat \<times> page_future \<Rightarrow> bool" where
  "evictable s x \<longleftrightarrow> (\<exists>p. snd x = Ready_page p \<and> handle_unique s p)"

lemma evict_from_one:
  assumes "space_ok pf s" "evict_from pf last_it 0 it 0 s = Inr (s', b)"
  shows "b \<and> Suc (num_elements (entry_table s')) = num_elements (entry_table s) \<or> \<not> b \<and> s' = s"
  using assms
proof (induction "length (entries (entry_table s)) - it" arbitrary: it rule: less_induct)
  case less
  show ?case
  proof (cases "it = last_it")
    case True
    then show ?thesis using less.prems by (simp add: evict_from.simps [of pf last_it])
  next
    case False
    with less.prems(2) obtain x where x: "it < length (entries (entry_table s))" "value_of (entries (entry_table s) ! it) = Inr x"
      by (subst (asm) evict_from.simps) (auto split: if_splits simp: rbind_Inr_iff)
    note entry = entry_at_map [OF less.prems(1) x]
    show ?thesis
    proof (cases "evictable s x")
      case True
      then obtain p where p: "snd x = Ready_page p" "handle_unique s p" by (auto simp: evictable_def)
      then obtain t m where t: "erase_key (hash_gid pf) (entry_table s) (fst x) = Inr (t, m)"
        "b" "s' = release p (s\<lparr>entry_table := t\<rparr>)"
        using less.prems(2) False x by (subst (asm) evict_from.simps) (auto simp: rbind_Inr_iff Let_def)
      then show ?thesis using evicted_entry(2) [OF less.prems(1) _ p(2) t(1)] entry p(1) by simp
    next
      case no: False
      then obtain it' where it': "next_position (entry_table s) it = Inr it'" "evict_from pf last_it 0 it' 0 s = Inr (s', b)"
        using less.prems(2) False x by (subst (asm) evict_from.simps)
          (auto simp: rbind_Inr_iff evictable_def split: page_future.splits)
      then show ?thesis using less.hyps [OF _ less.prems(1) it'(2)] next_position_forward [OF it'(1)] x(1) by simp
    qed
  qed
qed

lemma evict_from_none:
  assumes "space_ok pf s" "slots_ok h ml (entries (entry_table s))"
  shows "it < length (entries (entry_table s)) \<Longrightarrow> evict_from pf (length (entries (entry_table s)) - 1) 0 it 0 s = Inr (s', False) \<Longrightarrow>
    x \<in> set (elements (drop it (entries (entry_table s)))) \<Longrightarrow> \<not> evictable s x"
proof (induction "length (entries (entry_table s)) - it" arbitrary: it rule: less_induct)
  case less
  let ?es = "entries (entry_table s)"
  show ?case
  proof (cases "it = length ?es - 1")
    case True
    then have "drop it ?es = [special_end_entry]" using slots_ok_end [OF assms(2)] less.prems(1)
      by (simp flip: Cons_nth_drop_Suc)
    then show ?thesis using less.prems(3) by simp
  next
    case False
    with less.prems(2) obtain y where y: "value_of (?es ! it) = Inr y"
      by (subst (asm) evict_from.simps) (auto split: if_splits simp: rbind_Inr_iff)
    have no: "\<not> evictable s y"
    proof
      assume "evictable s y"
      then show False using less.prems(1,2) False y
        by (subst (asm) evict_from.simps) (auto simp: rbind_Inr_iff Let_def evictable_def)
    qed
    then obtain it' where it': "next_position (entry_table s) it = Inr it'" "evict_from pf (length ?es - 1) 0 it' 0 s = Inr (s', False)"
      using less.prems(1,2) False y by (subst (asm) evict_from.simps)
        (auto simp: rbind_Inr_iff evictable_def split: page_future.splits)
    have "Suc it < length ?es" using False less.prems(1) by simp
    from skip_empty_spec [OF assms(2) this] it'(1) have skip: "Suc it \<le> it'" "it' < length ?es"
      "elements (drop (Suc it) ?es) = elements (drop it' ?es)" by (auto simp: next_position_def)
    have "content (?es ! it) = Some y" using y by (simp add: value_of_def split: option.splits)
    then have "elements (drop it ?es) = y # elements (drop (Suc it) ?es)"
      using less.prems(1) by (simp flip: Cons_nth_drop_Suc)
    then have "x = y \<or> x \<in> set (elements (drop it' ?es))" using less.prems(3) skip(3) by simp
    moreover have "length ?es - it' < length ?es - it" using skip(1) less.prems(1) by simp
    ultimately show ?thesis using no less.hyps [OF _ skip(2) it'(2)] by blast
  qed
qed

lemma evict_objects_evicted:
  assumes "space_ok pf s" "evict_objects pf hint s = Inr (s', b)"
  shows "evicted pf s s'"
  using assms evict_from_evicted by (fastforce simp: evict_objects_def rbind_Inr_iff)

lemma evict_objects_one:
  assumes "space_ok pf s" "evict_objects pf 0 s = Inr (s', b)"
  shows "b \<and> Suc (num_elements (entry_table s')) = num_elements (entry_table s) \<or>
    \<not> b \<and> s' = s \<and> (\<forall>obj f. entry_map s obj = Some f \<longrightarrow> \<not> evictable s (obj, f))"
proof -
  let ?es = "entries (entry_table s)"
  have t: "table_ok (hash_gid pf) (entry_table s)" using assms(1) by (simp add: space_ok_def)
  then have ok: "slots_ok (home (hash_gid pf) (prime_index (entry_table s))) (max_lookups (entry_table s)) ?es"
    and e: "end_position (entry_table s) = length ?es - 1" "0 < length ?es"
    by (simp_all add: table_ok_def shape_ok_def end_position_def)
  obtain it where it: "skip_empty ?es 0 = Inr it" "evict_from pf (length ?es - 1) 0 it 0 s = Inr (s', b)"
    using assms(2) e(1) by (auto simp: evict_objects_def begin_position_def rbind_Inr_iff)
  from skip_empty_spec [OF ok e(2)] it(1) have i: "it < length ?es" "elements ?es = elements (drop it ?es)" by auto
  show ?thesis
  proof (cases b)
    case True
    then show ?thesis using evict_from_one [OF assms(1) it(2)] by simp
  next
    case False
    then have "\<not> evictable s (obj, f)" if "entry_map s obj = Some f" for obj f
      using evict_from_none [OF assms(1) ok i(1), of s' "(obj, f)"] it(2) i(2) that t by (simp add: table_map_Some)
    then show ?thesis using False evict_from_one [OF assms(1) it(2)] by simp
  qed
qed

section \<open>Allocation\<close>

lemma evicting_allocate_evicted:
  "space_ok pf s \<Longrightarrow> evicting_allocate fuel pf n al s = Inr (s', b) \<Longrightarrow> evicted pf s s'"
proof (induction fuel arbitrary: s)
  case (Suc fuel)
  from Suc.prems(2) obtain block where block: "underlying_allocate pf (blocks s) n al = Inr block"
    by (auto simp: rbind_Inr_iff)
  show ?case
  proof (cases block)
    case (Some m)
    then show ?thesis using Suc.prems block by (simp add: evicted_refl)
  next
    case None
    then have "rbind (evict_objects pf 0 s) (\<lambda>r. if snd r then evicting_allocate fuel pf n al (fst r) else Inr (fst r, None)) = Inr (s', b)"
      using Suc.prems(2) block by simp
    then obtain r where r: "evict_objects pf 0 s = Inr r"
      "(if snd r then evicting_allocate fuel pf n al (fst r) else Inr (fst r, None)) = Inr (s', b)"
      by (auto simp: rbind_Inr_iff)
    obtain s1 ok where r1: "r = (s1, ok)" by (cases r)
    have e: "evict_objects pf 0 s = Inr (s1, ok)"
      "(if ok then evicting_allocate fuel pf n al s1 else Inr (s1, None)) = Inr (s', b)" using r unfolding r1 by (auto split: if_splits)
    note step = evict_objects_evicted [OF Suc.prems(1) e(1)]
    show ?thesis
    proof (cases ok)
      case True
      have "space_ok pf s1" using step by (simp add: evicted_def)
      with Suc.IH [OF this] True e(2) step show ?thesis using evicted_trans by simp
    qed (use e(2) step in simp)
  qed
qed simp

text \<open>Every turn of the loop removes an entry of the table, so the loop ends.\<close>

lemma evicting_allocate_enough:
  "space_ok pf s \<Longrightarrow> num_elements (entry_table s) < fuel \<Longrightarrow>
   evicting_allocate fuel pf n al s = evicting_allocate (Suc (num_elements (entry_table s))) pf n al s"
proof (induction "num_elements (entry_table s)" arbitrary: s fuel rule: less_induct)
  case less
  obtain f where fuel: "fuel = Suc f" using less.prems(2) by (cases fuel) simp_all
  have "evicting_allocate f pf n al s1 = evicting_allocate (num_elements (entry_table s)) pf n al s1"
    if e: "evict_objects pf 0 s = Inr (s1, True)" for s1
  proof -
    have ok: "space_ok pf s1" using evict_objects_evicted [OF less.prems(1) e] by (simp add: evicted_def)
    have num: "Suc (num_elements (entry_table s1)) = num_elements (entry_table s)"
      using evict_objects_one [OF less.prems(1) e] by simp
    have "num_elements (entry_table s1) < num_elements (entry_table s)" "num_elements (entry_table s1) < f"
      using num less.prems(2) fuel by linarith+
    from less.hyps [OF this(1) ok this(2)] num show ?thesis by (simp only:)
  qed
  then have "rbind (evict_objects pf 0 s) (\<lambda>r. if snd r then evicting_allocate f pf n al (fst r) else Inr (fst r, None)) =
      rbind (evict_objects pf 0 s) (\<lambda>r. if snd r then evicting_allocate (num_elements (entry_table s)) pf n al (fst r) else Inr (fst r, None))"
    by (intro rbind_cong refl) (auto split: prod.splits)
  then show ?case unfolding fuel evicting_allocate.simps(2) by simp
qed

lemma allocate_page_ok:
  assumes ok: "space_ok pf s" and a: "allocate_page pf n al s = Inr (s', p)"
  shows "space_ok pf s'" "blocks s p = None" "held s' = (held s)(p := 1)" "p = next_page s"
    "0 < held s q \<Longrightarrow> blocks s' q = blocks s q"
proof -
  from a obtain s1 b where s1: "evicting_allocate (Suc (num_elements (entry_table s))) pf n al s = Inr (s1, b)" "p = next_page s1"
    "s' = s1\<lparr>blocks := (blocks s1)(p \<mapsto> b), held := (held s1)(p := 1), next_page := p + 1\<rparr>"
    unfolding allocate_page_def rbind_Inr_iff by (auto simp: Let_def simp del: evicting_allocate.simps)
  have e: "evicted pf s s1" by (rule evicting_allocate_evicted [OF ok s1(1)])
  then have ok1: "space_ok pf s1" and h: "held s1 = held s" "next_page s1 = next_page s" by (simp_all add: evicted_def)
  have fresh: "blocks s1 p = None" "blocks s p = None" using ok1 ok s1(2) h by (simp_all add: space_ok_def)
  then have "use_count s1 p = 0" using space_ok_dead [OF ok1] by blast
  then have none: "count_list (futures s1) (Ready_page p) = 0" "held s1 p = 0" by (simp_all add: use_count_def)
  have "use_count s' q = (if q = p then 1 else use_count s1 q)" for q
    using none by (simp add: s1(3) use_count_def futures_def)
  then show "space_ok pf s'" using ok1 fresh s1(2,3) by (auto simp: space_ok_def)
  show "blocks s p = None" "held s' = (held s)(p := 1)" "p = next_page s" using fresh s1 h by auto
  show "blocks s' q = blocks s q" if "0 < held s q"
    using that e s1(3) held_alive [OF ok that] fresh(2) by (auto simp: evicted_def)
qed

section \<open>Entries\<close>

lemma lookup_entry_map: "space_ok pf s \<Longrightarrow> lookup_entry pf obj s = Inr (entry_map s obj)"
  using find_key_spec [of "hash_gid pf" "entry_table s" obj]
  by (auto simp: space_ok_def lookup_entry_def value_of_def split: option.splits)

lemma store_entry_ok:
  assumes ok: "space_ok pf s" and m: "table_memory pf < 18446744073709551557"
    and held: "\<And>p. future = Ready_page p \<Longrightarrow> 0 < held s p" and st: "store_entry pf obj future s = Inr s'"
  shows "space_ok pf s'" "entry_map s' = (entry_map s)(obj \<mapsto> future)" "entry_map s obj = None"
    "blocks s' = blocks s" "use_count s' p = use_count s p" "next_page s' = next_page s"
proof -
  let ?h = "hash_gid pf" and ?t = "entry_table s"
  have t: "table_ok ?h ?t" using ok by (simp add: space_ok_def)
  from st obtain t' it where e: "emplace ?h (table_memory pf) ?t (obj, future) = Inr (t', it, True)"
    by (auto simp: store_entry_def rbind_Inr_iff split: if_splits)
  then have s': "s' = (case future of Ready_page p \<Rightarrow> s\<lparr>entry_table := t', held := (held s)(p := held s p - 1)\<rparr>
      | _ \<Rightarrow> s\<lparr>entry_table := t'\<rparr>)"
    using st by (simp add: store_entry_def)
  from emplace_emplaced [OF m t, of "(obj, future)"] e
  have t': "table_ok ?h t'" "obj \<notin> dom (entry_map s)" "mset (elements (entries t')) = add_mset (obj, future) (mset (elements (entries ?t)))"
    by (simp_all add: emplaced_def table_map_dom)
  have "count_list (futures s') f = count_list (futures s) f + (if f = future then 1 else 0)" for f
    by (simp add: futures_count s' t'(3) split: page_future.splits)
  then show count: "use_count s' p = use_count s p" for p
    using held by (auto simp: use_count_def s' split: page_future.splits)
  show "blocks s' = blocks s" "next_page s' = next_page s" by (simp_all add: s' split: page_future.splits)
  then show "space_ok pf s'" using ok t'(1) count by (simp add: space_ok_def s' split: page_future.splits)
  show "entry_map s' = (entry_map s)(obj \<mapsto> future)" "entry_map s obj = None"
    using table_map_update [OF t'(1) t t'(3)] t'(2) by (auto simp: s' split: page_future.splits)
qed

lemma store_entry_occupied: "space_ok pf s \<Longrightarrow> entry_map s obj = Some f \<Longrightarrow> store_entry pf obj future s = Inl Assertion_failed"
  using emplace_present [of "hash_gid pf" "entry_table s" obj f "table_memory pf" future]
  by (auto simp: space_ok_def store_entry_def)

lemma continue_with_ok:
  assumes "space_ok pf s" "entry_map s obj = Some future"
  shows "space_ok pf (fst (continue_with future s))"
  using assms entry_map_use [OF assms(1), of obj]
  by (auto simp: continue_with_def copy_handle_def space_ok_def use_count_def split: page_future.splits)

lemma free_object_ok:
  assumes "space_ok pf s"
  shows "\<exists>s'. free_object pf obj s = Inr s' \<and> space_ok pf s' \<and> entry_map s' = (entry_map s)(obj := None) \<and> held s' = held s"
proof (cases "entry_map s obj")
  case None
  moreover have "erase_key (hash_gid pf) (entry_table s) obj = Inr (entry_table s, 0)"
    using assms None by (intro erase_key_absent) (simp_all add: space_ok_def)
  ultimately show ?thesis using assms by (auto simp: free_object_def lookup_entry_map)
next
  case (Some f)
  obtain t where t: "erase_key (hash_gid pf) (entry_table s) obj = Inr (t, 1)"
    "space_ok pf (case f of Ready_page p \<Rightarrow> release p (s\<lparr>entry_table := t\<rparr>) | _ \<Rightarrow> s\<lparr>entry_table := t\<rparr>)"
    "table_map t = (entry_map s)(obj := None)" using erase_entry_ok [OF assms Some] by blast
  then show ?thesis using Some assms by (auto simp: free_object_def lookup_entry_map Let_def split: page_future.splits)
qed

lemma free_object_keeps: "space_ok pf s \<Longrightarrow> free_object pf obj s = Inr s' \<Longrightarrow> space_ok pf s'"
  using free_object_ok [of pf s obj] by auto

lemma free_handle_ok:
  assumes "space_ok pf s" "0 < held s p"
  shows "space_ok pf (free_handle p s)"
proof -
  let ?s = "s\<lparr>held := (held s)(p := held s p - 1)\<rparr>"
  have u: "use_count ?s q = (if q = p then use_count s q - 1 else use_count s q)" for q
    using assms(2) by (simp add: use_count_def)
  have "blocks (release p ?s) q \<noteq> None \<longleftrightarrow> 0 < use_count (release p ?s) q" for q
    unfolding release_simps(4) using assms held_alive [OF assms] u
    by (intro release_counts) (auto simp: space_ok_def simp del: use_count_simps)
  then show ?thesis using assms(1) by (auto simp: free_handle_def space_ok_def release_def)
qed

lemma elements_map_values: "elements (entries (map_values g t)) = map (\<lambda>(k, v). (k, g k v)) (elements (entries t))"
proof -
  have "elements (map (\<lambda>e. e\<lparr>content := map_option (\<lambda>(k, v). (k, g k v)) (content e)\<rparr>) es) = map (\<lambda>(k, v). (k, g k v)) (elements es)"
    for es by (induction es) (auto split: option.splits)
  then show ?thesis by (simp add: map_values_def)
qed

lemma map_values_ok:
  assumes "table_ok hash t" shows "table_ok hash (map_values g t)"
proof -
  let ?f = "\<lambda>e. e\<lparr>content := map_option (\<lambda>(k, v). (k, g k v)) (content e)\<rparr>"
  have "slot_ok h ml i (?f e)" if "slot_ok h ml i e" for h ml i e
    using that by (elim slot_cases) (auto simp: empty_entry_def filled_entry_def slot_ok_def)
  then have "slots_ok h ml (map ?f es)" if "slots_ok h ml es" for h ml es
    using that by (auto simp: slots_ok_def last_map special_end_entry_def)
  then have "slots_ok h ml (entries (map_values g t))" if "slots_ok h ml (entries t)" for h ml
    using that by (simp add: map_values_def)
  moreover have "map fst (elements (entries (map_values g t))) = map fst (elements (entries t))"
    by (simp add: elements_map_values comp_def split_beta)
  moreover have "length (elements (entries (map_values g t))) = length (elements (entries t))" by (simp add: elements_map_values)
  moreover have "shape_ok (map_values g t) \<longleftrightarrow> shape_ok t" "prime_index (map_values g t) = prime_index t"
    "max_lookups (map_values g t) = max_lookups t" "num_elements (map_values g t) = num_elements t"
    by (simp_all add: shape_ok_def map_values_def bucket_count_def)
  ultimately show ?thesis using assms by (simp add: table_ok_def)
qed

lemma map_of_map_values: "map_of (map (\<lambda>(k, v). (k, g k v)) xs) k = map_option (g k) (map_of xs k)"
  by (induction xs) auto

lemma complete_page_fault_ok:
  assumes ok: "space_ok pf s" and pending: "entry_map s obj = Some Pending_page" and p: "0 < held s p"
  shows "space_ok pf (complete_page_fault obj p s)" "entry_map (complete_page_fault obj p s) = (entry_map s)(obj \<mapsto> Ready_page p)"
proof -
  let ?g = "\<lambda>k v. if k = obj \<and> v = Pending_page then Ready_page p else v"
  have t: "table_ok (hash_gid pf) (entry_table s)" using ok by (simp add: space_ok_def)
  then have "(obj, Pending_page) \<in> set (elements (entries (entry_table s)))" using pending by (simp add: table_map_Some)
  then obtain xs ys where xs: "elements (entries (entry_table s)) = xs @ (obj, Pending_page) # ys" by (auto dest: split_list)
  then have "obj \<notin> fst ` set xs" "obj \<notin> fst ` set ys" using t by (auto simp: table_ok_def)
  then have "map (\<lambda>(k, v). (k, ?g k v)) xs = xs" "map (\<lambda>(k, v). (k, ?g k v)) ys = ys"
    by (force intro!: map_idI)+
  then have "futures (complete_page_fault obj p s) = map snd xs @ Ready_page p # map snd ys"
    by (simp add: futures_def complete_page_fault_def elements_map_values xs)
  moreover have "futures s = map snd xs @ Pending_page # map snd ys" by (simp add: futures_def xs)
  ultimately have "use_count (complete_page_fault obj p s) q = use_count s q" for q
    using p by (simp add: use_count_def complete_page_fault_def)
  then show "space_ok pf (complete_page_fault obj p s)"
    using ok map_values_ok [OF t] by (simp add: space_ok_def complete_page_fault_def)
  show "entry_map (complete_page_fault obj p s) = (entry_map s)(obj \<mapsto> Ready_page p)"
    using pending by (auto simp: complete_page_fault_def table_map_def elements_map_values map_of_map_values fun_eq_iff option.map_ident
      split: option.splits if_splits cong: map_option_cong)
qed

lemma empty_space_ok: "space_ok pf empty_space"
  using default_table_ok
  by (simp add: space_ok_def empty_space_def use_count_def futures_def default_table_def fresh_entries_ok)

text \<open>A space with one object, whose page nobody holds, and one whose page somebody holds.\<close>

definition sample_platform :: platform where
  "sample_platform = \<lparr>hash_gid = (\<lambda>_. 0), table_memory = 100, underlying_allocate = (\<lambda>bs n al. Inr (if bs = Map.empty then Some n else None))\<rparr>"

definition sample_space :: "nat \<Rightarrow> addr_space" where
  "sample_space h = \<lparr>entry_table = collision_table Ready_page 1, blocks = [0 \<mapsto> Some 8], held = (\<lambda>p. if p = 0 then h else 0), next_page = 1\<rparr>"

lemma sample_space_ok: "space_ok sample_platform (sample_space h)"
proof -
  have "use_count (sample_space h) p = (if p = 0 then Suc h else 0)" for p
    by (simp add: use_count_def futures_def sample_space_def collision_table_def)
  then show ?thesis using collision_table_ok [of 1 Ready_page]
    by (simp add: space_ok_def sample_platform_def) (simp add: sample_space_def)
qed

lemma sample_evicts: "\<exists>s'. evict_objects sample_platform 0 (sample_space 0) = Inr (s', True)"
proof -
  have "handle_unique (sample_space 0) 0"
    by (simp add: handle_unique_def use_count_def futures_def sample_space_def collision_table_def)
  moreover have "mod_functions ! 10 = 37" by (simp add: mod_functions_def)
  ultimately show ?thesis
    by (simp add: evict_objects_def begin_position_def skip_empty.simps [of _ 0] evict_from.simps [of _ _ _ 0] sample_space_def
      collision_table_def sample_platform_def nth_append end_position_def handle_data_def erase_key_def find_key_def
      index_for_hash_def mod_function_def probe.simps [of _ _ 0] erase_at_def shift_back.simps [of _ 0] is_at_desired_position_def Let_def)
qed

section \<open>The operations\<close>

inductive_cases space_step_cases: "space_step pf s s'"





text \<open>A failed page fault is never forgotten: its exception stays in the table and every later request for the object raises it, whatever
  the handler would answer now.\<close>
lemma failed_page_fault_sticks:
  assumes "space_ok pf s" "table_memory pf < 18446744073709551557" "entry_map s obj = None"
    "handler s obj = Inr (s1, Failed_page e)" "space_ok pf s1" "resolve_object pf handler obj s = Inr (s', r)"
  shows "r = Exceptional e \<and> resolve_object pf handler' obj s' = Inl e \<and> try_resolve_object pf obj s' = Inl e"
proof -
  have "finish_page_fault pf obj (Failed_page e) s1 = Inr (s', r)"
    using assms(1,3,4,6) by (auto simp: resolve_object_def lookup_entry_map convert_exception_def split: sum.splits if_splits)
  then have st: "store_entry pf obj (Failed_page e) s1 = Inr s'" "r = Exceptional e"
    by (auto simp: finish_page_fault_def rbind_Inr_iff continue_with_def)
  note ok = store_entry_ok [OF assms(5,2) _ st(1)]
  then show ?thesis using st(2) by (simp add: resolve_object_def try_resolve_object_def lookup_entry_map)
qed

text \<open>C30. Two threads that resolve an object at the same time both take the page fault, since the lock is given up in between; the one
  that returns second finds the address occupied and violates the assertion.\<close>
theorem concurrent_page_faults:
  assumes "space_ok pf s" "table_memory pf < 18446744073709551557" "lookup_entry pf obj s = Inr None"
    "\<And>p. future = Ready_page p \<Longrightarrow> 0 < held s p" "finish_page_fault pf obj future s = Inr (s', r)"
  shows "finish_page_fault pf obj future' s' = Inl Assertion_failed"
proof -
  obtain s1 where s1: "store_entry pf obj future s = Inr s1" "s' = fst (continue_with future s1)"
    using assms(5) by (auto simp: finish_page_fault_def rbind_Inr_iff)
  note ok = store_entry_ok [OF assms(1,2,4) s1(1)]
  have "entry_table (fst (continue_with future s1)) = entry_table s1"
    by (simp add: continue_with_def copy_handle_def split: page_future.splits)
  then have "space_ok pf s'" "entry_map s' obj = Some future" using continue_with_ok [of pf s1 obj future] ok s1(2) by simp_all
  then show ?thesis by (simp add: finish_page_fault_def store_entry_occupied)
qed




text \<open>Another object of the sample space: its page is registered, or its page fault fails.\<close>

lemma sample_store:
  assumes "\<And>p. future = Ready_page p \<Longrightarrow> p = 0"
  shows "\<exists>s'. store_entry sample_platform 5 future (sample_space 1) = Inr s'"
proof -
  have "mod_functions ! 10 = 37" by (simp add: mod_functions_def)
  then show ?thesis
    by (simp add: store_entry_def sample_space_def sample_platform_def emplace_def emplace_body_def collision_table_def
      index_for_hash_def mod_function_def probe.simps [of _ _ 0] probe.simps [of _ _ "Suc 0"] emplace_new_key_def Let_def
      bucket_count_def nth_append)
qed


lemma sample_lookup: "entry_map (sample_space h) 5 = None"
  by (simp add: table_map_def sample_space_def collision_table_def)

lemma failed_page_fault_sticks_example:
  "\<exists>s'. resolve_object sample_platform default_page_fault 5 (sample_space 1) = Inr (s', Exceptional (Runtime_error ''Page fault'')) \<and>
     try_resolve_object sample_platform 5 s' = Inl (Runtime_error ''Page fault'')"
proof -
  let ?e = "Runtime_error ''Page fault''"
  obtain s' where "store_entry sample_platform 5 (Failed_page ?e) (sample_space 1) = Inr s'"
    using sample_store [of "Failed_page ?e"] by auto
  then have r: "resolve_object sample_platform default_page_fault 5 (sample_space 1) = Inr (s', Exceptional ?e)"
    by (simp add: resolve_object_def lookup_entry_map [OF sample_space_ok] sample_lookup default_page_fault_def
      finish_page_fault_def continue_with_def convert_exception_def)
  have "table_memory sample_platform < 18446744073709551557" "default_page_fault (sample_space 1) 5 = Inr (sample_space 1, Failed_page ?e)"
    by (simp_all add: sample_platform_def default_page_fault_def)
  from failed_page_fault_sticks [OF sample_space_ok this(1) sample_lookup this(2) sample_space_ok r] r show ?thesis by blast
qed

lemma concurrent_page_faults_witness:
  "\<exists>s' r. finish_page_fault sample_platform 5 (Ready_page 0) (sample_space 1) = Inr (s', r) \<and>
     finish_page_fault sample_platform 5 (Ready_page 0) s' = Inl Assertion_failed"
proof -
  obtain s1 where "store_entry sample_platform 5 (Ready_page 0) (sample_space 1) = Inr s1"
    using sample_store [of "Ready_page 0"] by auto
  then have f: "finish_page_fault sample_platform 5 (Ready_page 0) (sample_space 1) = Inr (copy_handle 0 s1, Resolved 0)"
    by (simp add: finish_page_fault_def continue_with_def)
  have "table_memory sample_platform < 18446744073709551557" "lookup_entry sample_platform 5 (sample_space 1) = Inr None"
    by (simp add: sample_platform_def) (simp add: lookup_entry_map [OF sample_space_ok] sample_lookup)
  from concurrent_page_faults [OF sample_space_ok this _ f] f show ?thesis by (auto simp: sample_space_def)
qed

end
