(* ===== verification/Scheduling.thy ===== *)
theory Scheduling
  imports Prelude "HOL-Library.Multiset"
begin

text \<open>
  Where tasks run: the schedulers (\<open>scheduling/round_robin_scheduler\<close>, \<open>scheduling/uniform_fill_scheduler\<close>), the virtual
  processing unit that combines others (\<open>aggregate_vpu\<close>), the round robin of the object factory and the registry
  of back ends.  Processing units are numbers.  Workloads are counts of microseconds, 64-bit signed integers.
\<close>

section \<open>Round robin\<close>

record round_robin =
  execution_resources :: "nat list"
  next_endpoint :: nat

definition new_round_robin :: round_robin where
  "new_round_robin = \<lparr>execution_resources = [], next_endpoint = 0\<rparr>"

definition round_robin_add :: "round_robin \<Rightarrow> nat \<Rightarrow> round_robin" where
  "round_robin_add s vpu = s\<lparr>execution_resources := execution_resources s @ [vpu]\<rparr>"

text \<open>A task goes to the unit at the next position; without units this position does not exist.\<close>

definition round_robin_schedule :: "round_robin \<Rightarrow> (nat \<times> round_robin) result" where
  "round_robin_schedule s =
     (let resource_count = length (execution_resources s)
      in if next_endpoint s < resource_count
         then Inr (execution_resources s ! next_endpoint s, s\<lparr>next_endpoint := (next_endpoint s + 1) mod resource_count\<rparr>)
         else Inl Undefined_behaviour)"

fun round_robin_run :: "nat \<Rightarrow> round_robin \<Rightarrow> (nat list \<times> round_robin) result" where
  "round_robin_run 0 s = Inr ([], s)"
| "round_robin_run (Suc n) s = rbind (round_robin_schedule s) (\<lambda>(vpu, s').
     rbind (round_robin_run n s') (\<lambda>(vpus, s''). Inr (vpu # vpus, s'')))"

text \<open>The factory for objects does the same over the local factories, with one counter for scalars and one for arrays; the
  number of localities is asked again at every call.\<close>

definition choose_factory :: "nat \<Rightarrow> nat \<Rightarrow> nat list \<Rightarrow> (nat \<times> nat) result" where
  "choose_factory num_localities next_factory local_factories =
     (if next_factory < length local_factories
      then if num_localities = 0 then Inl Undefined_behaviour
        else Inr (local_factories ! next_factory, (next_factory + 1) mod num_localities)
      else Inl Out_of_range)"

section \<open>Uniform fill\<close>

record workload =
  execution_resource :: nat
  previous_workload :: int

text \<open>The priority queue is the list of its elements; \<open>pick\<close> is the choice of the library among the elements with the
  least workload.\<close>

definition least_first :: "(workload list \<Rightarrow> workload) \<Rightarrow> bool" where
  "least_first pick \<longleftrightarrow> (\<forall>ws. ws \<noteq> [] \<longrightarrow> pick ws \<in> set ws \<and> (\<forall>w \<in> set ws. previous_workload (pick ws) \<le> previous_workload w))"

definition fill_add :: "workload list \<Rightarrow> nat \<Rightarrow> workload list" where
  "fill_add workloads vpu = \<lparr>execution_resource = vpu, previous_workload = 0\<rparr> # workloads"

definition rescale :: "int \<Rightarrow> workload list \<Rightarrow> workload list" where
  "rescale n = map (\<lambda>w. w\<lparr>previous_workload := previous_workload w - n\<rparr>)"

definition fill_schedule ::
  "(workload list \<Rightarrow> workload) \<Rightarrow> (nat \<Rightarrow> int option) \<Rightarrow> workload list \<Rightarrow> (nat \<times> workload list) result" where
  "fill_schedule pick estimate workloads =
     (if workloads = [] then Inl Undefined_behaviour
      else let least_workload = pick workloads; workloads' = remove1 least_workload workloads
        in Inr (execution_resource least_workload, case estimate (execution_resource least_workload) of
            None \<Rightarrow> least_workload # workloads'
          | Some runtime \<Rightarrow>
              let new_workload = previous_workload least_workload + runtime
              in if in_i64 new_workload then least_workload\<lparr>previous_workload := new_workload\<rparr> # workloads'
                 else least_workload\<lparr>previous_workload := 0\<rparr> # rescale (previous_workload least_workload) workloads'))"

fun fill_run ::
  "(workload list \<Rightarrow> workload) \<Rightarrow> (nat \<Rightarrow> int option) list \<Rightarrow> workload list \<Rightarrow> (nat list \<times> workload list) result" where
  "fill_run pick [] ws = Inr ([], ws)"
| "fill_run pick (e # es) ws = rbind (fill_schedule pick e ws) (\<lambda>(vpu, ws').
     rbind (fill_run pick es ws') (\<lambda>(vpus, ws''). Inr (vpu # vpus, ws'')))"

section \<open>Aggregated units\<close>

record performance_estimate =
  runtime :: int
  accuracy :: int

definition aggregate_execute :: "nat list \<Rightarrow> 's \<Rightarrow> ('s \<Rightarrow> (nat \<times> 's) result) \<Rightarrow> (nat \<times> 's) result" where
  "aggregate_execute member_vpus s schedule = (if member_vpus = [] then Inl Thrown_int else schedule s)"

text \<open>The loop over the estimates of the members; \<open>None\<close> is the early return without an estimate.\<close>

fun sum_estimates :: "int \<Rightarrow> int \<Rightarrow> performance_estimate option list \<Rightarrow> (int \<times> int) option result" where
  "sum_estimates average_estimate min_accuracy [] = Inr (Some (average_estimate, min_accuracy))"
| "sum_estimates average_estimate min_accuracy (None # es) = Inr None"
| "sum_estimates average_estimate min_accuracy (Some e # es) =
     rbind (checked_i64 (average_estimate + runtime e)) (\<lambda>a. sum_estimates a (max min_accuracy (accuracy e)) es)"

text \<open>The future of the collected estimates: \<open>get\<close> moves the value out, and throws when there is none.\<close>

definition future_get :: "'a option \<Rightarrow> ('a \<times> 'a option) result" where
  "future_get f = (case f of Some x \<Rightarrow> Inr (x, None) | None \<Rightarrow> Inl (Runtime_error ''no_state''))"

definition aggregate_estimate :: "performance_estimate option list \<Rightarrow> performance_estimate option result" where
  "aggregate_estimate estimates =
     rbind (future_get (Some estimates)) (\<lambda>(es, collected_estimates).
     rbind (sum_estimates 0 0 es) (\<lambda>sums. case sums of
       None \<Rightarrow> Inr None
     | Some (average_estimate, min_accuracy) \<Rightarrow>
         rbind (future_get collected_estimates) (\<lambda>(es', _).
         rbind (i64_div average_estimate (int (length es'))) (\<lambda>a.
           Inr (Some \<lparr>runtime = a, accuracy = min_accuracy\<rparr>)))))"

section \<open>Back ends\<close>

record backend_table =
  host_backend_entry :: "(string \<times> nat) option"
  backends :: "(string \<times> nat) list"

definition register_host_backend :: "string \<Rightarrow> nat \<Rightarrow> backend_table \<Rightarrow> backend_table result" where
  "register_host_backend ident backend r =
     (if host_backend_entry r \<noteq> None then Inl (Runtime_error ''Host backend has already been set.'')
      else Inr (r\<lparr>host_backend_entry := Some (ident, backend)\<rparr>))"

definition register_backend :: "string \<Rightarrow> nat \<Rightarrow> backend_table \<Rightarrow> backend_table result" where
  "register_backend ident backend r =
     (if ident \<in> fst ` set (backends r) then Inl Thrown_int
      else Inr (r\<lparr>backends := backends r @ [(ident, backend)]\<rparr>))"

definition get_host_backend :: "backend_table \<Rightarrow> nat option" where
  "get_host_backend r = map_option snd (host_backend_entry r)"

section \<open>Every unit gets its turn\<close>

definition round_robin_ok :: "round_robin \<Rightarrow> bool" where
  "round_robin_ok s \<longleftrightarrow> execution_resources s \<noteq> [] \<and> next_endpoint s < length (execution_resources s)"

lemma round_robin_run_nth:
  "round_robin_ok s \<Longrightarrow> round_robin_run n s =
     Inr (map (\<lambda>k. execution_resources s ! ((next_endpoint s + k) mod length (execution_resources s))) [0..<n],
       s\<lparr>next_endpoint := (next_endpoint s + n) mod length (execution_resources s)\<rparr>)"
proof (induction n arbitrary: s)
  case 0
  then show ?case by (simp add: round_robin_ok_def)
next
  case (Suc n)
  let ?l = "length (execution_resources s)"
  have l: "0 < ?l" "next_endpoint s < ?l" using Suc.prems by (auto simp: round_robin_ok_def)
  let ?s = "s\<lparr>next_endpoint := (next_endpoint s + 1) mod ?l\<rparr>"
  have ok: "round_robin_ok ?s" using l Suc.prems by (simp add: round_robin_ok_def)
  have "map (\<lambda>k. execution_resources s ! (((next_endpoint s + 1) mod ?l + k) mod ?l)) [0..<n] =
      map (\<lambda>k. execution_resources s ! ((next_endpoint s + k) mod ?l)) [Suc 0..<Suc n]"
    by (auto simp: map_Suc_upt [symmetric] mod_simps simp del: upt_Suc)
  then show ?case using Suc.IH [OF ok] l
    by (simp add: round_robin_schedule_def Let_def upt_conv_Cons mod_simps del: upt_Suc)
qed

text \<open>Round robin is fair: as many consecutive tasks as there are units go to each unit exactly once, from whatever
  state.\<close>
lemma round_robin_fair:
  assumes "round_robin_ok s" "n = length (execution_resources s)"
  shows "\<exists>vpus s'. round_robin_run n s = Inr (vpus, s') \<and> mset vpus = mset (execution_resources s) \<and> s' = s"
proof -
  let ?rs = "execution_resources s" and ?k = "next_endpoint s"
  have k: "?k < n" using assms by (simp add: round_robin_ok_def)
  have "map (\<lambda>i. ?rs ! ((?k + i) mod n)) [0..<n] = rotate ?k ?rs"
    using assms(2) by (intro nth_equalityI) (simp_all add: nth_rotate)
  moreover have "mset (rotate ?k ?rs) = mset ?rs" 
    unfolding rotate_drop_take by (metis append_take_drop_id mset_append union_commute)
  ultimately show ?thesis using round_robin_run_nth [OF assms(1), of n] assms(2) k by simp
qed

lemma round_robin_fair_example:
  "\<exists>vpus s'. round_robin_run 3 \<lparr>execution_resources = [10, 20, 30], next_endpoint = 1\<rparr> = Inr (vpus, s') \<and> mset vpus = {#10, 20, 30#}"
proof -
  let ?s = "\<lparr>execution_resources = [10, 20, 30], next_endpoint = 1\<rparr>"
  have "round_robin_ok ?s" "3 = length (execution_resources ?s)" by (simp_all add: round_robin_ok_def)
  from round_robin_fair [OF this] show ?thesis by auto
qed

section \<open>Workloads stay balanced\<close>

definition balanced :: "int \<Rightarrow> workload list \<Rightarrow> bool" where
  "balanced R ws \<longleftrightarrow> (\<forall>v \<in> set ws. \<forall>w \<in> set ws. previous_workload v \<le> previous_workload w + R) \<and>
     (\<forall>w \<in> set ws. 0 \<le> previous_workload w)"

lemma fill_schedule_balanced:
  assumes pick: "least_first pick" and bal: "balanced R ws" and R: "\<And>v r. estimate v = Some r \<Longrightarrow> 0 \<le> r \<and> r \<le> R" and R0: "0 \<le> R"
    and ws: "ws \<noteq> []"
  shows "\<exists>vpu ws'. fill_schedule pick estimate ws = Inr (vpu, ws') \<and> balanced R ws' \<and> ws' \<noteq> [] \<and>
    mset (map execution_resource ws') = mset (map execution_resource ws) \<and> vpu \<in> execution_resource ` set ws \<and>
    (\<forall>w \<in> set ws. execution_resource w = vpu \<longrightarrow> distinct (map execution_resource ws) \<longrightarrow>
      (\<forall>v \<in> set ws. previous_workload w \<le> previous_workload v))"
proof -
  let ?l = "pick ws" and ?ws = "remove1 (pick ws) ws"
  have l: "?l \<in> set ws" "\<And>w. w \<in> set ws \<Longrightarrow> previous_workload ?l \<le> previous_workload w"
    using pick ws by (auto simp: least_first_def)
  have sub: "set ?ws \<subseteq> set ws" by (rule set_remove1_subset)
  have m: "add_mset ?l (mset ?ws) = mset ws" using l(1) by simp
  have res: "mset (map execution_resource (?l\<lparr>previous_workload := n\<rparr> # ?ws)) = mset (map execution_resource ws)" for n
    using arg_cong [OF m, of "image_mset execution_resource"] by simp
  have rescale: "map execution_resource (rescale n xs) = map execution_resource xs" for n xs
    by (induction xs) (simp_all add: rescale_def)
  have b: "previous_workload v \<le> previous_workload w + R" "0 \<le> previous_workload w" if "v \<in> set ws" "w \<in> set ws" for v w
    using bal that by (auto simp: balanced_def)
  have least: "\<forall>w \<in> set ws. execution_resource w = execution_resource ?l \<longrightarrow> distinct (map execution_resource ws) \<longrightarrow>
      (\<forall>v \<in> set ws. previous_workload w \<le> previous_workload v)"
    using l by (auto simp: distinct_map dest: inj_onD)
  show ?thesis
  proof (cases "estimate (execution_resource ?l)")
    case None
    have "set (?l # ?ws) \<subseteq> set ws" using l sub by auto
    then have "balanced R (?l # ?ws)" using b unfolding balanced_def by blast
    moreover have "mset (map execution_resource (?l # ?ws)) = mset (map execution_resource ws)"
      using arg_cong [OF m, of "image_mset execution_resource"] by simp
    ultimately show ?thesis using None ws l least by (simp add: fill_schedule_def Let_def)
  next
    case (Some r)
    then have r: "0 \<le> r" "r \<le> R" using R by blast+
    let ?n = "previous_workload ?l + r"
    show ?thesis
    proof (cases "in_i64 ?n")
      case True
      have "balanced R (?l\<lparr>previous_workload := ?n\<rparr> # ?ws)"
        using r l b sub R0 unfolding balanced_def by (fastforce dest!: subsetD [OF sub])
      then show ?thesis using Some True ws l res least by (simp add: fill_schedule_def Let_def)
    next
      case False
      have "balanced R (?l\<lparr>previous_workload := 0\<rparr> # rescale (previous_workload ?l) ?ws)"
        using r l b sub R0 unfolding balanced_def rescale_def by (fastforce dest!: subsetD [OF sub])
      then show ?thesis using Some False ws l res [of 0] least rescale by (simp add: fill_schedule_def Let_def flip: mset_map)
    qed
  qed
qed


text \<open>The first element with the least workload is one possible choice.\<close>

fun first_least :: "workload list \<Rightarrow> workload" where
  "first_least [] = \<lparr>execution_resource = 0, previous_workload = 0\<rparr>"
| "first_least [w] = w"
| "first_least (w # ws) = (let v = first_least ws in if previous_workload w \<le> previous_workload v then w else v)"

lemma first_least_ok: "least_first first_least"
proof -
  have "ws \<noteq> [] \<Longrightarrow> first_least ws \<in> set ws \<and> (\<forall>w \<in> set ws. previous_workload (first_least ws) \<le> previous_workload w)" for ws
    by (induction ws rule: first_least.induct) (auto simp: Let_def)
  then show ?thesis by (simp add: least_first_def)
qed


text \<open>On overflow the workload of the chosen unit restarts from 0, without the task it has just got.\<close>

lemma overflow_forgets_task:
  "fill_schedule first_least (\<lambda>v. Some 7) [\<lparr>execution_resource = 1, previous_workload = i64_max\<rparr>] =
     Inr (1, [\<lparr>execution_resource = 1, previous_workload = 0\<rparr>])"
  by (simp add: fill_schedule_def in_i64_def i64_max_def i64_min_def rescale_def)

section \<open>Estimates of aggregated units\<close>

lemma sum_estimates_some: "sum_estimates a m es = Inr (Some r) \<Longrightarrow> None \<notin> set es"
  by (induction a m es rule: sum_estimates.induct) (auto simp: rbind_Inr_iff)

text \<open>An aggregated unit never has an estimate: if all its members have one, the average divides by the size of a future whose value
  has been taken already, and the request fails with an exception.\<close>
lemma aggregate_estimate_fails:
  "(aggregate_estimate estimates = Inr None \<or> (\<exists>e. aggregate_estimate estimates = Inl e)) \<and>
     (None \<notin> set estimates \<and> (\<Sum>e \<leftarrow> estimates. \<bar>the (map_option runtime e)\<bar>) \<le> i64_max \<longrightarrow>
        aggregate_estimate estimates = Inl (Runtime_error ''no_state''))"
proof -
  have "\<exists>r. sum_estimates a m es = Inr (Some r)"
    if "None \<notin> set es" "\<bar>a\<bar> + (\<Sum>e \<leftarrow> es. \<bar>the (map_option runtime e)\<bar>) \<le> i64_max" for a m es
    using that
  proof (induction a m es rule: sum_estimates.induct)
    case (3 a m e es)
    have "0 \<le> (\<Sum>e \<leftarrow> es. \<bar>the (map_option runtime e)\<bar>)" by (intro sum_list_nonneg) auto
    then have "checked_i64 (a + runtime e) = Inr (a + runtime e)"
      using 3(3) by (auto simp: checked_i64_def in_i64_def i64_max_def i64_min_def)
    then show ?case using 3 by auto
  qed auto
  from this [of estimates 0 0] show ?thesis
    by (cases "sum_estimates 0 0 estimates") (auto simp: aggregate_estimate_def future_get_def split: option.splits)
qed

lemma aggregate_estimate_fails_example:
  "aggregate_estimate [Some \<lparr>runtime = 10, accuracy = 1\<rparr>, Some \<lparr>runtime = 20, accuracy = 2\<rparr>] = Inl (Runtime_error ''no_state'')"
  using aggregate_estimate_fails [of "[Some \<lparr>runtime = 10, accuracy = 1\<rparr>, Some \<lparr>runtime = 20, accuracy = 2\<rparr>]"]
  by (simp add: aggregate_estimate_def future_get_def checked_i64_def in_i64_def i64_max_def i64_min_def)

section \<open>The registry of back ends\<close>

lemma map_of_snoc: "k \<notin> fst ` set xs \<Longrightarrow> map_of (xs @ [(k, v)]) = (map_of xs)(k \<mapsto> v)"
  by (induction xs) auto

lemma register_backend_distinct:
  "distinct (map fst (backends r)) \<Longrightarrow> register_backend ident b r = Inr r' \<Longrightarrow>
     distinct (map fst (backends r')) \<and> map_of (backends r') = (map_of (backends r))(ident \<mapsto> b) \<and> host_backend_entry r' = host_backend_entry r"
  by (auto simp: register_backend_def map_of_snoc simp del: map_of_append split: if_splits)

lemma host_backend_once:
  "register_host_backend ident b r = Inr r' \<Longrightarrow>
     get_host_backend r' = Some b \<and> register_host_backend ident' b' r' = Inl (Runtime_error ''Host backend has already been set.'')"
  by (auto simp: register_host_backend_def get_host_backend_def split: if_splits)

end
