(* ===== verification/QtlExpressions.thy ===== *)
theory QtlExpressions
  imports ModuleSystem
begin

text \<open>
  Expressions of the tensor front end (\<open>qubus/include/qubus/qtl/IR\<close>, \<open>qubus/src/qtl/IR\<close>).  The front end
  adds sums, loops over all values of indices, Kronecker deltas, captured multi-indices and objects to
  the nodes of theory \<open>Expressions\<close>.  Its passes rewrite by the generic traversals only, so an expression
  is a tree here whose nodes carry the data of their class (\<open>qtl_node\<close>) and the list of
  their sub-expressions.  Only node classes that the front end builds occur.
\<close>

section \<open>Nodes\<close>

record object_ref =
  object_id :: nat
  object_type :: qtype

definition object_eq :: "object_ref \<Rightarrow> object_ref \<Rightarrow> bool" where
  "object_eq a b = (object_id a = object_id b)"

datatype qtl_node =
    Binary_n binary_op_tag
  | Double_n "64 word"
  | Float_n "32 word"
  | Integer_n int
  | Bool_n bool
  | Compound_n execution_order
  | For_n execution_order variable_declaration
  | Integer_range_n
  | Macro_n "variable_declaration list"
  | Subscription_n
  | Member_access_n string
  | Variable_ref_n variable_declaration
  | Intrinsic_function_n string
  | Sum_n "variable_declaration list" "variable_declaration option"
  | For_all_n "variable_declaration list" "variable_declaration option"
  | Kronecker_delta_n int
  | Multi_index_n variable_declaration "variable_declaration list"
  | Object_n object_ref

datatype qtl_expr = Node (qtl_label: qtl_node) (qtl_subs: "qtl_expr list")

text \<open>The size of a tree, the measure of all recursions here.\<close>

fun qtl_size :: "qtl_expr \<Rightarrow> nat" where
  "qtl_size (Node l cs) = Suc (sum_list (map qtl_size cs))"

lemma qtl_size_mem: "c \<in> set cs \<Longrightarrow> qtl_size c < qtl_size (Node l cs)"
  using member_le_sum_list [of "qtl_size c" "map qtl_size cs"] by (simp add: less_Suc_eq_le)

section \<open>Builders\<close>

text \<open>The functions the passes construct nodes with.\<close>

definition qvar :: "variable_declaration \<Rightarrow> qtl_expr" where
  "qvar v = Node (Variable_ref_n v) []"

definition qinteger_literal :: "int \<Rightarrow> qtl_expr" where
  "qinteger_literal n = Node (Integer_n n) []"

definition qdouble_literal :: "64 word \<Rightarrow> qtl_expr" where
  "qdouble_literal w = Node (Double_n w) []"

definition qassign :: "qtl_expr \<Rightarrow> qtl_expr \<Rightarrow> qtl_expr" where
  "qassign l r = Node (Binary_n Assign) [l, r]"

definition qplus_assign :: "qtl_expr \<Rightarrow> qtl_expr \<Rightarrow> qtl_expr" where
  "qplus_assign l r = Node (Binary_n Plus_assign) [l, r]"

definition qsubscription :: "qtl_expr \<Rightarrow> qtl_expr list \<Rightarrow> qtl_expr" where
  "qsubscription a is = Node Subscription_n (a # is)"

definition qsequenced_tasks :: "qtl_expr list \<Rightarrow> qtl_expr" where
  "qsequenced_tasks es = Node (Compound_n Sequential) es"

definition qintrinsic_function :: "string \<Rightarrow> qtl_expr list \<Rightarrow> qtl_expr" where
  "qintrinsic_function f as = Node (Intrinsic_function_n f) as"

text \<open>\<open>for_\<close> without an increment has the increment 1 (\<open>for_expr.cpp\<close>).\<close>

definition qfor :: "variable_declaration \<Rightarrow> qtl_expr \<Rightarrow> qtl_expr \<Rightarrow> qtl_expr \<Rightarrow> qtl_expr" where
  "qfor v l u b = Node (For_n Sequential v) [l, u, qinteger_literal 1, b]"

definition qsum :: "variable_declaration list \<Rightarrow> qtl_expr \<Rightarrow> qtl_expr" where
  "qsum is b = Node (Sum_n is None) [b]"

text \<open>A loop over all values needs an index: the constructors assert it.\<close>

definition qfor_all_multi ::
  "variable_declaration list \<Rightarrow> variable_declaration option \<Rightarrow> qtl_expr \<Rightarrow> qtl_expr result" where
  "qfor_all_multi is alias b =
     (if length is > 0 then Inr (Node (For_all_n is alias) [b]) else Inl Assertion_failed)"

definition qfor_all :: "variable_declaration \<Rightarrow> qtl_expr \<Rightarrow> qtl_expr" where
  "qfor_all i b = Node (For_all_n [i] None) [b]"

lemmas qtl_builders =
  qvar_def qinteger_literal_def qdouble_literal_def qassign_def qplus_assign_def qsubscription_def
  qsequenced_tasks_def qintrinsic_function_def qfor_def qsum_def qfor_all_def

section \<open>Sub-expressions\<close>

definition sum_expr_child :: "qtl_expr \<Rightarrow> nat \<Rightarrow> qtl_expr result" where
  "sum_expr_child b i = (if i = 0 then Inr b else Inl Thrown_int)"

definition for_all_expr_child :: "qtl_expr \<Rightarrow> nat \<Rightarrow> qtl_expr result" where
  "for_all_expr_child b i = (if i = 0 then Inr b else Inl Thrown_int)"

definition kronecker_delta_expr_child :: "qtl_expr \<Rightarrow> qtl_expr \<Rightarrow> nat \<Rightarrow> qtl_expr result" where
  "kronecker_delta_expr_child a b i =
     (if i = 0 then Inr a else if i = 1 then Inr b else Inl Thrown_int)"

definition multi_index_expr_child :: "nat \<Rightarrow> qtl_expr result" where
  "multi_index_expr_child i = Inl Thrown_int"

definition object_expr_child :: "nat \<Rightarrow> qtl_expr result" where
  "object_expr_child i = Inl Thrown_int"

fun qtl_child :: "qtl_expr \<Rightarrow> nat \<Rightarrow> qtl_expr result" where
  "qtl_child (Node (Sum_n is al) [b]) i = sum_expr_child b i"
| "qtl_child (Node (For_all_n is al) [b]) i = for_all_expr_child b i"
| "qtl_child (Node (Kronecker_delta_n n) [a, b]) i = kronecker_delta_expr_child a b i"
| "qtl_child (Node (Multi_index_n v vs) []) i = multi_index_expr_child i"
| "qtl_child (Node (Object_n x) []) i = object_expr_child i"
| "qtl_child (Node l cs) i = (if i < length cs then Inr (cs ! i) else Inl Thrown_int)"

definition qtl_arity :: "qtl_expr \<Rightarrow> nat" where
  "qtl_arity e = length (qtl_subs e)"

definition qtl_sub_expressions :: "qtl_expr \<Rightarrow> qtl_expr list result" where
  "qtl_sub_expressions e = traverse (qtl_child e) [0..<qtl_arity e]"

lemma qtl_child_eq: "i < length (qtl_subs e) \<Longrightarrow> qtl_child e i = Inr (qtl_subs e ! i)"
  by (induction e i rule: qtl_child.induct)
    (auto simp: sum_expr_child_def for_all_expr_child_def kronecker_delta_expr_child_def less_Suc_eq)

lemma qtl_sub_expressions_eq [simp]: "qtl_sub_expressions e = Inr (qtl_subs e)"
proof -
  have "traverse (qtl_child e) [0..<length (qtl_subs e)] = Inr (map (\<lambda>i. qtl_subs e ! i) [0..<length (qtl_subs e)])"
    by (rule traverse_all_Inr) (simp add: qtl_child_eq)
  then show ?thesis by (simp add: qtl_sub_expressions_def qtl_arity_def map_nth)
qed

section \<open>Replacing the sub-expressions\<close>

definition sum_expr_substitute ::
  "variable_declaration list \<Rightarrow> variable_declaration option \<Rightarrow> qtl_expr list \<Rightarrow> qtl_expr result" where
  "sum_expr_substitute is al cs =
     (if length cs \<noteq> 1 then Inl Thrown_int else Inr (Node (Sum_n is al) [cs ! 0]))"

definition for_all_expr_substitute ::
  "variable_declaration list \<Rightarrow> variable_declaration option \<Rightarrow> qtl_expr list \<Rightarrow> qtl_expr result" where
  "for_all_expr_substitute is al cs =
     (if length cs \<noteq> 1 then Inl Thrown_int else qfor_all_multi is al (cs ! 0))"

definition kronecker_delta_expr_substitute :: "int \<Rightarrow> qtl_expr list \<Rightarrow> qtl_expr result" where
  "kronecker_delta_expr_substitute n cs =
     (if length cs \<noteq> 2 then Inl Thrown_int else Inr (Node (Kronecker_delta_n n) [cs ! 0, cs ! 1]))"

definition multi_index_expr_substitute ::
  "variable_declaration \<Rightarrow> variable_declaration list \<Rightarrow> qtl_expr list \<Rightarrow> qtl_expr result" where
  "multi_index_expr_substitute v vs cs =
     (if cs \<noteq> [] then Inl Thrown_int else Inr (Node (Multi_index_n v vs) []))"

definition object_expr_substitute :: "object_ref \<Rightarrow> qtl_expr list \<Rightarrow> qtl_expr result" where
  "object_expr_substitute x cs = (if cs \<noteq> [] then Inl Thrown_int else Inr (Node (Object_n x) []))"

text \<open>The classes derived from \<open>access_expr\<close>; a subscription and a member access need one.\<close>

fun qtl_is_access :: "qtl_expr \<Rightarrow> bool" where
  "qtl_is_access (Node l cs) =
     (case l of Variable_ref_n _ \<Rightarrow> True | Subscription_n \<Rightarrow> True | Member_access_n _ \<Rightarrow> True
      | Object_n _ \<Rightarrow> True | _ \<Rightarrow> False)"

text \<open>The other classes, as in theory \<open>ExpressionOps\<close>.\<close>

definition base_expr_substitute :: "qtl_node \<Rightarrow> qtl_expr list \<Rightarrow> qtl_expr result" where
  "base_expr_substitute l cs =
     (if (case l of
            Binary_n _ \<Rightarrow> length cs = 2
          | Compound_n _ \<Rightarrow> True
          | Intrinsic_function_n _ \<Rightarrow> True
          | For_n _ _ \<Rightarrow> length cs = 4
          | Integer_range_n \<Rightarrow> length cs = 3
          | Macro_n _ \<Rightarrow> length cs = 1
          | Subscription_n \<Rightarrow> cs \<noteq> [] \<and> qtl_is_access (hd cs)
          | Member_access_n _ \<Rightarrow> length cs = 1 \<and> qtl_is_access (hd cs)
          | _ \<Rightarrow> cs = [])
      then Inr (Node l cs) else Inl Thrown_int)"

fun qtl_substitute_subexpressions :: "qtl_expr \<Rightarrow> qtl_expr list \<Rightarrow> qtl_expr result" where
  "qtl_substitute_subexpressions (Node (Sum_n is al) _) cs = sum_expr_substitute is al cs"
| "qtl_substitute_subexpressions (Node (For_all_n is al) _) cs = for_all_expr_substitute is al cs"
| "qtl_substitute_subexpressions (Node (Kronecker_delta_n n) _) cs = kronecker_delta_expr_substitute n cs"
| "qtl_substitute_subexpressions (Node (Multi_index_n v vs) _) cs = multi_index_expr_substitute v vs cs"
| "qtl_substitute_subexpressions (Node (Object_n x) _) cs = object_expr_substitute x cs"
| "qtl_substitute_subexpressions (Node l _) cs = base_expr_substitute l cs"

lemmas qtl_substitute_defs =
  sum_expr_substitute_def for_all_expr_substitute_def kronecker_delta_expr_substitute_def
  multi_index_expr_substitute_def object_expr_substitute_def base_expr_substitute_def qfor_all_multi_def

text \<open>The nodes the constructors can build: those whose own sub-expressions they accept.\<close>

definition node_ok :: "qtl_node \<Rightarrow> qtl_expr list \<Rightarrow> bool" where
  "node_ok l cs \<longleftrightarrow> qtl_substitute_subexpressions (Node l []) cs = Inr (Node l cs)"

fun qtl_ok :: "qtl_expr \<Rightarrow> bool" where
  "qtl_ok (Node l cs) = (node_ok l cs \<and> (\<forall>c \<in> set cs. qtl_ok c))"

lemma substitute_subexpressions_Inr_iff:
  "qtl_substitute_subexpressions (Node l xs) cs = Inr r \<longleftrightarrow> r = Node l cs \<and> node_ok l cs"
  unfolding node_ok_def
  by (cases l) (auto simp: qtl_substitute_defs length_Suc_conv numeral_2_eq_2)

lemma substitute_subexpressions_not_Diverged [simp]:
  "qtl_substitute_subexpressions e cs \<noteq> Inl Diverged"
  by (cases "(e, cs)" rule: qtl_substitute_subexpressions.cases) (auto simp: qtl_substitute_defs)

end
