(* ===== verification/QtlTraversal.thy ===== *)
theory QtlTraversal
  imports QtlExpressions
begin

text \<open>
  The generic traversals (\<open>qubus/include/qubus/pattern/substitute.hpp\<close>, \<open>search.hpp\<close>,
  \<open>for_each.hpp\<close>) over expressions of the front end.  Matchers of the front end may keep a state
  (the map of multi-indices, a generator of names, the parameters found), so a matcher here gets and
  returns a state.  \<open>substitute\<close> goes on into what a match produced and takes fuel; if no match
  produces more than it consumes, the size of the expression is enough.
\<close>

section \<open>Operations with a state over a list\<close>

fun thread :: "('s \<Rightarrow> 'a \<Rightarrow> ('s \<times> 'b) result) \<Rightarrow> 's \<Rightarrow> 'a list \<Rightarrow> ('s \<times> 'b list) result" where
  "thread f s [] = Inr (s, [])"
| "thread f s (x # xs) =
     rbind (f s x) (\<lambda>(s1, y). rbind (thread f s1 xs) (\<lambda>(s2, ys). Inr (s2, y # ys)))"

lemma thread_cong [fundef_cong]:
  assumes "s = t" and "xs = ys" and "\<And>u x. x \<in> set ys \<Longrightarrow> f u x = g u x"
  shows "thread f s xs = thread g t ys"
  using assms
proof (induction ys arbitrary: s t xs)
  case (Cons y ys)
  then have "f t y = g t y" "\<And>u. thread f u ys = thread g u ys" by auto
  with Cons.prems show ?case by simp
qed simp

lemma thread_length: "thread f s xs = Inr (t, ys) \<Longrightarrow> length ys = length xs"
  by (induction xs arbitrary: s ys) (auto simp: rbind_Inr_iff)

text \<open>An invariant of the state carries a relation between inputs and outputs through.\<close>

lemma thread_rel:
  assumes step: "\<And>s x t y. x \<in> set xs \<Longrightarrow> I s \<Longrightarrow> f s x = Inr (t, y) \<Longrightarrow> I t \<and> R x y"
  shows "thread f s xs = Inr (t, ys) \<Longrightarrow> I s \<Longrightarrow> I t \<and> list_all2 R xs ys"
  using step
proof (induction xs arbitrary: s ys)
  case (Cons x xs)
  from Cons.prems(1) obtain s1 y ys' where
    *: "f s x = Inr (s1, y)" "thread f s1 xs = Inr (t, ys')" "ys = y # ys'"
    by (auto simp: rbind_Inr_iff)
  from Cons.prems(3) [of x s s1 y] Cons.prems(2) *(1) have "I s1 \<and> R x y" by simp
  with Cons.IH [OF *(2)] Cons.prems(3) * show ?case by auto
qed simp

lemma thread_not_Diverged:
  assumes "\<And>s x. x \<in> set xs \<Longrightarrow> f s x \<noteq> Inl Diverged"
  shows "thread f s xs \<noteq> Inl Diverged"
  using assms
proof (induction xs arbitrary: s)
  case (Cons x xs)
  then have "f s x \<noteq> Inl Diverged" "\<And>u. thread f u xs \<noteq> Inl Diverged" by auto
  then show ?case by (auto simp: rbind_Inl_iff)
qed simp

section \<open>Substitution\<close>

type_synonym 's qtl_matcher = "'s \<Rightarrow> qtl_expr \<Rightarrow> ('s \<times> qtl_expr option) result"

fun qtl_substitute :: "nat \<Rightarrow> 's qtl_matcher \<Rightarrow> 's \<Rightarrow> qtl_expr \<Rightarrow> ('s \<times> qtl_expr) result" where
  "qtl_substitute 0 m s e = Inl Diverged"
| "qtl_substitute (Suc n) m s e =
     rbind (m s e) (\<lambda>(s1, r).
       let new_expr = (case r of Some e' \<Rightarrow> e' | None \<Rightarrow> e)
       in rbind (qtl_sub_expressions new_expr) (\<lambda>cs.
          rbind (thread (qtl_substitute n m) s1 cs) (\<lambda>(s2, transformed_subexprs).
          rbind (qtl_substitute_subexpressions new_expr transformed_subexprs) (\<lambda>e2. Inr (s2, e2)))))"

text \<open>A matcher without a state.\<close>

definition stateless :: "(qtl_expr \<Rightarrow> qtl_expr option result) \<Rightarrow> unit qtl_matcher" where
  "stateless m s e = rbind (m e) (\<lambda>r. Inr (s, r))"

definition qtl_rewrite :: "nat \<Rightarrow> (qtl_expr \<Rightarrow> qtl_expr option result) \<Rightarrow> qtl_expr \<Rightarrow> qtl_expr result" where
  "qtl_rewrite n m e = rbind (qtl_substitute n (stateless m) () e) (\<lambda>(s, r). Inr r)"

lemma qtl_substitute_stateless:
  "qtl_substitute n (stateless m) s e = rbind (qtl_rewrite n m e) (\<lambda>r. Inr (s, r))"
  by (cases "qtl_substitute n (stateless m) () e") (auto simp: qtl_rewrite_def)

lemma thread_stateless:
  "thread (qtl_substitute n (stateless m)) s cs = rbind (traverse (qtl_rewrite n m) cs) (\<lambda>r. Inr (s, r))"
proof (induction cs)
  case (Cons c cs)
  then show ?case
    by (cases "qtl_rewrite n m c"; cases "traverse (qtl_rewrite n m) cs")
      (simp_all add: qtl_substitute_stateless)
qed simp

lemma qtl_rewrite_0 [simp]: "qtl_rewrite 0 m e = Inl Diverged"
  by (simp add: qtl_rewrite_def)

lemma qtl_rewrite_Suc [simp]:
  "qtl_rewrite (Suc n) m e =
     rbind (m e) (\<lambda>r. let new_expr = (case r of Some e' \<Rightarrow> e' | None \<Rightarrow> e)
       in rbind (traverse (qtl_rewrite n m) (qtl_subs new_expr)) (qtl_substitute_subexpressions new_expr))"
proof (cases "m e")
  case (Inr r)
  define e1 where "e1 = (case r of Some e' \<Rightarrow> e' | None \<Rightarrow> e)"
  show ?thesis
    using Inr
    by (cases "traverse (qtl_rewrite n m) (qtl_subs e1)")
      (auto simp: qtl_rewrite_def [of "Suc n"] stateless_def thread_stateless e1_def [symmetric] Let_def
        rbind_assoc simp del: qtl_substitute_subexpressions.simps split: rbind_split)
qed (simp add: qtl_rewrite_def stateless_def)

text \<open>If a measure decreases from an expression to its parts and no match makes it grow, fuel of
  its value is enough.\<close>

lemma qtl_substitute_fuel:
  assumes part: "\<And>e c. c \<in> set (qtl_subs e) \<Longrightarrow> \<mu> c < (\<mu> e :: nat)"
    and step: "\<And>s e t r. I s \<Longrightarrow> m s e = Inr (t, r) \<Longrightarrow> I t \<and> (\<forall>e'. r = Some e' \<longrightarrow> \<mu> e' \<le> \<mu> e)"
    and err: "\<And>s e. I s \<Longrightarrow> m s e \<noteq> Inl Diverged"
  shows "I s \<Longrightarrow> \<mu> e < n \<Longrightarrow> qtl_substitute n m s e \<noteq> Inl Diverged \<and>
    (\<forall>t r. qtl_substitute n m s e = Inr (t, r) \<longrightarrow> I t)"
proof (induction n arbitrary: e s)
  case (Suc n)
  show ?case
  proof (cases "m s e")
    case (Inl x)
    with err [OF Suc.prems(1), of e] show ?thesis by simp
  next
    case (Inr p)
    obtain s1 r where p: "p = (s1, r)" by (cases p)
    define e1 where "e1 = (case r of Some e' \<Rightarrow> e' | None \<Rightarrow> e)"
    have "I s1" and "\<mu> e1 \<le> \<mu> e"
      using step [OF Suc.prems(1), of e s1 r] Inr p by (auto simp: e1_def split: option.split)
    then have less: "\<mu> c < n" if "c \<in> set (qtl_subs e1)" for c
      using that part [of c e1] Suc.prems(2) by simp
    have "thread (qtl_substitute n m) u cs \<noteq> Inl Diverged \<and>
        (\<forall>t r. thread (qtl_substitute n m) u cs = Inr (t, r) \<longrightarrow> I t)"
      if "I u" "set cs \<subseteq> set (qtl_subs e1)" for u cs
      using that
    proof (induction cs arbitrary: u)
      case (Cons c cs)
      with Suc.IH [OF Cons.prems(1) less, of c]
      show ?case by (fastforce simp: rbind_Inl_iff rbind_Inr_iff)
    qed simp
    from this [OF \<open>I s1\<close> subset_refl] show ?thesis
      using Inr p by (auto simp: e1_def [symmetric] Let_def rbind_Inl_iff rbind_Inr_iff)
  qed
qed simp

lemma qtl_rewrite_fuel:
  assumes part: "\<And>e c. c \<in> set (qtl_subs e) \<Longrightarrow> \<mu> c < (\<mu> e :: nat)"
    and "\<And>e e'. m e = Inr (Some e') \<Longrightarrow> \<mu> e' \<le> \<mu> e" and "\<And>e. m e \<noteq> Inl Diverged" and "\<mu> e < n"
  shows "qtl_rewrite n m e \<noteq> Inl Diverged"
proof -
  have "qtl_substitute n (stateless m) () e \<noteq> Inl Diverged"
    using qtl_substitute_fuel [where \<mu> = \<mu> and I = "\<lambda>_. True" and m = "stateless m" and s = "()" and e = e and n = n]
      assms by (auto simp: stateless_def rbind_Inr_iff rbind_Inl_iff)
  then show ?thesis by (auto simp: qtl_rewrite_def rbind_Inl_iff)
qed

text \<open>If the matches keep the expressions constructible, and accesses accesses, the rewriting succeeds.\<close>

lemma node_ok_list_all2:
  assumes "node_ok l cs" and "list_all2 (\<lambda>c d. qtl_is_access c \<longrightarrow> qtl_is_access d) cs ds"
  shows "node_ok l ds"
proof -
  have len: "length ds = length cs" using assms(2) by (simp add: list_all2_lengthD)
  have "cs \<noteq> [] \<Longrightarrow> qtl_is_access (hd cs) \<Longrightarrow> qtl_is_access (hd ds)"
    using assms(2) by (cases cs) (auto simp: list_all2_Cons1)
  with assms(1) len show ?thesis
    unfolding node_ok_def
    by (cases l)
      (auto simp: qtl_substitute_defs length_Suc_conv numeral_2_eq_2 split: if_splits)
qed

lemma qtl_rewrite_total:
  assumes part: "\<And>e c. P e \<Longrightarrow> c \<in> set (qtl_subs e) \<Longrightarrow> P c \<and> \<mu> c < (\<mu> e :: nat)"
    and step: "\<And>e. P e \<Longrightarrow> qtl_ok e \<Longrightarrow> \<exists>r. m e = Inr r \<and> (\<forall>d. r = Some d \<longrightarrow>
      P d \<and> qtl_ok d \<and> \<mu> d \<le> \<mu> e \<and> (qtl_is_access e \<longrightarrow> qtl_is_access d))"
  shows "P e \<Longrightarrow> qtl_ok e \<Longrightarrow> \<mu> e < n \<Longrightarrow>
    \<exists>r. qtl_rewrite n m e = Inr r \<and> qtl_ok r \<and> (qtl_is_access e \<longrightarrow> qtl_is_access r)"
proof (induction n arbitrary: e)
  case (Suc n)
  obtain r where r: "m e = Inr r" "\<forall>d. r = Some d \<longrightarrow>
      P d \<and> qtl_ok d \<and> \<mu> d \<le> \<mu> e \<and> (qtl_is_access e \<longrightarrow> qtl_is_access d)"
    using step [OF Suc.prems(1,2)] by blast
  define d where "d = (case r of Some e' \<Rightarrow> e' | None \<Rightarrow> e)"
  have d: "P d" "qtl_ok d" "\<mu> d \<le> \<mu> e" "qtl_is_access e \<longrightarrow> qtl_is_access d"
    using r(2) Suc.prems by (auto simp: d_def split: option.split)
  obtain l cs where lcs: "d = Node l cs" by (cases d)
  have "\<forall>c \<in> set cs. \<exists>r. qtl_rewrite n m c = Inr r \<and> qtl_ok r \<and> (qtl_is_access c \<longrightarrow> qtl_is_access r)"
  proof
    fix c assume "c \<in> set cs"
    with d lcs Suc.prems(3) have "P c" "qtl_ok c" "\<mu> c < n" using part [of d c] by auto
    then show "\<exists>r. qtl_rewrite n m c = Inr r \<and> qtl_ok r \<and> (qtl_is_access c \<longrightarrow> qtl_is_access r)"
      by (rule Suc.IH)
  qed
  then obtain cs' where cs': "list_all2 (\<lambda>c r. qtl_rewrite n m c = Inr r \<and> qtl_ok r \<and>
      (qtl_is_access c \<longrightarrow> qtl_is_access r)) cs cs'"
    using list_all2_exists [of cs "\<lambda>c r. qtl_rewrite n m c = Inr r \<and> qtl_ok r \<and>
      (qtl_is_access c \<longrightarrow> qtl_is_access r)"] by blast
  then have "traverse (qtl_rewrite n m) cs = Inr cs'"
    by (auto simp: traverse_Inr_iff elim: list_all2_mono)
  moreover have ok: "node_ok l cs'"
    using d(2) lcs by (intro node_ok_list_all2 [OF _ list_all2_mono [OF cs']]) auto
  ultimately have "qtl_rewrite (Suc n) m e = Inr (Node l cs')"
    using r(1) lcs by (simp add: d_def [symmetric] substitute_subexpressions_Inr_iff del: qtl_substitute_subexpressions.simps)
  moreover have "\<forall>c \<in> set cs'. qtl_ok c" using cs' by (auto simp: list_all2_conv_all_nth set_conv_nth)
  ultimately show ?case using ok d(4) lcs by simp
qed simp

text \<open>A rewriting whose matches insert leaves only.\<close>

fun rewrite_leaves :: "(qtl_expr \<Rightarrow> qtl_expr option) \<Rightarrow> qtl_expr \<Rightarrow> qtl_expr" where
  "rewrite_leaves f (Node l cs) =
     (case f (Node l cs) of Some e \<Rightarrow> e | None \<Rightarrow> Node l (map (rewrite_leaves f) cs))"

lemma size_rewrite_leaves:
  assumes "\<And>e e'. f e = Some e' \<Longrightarrow> qtl_subs e' = []"
  shows "qtl_size (rewrite_leaves f e) \<le> qtl_size e"
proof (induction e)
  case (Node l cs)
  have "sum_list (map (qtl_size \<circ> rewrite_leaves f) cs) \<le> sum_list (map qtl_size cs)"
    using Node by (auto intro: sum_list_mono)
  moreover have "qtl_size d = 1" if "f (Node l cs) = Some d" for d
    using assms [OF that] by (cases d) simp
  ultimately show ?case by (auto split: option.split)
qed

lemma qtl_rewrite_leaves:
  assumes "\<And>e e'. f e = Some e' \<Longrightarrow> qtl_subs e' = []"
  shows "qtl_rewrite n (\<lambda>e. Inr (f e)) e = Inr r \<Longrightarrow> r = rewrite_leaves f e"
proof (induction n arbitrary: e r)
  case (Suc n)
  obtain l cs where e: "e = Node l cs" by (cases e)
  show ?case
  proof (cases "f e")
    case None
    with Suc.prems e obtain cs' where cs': "traverse (qtl_rewrite n (\<lambda>e. Inr (f e))) cs = Inr cs'"
      "qtl_substitute_subexpressions (Node l cs) cs' = Inr r"
      by (auto simp: rbind_Inr_iff)
    have "list_all2 (\<lambda>x y. y = rewrite_leaves f x) cs cs'"
      using cs'(1) Suc.IH by (auto simp: traverse_Inr_iff elim!: list_all2_mono)
    then have "cs' = map (rewrite_leaves f) cs"
      by (induction rule: list_all2_induct) auto
    with cs'(2) e None show ?thesis by (simp add: substitute_subexpressions_Inr_iff)
  next
    case (Some d)
    with assms [OF Some] Suc.prems e show ?thesis
      by (cases d) (auto simp: rbind_Inr_iff substitute_subexpressions_Inr_iff)
  qed
qed simp

section \<open>Visiting and searching\<close>

fun qtl_preorder :: "qtl_expr \<Rightarrow> qtl_expr list" where
  "qtl_preorder (Node l cs) = Node l cs # concat (map qtl_preorder cs)"

definition qtl_for_each :: "(qtl_expr \<Rightarrow> 's \<Rightarrow> 's) \<Rightarrow> qtl_expr \<Rightarrow> 's \<Rightarrow> 's" where
  "qtl_for_each visit e s = foldl (\<lambda>st d. visit d st) s (qtl_preorder e)"

fun qtl_first_match :: "('a \<Rightarrow> 'r option) \<Rightarrow> 'a list \<Rightarrow> 'r option" where
  "qtl_first_match m [] = None"
| "qtl_first_match m (e # es) = (case m e of Some r \<Rightarrow> Some r | None \<Rightarrow> qtl_first_match m es)"

lemma qtl_first_match_cong [fundef_cong]:
  "xs = ys \<Longrightarrow> (\<And>x. x \<in> set ys \<Longrightarrow> f x = g x) \<Longrightarrow> qtl_first_match f xs = qtl_first_match g ys"
  by (induction ys arbitrary: xs) (auto split: option.splits)

lemma qtl_first_match_Some:
  "qtl_first_match m es = Some r \<Longrightarrow> \<exists>e \<in> set es. m e = Some r"
  by (induction es) (auto split: option.splits)

lemma qtl_first_match_None:
  "qtl_first_match m es = None \<longleftrightarrow> (\<forall>e \<in> set es. m e = None)"
  by (induction es) (auto split: option.splits)

fun qtl_search :: "(qtl_expr \<Rightarrow> 'r option) \<Rightarrow> qtl_expr \<Rightarrow> 'r option" where
  "qtl_search m (Node l cs) =
     (case m (Node l cs) of Some r \<Rightarrow> Some r | None \<Rightarrow> qtl_first_match (qtl_search m) cs)"

lemma qtl_search_Some: "qtl_search m e = Some r \<Longrightarrow> \<exists>d \<in> set (qtl_preorder e). m d = Some r"
  by (induction e) (force split: option.splits dest!: qtl_first_match_Some)

lemma qtl_search_None: "qtl_search m e = None \<longleftrightarrow> (\<forall>d \<in> set (qtl_preorder e). m d = None)"
  by (induction e) (auto simp: qtl_first_match_None split: option.splits)

end
