(* ===== verification/QtlPasses.thy ===== *)
theory QtlPasses
  imports QtlTraversal
begin

text \<open>
  The passes of the tensor front end (\<open>qubus/src/qtl\<close>), in the order in which a kernel runs them:
  \<open>object_extraction_pass.cpp\<close>, \<open>legalization_pass.cpp\<close>, \<open>multi_index_handling.cpp\<close>,
  \<open>kronecker_delta_folding_pass.cpp\<close>, \<open>lower_top_level_sums.cpp\<close> and
  \<open>lower_abstract_indices.cpp\<close> with \<open>deduce_iteration_space.cpp\<close>.  Passes written with
  \<open>substitute\<close> take its fuel; an address for a new variable is the next unused number.
\<close>

section \<open>Patterns\<close>

text \<open>\<open>pattern::index\<close> and \<open>pattern::multi_index\<close> (\<open>include/qubus/qtl/pattern/index.hpp\<close>).\<close>

fun index_pattern :: "qtl_expr \<Rightarrow> variable_declaration option" where
  "index_pattern (Node (Variable_ref_n v) []) = (if type_eq (var_type v) Index_t then Some v else None)"
| "index_pattern _ = None"

fun multi_index_pattern :: "qtl_expr \<Rightarrow> variable_declaration option" where
  "multi_index_pattern (Node (Variable_ref_n v) []) =
     (case var_type v of Multi_index_t _ \<Rightarrow> Some v | _ \<Rightarrow> None)"
| "multi_index_pattern _ = None"

definition is_index :: "variable_declaration \<Rightarrow> qtl_expr \<Rightarrow> bool" where
  "is_index v e = (case index_pattern e of Some w \<Rightarrow> var_eq w v | None \<Rightarrow> False)"

section \<open>Objects\<close>

type_synonym parameter_map = "(variable_declaration \<times> object_ref) list"

fun extract_matcher :: "(parameter_map \<times> string set \<times> nat) qtl_matcher" where
  "extract_matcher (parameter_map, names, address) (Node (Object_n x) []) =
     (case find (\<lambda>entry. object_eq (snd entry) x) parameter_map of
        Some entry \<Rightarrow> Inr ((parameter_map, names, address), Some (qvar (fst entry)))
      | None \<Rightarrow>
          rbind (create_new_variable names address (object_type x) ''obj'') (\<lambda>(v, names').
            Inr ((parameter_map @ [(v, x)], names', Suc address), Some (qvar v))))"
| "extract_matcher s e = Inr (s, None)"

definition extract_objects ::
  "nat \<Rightarrow> qtl_expr \<Rightarrow> parameter_map \<Rightarrow> nat \<Rightarrow> (parameter_map \<times> nat \<times> qtl_expr) result" where
  "extract_objects n e parameter_map address =
     rbind (qtl_substitute n extract_matcher (parameter_map, {}, address) e)
       (\<lambda>((parameter_map', names, address'), e'). Inr (parameter_map', address', e'))"

section \<open>Legalization\<close>

type_synonym index_info = "variable_declaration \<times> variable_declaration list option"

definition note_index :: "index_info \<Rightarrow> index_info list \<Rightarrow> index_info list" where
  "note_index i outer_indices =
     (if \<exists>entry \<in> set outer_indices. var_eq (fst entry) (fst i) then outer_indices else outer_indices @ [i])"

fun outer_index :: "qtl_expr \<Rightarrow> index_info list \<Rightarrow> index_info list result" where
  "outer_index (Node (Variable_ref_n v) []) outer_indices = Inr (note_index (v, None) outer_indices)"
| "outer_index (Node (Multi_index_n v vs) []) outer_indices = Inr (note_index (v, Some vs) outer_indices)"
| "outer_index _ outer_indices = Inl No_case_applicable"

fun collect_outer_indices :: "qtl_expr list \<Rightarrow> index_info list \<Rightarrow> index_info list result" where
  "collect_outer_indices [] outer_indices = Inr outer_indices"
| "collect_outer_indices (e # es) outer_indices =
     rbind (outer_index e outer_indices) (collect_outer_indices es)"

fun wrap_loops :: "index_info list \<Rightarrow> qtl_expr \<Rightarrow> qtl_expr result" where
  "wrap_loops [] root = Inr root"
| "wrap_loops ((v, els) # infos) root =
     rbind (wrap_loops infos root) (\<lambda>r.
       case els of Some vs \<Rightarrow> qfor_all_multi vs (Some v) r | None \<Rightarrow> Inr (qfor_all v r))"

fun capture_matcher :: "qtl_expr \<Rightarrow> qtl_expr option result" where
  "capture_matcher (Node (Multi_index_n v vs) []) = Inr (Some (qvar v))"
| "capture_matcher e = Inr None"

definition assigned_indices :: "qtl_expr \<Rightarrow> qtl_expr list option" where
  "assigned_indices e =
     (case e of Node (Binary_n t) [Node Subscription_n (a # indices), r] \<Rightarrow>
        if t = Assign then Some indices else None
      | _ \<Rightarrow> None)"

definition legalize_expression :: "nat \<Rightarrow> qtl_expr \<Rightarrow> qtl_expr result" where
  "legalize_expression n e =
     (case assigned_indices e of
        None \<Rightarrow> Inl Thrown_int
      | Some indices \<Rightarrow>
          rbind (collect_outer_indices indices []) (\<lambda>outer_indices.
          rbind (wrap_loops outer_indices e) (qtl_rewrite n capture_matcher)))"

section \<open>Multi-indices\<close>

type_synonym multi_index_map = "nat \<rightharpoonup> qtl_expr list"

definition expand_multi_index :: "multi_index_map \<Rightarrow> qtl_expr \<Rightarrow> qtl_expr list result" where
  "expand_multi_index M e =
     (case multi_index_pattern e of
        Some v \<Rightarrow> (case M (var_id v) of Some es \<Rightarrow> Inr es | None \<Rightarrow> Inl Out_of_range)
      | None \<Rightarrow> Inr [e])"

definition nest_for_alls :: "variable_declaration list \<Rightarrow> qtl_expr \<Rightarrow> qtl_expr" where
  "nest_for_alls is body = foldl (\<lambda>r i. qfor_all i r) body is"

definition nest_sums :: "variable_declaration list \<Rightarrow> qtl_expr \<Rightarrow> qtl_expr" where
  "nest_sums is body = foldl (\<lambda>r i. qsum [i] r) body is"

definition note_alias ::
  "variable_declaration option \<Rightarrow> variable_declaration list \<Rightarrow> multi_index_map \<Rightarrow> multi_index_map" where
  "note_alias al is M = (case al of Some v \<Rightarrow> M(var_id v \<mapsto> map qvar is) | None \<Rightarrow> M)"

fun expand_matcher :: "multi_index_map qtl_matcher" where
  "expand_matcher M (Node Subscription_n (t # indices)) =
     rbind (traverse (expand_multi_index M) indices) (\<lambda>es.
       Inr (M, Some (qsubscription t (concat es))))"
| "expand_matcher M (Node (For_all_n is al) [body]) =
     Inr (note_alias al is M, Some (nest_for_alls is body))"
| "expand_matcher M (Node (Sum_n is al) [body]) =
     Inr (note_alias al is M, Some (nest_sums is body))"
| "expand_matcher M e = Inr (M, None)"

definition expand_multi_indices :: "nat \<Rightarrow> qtl_expr \<Rightarrow> qtl_expr result" where
  "expand_multi_indices n e =
     rbind (qtl_substitute n expand_matcher (\<lambda>i. None) e) (\<lambda>(M, e'). Inr e')"

section \<open>Kronecker deltas\<close>

type_synonym bubble = "variable_declaration \<times> variable_declaration"

definition make_bubble :: "variable_declaration \<Rightarrow> variable_declaration \<Rightarrow> bubble" where
  "make_bubble a b = (if var_id a < var_id b then (a, b) else (b, a))"

definition bubble_eq :: "bubble \<Rightarrow> bubble \<Rightarrow> bool" where
  "bubble_eq x y = (var_eq (fst x) (fst y) \<and> var_eq (snd x) (snd y))"

definition remove_bubbles :: "variable_declaration \<Rightarrow> bubble list \<Rightarrow> bubble list" where
  "remove_bubbles i bubbles = filter (\<lambda>v. \<not> (var_eq i (fst v) \<or> var_eq i (snd v))) bubbles"

definition delta_bubble :: "qtl_expr \<Rightarrow> qtl_expr \<Rightarrow> bubble list" where
  "delta_bubble a b =
     (case (index_pattern a, index_pattern b) of
        (Some i, Some j) \<Rightarrow> if \<not> var_eq i j then [make_bubble i j] else []
      | _ \<Rightarrow> [])"

fun collect_bubbles :: "qtl_expr \<Rightarrow> bubble list \<Rightarrow> bubble list" where
  "collect_bubbles (Node (Sum_n indices al) [a]) bubbles =
     foldl (\<lambda>bs i. remove_bubbles i bs) (collect_bubbles a bubbles) indices"
| "collect_bubbles (Node (Binary_n t) [a, b]) bubbles =
     (if t = Plus \<or> t = Minus then
        (let left = collect_bubbles a []; right = collect_bubbles b []
         in bubbles @ filter (\<lambda>x. \<exists>y \<in> set right. bubble_eq x y) left)
      else if t = Divides then collect_bubbles a bubbles
      else if t = Multiplies then collect_bubbles b (collect_bubbles a bubbles)
      else bubbles)"
| "collect_bubbles (Node (Kronecker_delta_n n) [a, b]) bubbles = bubbles @ delta_bubble a b"
| "collect_bubbles _ bubbles = bubbles"

fun contains_bubble_with_index :: "variable_declaration \<Rightarrow> bubble list \<Rightarrow> variable_declaration option" where
  "contains_bubble_with_index i [] = None"
| "contains_bubble_with_index i (x # bubbles) =
     (if var_eq (fst x) i then Some (snd x)
      else if var_eq (snd x) i then Some (fst x)
      else contains_bubble_with_index i bubbles)"

text \<open>\<open>delta(index(i), index(i))\<close>: the second occurrence of the pattern variable has to equal the first.\<close>

fun trivial_delta_matcher :: "qtl_expr \<Rightarrow> qtl_expr option result" where
  "trivial_delta_matcher (Node (Kronecker_delta_n n) [a, b]) =
     Inr (case (index_pattern a, index_pattern b) of
            (Some i, Some j) \<Rightarrow> if var_eq i j then Some (qinteger_literal 1) else None
          | _ \<Rightarrow> None)"
| "trivial_delta_matcher e = Inr None"

definition eliminate_trivial_deltas :: "nat \<Rightarrow> qtl_expr \<Rightarrow> qtl_expr result" where
  "eliminate_trivial_deltas n e = qtl_rewrite n trivial_delta_matcher e"

definition index_matcher :: "variable_declaration \<Rightarrow> qtl_expr \<Rightarrow> qtl_expr \<Rightarrow> qtl_expr option result" where
  "index_matcher i r e = Inr (if is_index i e then Some r else None)"

definition substitute_index ::
  "nat \<Rightarrow> qtl_expr \<Rightarrow> variable_declaration \<Rightarrow> variable_declaration \<Rightarrow> qtl_expr result" where
  "substitute_index n e i j = qtl_rewrite n (index_matcher i (qvar j)) e"

fun fold_indices ::
  "nat \<Rightarrow> bubble list \<Rightarrow> variable_declaration list \<Rightarrow> qtl_expr \<Rightarrow> variable_declaration list \<Rightarrow>
     (qtl_expr \<times> variable_declaration list) result" where
  "fold_indices n bubbles [] new_body surviving = Inr (new_body, surviving)"
| "fold_indices n bubbles (i # is) new_body surviving =
     (case contains_bubble_with_index i bubbles of
        Some j \<Rightarrow>
          rbind (substitute_index n new_body i j) (\<lambda>b1.
          rbind (eliminate_trivial_deltas n b1) (\<lambda>b2. fold_indices n bubbles is b2 surviving))
      | None \<Rightarrow> fold_indices n bubbles is new_body (surviving @ [i]))"

fun fold_matcher :: "nat \<Rightarrow> qtl_expr \<Rightarrow> qtl_expr option result" where
  "fold_matcher n (Node (Sum_n indices al) [body]) =
     rbind (fold_indices n (collect_bubbles body []) indices body []) (\<lambda>(new_body, surviving).
       Inr (Some (if surviving = [] then new_body else qsum surviving new_body)))"
| "fold_matcher n e = Inr None"

definition fold_kronecker_deltas :: "nat \<Rightarrow> qtl_expr \<Rightarrow> qtl_expr result" where
  "fold_kronecker_deltas n e = qtl_rewrite n (fold_matcher n) e"

section \<open>Sums at the top level\<close>

fun remove_top_level_sums ::
  "qtl_expr \<Rightarrow> variable_declaration list \<Rightarrow> qtl_expr \<times> variable_declaration list" where
  "remove_top_level_sums (Node (Sum_n [i] al) [body]) sum_indices =
     remove_top_level_sums body (sum_indices @ [i])"
| "remove_top_level_sums e sum_indices = (e, sum_indices)"

definition is_single_sum :: "qtl_expr \<Rightarrow> bool" where
  "is_single_sum e = (case e of Node (Sum_n [i] al) [b] \<Rightarrow> True | _ \<Rightarrow> False)"

definition lower_sum_assignment :: "qtl_expr \<Rightarrow> qtl_expr \<Rightarrow> qtl_expr" where
  "lower_sum_assignment a s =
     (let (new_rhs, sum_indices) = remove_top_level_sums s []
      in qsequenced_tasks
           [qassign a (qdouble_literal 0), foldr qfor_all sum_indices (qplus_assign a new_rhs)])"

fun lower_top_level_sums :: "qtl_expr \<Rightarrow> qtl_expr" where
  "lower_top_level_sums (Node (For_all_n [i] al) [b]) = qfor_all i (lower_top_level_sums b)"
| "lower_top_level_sums (Node (For_n ord i) [b, c, s, d]) =
     (if s = qinteger_literal 1 then qfor i b c (lower_top_level_sums d)
      else Node (For_n ord i) [b, c, s, d])"
| "lower_top_level_sums (Node (Compound_n ord) es) = qsequenced_tasks (map lower_top_level_sums es)"
| "lower_top_level_sums (Node (Binary_n t) [a, s]) =
     (if t = Assign \<and> is_single_sum s then lower_sum_assignment a s else Node (Binary_n t) [a, s])"
| "lower_top_level_sums e = e"

section \<open>Loops over abstract indices\<close>

fun index_position :: "variable_declaration \<Rightarrow> qtl_expr list \<Rightarrow> nat \<Rightarrow> nat option" where
  "index_position v [] current_pos = None"
| "index_position v (e # es) current_pos =
     (if is_index v e then Some current_pos else index_position v es (Suc current_pos))"

fun iteration_space_matcher :: "variable_declaration \<Rightarrow> qtl_expr \<Rightarrow> (qtl_expr \<times> qtl_expr) option" where
  "iteration_space_matcher v (Node Subscription_n (a # indices)) =
     (case index_position v indices 0 of
        Some p \<Rightarrow> Some (qinteger_literal 0, qintrinsic_function ''extent'' [a, qinteger_literal (int p)])
      | None \<Rightarrow> None)"
| "iteration_space_matcher v (Node (Kronecker_delta_n n) [a, b]) =
     (if is_index v a \<or> is_index v b then Some (qinteger_literal 0, qinteger_literal n) else None)"
| "iteration_space_matcher v e = None"

definition deduce_iteration_space :: "variable_declaration \<Rightarrow> qtl_expr \<Rightarrow> (qtl_expr \<times> qtl_expr) result" where
  "deduce_iteration_space v e =
     (case qtl_search (iteration_space_matcher v) e of Some b \<Rightarrow> Inr b | None \<Rightarrow> Inl Thrown_int)"

fun lower_index_matcher :: "nat \<Rightarrow> (string set \<times> nat) qtl_matcher" where
  "lower_index_matcher n (names, address) (Node (For_all_n [v] al) [body]) =
     rbind (deduce_iteration_space v body) (\<lambda>(lower_bound, upper_bound).
     rbind (create_new_variable names address Integer_t (var_name v)) (\<lambda>(loop_index, names').
     rbind (qtl_rewrite n (index_matcher v (qvar loop_index)) body) (\<lambda>new_body.
       Inr ((names', Suc address), Some (qfor loop_index lower_bound upper_bound new_body)))))"
| "lower_index_matcher n s e = Inr (s, None)"

definition lower_abstract_indices_impl :: "nat \<Rightarrow> nat \<Rightarrow> qtl_expr \<Rightarrow> (nat \<times> qtl_expr) result" where
  "lower_abstract_indices_impl n address e =
     rbind (qtl_substitute n (lower_index_matcher n) ({}, address) e) (\<lambda>((names, address'), e').
       Inr (address', e'))"

fun delta_matcher :: "qtl_expr \<Rightarrow> qtl_expr option result" where
  "delta_matcher (Node (Kronecker_delta_n n) [a, b]) = Inr (Some (qintrinsic_function ''delta'' [a, b]))"
| "delta_matcher e = Inr None"

definition fixup_kronecker_deltas :: "nat \<Rightarrow> qtl_expr \<Rightarrow> qtl_expr result" where
  "fixup_kronecker_deltas n e = qtl_rewrite n delta_matcher e"

definition lower_abstract_indices :: "nat \<Rightarrow> nat \<Rightarrow> qtl_expr \<Rightarrow> (nat \<times> qtl_expr) result" where
  "lower_abstract_indices n address e =
     rbind (lower_abstract_indices_impl n address e) (\<lambda>(address', e1).
     rbind (fixup_kronecker_deltas n e1) (\<lambda>e2. Inr (address', e2)))"

end
