(* ===== verification/QtlSemantics.thy ===== *)
theory QtlSemantics
  imports Complex_Main QtlPasses
begin

text \<open>
  What expressions of the front end mean: the reference that its passes are compared with.  Numbers
  are rationals (the rounding of floating point is left aside).  A valuation gives the indices their
  values, and a memory gives the elements of the tensors, where reading outside of a tensor is
  undefined, as is a division by zero or a delta outside of its range.
  A sum adds up the values for all values of its indices, a loop over all values runs its body for each
  of them; the first index of a list runs fastest.
\<close>

section \<open>Literals\<close>

definition double_value :: "64 word \<Rightarrow> rat option" where
  "double_value w =
     (let sign = (if bit w 63 then -1 else 1);
          exponent = unat (drop_bit 52 (take_bit 63 w));
          mantissa = of_nat (unat (take_bit 52 w))
      in if exponent = 2047 then None
         else if exponent = 0 then Some (sign * mantissa * 2 / 2 ^ 1075)
         else Some (sign * (2 ^ 52 + mantissa) * 2 ^ exponent / 2 ^ 1075))"

definition float_value :: "32 word \<Rightarrow> rat option" where
  "float_value w =
     (let sign = (if bit w 31 then -1 else 1);
          exponent = unat (drop_bit 23 (take_bit 31 w));
          mantissa = of_nat (unat (take_bit 23 w))
      in if exponent = 255 then None
         else if exponent = 0 then Some (sign * mantissa * 2 / 2 ^ 150)
         else Some (sign * (2 ^ 23 + mantissa) * 2 ^ exponent / 2 ^ 150))"

lemma double_value_0 [simp]: "double_value 0 = Some 0"
  by (simp add: double_value_def)

section \<open>Sums and loops over indices\<close>

type_synonym valuation = "nat \<Rightarrow> int"
type_synonym memory = "nat \<Rightarrow> int list \<Rightarrow> rat option"

text \<open>How many values each index takes, the shape of the tensors and the elements of multi-indices.\<close>

record tensor_env =
  extents :: "nat \<Rightarrow> nat"
  shape_of :: "nat \<Rightarrow> int list"
  elements :: "nat \<Rightarrow> nat list"

fun osum :: "rat option list \<Rightarrow> rat option" where
  "osum [] = Some 0"
| "osum (x # xs) = (case (x, osum xs) of (Some a, Some b) \<Rightarrow> Some (a + b) | _ \<Rightarrow> None)"

fun sum_over :: "(nat \<Rightarrow> nat) \<Rightarrow> nat list \<Rightarrow> (valuation \<Rightarrow> rat option) \<Rightarrow> valuation \<Rightarrow> rat option" where
  "sum_over N [] f \<sigma> = f \<sigma>"
| "sum_over N (i # is) f \<sigma> =
     sum_over N is (\<lambda>\<tau>. osum (map (\<lambda>k. f (\<tau>(i := int k))) [0..<N i])) \<sigma>"

fun loop_over :: "('k \<Rightarrow> 'm \<Rightarrow> 'm option) \<Rightarrow> 'k list \<Rightarrow> 'm \<Rightarrow> 'm option" where
  "loop_over f [] m = Some m"
| "loop_over f (k # ks) m = (case f k m of Some m' \<Rightarrow> loop_over f ks m' | None \<Rightarrow> None)"

lemma loop_over_cong [fundef_cong]:
  "xs = ys \<Longrightarrow> m = n \<Longrightarrow> (\<And>x u. x \<in> set ys \<Longrightarrow> f x u = g x u) \<Longrightarrow> loop_over f xs m = loop_over g ys n"
  by (induction ys arbitrary: xs m n) (auto split: option.splits)

fun for_all_over ::
  "(nat \<Rightarrow> nat) \<Rightarrow> nat list \<Rightarrow> (valuation \<Rightarrow> memory \<Rightarrow> memory option) \<Rightarrow> valuation \<Rightarrow> memory \<Rightarrow> memory option"
where
  "for_all_over N [] f \<sigma> = f \<sigma>"
| "for_all_over N (i # is) f \<sigma> =
     for_all_over N is (\<lambda>\<tau>. loop_over (\<lambda>k. f (\<tau>(i := int k))) [0..<N i]) \<sigma>"

section \<open>Values\<close>

text \<open>The indices of a subscript: a multi-index stands for its elements.\<close>

fun index_values :: "tensor_env \<Rightarrow> valuation \<Rightarrow> qtl_expr \<Rightarrow> int list option" where
  "index_values W \<sigma> (Node (Variable_ref_n v) []) =
     (case var_type v of
        Multi_index_t _ \<Rightarrow> Some (map \<sigma> (elements W (var_id v)))
      | _ \<Rightarrow> Some [\<sigma> (var_id v)])"
| "index_values W \<sigma> (Node (Multi_index_n v vs) []) = Some (map (\<lambda>w. \<sigma> (var_id w)) vs)"
| "index_values W \<sigma> (Node (Integer_n n) []) = Some [n]"
| "index_values W \<sigma> _ = None"

fun coordinates :: "tensor_env \<Rightarrow> valuation \<Rightarrow> qtl_expr list \<Rightarrow> int list option" where
  "coordinates W \<sigma> [] = Some []"
| "coordinates W \<sigma> (e # es) =
     (case (index_values W \<sigma> e, coordinates W \<sigma> es) of
        (Some xs, Some ys) \<Rightarrow> Some (xs @ ys) | _ \<Rightarrow> None)"

definition tensor_id :: "qtl_expr \<Rightarrow> nat option" where
  "tensor_id e = (case e of Node (Variable_ref_n v) [] \<Rightarrow> Some (var_id v) | _ \<Rightarrow> None)"

fun element :: "tensor_env \<Rightarrow> valuation \<Rightarrow> qtl_expr \<Rightarrow> (nat \<times> int list) option" where
  "element W \<sigma> (Node Subscription_n (a # is)) =
     (case (tensor_id a, coordinates W \<sigma> is) of (Some t, Some xs) \<Rightarrow> Some (t, xs) | _ \<Rightarrow> None)"
| "element W \<sigma> _ = None"

definition arithmetic :: "binary_op_tag \<Rightarrow> rat option \<Rightarrow> rat option \<Rightarrow> rat option" where
  "arithmetic t x y =
     (case (x, y) of
        (Some a, Some b) \<Rightarrow>
          if t = Plus then Some (a + b)
          else if t = Minus then Some (a - b)
          else if t = Multiplies then Some (a * b)
          else if t = Divides \<and> b \<noteq> 0 then Some (a / b)
          else None
      | _ \<Rightarrow> None)"

definition delta_value :: "int list option \<Rightarrow> int list option \<Rightarrow> rat option" where
  "delta_value xs ys = (case (xs, ys) of (Some [x], Some [y]) \<Rightarrow> Some (if x = y then 1 else 0) | _ \<Rightarrow> None)"

definition in_delta_range :: "int \<Rightarrow> int list option \<Rightarrow> bool" where
  "in_delta_range n xs = (case xs of Some [x] \<Rightarrow> 0 \<le> x \<and> x < n | _ \<Rightarrow> False)"

text \<open>The value of a node from the values of its sub-expressions.\<close>

definition node_value ::
  "tensor_env \<Rightarrow> memory \<Rightarrow> qtl_node \<Rightarrow> qtl_expr list \<Rightarrow> (valuation \<Rightarrow> rat option) list \<Rightarrow> valuation \<Rightarrow> rat option"
where
  "node_value W m l cs fs \<sigma> =
     (case l of
        Binary_n t \<Rightarrow> (case fs of [f, g] \<Rightarrow> arithmetic t (f \<sigma>) (g \<sigma>) | _ \<Rightarrow> None)
      | Double_n w \<Rightarrow> double_value w
      | Float_n w \<Rightarrow> float_value w
      | Integer_n n \<Rightarrow> Some (of_int n)
      | Subscription_n \<Rightarrow>
          (case element W \<sigma> (Node l cs) of Some (t, xs) \<Rightarrow> m t xs | None \<Rightarrow> None)
      | Sum_n is al \<Rightarrow> (case fs of [f] \<Rightarrow> sum_over (extents W) (map var_id is) f \<sigma> | _ \<Rightarrow> None)
      | Kronecker_delta_n n \<Rightarrow>
          (case cs of
             [a, b] \<Rightarrow>
               if in_delta_range n (index_values W \<sigma> a) \<and> in_delta_range n (index_values W \<sigma> b)
               then delta_value (index_values W \<sigma> a) (index_values W \<sigma> b) else None
           | _ \<Rightarrow> None)
      | Intrinsic_function_n f \<Rightarrow>
          (case cs of
             [a, b] \<Rightarrow> if f = ''delta'' then delta_value (index_values W \<sigma> a) (index_values W \<sigma> b) else None
           | _ \<Rightarrow> None)
      | _ \<Rightarrow> None)"

fun qval :: "tensor_env \<Rightarrow> memory \<Rightarrow> qtl_expr \<Rightarrow> valuation \<Rightarrow> rat option" where
  "qval W m (Node l cs) = node_value W m l cs (map (qval W m) cs)"

section \<open>Statements\<close>

text \<open>Loop bounds are literals and extents of tensors.\<close>

definition extent_value :: "tensor_env \<Rightarrow> nat \<Rightarrow> int \<Rightarrow> int option" where
  "extent_value W t p =
     (if 0 \<le> p \<and> nat p < length (shape_of W t) then Some (shape_of W t ! nat p) else None)"

definition bound_value :: "tensor_env \<Rightarrow> qtl_expr \<Rightarrow> int option" where
  "bound_value W e =
     (case qtl_label e of
        Integer_n n \<Rightarrow> Some n
      | Intrinsic_function_n f \<Rightarrow>
          (case qtl_subs e of
             [a, p] \<Rightarrow>
               (case (tensor_id a, qtl_label p) of
                  (Some t, Integer_n k) \<Rightarrow> if f = ''extent'' then extent_value W t k else None
                | _ \<Rightarrow> None)
           | _ \<Rightarrow> None)
      | _ \<Rightarrow> None)"

definition loop_values :: "int option \<Rightarrow> int option \<Rightarrow> int option \<Rightarrow> int list option" where
  "loop_values l u s =
     (case (l, u, s) of
        (Some a, Some b, Some c) \<Rightarrow>
          if c \<le> 0 then None else Some (map (\<lambda>k. a + int k * c) [0..<nat ((b - a + c - 1) div c)])
      | _ \<Rightarrow> None)"

text \<open>Writing outside of a tensor is undefined.\<close>

definition write_element :: "nat \<times> int list \<Rightarrow> rat \<Rightarrow> memory \<Rightarrow> memory option" where
  "write_element x v m = (if m (fst x) (snd x) = None then None
     else Some (m(fst x := (m (fst x))(snd x := Some v))))"

definition write_to :: "(nat \<times> int list) option \<Rightarrow> rat option \<Rightarrow> memory \<Rightarrow> memory option" where
  "write_to x v m = (case (x, v) of (Some y, Some w) \<Rightarrow> write_element y w m | _ \<Rightarrow> None)"

text \<open>Running a node, from the runs of its sub-expressions.\<close>

definition node_exec ::
  "tensor_env \<Rightarrow> qtl_node \<Rightarrow> qtl_expr list \<Rightarrow> (valuation \<Rightarrow> memory \<Rightarrow> memory option) list \<Rightarrow>
     valuation \<Rightarrow> memory \<Rightarrow> memory option"
where
  "node_exec W l cs fs \<sigma> m =
     (case l of
        Binary_n t \<Rightarrow>
          (case cs of
             [a, b] \<Rightarrow>
               if t = Assign then write_to (element W \<sigma> a) (qval W m b \<sigma>) m
               else if t = Plus_assign
               then write_to (element W \<sigma> a) (arithmetic Plus (qval W m a \<sigma>) (qval W m b \<sigma>)) m
               else None
           | _ \<Rightarrow> None)
      | Compound_n ord \<Rightarrow> loop_over (\<lambda>f. f \<sigma>) fs m
      | For_all_n is al \<Rightarrow>
          (case fs of [f] \<Rightarrow> for_all_over (extents W) (map var_id is) f \<sigma> m | _ \<Rightarrow> None)
      | For_n ord v \<Rightarrow>
          (case (cs, fs) of
             ([l, u, s, b], [f1, f2, f3, f]) \<Rightarrow>
               (case loop_values (bound_value W l) (bound_value W u) (bound_value W s) of
                  Some xs \<Rightarrow> loop_over (\<lambda>x. f (\<sigma>(var_id v := x))) xs m
                | None \<Rightarrow> None)
           | _ \<Rightarrow> None)
      | _ \<Rightarrow> None)"

fun qexec :: "tensor_env \<Rightarrow> qtl_expr \<Rightarrow> valuation \<Rightarrow> memory \<Rightarrow> memory option" where
  "qexec W (Node l cs) = node_exec W l cs (map (qexec W) cs)"

lemma qexec_assign [simp]:
  "qexec W (qassign a b) \<sigma> m = write_to (element W \<sigma> a) (qval W m b \<sigma>) m"
  "qexec W (qplus_assign a b) \<sigma> m =
     write_to (element W \<sigma> a) (arithmetic Plus (qval W m a \<sigma>) (qval W m b \<sigma>)) m"
  by (simp_all add: qtl_builders node_exec_def)

lemma qexec_for_all [simp]:
  "qexec W (qfor_all i b) \<sigma> m = loop_over (\<lambda>k. qexec W b (\<sigma>(var_id i := int k))) [0..<extents W (var_id i)] m"
  by (simp add: qtl_builders node_exec_def)

lemma loop_over_map: "loop_over f (map g xs) m = loop_over (\<lambda>x. f (g x)) xs m"
  by (induction xs arbitrary: m) (auto split: option.split)

lemma qexec_tasks [simp]:
  "qexec W (qsequenced_tasks es) \<sigma> m = loop_over (\<lambda>e. qexec W e \<sigma>) es m"
  by (simp add: qtl_builders node_exec_def loop_over_map)

lemma qval_sum [simp]:
  "qval W m (qsum [i] b) \<sigma> = osum (map (\<lambda>k. qval W m b (\<sigma>(var_id i := int k))) [0..<extents W (var_id i)])"
  by (simp add: qtl_builders node_value_def)

lemma qval_integer [simp]: "qval W m (qinteger_literal n) \<sigma> = Some (of_int n)"
  by (simp add: qtl_builders node_value_def)

lemma qval_double [simp]: "qval W m (qdouble_literal w) \<sigma> = double_value w"
  by (simp add: qtl_builders node_value_def)

end
