(* ===== verification/QtlScoping.thy ===== *)
theory QtlScoping
  imports QtlSemantics
begin

text \<open>
  Names in expressions of the front end: free indices, binders, expressions in which no name is bound
  twice or bound and free, and what renaming an index does to the meaning of an expression.  The passes
  after the expansion of multi-indices are proved on expressions that satisfy \<open>scope_ok\<close> at every node.
\<close>

section \<open>Free and bound names\<close>

fun bound_ids :: "qtl_node \<Rightarrow> nat list" where
  "bound_ids (Sum_n is al) = map var_id is"
| "bound_ids (For_all_n is al) = map var_id is"
| "bound_ids (For_n ord v) = [var_id v]"
| "bound_ids l = []"

fun own_ids :: "qtl_node \<Rightarrow> nat set" where
  "own_ids (Variable_ref_n v) = {var_id v}"
| "own_ids (Multi_index_n v vs) = var_id ` set vs"
| "own_ids l = {}"

fun free_ids :: "qtl_expr \<Rightarrow> nat set" where
  "free_ids (Node l cs) = own_ids l \<union> (\<Union> (free_ids ` set cs) - set (bound_ids l))"

fun binders :: "qtl_expr \<Rightarrow> nat list" where
  "binders (Node l cs) = bound_ids l @ concat (map binders cs)"

definition barendregt :: "qtl_expr \<Rightarrow> bool" where
  "barendregt e \<longleftrightarrow> distinct (binders e) \<and> set (binders e) \<inter> free_ids e = {}"

lemma distinct_concat_mem: "distinct (concat xss) \<Longrightarrow> xs \<in> set xss \<Longrightarrow> distinct xs"
  by (induction xss) auto

lemma barendregt_child:
  assumes "barendregt (Node l cs)" and "c \<in> set cs"
  shows "barendregt c" and "set (bound_ids l) \<inter> set (binders c) = {}"
proof -
  have d: "distinct (binders c)" "set (bound_ids l) \<inter> set (binders c) = {}"
    using assms distinct_concat_mem [of "map binders cs" "binders c"] by (auto simp: barendregt_def)
  then show "set (bound_ids l) \<inter> set (binders c) = {}" by simp
  show "barendregt c" using assms d by (auto simp: barendregt_def)
qed

section \<open>Well-formed expressions\<close>

fun qeverywhere :: "(qtl_node \<Rightarrow> qtl_expr list \<Rightarrow> bool) \<Rightarrow> qtl_expr \<Rightarrow> bool" where
  "qeverywhere P (Node l cs) = (P l cs \<and> (\<forall>c \<in> set cs. qeverywhere P c))"

text \<open>\<open>I\<close> are the names of indices: all references to them have the type of indices, and they alone.  After the
  expansion of multi-indices, sums and loops have one index, and none of the references is a multi-index.
  A delta compares indices with equally many values.\<close>

fun scope_ok :: "nat set \<Rightarrow> (nat \<Rightarrow> nat) \<Rightarrow> qtl_node \<Rightarrow> qtl_expr list \<Rightarrow> bool" where
  "scope_ok I N (Variable_ref_n v) cs \<longleftrightarrow> cs = [] \<and> (var_id v \<in> I \<longleftrightarrow> var_type v = Index_t) \<and>
     multi_index_pattern (qvar v) = None"
| "scope_ok I N (Multi_index_n v vs) cs \<longleftrightarrow> False"
| "scope_ok I N (Sum_n is al) cs \<longleftrightarrow> (\<exists>i. is = [i] \<and> var_type i = Index_t \<and> var_id i \<in> I)"
| "scope_ok I N (For_all_n is al) cs \<longleftrightarrow> (\<exists>i. is = [i] \<and> var_type i = Index_t \<and> var_id i \<in> I)"
| "scope_ok I N (For_n ord v) cs \<longleftrightarrow> var_id v \<notin> I"
| "scope_ok I N Subscription_n cs \<longleftrightarrow> cs \<noteq> [] \<and> index_pattern (hd cs) = None"
| "scope_ok I N (Intrinsic_function_n f) cs \<longleftrightarrow>
     (f = ''extent'' \<longrightarrow> cs \<noteq> [] \<and> index_pattern (hd cs) = None)"
| "scope_ok I N (Kronecker_delta_n n) cs \<longleftrightarrow>
     (\<forall>i j. map index_pattern cs = [Some i, Some j] \<longrightarrow> N (var_id i) = N (var_id j))"
| "scope_ok I N l cs \<longleftrightarrow> True"

abbreviation scoped :: "nat set \<Rightarrow> (nat \<Rightarrow> nat) \<Rightarrow> qtl_expr \<Rightarrow> bool" where
  "scoped I N \<equiv> qeverywhere (scope_ok I N)"

lemma index_pattern_Some: "index_pattern e = Some v \<longleftrightarrow> e = qvar v \<and> var_type v = Index_t"
proof (cases e)
  case (Node l cs)
  then show ?thesis by (cases l; cases cs) (auto simp: qvar_def)
qed

lemma index_pattern_qvar [simp]:
  "index_pattern (qvar v) = (if var_type v = Index_t then Some v else None)"
  by (simp add: qvar_def)

lemma is_index_iff: "is_index i e \<longleftrightarrow> (\<exists>v. e = qvar v \<and> var_type v = Index_t \<and> var_id v = var_id i)"
proof (cases "index_pattern e")
  case None
  then show ?thesis by (auto simp: is_index_def)
next
  case (Some v)
  then show ?thesis by (auto simp: is_index_def index_pattern_Some var_eq_def qvar_def)
qed

lemma is_index_Node:
  "is_index i (Node l cs) \<longleftrightarrow> cs = [] \<and> (\<exists>v. l = Variable_ref_n v \<and> var_type v = Index_t \<and> var_id v = var_id i)"
  by (auto simp: is_index_iff qvar_def)

section \<open>Renaming an index\<close>

definition rename_index :: "variable_declaration \<Rightarrow> variable_declaration \<Rightarrow> qtl_expr \<Rightarrow> qtl_expr" where
  "rename_index i j = rewrite_leaves (\<lambda>e. if is_index i e then Some (qvar j) else None)"

lemma rename_index_Node:
  "rename_index i j (Node l cs) =
     (if is_index i (Node l cs) then qvar j else Node l (map (rename_index i j) cs))"
  by (simp add: rename_index_def)

lemma rename_index_qvar:
  "rename_index i j (qvar v) = (if is_index i (qvar v) then qvar j else qvar v)"
  by (simp add: qvar_def rename_index_Node)

lemma qtl_rewrite_index:
  "qtl_rewrite n (index_matcher i (qvar j)) e = Inr r \<Longrightarrow> r = rename_index i j e"
  unfolding rename_index_def index_matcher_def
  by (rule qtl_rewrite_leaves) (auto simp: qvar_def split: if_splits)

lemma binders_rename [simp]: "binders (rename_index i j e) = binders e"
proof (induction e)
  case (Node l cs)
  then show ?case
    by (auto simp: rename_index_Node is_index_Node qvar_def comp_def intro!: arg_cong [where f = concat])
qed

lemma free_ids_rename:
  assumes "var_id j \<notin> set (binders e)" and "var_id i \<notin> set (binders e)"
    and "scoped I N e" and "var_id i \<in> I"
  shows "free_ids (rename_index i j e) \<subseteq> free_ids e - {var_id i} \<union> {var_id j}"
  using assms
proof (induction e)
  case (Node l cs)
  show ?case
  proof (cases "is_index i (Node l cs)")
    case True
    then show ?thesis by (auto simp: rename_index_Node qvar_def)
  next
    case False
    then have "var_id i \<notin> own_ids l"
      using Node.prems(3,4) by (cases l) (auto simp: is_index_Node)
    moreover have "free_ids (rename_index i j c) \<subseteq> free_ids c - {var_id i} \<union> {var_id j}" if "c \<in> set cs" for c
      using Node that by auto
    ultimately show ?thesis using Node.prems(1) False by (auto simp: rename_index_Node)
  qed
qed

section \<open>Renaming and meaning\<close>

lemma index_values_qvar:
  "multi_index_pattern (qvar v) = None \<Longrightarrow> index_values W \<sigma> (qvar v) = Some [\<sigma> (var_id v)]"
  by (auto simp: qvar_def split: qtype.splits)

lemma label_rename:
  "qtl_label (rename_index i j e) = (if is_index i e then Variable_ref_n j else qtl_label e)"
  by (cases e) (simp add: rename_index_Node qvar_def)

lemma tensor_id_rename: "index_pattern e = None \<Longrightarrow> tensor_id (rename_index i j e) = tensor_id e"
  by (cases e) (auto simp: rename_index_Node is_index_def tensor_id_def split: qtl_node.splits list.splits)

lemma index_values_rename:
  assumes "scoped I N e" and "var_id i \<in> I" and "multi_index_pattern (qvar j) = None"
  shows "index_values W \<sigma> (rename_index i j e) = index_values W (\<sigma>(var_id i := \<sigma> (var_id j))) e"
proof (cases "is_index i e")
  case True
  then obtain v where v: "e = qvar v" "var_id v = var_id i" by (auto simp: is_index_iff)
  then have "multi_index_pattern (qvar v) = None" using assms(1) by (simp add: qvar_def)
  with True v show ?thesis
    by (simp add: rename_index_qvar index_values_qvar assms(3))
next
  case False
  obtain l cs where e: "e = Node l cs" by (cases e)
  show ?thesis
  proof (cases l)
    case (Variable_ref_n v)
    with e assms(1) have ev: "e = qvar v" and m: "multi_index_pattern (qvar v) = None"
      and v: "var_id v \<in> I \<longleftrightarrow> var_type v = Index_t" by (simp_all add: qvar_def)
    from False v assms(2) ev have "var_id v \<noteq> var_id i" by (auto simp: is_index_iff qvar_def)
    with False ev show ?thesis by (simp add: rename_index_qvar index_values_qvar [OF m])
  qed (use False assms(1) e in \<open>cases cs; simp add: rename_index_Node\<close>)+
qed

lemma coordinates_rename:
  assumes "\<forall>e \<in> set es. scoped I N e" and "var_id i \<in> I" and "multi_index_pattern (qvar j) = None"
  shows "coordinates W \<sigma> (map (rename_index i j) es) = coordinates W (\<sigma>(var_id i := \<sigma> (var_id j))) es"
  using assms(1)
proof (induction es)
  case (Cons e es)
  have "index_values W \<sigma> (rename_index i j e) = index_values W (\<sigma>(var_id i := \<sigma> (var_id j))) e"
    using Cons.prems by (intro index_values_rename [where I = I and N = N] assms) simp
  with Cons show ?case by (simp del: fun_upd_apply)
qed simp

lemma element_rename:
  assumes "scoped I N e" and "var_id i \<in> I" and "multi_index_pattern (qvar j) = None"
  shows "element W \<sigma> (rename_index i j e) = element W (\<sigma>(var_id i := \<sigma> (var_id j))) e"
proof (cases e)
  case (Node l cs)
  show ?thesis
  proof (cases l)
    case Subscription_n
    with Node assms(1) obtain a es where cs: "cs = a # es" by (cases cs) auto
    with Node Subscription_n assms show ?thesis
      using coordinates_rename [of es I N i j W \<sigma>]
      by (simp add: rename_index_Node is_index_Node tensor_id_rename)
  qed (use Node in \<open>auto simp: rename_index_Node qvar_def\<close>)
qed

lemma label_rename_Integer: "qtl_label e = Integer_n k \<Longrightarrow> \<not> is_index i e"
  by (cases e) (simp add: is_index_Node)

lemma bound_value_rename:
  assumes "scoped I N e"
  shows "bound_value W (rename_index i j e) = bound_value W e"
proof (cases e)
  case (Node l cs)
  show ?thesis
  proof (cases l)
    case (Intrinsic_function_n f)
    show ?thesis
    proof (cases "f = ''extent''")
      case True
      with assms Node Intrinsic_function_n show ?thesis
        by (auto simp: rename_index_Node is_index_Node bound_value_def tensor_id_rename label_rename
            dest: label_rename_Integer split: list.splits option.splits qtl_node.splits)
    qed (use Node Intrinsic_function_n in
        \<open>auto simp: rename_index_Node is_index_Node bound_value_def split: list.splits option.splits qtl_node.splits\<close>)
  qed (use Node in \<open>auto simp: rename_index_Node is_index_Node bound_value_def qvar_def\<close>)
qed

lemma qval_rename:
  assumes "scoped I N e" and "var_id i \<in> I" and "multi_index_pattern (qvar j) = None"
    and "var_id i \<notin> set (binders e)" and "var_id j \<notin> set (binders e)"
  shows "qval W m (rename_index i j e) \<sigma> = qval W m e (\<sigma>(var_id i := \<sigma> (var_id j)))"
  using assms(1,4,5)
proof (induction e arbitrary: \<sigma>)
  case (Node l cs)
  let ?s = "\<sigma>(var_id i := \<sigma> (var_id j))"
  have ih: "map (qval W m) (map (rename_index i j) cs) =
      map (\<lambda>c \<tau>. qval W m c (\<tau>(var_id i := \<tau> (var_id j)))) cs"
    using Node by (auto intro!: ext simp del: fun_upd_apply)
  have iv: "index_values W \<sigma> (rename_index i j c) = index_values W ?s c" if "c \<in> set cs" for c
    using Node.prems(1) that assms(2,3) by (intro index_values_rename) auto
  show ?case
  proof (cases "is_index i (Node l cs)")
    case True
    then show ?thesis by (auto simp: rename_index_Node is_index_Node node_value_def qvar_def)
  next
    case False
    have "node_value W m l (map (rename_index i j) cs)
        (map (\<lambda>c \<tau>. qval W m c (\<tau>(var_id i := \<tau> (var_id j)))) cs) \<sigma> =
      node_value W m l cs (map (qval W m) cs) ?s"
    proof (cases l)
      case Subscription_n
      then show ?thesis
        using element_rename [OF Node.prems(1) assms(2,3), of W \<sigma>] False
        by (simp add: node_value_def rename_index_Node)
    next
      case (Sum_n js al)
      with Node.prems obtain k where "js = [k]" "var_id i \<noteq> var_id k" "var_id j \<noteq> var_id k" by auto
      with Sum_n show ?thesis
        by (auto simp: node_value_def fun_upd_twist split: list.split)
    qed (auto simp: node_value_def iv split: list.split)
    with False ih show ?thesis by (simp add: rename_index_Node del: map_map fun_upd_apply)
  qed
qed

lemma qexec_rename:
  assumes "scoped I N e" and "var_id i \<in> I" and "multi_index_pattern (qvar j) = None"
    and "var_id i \<notin> set (binders e)" and "var_id j \<notin> set (binders e)"
  shows "qexec W (rename_index i j e) \<sigma> m = qexec W e (\<sigma>(var_id i := \<sigma> (var_id j))) m"
  using assms(1,4,5)
proof (induction e arbitrary: \<sigma> m)
  case (Node l cs)
  let ?s = "\<sigma>(var_id i := \<sigma> (var_id j))"
  have ih: "map (qexec W) (map (rename_index i j) cs) =
      map (\<lambda>c \<tau>. qexec W c (\<tau>(var_id i := \<tau> (var_id j)))) cs"
    using Node by (auto intro!: ext simp del: fun_upd_apply)
  have sub: "scoped I N c" "var_id i \<notin> set (binders c)" "var_id j \<notin> set (binders c)" if "c \<in> set cs" for c
    using Node.prems that by auto
  have el: "element W \<sigma> (rename_index i j c) = element W ?s c" if "c \<in> set cs" for c
    using element_rename [OF sub(1) [OF that] assms(2,3)] .
  have va: "qval W m (rename_index i j c) \<sigma> = qval W m c ?s" if "c \<in> set cs" for c
    using qval_rename [OF sub(1) [OF that] assms(2,3) sub(2,3) [OF that]] .
  have bo: "bound_value W (rename_index i j c) = bound_value W c" if "c \<in> set cs" for c
    using bound_value_rename [OF sub(1) [OF that]] .
  show ?case
  proof (cases "is_index i (Node l cs)")
    case True
    then show ?thesis by (auto simp: rename_index_Node is_index_Node node_exec_def qvar_def)
  next
    case False
    have "node_exec W l (map (rename_index i j) cs)
        (map (\<lambda>c \<tau>. qexec W c (\<tau>(var_id i := \<tau> (var_id j)))) cs) \<sigma> m =
      node_exec W l cs (map (qexec W) cs) ?s m"
    proof (cases l)
      case (For_all_n js al)
      with Node.prems obtain k where "js = [k]" "var_id i \<noteq> var_id k" "var_id j \<noteq> var_id k" by auto
      with For_all_n show ?thesis
        by (auto simp: node_exec_def fun_upd_twist split: list.split)
    next
      case (For_n ord k)
      with Node.prems have "var_id i \<noteq> var_id k" "var_id j \<noteq> var_id k" by auto
      with For_n bo show ?thesis
        by (auto simp: node_exec_def fun_upd_twist split: list.split option.split)
    next
      case (Compound_n ord)
      then show ?thesis by (simp add: node_exec_def loop_over_map del: map_map)
    qed (auto simp: node_exec_def el va split: list.split)
    with False ih show ?thesis by (simp add: rename_index_Node del: map_map fun_upd_apply)
  qed
qed

end
