(* ===== verification/QtlRefinement.thy ===== *)
theory QtlRefinement
  imports QtlScoping "HOL-Library.Multiset"
begin

text \<open>
  Refinement of expressions of the front end: wherever the first expression has a meaning, the second
  has the same, and names are used as before.  It is a congruence, so a pass that refines where it matches
  refines everywhere.
\<close>

section \<open>Ranges of indices\<close>

definition in_range :: "nat set \<Rightarrow> tensor_env \<Rightarrow> valuation \<Rightarrow> qtl_expr \<Rightarrow> bool" where
  "in_range I W \<sigma> e \<longleftrightarrow> (\<forall>x \<in> free_ids e \<inter> I. 0 \<le> \<sigma> x \<and> \<sigma> x < int (extents W x))"

definition simulates :: "nat set \<Rightarrow> tensor_env \<Rightarrow> qtl_expr \<Rightarrow> qtl_expr \<Rightarrow> bool" where
  "simulates I W e r \<longleftrightarrow>
     free_ids r \<subseteq> free_ids e \<and>
     index_pattern r = index_pattern e \<and>
     (\<forall>t. tensor_id e = Some t \<longrightarrow> tensor_id r = Some t) \<and>
     (\<forall>k. qtl_label e = Integer_n k \<longrightarrow> qtl_label r = Integer_n k) \<and>
     (\<forall>b. bound_value W e = Some b \<longrightarrow> bound_value W r = Some b) \<and>
     (\<forall>\<sigma> xs. index_values W \<sigma> e = Some xs \<longrightarrow> index_values W \<sigma> r = Some xs) \<and>
     (\<forall>\<sigma> x. element W \<sigma> e = Some x \<longrightarrow> element W \<sigma> r = Some x) \<and>
     (\<forall>m \<sigma> v. in_range I W \<sigma> e \<longrightarrow> qval W m e \<sigma> = Some v \<longrightarrow> qval W m r \<sigma> = Some v) \<and>
     (\<forall>m \<sigma> m'. in_range I W \<sigma> e \<longrightarrow> qexec W e \<sigma> m = Some m' \<longrightarrow> qexec W r \<sigma> m = Some m')"

text \<open>A refinement moreover keeps expressions well-formed and binds no more names.\<close>

definition refines :: "nat set \<Rightarrow> tensor_env \<Rightarrow> qtl_expr \<Rightarrow> qtl_expr \<Rightarrow> bool" where
  "refines I W e r \<longleftrightarrow> simulates I W e r \<and> mset (binders r) \<subseteq># mset (binders e) \<and>
     (scoped I (extents W) e \<longrightarrow> scoped I (extents W) r)"

lemma refines_refl [simp]: "refines I W e e"
  by (simp add: refines_def simulates_def)

lemma simulates_refl [simp]: "simulates I W e e"
  by (simp add: simulates_def)

lemma in_range_mono: "free_ids r \<subseteq> free_ids e \<Longrightarrow> in_range I W \<sigma> e \<Longrightarrow> in_range I W \<sigma> r"
  by (auto simp: in_range_def)

lemma refinesD:
  assumes "refines I W e r"
  shows "free_ids r \<subseteq> free_ids e" "mset (binders r) \<subseteq># mset (binders e)"
    "scoped I (extents W) e \<Longrightarrow> scoped I (extents W) r"
    "index_pattern r = index_pattern e"
    "tensor_id e = Some t \<Longrightarrow> tensor_id r = Some t"
    "qtl_label e = Integer_n k \<Longrightarrow> qtl_label r = Integer_n k"
    "bound_value W e = Some b \<Longrightarrow> bound_value W r = Some b"
    "index_values W \<sigma> e = Some xs \<Longrightarrow> index_values W \<sigma> r = Some xs"
    "element W \<sigma> e = Some x \<Longrightarrow> element W \<sigma> r = Some x"
    "in_range I W \<sigma> e \<Longrightarrow> qval W m e \<sigma> = Some v \<Longrightarrow> qval W m r \<sigma> = Some v"
    "in_range I W \<sigma> e \<Longrightarrow> qexec W e \<sigma> m = Some m' \<Longrightarrow> qexec W r \<sigma> m = Some m'"
  using assms unfolding refines_def simulates_def by blast+

lemma simulatesD:
  assumes "simulates I W e r"
  shows "free_ids r \<subseteq> free_ids e"
    "index_pattern r = index_pattern e"
    "tensor_id e = Some t \<Longrightarrow> tensor_id r = Some t"
    "qtl_label e = Integer_n k \<Longrightarrow> qtl_label r = Integer_n k"
    "bound_value W e = Some b \<Longrightarrow> bound_value W r = Some b"
    "index_values W \<sigma> e = Some xs \<Longrightarrow> index_values W \<sigma> r = Some xs"
    "element W \<sigma> e = Some x \<Longrightarrow> element W \<sigma> r = Some x"
    "in_range I W \<sigma> e \<Longrightarrow> qval W m e \<sigma> = Some v \<Longrightarrow> qval W m r \<sigma> = Some v"
    "in_range I W \<sigma> e \<Longrightarrow> qexec W e \<sigma> m = Some m' \<Longrightarrow> qexec W r \<sigma> m = Some m'"
  using assms unfolding simulates_def by blast+

lemma refines_simulates: "refines I W e r \<Longrightarrow> simulates I W e r"
  by (simp add: refines_def)

lemma simulatesI:
  assumes "free_ids r \<subseteq> free_ids e"
    "index_pattern r = index_pattern e"
    "\<And>t. tensor_id e = Some t \<Longrightarrow> tensor_id r = Some t"
    "\<And>k. qtl_label e = Integer_n k \<Longrightarrow> qtl_label r = Integer_n k"
    "\<And>b. bound_value W e = Some b \<Longrightarrow> bound_value W r = Some b"
    "\<And>\<sigma> xs. index_values W \<sigma> e = Some xs \<Longrightarrow> index_values W \<sigma> r = Some xs"
    "\<And>\<sigma> x. element W \<sigma> e = Some x \<Longrightarrow> element W \<sigma> r = Some x"
    "\<And>m \<sigma> v. in_range I W \<sigma> e \<Longrightarrow> qval W m e \<sigma> = Some v \<Longrightarrow> qval W m r \<sigma> = Some v"
    "\<And>m \<sigma> m'. in_range I W \<sigma> e \<Longrightarrow> qexec W e \<sigma> m = Some m' \<Longrightarrow> qexec W r \<sigma> m = Some m'"
  shows "simulates I W e r"
  using assms unfolding simulates_def by blast

lemma simulates_trans:
  assumes ab: "simulates I W a b" and bc: "simulates I W b c"
  shows "simulates I W a c"
proof (rule simulatesI)
  show "free_ids c \<subseteq> free_ids a" using simulatesD(1) [OF ab] simulatesD(1) [OF bc] by blast
  show "index_pattern c = index_pattern a" using simulatesD(2) [OF ab] simulatesD(2) [OF bc] by simp
next
  fix \<sigma> assume "in_range I W \<sigma> a"
  then have "in_range I W \<sigma> b" by (rule in_range_mono [OF simulatesD(1) [OF ab]])
  with \<open>in_range I W \<sigma> a\<close>
  show "qval W m a \<sigma> = Some v \<Longrightarrow> qval W m c \<sigma> = Some v"
    and "qexec W a \<sigma> m = Some m' \<Longrightarrow> qexec W c \<sigma> m = Some m'" for m m' v
    using simulatesD(8,9) [OF ab] simulatesD(8,9) [OF bc] by blast+
qed (use simulatesD(3-7) [OF ab] simulatesD(3-7) [OF bc] in blast)+

lemma refinesI:
  assumes "free_ids r \<subseteq> free_ids e" "mset (binders r) \<subseteq># mset (binders e)"
    "scoped I (extents W) e \<Longrightarrow> scoped I (extents W) r"
    "index_pattern r = index_pattern e"
    "\<And>t. tensor_id e = Some t \<Longrightarrow> tensor_id r = Some t"
    "\<And>k. qtl_label e = Integer_n k \<Longrightarrow> qtl_label r = Integer_n k"
    "\<And>b. bound_value W e = Some b \<Longrightarrow> bound_value W r = Some b"
    "\<And>\<sigma> xs. index_values W \<sigma> e = Some xs \<Longrightarrow> index_values W \<sigma> r = Some xs"
    "\<And>\<sigma> x. element W \<sigma> e = Some x \<Longrightarrow> element W \<sigma> r = Some x"
    "\<And>m \<sigma> v. in_range I W \<sigma> e \<Longrightarrow> qval W m e \<sigma> = Some v \<Longrightarrow> qval W m r \<sigma> = Some v"
    "\<And>m \<sigma> m'. in_range I W \<sigma> e \<Longrightarrow> qexec W e \<sigma> m = Some m' \<Longrightarrow> qexec W r \<sigma> m = Some m'"
  shows "refines I W e r"
  using assms unfolding refines_def by (auto intro!: simulatesI)

lemma refines_trans: "refines I W a b \<Longrightarrow> refines I W b c \<Longrightarrow> refines I W a c"
  unfolding refines_def by (auto intro: simulates_trans subset_mset.order_trans)

lemma distinct_mset_mono:
  assumes "mset xs \<subseteq># mset ys" and "distinct ys"
  shows "distinct xs"
proof -
  have "count (mset xs) a = (if a \<in> set xs then 1 else 0)" for a
  proof (cases "a \<in> set xs")
    case True
    then have "0 < count (mset xs) a" by simp
    moreover have "count (mset xs) a \<le> count (mset ys) a" by (rule mset_subset_eq_count [OF assms(1)])
    moreover have "count (mset ys) a \<le> 1" using assms(2) by (simp add: distinct_count_atmost_1)
    ultimately have "count (mset xs) a = 1" by linarith
    with True show ?thesis by simp
  qed simp
  then show ?thesis by (simp add: distinct_count_atmost_1)
qed

lemma refines_barendregt: "refines I W e r \<Longrightarrow> barendregt e \<Longrightarrow> barendregt r"
  using refinesD(1,2) [of I W e r] distinct_mset_mono [of "binders r" "binders e"] mset_subset_eqD
  by (fastforce simp: barendregt_def)

section \<open>Congruence\<close>

lemma in_range_child:
  assumes "in_range I W \<sigma> (Node l cs)" and "c \<in> set cs"
    and "\<And>x. x \<in> set (bound_ids l) \<inter> I \<Longrightarrow> 0 \<le> \<tau> x \<and> \<tau> x < int (extents W x)"
    and "\<And>x. x \<notin> set (bound_ids l) \<Longrightarrow> \<tau> x = \<sigma> x"
  shows "in_range I W \<tau> c"
  unfolding in_range_def
proof
  fix x assume x: "x \<in> free_ids c \<inter> I"
  show "0 \<le> \<tau> x \<and> \<tau> x < int (extents W x)"
  proof (cases "x \<in> set (bound_ids l)")
    case True
    with assms(3) x show ?thesis by blast
  next
    case False
    with x assms(1,2) have "0 \<le> \<sigma> x \<and> \<sigma> x < int (extents W x)" by (auto simp: in_range_def)
    with assms(4) [OF False] show ?thesis by simp
  qed
qed

lemma osum_mono:
  assumes "\<And>k v. k \<in> set ks \<Longrightarrow> f k = Some v \<Longrightarrow> g k = Some v"
  shows "osum (map f ks) = Some v \<Longrightarrow> osum (map g ks) = Some v"
  using assms by (induction ks arbitrary: v) (auto split: option.splits)

lemma loop_over_mono:
  assumes "\<And>k m m'. k \<in> set ks \<Longrightarrow> f k m = Some m' \<Longrightarrow> g k m = Some m'"
  shows "loop_over f ks m = Some m' \<Longrightarrow> loop_over g ks m = Some m'"
  using assms by (induction ks arbitrary: m) (auto split: option.splits)

lemma loop_over_list_all2:
  assumes "list_all2 (\<lambda>f g. \<forall>m m'. f m = Some m' \<longrightarrow> g m = Some m') fs gs"
  shows "loop_over (\<lambda>f. f) fs m = Some m' \<Longrightarrow> loop_over (\<lambda>f. f) gs m = Some m'"
  using assms by (induction arbitrary: m rule: list_all2_induct) (auto split: option.splits)

lemma coordinates_mono:
  assumes "list_all2 (\<lambda>c d. \<forall>xs. index_values W \<sigma> c = Some xs \<longrightarrow> index_values W \<sigma> d = Some xs) cs ds"
  shows "coordinates W \<sigma> cs = Some xs \<Longrightarrow> coordinates W \<sigma> ds = Some xs"
  using assms by (induction arbitrary: xs rule: list_all2_induct) (auto split: option.splits)

lemma arithmetic_mono:
  "arithmetic t x y = Some v \<Longrightarrow> (\<And>a. x = Some a \<Longrightarrow> x' = Some a) \<Longrightarrow> (\<And>b. y = Some b \<Longrightarrow> y' = Some b) \<Longrightarrow>
   arithmetic t x' y' = Some v"
  by (auto simp: arithmetic_def split: option.splits)

lemma in_delta_range_Some: "in_delta_range n xs \<longleftrightarrow> (\<exists>x. xs = Some [x] \<and> 0 \<le> x \<and> x < n)"
  by (auto simp: in_delta_range_def split: option.splits list.splits)

lemma delta_value_Some:
  "delta_value xs ys = Some v \<longleftrightarrow> (\<exists>x y. xs = Some [x] \<and> ys = Some [y] \<and> v = (if x = y then 1 else 0))"
  by (auto simp: delta_value_def split: option.splits list.splits)

lemma element_mono:
  assumes "list_all2 (simulates I W) cs ds" and "element W \<sigma> (Node l cs) = Some x"
  shows "element W \<sigma> (Node l ds) = Some x"
proof (cases l)
  case Subscription_n
  with assms(2) obtain a es where cs: "cs = a # es" by (cases cs) auto
  with assms(1) obtain b fs where ds: "ds = b # fs" "simulates I W a b" "list_all2 (simulates I W) es fs"
    by (auto simp: list_all2_Cons1)
  have "coordinates W \<sigma> es = Some xs \<Longrightarrow> coordinates W \<sigma> fs = Some xs" for xs
    by (rule coordinates_mono [OF list_all2_mono [OF ds(3)]]) (auto dest: simulatesD(6))
  with assms(2) cs ds simulatesD(3) [OF ds(2)] Subscription_n show ?thesis
    by (auto split: option.splits)
qed (use assms(2) in auto)

lemma node_value_mono:
  assumes ok: "scope_ok I (extents W) l cs" and rel: "list_all2 (simulates I W) cs ds"
    and range: "in_range I W \<sigma> (Node l cs)" and val: "qval W m (Node l cs) \<sigma> = Some v"
  shows "qval W m (Node l ds) \<sigma> = Some v"
proof -
  have child: "in_range I W \<sigma> c" if "c \<in> set cs" "bound_ids l = []" for c
    using in_range_child [OF range that(1)] that(2) by auto
  show ?thesis
  proof (cases l)
    case (Binary_n t)
    with val obtain a b where cs: "cs = [a, b]"
      by (auto simp: node_value_def split: list.splits)
    with rel obtain a' b' where ds: "ds = [a', b']" "simulates I W a a'" "simulates I W b b'"
      by (auto simp: list_all2_Cons1)
    with val cs Binary_n child simulatesD(8) show ?thesis
      by (auto simp: node_value_def elim!: arithmetic_mono)
  next
    case Subscription_n
    with val element_mono [OF rel, of \<sigma> l] show ?thesis
      by (auto simp: node_value_def split: option.splits)
  next
    case (Sum_n js al)
    with val obtain b where cs: "cs = [b]" by (auto simp: node_value_def split: list.splits)
    with rel obtain b' where ds: "ds = [b']" "simulates I W b b'" by (auto simp: list_all2_Cons1)
    from ok Sum_n obtain i where i: "js = [i]" "var_id i \<in> I" by auto
    have sum: "osum (map (\<lambda>k. qval W m b (\<sigma>(var_id i := int k))) [0..<extents W (var_id i)]) = Some v"
      using val Sum_n cs i by (simp add: node_value_def)
    have "osum (map (\<lambda>k. qval W m b' (\<sigma>(var_id i := int k))) [0..<extents W (var_id i)]) = Some v"
    proof (rule osum_mono [OF _ sum])
      fix k u assume k: "k \<in> set [0..<extents W (var_id i)]" "qval W m b (\<sigma>(var_id i := int k)) = Some u"
      have "in_range I W (\<sigma>(var_id i := int k)) b"
        by (rule in_range_child [OF range]) (use k i Sum_n cs in auto)
      with k(2) show "qval W m b' (\<sigma>(var_id i := int k)) = Some u" by (intro simulatesD(8) [OF ds(2)])
    qed
    with Sum_n ds i show ?thesis by (simp add: node_value_def)
  next
    case (Kronecker_delta_n n)
    with val obtain a b where cs: "cs = [a, b]" by (auto simp: node_value_def split: list.splits)
    with rel obtain a' b' where ds: "ds = [a', b']" "simulates I W a a'" "simulates I W b b'"
      by (auto simp: list_all2_Cons1)
    with val cs Kronecker_delta_n simulatesD(6) [OF ds(2), of \<sigma>] simulatesD(6) [OF ds(3), of \<sigma>] show ?thesis
      by (fastforce simp: node_value_def in_delta_range_Some delta_value_Some split: if_splits)
  next
    case (Intrinsic_function_n f)
    with val obtain a b where cs: "cs = [a, b]" by (auto simp: node_value_def split: list.splits)
    with rel obtain a' b' where ds: "ds = [a', b']" "simulates I W a a'" "simulates I W b b'"
      by (auto simp: list_all2_Cons1)
    with val cs Intrinsic_function_n simulatesD(6) [OF ds(2), of \<sigma>] simulatesD(6) [OF ds(3), of \<sigma>] show ?thesis
      by (fastforce simp: node_value_def delta_value_Some split: if_splits)
  qed (use val in \<open>auto simp: node_value_def\<close>)
qed

lemma list_all2_mono_mem:
  "list_all2 P xs ys \<Longrightarrow> (\<And>x y. x \<in> set xs \<Longrightarrow> P x y \<Longrightarrow> Q x y) \<Longrightarrow> list_all2 Q xs ys"
  by (auto simp: list_all2_conv_all_nth)

lemma loop_values_mono:
  "loop_values l u s = Some xs \<Longrightarrow> (\<And>a. l = Some a \<Longrightarrow> l' = Some a) \<Longrightarrow> (\<And>b. u = Some b \<Longrightarrow> u' = Some b) \<Longrightarrow>
   (\<And>c. s = Some c \<Longrightarrow> s' = Some c) \<Longrightarrow> loop_values l' u' s' = Some xs"
  by (auto simp: loop_values_def split: option.splits if_splits)

lemma write_to_mono:
  "write_to x v m = Some m' \<Longrightarrow> (\<And>a. x = Some a \<Longrightarrow> x' = Some a) \<Longrightarrow> (\<And>b. v = Some b \<Longrightarrow> v' = Some b) \<Longrightarrow>
   write_to x' v' m = Some m'"
  by (auto simp: write_to_def split: option.splits)

lemma node_exec_mono:
  assumes ok: "scope_ok I (extents W) l cs" and rel: "list_all2 (simulates I W) cs ds"
    and range: "in_range I W \<sigma> (Node l cs)" and run: "qexec W (Node l cs) \<sigma> m = Some m'"
  shows "qexec W (Node l ds) \<sigma> m = Some m'"
proof -
  have child: "in_range I W \<sigma> c" if "c \<in> set cs" "bound_ids l = []" for c
    using in_range_child [OF range that(1)] that(2) by auto
  show ?thesis
  proof (cases l)
    case (Binary_n t)
    with run obtain a b where cs: "cs = [a, b]"
      by (auto simp: node_exec_def split: list.splits)
    with rel obtain a' b' where ds: "ds = [a', b']" "simulates I W a a'" "simulates I W b b'"
      by (auto simp: list_all2_Cons1)
    have a: "in_range I W \<sigma> a" and b: "in_range I W \<sigma> b" using child cs Binary_n by auto
    note va = simulatesD(8) [OF ds(2) a] and vb = simulatesD(8) [OF ds(3) b] and el = simulatesD(7) [OF ds(2)]
    show ?thesis
    proof (cases "t = Assign")
      case True
      with run cs ds Binary_n show ?thesis
        by (auto simp: node_exec_def intro!: vb el elim!: write_to_mono)
    next
      case False
      with run cs ds Binary_n show ?thesis
        by (auto simp: node_exec_def intro!: va vb el elim!: write_to_mono arithmetic_mono split: if_splits)
    qed
  next
    case (Compound_n ord)
    have "list_all2 (\<lambda>c d. \<forall>n n'. qexec W c \<sigma> n = Some n' \<longrightarrow> qexec W d \<sigma> n = Some n') cs ds"
      using rel child Compound_n simulatesD(9) by (fastforce simp: list_all2_conv_all_nth)
    then have "list_all2 (\<lambda>f g. \<forall>n n'. f n = Some n' \<longrightarrow> g n = Some n')
        (map (\<lambda>c. qexec W c \<sigma>) cs) (map (\<lambda>c. qexec W c \<sigma>) ds)"
      by (simp add: list_all2_map1 list_all2_map2)
    from loop_over_list_all2 [OF this, of m m'] run Compound_n show ?thesis
      by (simp add: node_exec_def loop_over_map)
  next
    case (For_all_n js al)
    with run obtain b where cs: "cs = [b]" by (auto simp: node_exec_def split: list.splits)
    with rel obtain b' where ds: "ds = [b']" "simulates I W b b'" by (auto simp: list_all2_Cons1)
    from ok For_all_n obtain i where i: "js = [i]" "var_id i \<in> I" by auto
    have loop: "loop_over (\<lambda>k. qexec W b (\<sigma>(var_id i := int k))) [0..<extents W (var_id i)] m = Some m'"
      using run For_all_n cs i by (simp add: node_exec_def)
    have "loop_over (\<lambda>k. qexec W b' (\<sigma>(var_id i := int k))) [0..<extents W (var_id i)] m = Some m'"
    proof (rule loop_over_mono [OF _ loop])
      fix k n n' assume k: "k \<in> set [0..<extents W (var_id i)]" "qexec W b (\<sigma>(var_id i := int k)) n = Some n'"
      have "in_range I W (\<sigma>(var_id i := int k)) b"
        by (rule in_range_child [OF range]) (use k i For_all_n cs in auto)
      with k(2) show "qexec W b' (\<sigma>(var_id i := int k)) n = Some n'" by (intro simulatesD(9) [OF ds(2)])
    qed
    with For_all_n ds i show ?thesis by (simp add: node_exec_def)
  next
    case (For_n ord i)
    with run obtain l u s b where cs: "cs = [l, u, s, b]" by (auto simp: node_exec_def split: list.splits)
    with rel obtain l' u' s' b' where ds: "ds = [l', u', s', b']" "simulates I W l l'" "simulates I W u u'"
      "simulates I W s s'" "simulates I W b b'" by (auto simp: list_all2_Cons1)
    from run For_n cs obtain xs where xs: "loop_values (bound_value W l) (bound_value W u) (bound_value W s) = Some xs"
      and loop: "loop_over (\<lambda>x. qexec W b (\<sigma>(var_id i := x))) xs m = Some m'"
      by (auto simp: node_exec_def split: option.splits)
    have xs': "loop_values (bound_value W l') (bound_value W u') (bound_value W s') = Some xs"
      using simulatesD(5) [OF ds(2)] simulatesD(5) [OF ds(3)] simulatesD(5) [OF ds(4)] by (rule loop_values_mono [OF xs])
    have "loop_over (\<lambda>x. qexec W b' (\<sigma>(var_id i := x))) xs m = Some m'"
    proof (rule loop_over_mono [OF _ loop])
      fix x n n' assume x: "qexec W b (\<sigma>(var_id i := x)) n = Some n'"
      have "in_range I W (\<sigma>(var_id i := x)) b"
        by (rule in_range_child [OF range]) (use ok For_n cs in auto)
      with x show "qexec W b' (\<sigma>(var_id i := x)) n = Some n'" by (intro simulatesD(9) [OF ds(5)])
    qed
    with For_n ds(1) xs' show ?thesis by (simp add: node_exec_def)
  qed (use run in \<open>auto simp: node_exec_def\<close>)
qed

lemma index_pattern_Node: "cs \<noteq> [] \<Longrightarrow> index_pattern (Node l cs) = None"
  by (cases l; cases cs) auto

lemma scope_ok_refines:
  assumes "scope_ok I N l cs" and "map index_pattern ds = map index_pattern cs"
  shows "scope_ok I N l ds"
proof -
  have "cs \<noteq> [] \<Longrightarrow> ds \<noteq> [] \<and> index_pattern (hd ds) = index_pattern (hd cs)"
    using assms(2) by (cases cs; cases ds) auto
  moreover have "cs = [] \<longleftrightarrow> ds = []" using assms(2) by auto
  ultimately show ?thesis using assms by (cases l) auto
qed

text \<open>Refinement is a congruence.\<close>

lemma simulates_Node:
  assumes ok': "scope_ok I (extents W) l cs" and rel: "list_all2 (simulates I W) cs ds"
  shows "simulates I W (Node l cs) (Node l ds)"
proof (rule simulatesI)
  have len: "length ds = length cs" using rel by (simp add: list_all2_lengthD)
  have mem: "\<exists>c \<in> set cs. simulates I W c d" if "d \<in> set ds" for d
    using rel that by (metis in_set_conv_nth list_all2_conv_all_nth)
  show "free_ids (Node l ds) \<subseteq> free_ids (Node l cs)"
    using mem simulatesD(1) by fastforce
  show "index_pattern (Node l ds) = index_pattern (Node l cs)"
  proof (cases "cs = []")
    case True
    with len show ?thesis by simp
  next
    case False
    with len have "ds \<noteq> []" by auto
    with False show ?thesis by (simp add: index_pattern_Node)
  qed
  show "tensor_id (Node l ds) = Some t" if "tensor_id (Node l cs) = Some t" for t
    using that len by (auto simp: tensor_id_def split: qtl_node.splits list.splits)
  show "qtl_label (Node l ds) = Integer_n k" if "qtl_label (Node l cs) = Integer_n k" for k
    using that by simp
  show "bound_value W (Node l ds) = Some b" if b: "bound_value W (Node l cs) = Some b" for b
  proof (cases l)
    case (Intrinsic_function_n f)
    with b obtain a p where cs: "cs = [a, p]" by (auto simp: bound_value_def split: list.splits)
    with rel obtain a' p' where ds: "ds = [a', p']" "simulates I W a a'" "simulates I W p p'"
      by (auto simp: list_all2_Cons1)
    from b Intrinsic_function_n cs obtain t k where "tensor_id a = Some t" "qtl_label p = Integer_n k"
      "f = ''extent''" "extent_value W t k = Some b"
      by (auto simp: bound_value_def split: option.splits qtl_node.splits if_splits)
    with Intrinsic_function_n ds simulatesD(3) [OF ds(2)] simulatesD(4) [OF ds(3)] show ?thesis
      by (auto simp: bound_value_def)
  qed (use b in \<open>auto simp: bound_value_def\<close>)
  show "index_values W \<sigma> (Node l ds) = Some xs" if "index_values W \<sigma> (Node l cs) = Some xs" for \<sigma> xs
  proof (cases cs)
    case Nil
    with len that show ?thesis by simp
  qed (use that in \<open>cases l; simp\<close>)
  show "element W \<sigma> (Node l ds) = Some x" if "element W \<sigma> (Node l cs) = Some x" for \<sigma> x
    using element_mono [OF rel that] .
  show "qval W m (Node l ds) \<sigma> = Some v"
    if "in_range I W \<sigma> (Node l cs)" "qval W m (Node l cs) \<sigma> = Some v" for m \<sigma> v
    using node_value_mono [OF ok' rel that] .
  show "qexec W (Node l ds) \<sigma> m = Some m'"
    if "in_range I W \<sigma> (Node l cs)" "qexec W (Node l cs) \<sigma> m = Some m'" for m \<sigma> m'
    using node_exec_mono [OF ok' rel that] .
qed

lemma refines_Node:
  assumes ok: "scoped I (extents W) (Node l cs)" and rel: "list_all2 (refines I W) cs ds"
  shows "refines I W (Node l cs) (Node l ds)"
proof -
  have ok': "scope_ok I (extents W) l cs" using ok by simp
  have mem: "\<exists>c \<in> set cs. refines I W c d" if "d \<in> set ds" for d
    using rel that by (metis in_set_conv_nth list_all2_conv_all_nth)
  have "simulates I W (Node l cs) (Node l ds)"
    using ok' list_all2_mono [OF rel refines_simulates] by (rule simulates_Node)
  moreover have "mset (concat (map binders ds)) \<subseteq># mset (concat (map binders cs))"
    using rel by (induction rule: list_all2_induct) (auto intro: subset_mset.add_mono refinesD(2))
  moreover have pat: "map index_pattern ds = map index_pattern cs"
    using rel by (induction rule: list_all2_induct) (auto dest: refinesD(4))
  have "scoped I (extents W) (Node l ds)"
    using ok mem refinesD(3) scope_ok_refines [OF ok' pat] by fastforce
  ultimately show ?thesis by (simp add: refines_def)
qed

text \<open>A rewriting refines if its matches do.\<close>

lemma qtl_rewrite_refines:
  assumes step: "\<And>e d. scoped I (extents W) e \<Longrightarrow> barendregt e \<Longrightarrow> m e = Inr (Some d) \<Longrightarrow> refines I W e d"
  shows "scoped I (extents W) e \<Longrightarrow> barendregt e \<Longrightarrow> qtl_rewrite n m e = Inr r \<Longrightarrow> refines I W e r"
proof (induction n arbitrary: e r)
  case (Suc n)
  then obtain d0 where d0: "m e = Inr d0" by (cases "m e") auto
  define d where "d = (case d0 of Some e' \<Rightarrow> e' | None \<Rightarrow> e)"
  have ed: "refines I W e d"
    using step [OF Suc.prems(1,2)] d0 by (auto simp: d_def split: option.split)
  obtain l cs where lcs: "d = Node l cs" by (cases d)
  have d: "scoped I (extents W) (Node l cs)" "barendregt (Node l cs)"
    using refinesD(3) [OF ed Suc.prems(1)] refines_barendregt [OF ed Suc.prems(2)] lcs by simp_all
  from Suc.prems(3) d0 lcs obtain cs' where
    cs': "list_all2 (\<lambda>c r. qtl_rewrite n m c = Inr r) cs cs'" "r = Node l cs'"
    by (auto simp: d_def [symmetric] rbind_Inr_iff traverse_Inr_iff substitute_subexpressions_Inr_iff
        simp del: qtl_substitute_subexpressions.simps)
  have "list_all2 (refines I W) cs cs'"
  proof (rule list_all2_mono_mem [OF cs'(1)])
    fix c r' assume "c \<in> set cs" "qtl_rewrite n m c = Inr r'"
    with d barendregt_child(1) [OF d(2)] show "refines I W c r'" by (intro Suc.IH) auto
  qed
  from refines_Node [OF d(1) this] ed lcs cs'(2) show ?case by (auto intro: refines_trans)
qed simp

end
