(* ===== verification/KroneckerFolding.thy ===== *)
theory KroneckerFolding
  imports QtlRefinement
begin

text \<open>
  Folding of Kronecker deltas (\<open>qubus/src/qtl/kronecker_delta_folding_pass.cpp\<close>) is correct.  A
  bubble of the body of a sum is a pair of indices whose deltas make the body zero wherever the two
  differ, so only one summand of a sum over one of them can be different from zero.  The last
  section shows what happens to sums over two indices of one bubble.
\<close>

section \<open>Bubbles\<close>

lemma osum_zero:
  "osum xs = Some v \<Longrightarrow> (\<And>w. Some w \<in> set xs \<Longrightarrow> w = 0) \<Longrightarrow> v = 0"
  by (induction xs arbitrary: v) (auto split: option.splits)

lemma osum_single:
  assumes "osum (map f ks) = Some v" and "k \<in> set ks" and "distinct ks"
    and "\<forall>l \<in> set ks. l \<noteq> k \<longrightarrow> (\<forall>w. f l = Some w \<longrightarrow> w = 0)"
  shows "f k = Some v"
  using assms
proof (induction ks arbitrary: v)
  case (Cons l ks)
  from Cons.prems(1) obtain a b where ab: "f l = Some a" "osum (map f ks) = Some b" "v = a + b"
    by (auto split: option.splits)
  show ?case
  proof (cases "l = k")
    case True
    have "b = 0"
      by (rule osum_zero [OF ab(2)]) (use Cons.prems(3,4) True in \<open>auto dest: sym\<close>)
    with ab True show ?thesis by simp
  next
    case False
    with Cons.prems ab have "a = 0" "k \<in> set ks" by auto
    with Cons.IH [OF ab(2)] Cons.prems ab show ?thesis by simp
  qed
qed simp

definition vanishes :: "tensor_env \<Rightarrow> nat \<Rightarrow> nat \<Rightarrow> qtl_expr \<Rightarrow> bool" where
  "vanishes W x y e \<longleftrightarrow> (\<forall>m \<sigma> v. \<sigma> x \<noteq> \<sigma> y \<longrightarrow> qval W m e \<sigma> = Some v \<longrightarrow> v = 0)"

definition good_bubble :: "nat set \<Rightarrow> tensor_env \<Rightarrow> qtl_expr \<Rightarrow> bubble \<Rightarrow> bool" where
  "good_bubble I W e b \<longleftrightarrow>
     var_type (fst b) = Index_t \<and> var_type (snd b) = Index_t \<and> var_id (fst b) \<noteq> var_id (snd b) \<and>
     {var_id (fst b), var_id (snd b)} \<subseteq> free_ids e \<inter> I \<and>
     extents W (var_id (fst b)) = extents W (var_id (snd b)) \<and>
     vanishes W (var_id (fst b)) (var_id (snd b)) e"

lemma vanishes_eq:
  "\<sigma> x \<noteq> \<sigma> y \<Longrightarrow> vanishes W x y e \<Longrightarrow> qval W m e \<sigma> = Some v \<Longrightarrow> v = 0"
  by (auto simp: vanishes_def)

lemma good_bubble_sum:
  assumes "good_bubble I W a b" and "var_id i \<notin> {var_id (fst b), var_id (snd b)}"
  shows "good_bubble I W (Node (Sum_n [i] al) [a]) b"
proof -
  have "vanishes W (var_id (fst b)) (var_id (snd b)) (Node (Sum_n [i] al) [a])"
    unfolding vanishes_def
  proof (intro allI impI)
    fix m \<sigma> v
    assume ne: "\<sigma> (var_id (fst b)) \<noteq> \<sigma> (var_id (snd b))"
      and "qval W m (Node (Sum_n [i] al) [a]) \<sigma> = Some v"
    then have sum: "osum (map (\<lambda>k. qval W m a (\<sigma>(var_id i := int k))) [0..<extents W (var_id i)]) = Some v"
      by (simp add: node_value_def)
    show "v = 0"
    proof (rule osum_zero [OF sum])
      fix w assume "Some w \<in> set (map (\<lambda>k. qval W m a (\<sigma>(var_id i := int k))) [0..<extents W (var_id i)])"
      then obtain k where k: "qval W m a (\<sigma>(var_id i := int k)) = Some w" by auto
      have "(\<sigma>(var_id i := int k)) (var_id (fst b)) \<noteq> (\<sigma>(var_id i := int k)) (var_id (snd b))"
        using ne assms(2) by simp
      from vanishes_eq [OF this _ k] assms(1) show "w = 0" by (simp add: good_bubble_def)
    qed
  qed
  with assms show ?thesis by (auto simp: good_bubble_def)
qed

lemma good_bubble_binary:
  assumes "good_bubble I W a b \<and> t \<noteq> Plus \<and> t \<noteq> Minus \<or>
      good_bubble I W a b \<and> (\<exists>b'. bubble_eq b b' \<and> good_bubble I W c b') \<or>
      good_bubble I W c b \<and> t = Multiplies"
  shows "good_bubble I W (Node (Binary_n t) [a, c]) b"
proof -
  have "vanishes W (var_id (fst b)) (var_id (snd b)) (Node (Binary_n t) [a, c])"
    unfolding vanishes_def
  proof (intro allI impI)
    fix m \<sigma> v
    assume ne: "\<sigma> (var_id (fst b)) \<noteq> \<sigma> (var_id (snd b))"
      and val: "qval W m (Node (Binary_n t) [a, c]) \<sigma> = Some v"
    then obtain x y where xy: "qval W m a \<sigma> = Some x" "qval W m c \<sigma> = Some y"
      "arithmetic t (Some x) (Some y) = Some v"
      by (auto simp: node_value_def arithmetic_def split: option.splits)
    have x: "x = 0" if "good_bubble I W a b" using vanishes_eq [OF ne _ xy(1)] that by (simp add: good_bubble_def)
    have y: "y = 0" if "good_bubble I W c b'" "bubble_eq b b'" for b'
      using vanishes_eq [of \<sigma> "var_id (fst b')" "var_id (snd b')", OF _ _ xy(2)] ne that
      by (simp add: good_bubble_def bubble_eq_def var_eq_def)
    have "bubble_eq b b" by (simp add: bubble_eq_def var_eq_def)
    with y have y0: "y = 0" if "good_bubble I W c b" using that by blast
    have xy0: "x = 0 \<and> y = 0 \<or> x = 0 \<and> t \<noteq> Plus \<and> t \<noteq> Minus \<or> y = 0 \<and> t = Multiplies"
      using assms x y y0 by blast
    with xy(3) show "v = 0" by (auto simp: arithmetic_def split: if_splits)
  qed
  with assms show ?thesis by (auto simp: good_bubble_def)
qed

lemma good_bubble_delta:
  assumes "scoped I (extents W) (Node (Kronecker_delta_n n) [a, c])" and "b \<in> set (delta_bubble a c)"
  shows "good_bubble I W (Node (Kronecker_delta_n n) [a, c]) b"
proof -
  from assms(2) obtain i j where ij: "index_pattern a = Some i" "index_pattern c = Some j"
    "\<not> var_eq i j" "b = make_bubble i j"
    by (auto simp: delta_bubble_def split: option.split_asm if_split_asm) metis
  then have ac: "a = qvar i" "c = qvar j" and ty: "var_type i = Index_t" "var_type j = Index_t"
    by (simp_all add: index_pattern_Some)
  have mi: "multi_index_pattern (qvar i) = None" "multi_index_pattern (qvar j) = None"
    using assms(1) by (simp_all add: ac qvar_def)
  have "vanishes W (var_id i) (var_id j) (Node (Kronecker_delta_n n) [a, c])"
    by (auto simp: vanishes_def node_value_def ac index_values_qvar [OF mi(1)] index_values_qvar [OF mi(2)]
        delta_value_Some split: if_splits)
  then have "vanishes W (var_id j) (var_id i) (Node (Kronecker_delta_n n) [a, c])"
    unfolding vanishes_def by metis
  with \<open>vanishes W (var_id i) (var_id j) _\<close> ij assms(1) ac ty show ?thesis
    by (auto simp: good_bubble_def make_bubble_def var_eq_def qvar_def)
qed

lemma collect_bubbles_good:
  "scoped I (extents W) e \<Longrightarrow> b \<in> set (collect_bubbles e bs) \<Longrightarrow> b \<in> set bs \<or> good_bubble I W e b"
proof (induction e bs arbitrary: b rule: collect_bubbles.induct)
  case (1 indices al a bubbles)
  then obtain i where i: "indices = [i]" by auto
  with 1 have b: "b \<in> set (collect_bubbles a bubbles)" "var_id i \<notin> {var_id (fst b), var_id (snd b)}"
    by (auto simp: remove_bubbles_def var_eq_def)
  with 1 have "b \<in> set bubbles \<or> good_bubble I W a b" by simp
  with good_bubble_sum [OF _ b(2), of I W a al] i show ?case by auto
next
  case (2 t a c bubbles)
  have ac: "scoped I (extents W) a" "scoped I (extents W) c" using "2.prems"(1) by simp_all
  consider (sum) "t = Plus \<or> t = Minus" | (quot) "t = Divides" | (prod) "t = Multiplies"
    | (other) "\<not> (t = Plus \<or> t = Minus)" "t \<noteq> Divides" "t \<noteq> Multiplies" by blast
  then show ?case
  proof cases
    case sum
    with "2.prems"(2) have "b \<in> set bubbles \<or> b \<in> set (collect_bubbles a []) \<and>
        (\<exists>y \<in> set (collect_bubbles c []). bubble_eq b y)" by (simp add: Let_def)
    moreover have "good_bubble I W a b" if "b \<in> set (collect_bubbles a [])"
      using "2.IH"(1) [OF sum ac(1) that] by simp
    moreover have "good_bubble I W c y" if "y \<in> set (collect_bubbles c [])" for y
      using "2.IH"(2) [OF sum refl ac(2) that] by simp
    ultimately show ?thesis using good_bubble_binary [of I W a b t c] by blast
  next
    case quot
    then have q: "\<not> (t = Plus \<or> t = Minus)" "t \<noteq> Plus" "t \<noteq> Minus" by auto
    have "b \<in> set (collect_bubbles a bubbles)" using "2.prems"(2) quot by simp
    from "2.IH"(3) [OF q(1) quot ac(1) this] q show ?thesis
      using good_bubble_binary [of I W a b t c] by blast
  next
    case prod
    then have q: "\<not> (t = Plus \<or> t = Minus)" "t \<noteq> Divides" "t \<noteq> Plus" "t \<noteq> Minus" by auto
    have "b \<in> set (collect_bubbles c (collect_bubbles a bubbles))" using "2.prems"(2) prod by simp
    from "2.IH"(5) [OF q(1,2) prod ac(2) this] "2.IH"(4) [OF q(1,2) prod ac(1)] q prod show ?thesis
      using good_bubble_binary [of I W a b t c] by blast
  next
    case other
    with "2.prems"(2) show ?thesis by simp
  qed
next
  case (3 n a c bubbles)
  with good_bubble_delta [of I W n a c b] show ?case by auto
qed simp_all

lemma contains_bubble_Some:
  "contains_bubble_with_index i bs = Some j \<Longrightarrow>
     \<exists>b \<in> set bs. var_eq (fst b) i \<and> j = snd b \<or> var_eq (snd b) i \<and> j = fst b"
  by (induction bs) (auto split: if_splits)

section \<open>Trivial deltas\<close>

definition trivial_delta :: "qtl_expr \<Rightarrow> qtl_expr option" where
  "trivial_delta e = (case trivial_delta_matcher e of Inr r \<Rightarrow> r | Inl _ \<Rightarrow> None)"

lemma trivial_delta_matcher_eq: "trivial_delta_matcher = (\<lambda>e. Inr (trivial_delta e))"
proof
  fix e
  show "trivial_delta_matcher e = Inr (trivial_delta e)"
    by (cases e rule: trivial_delta_matcher.cases) (simp_all add: trivial_delta_def)
qed

lemma trivial_delta_Some:
  assumes "trivial_delta e = Some d"
  obtains n i j where "e = Node (Kronecker_delta_n n) [qvar i, qvar j]" "var_type i = Index_t"
    "var_type j = Index_t" "var_id i = var_id j" "d = qinteger_literal 1"
proof -
  from assms obtain n a b where e: "e = Node (Kronecker_delta_n n) [a, b]"
    by (cases e rule: trivial_delta_matcher.cases) (auto simp: trivial_delta_def)
  with assms obtain i j where "index_pattern a = Some i" "index_pattern b = Some j" "var_eq i j"
    "d = qinteger_literal 1"
    by (auto simp: trivial_delta_def split: option.splits if_splits)
  with e that show ?thesis by (simp add: index_pattern_Some var_eq_def)
qed

lemma trivial_delta_refines:
  assumes "scoped I (extents W) e" and "trivial_delta e = Some d"
  shows "refines I W e d"
proof -
  from assms(2) obtain n i j where e: "e = Node (Kronecker_delta_n n) [qvar i, qvar j]"
    "var_id i = var_id j" and d: "d = qinteger_literal 1"
    by (rule trivial_delta_Some)
  have mi: "multi_index_pattern (qvar i) = None" "multi_index_pattern (qvar j) = None"
    using assms(1) e by (simp_all add: qvar_def)
  show ?thesis
    by (rule refinesI)
      (auto simp: e d qinteger_literal_def node_value_def node_exec_def tensor_id_def bound_value_def
        index_values_qvar [OF mi(1)] index_values_qvar [OF mi(2)] delta_value_Some split: if_splits)
qed

lemma eliminate_trivial_deltas_refines:
  "eliminate_trivial_deltas n e = Inr r \<Longrightarrow> scoped I (extents W) e \<Longrightarrow> barendregt e \<Longrightarrow> refines I W e r"
  unfolding eliminate_trivial_deltas_def trivial_delta_matcher_eq
  by (rule qtl_rewrite_refines) (auto intro: trivial_delta_refines)

section \<open>Folding a sum\<close>

lemma index_pattern_rename:
  "var_type j = Index_t \<Longrightarrow>
   index_pattern (rename_index i j e) = (if is_index i e then Some j else index_pattern e)"
proof (cases e)
  case (Node l cs)
  assume "var_type j = Index_t"
  with Node show ?thesis
    by (cases cs; cases l) (auto simp: rename_index_Node is_index_Node)
qed

lemma scoped_rename:
  assumes "scoped I N e" and "var_type j = Index_t" and "var_id j \<in> I" and "N (var_id i) = N (var_id j)"
  shows "scoped I N (rename_index i j e)"
  using assms(1)
proof (induction e)
  case (Node l cs)
  show ?case
  proof (cases "is_index i (Node l cs)")
    case True
    with assms(2,3) show ?thesis by (simp add: rename_index_Node qvar_def)
  next
    case False
    have "scope_ok I N l (map (rename_index i j) cs)"
    proof (cases l)
      case (Kronecker_delta_n n)
      then show ?thesis
        using Node.prems assms(4)
        by (auto simp: Cons_eq_map_conv map_eq_Cons_conv index_pattern_rename [OF assms(2)] is_index_iff
            split: if_splits)
    next
      case Subscription_n
      with Node.prems False show ?thesis
        by (cases cs) (auto simp: index_pattern_rename [OF assms(2)] is_index_def)
    next
      case (Intrinsic_function_n f)
      with Node.prems False show ?thesis
        by (cases cs) (auto simp: index_pattern_rename [OF assms(2)] is_index_def)
    qed (use Node.prems in auto)
    with Node False show ?thesis by (simp add: rename_index_Node)
  qed
qed

lemma collect_bubbles_subs: "b \<in> set (collect_bubbles e []) \<Longrightarrow> qtl_subs e \<noteq> []"
  by (cases "(e, [] :: bubble list)" rule: collect_bubbles.cases) auto

lemma fold_sum_refines:
  assumes sc: "scoped I (extents W) (Node (Sum_n [i] al) [body])"
    and ba: "barendregt (Node (Sum_n [i] al) [body])"
    and j: "contains_bubble_with_index i (collect_bubbles body []) = Some j"
    and el: "eliminate_trivial_deltas n (rename_index i j body) = Inr r"
  shows "refines I W (Node (Sum_n [i] al) [body]) r"
proof -
  let ?e = "Node (Sum_n [i] al) [body]" and ?r = "rename_index i j body"
  from contains_bubble_Some [OF j] obtain b where b: "b \<in> set (collect_bubbles body [])"
    and bij: "var_eq (fst b) i \<and> j = snd b \<or> var_eq (snd b) i \<and> j = fst b" by blast
  have body: "scoped I (extents W) body" using sc by simp
  have "good_bubble I W body b" using collect_bubbles_good [OF body b] by simp
  with bij have ji: "var_id j \<noteq> var_id i" "var_type j = Index_t" "var_id j \<in> free_ids body" "var_id j \<in> I"
    "extents W (var_id i) = extents W (var_id j)" "vanishes W (var_id i) (var_id j) body"
    by (auto simp: good_bubble_def var_eq_def vanishes_def) metis+
  have mj: "multi_index_pattern (qvar j) = None" using ji(2) by (simp add: qvar_def)
  have iI: "var_id i \<in> I" using sc by simp
  have nb: "var_id i \<notin> set (binders body)" "var_id j \<notin> set (binders body)"
    using ba barendregt_child(1) [OF ba, of body] ji(3) by (auto simp: barendregt_def)
  have free: "free_ids ?r \<subseteq> free_ids ?e"
    using free_ids_rename [OF nb(2,1) body iI] ji(1,3) by auto
  have "free_ids ?r \<subseteq> free_ids body" using free_ids_rename [OF nb(2,1) body iI] ji(3) by auto
  then have bar: "barendregt ?r" using barendregt_child(1) [OF ba, of body] by (auto simp: barendregt_def)
  have rr: "refines I W ?r r"
    using el scoped_rename [OF body ji(2,4,5)] bar by (rule eliminate_trivial_deltas_refines)
  show ?thesis
  proof (rule refinesI)
    show "free_ids r \<subseteq> free_ids ?e" using refinesD(1) [OF rr] free by blast
    show "mset (binders r) \<subseteq># mset (binders ?e)"
      using refinesD(2) [OF rr] by (simp add: subset_mset.order_trans)
    show "scoped I (extents W) r" using refinesD(3) [OF rr] scoped_rename [OF body ji(2,4,5)] .
    have "qtl_subs body \<noteq> []" using collect_bubbles_subs [OF b] .
    then show "index_pattern r = index_pattern ?e"
      using refinesD(4) [OF rr] index_pattern_rename [OF ji(2), of i body]
      by (cases body) (simp add: is_index_Node index_pattern_Node)
  next
    fix m \<sigma> v
    assume range: "in_range I W \<sigma> ?e" and val: "qval W m ?e \<sigma> = Some v"
    have "var_id j \<in> free_ids ?e \<inter> I" using ji by auto
    with range ji(5) have s: "0 \<le> \<sigma> (var_id j)" "\<sigma> (var_id j) < int (extents W (var_id i))"
      unfolding in_range_def by auto
    have sum: "osum (map (\<lambda>k. qval W m body (\<sigma>(var_id i := int k))) [0..<extents W (var_id i)]) = Some v"
      using val by (simp add: node_value_def)
    have "qval W m body (\<sigma>(var_id i := int (nat (\<sigma> (var_id j))))) = Some v"
    proof (rule osum_single [OF sum])
      show "nat (\<sigma> (var_id j)) \<in> set [0..<extents W (var_id i)]" using s by auto
      show "\<forall>k \<in> set [0..<extents W (var_id i)]. k \<noteq> nat (\<sigma> (var_id j)) \<longrightarrow>
          (\<forall>w. qval W m body (\<sigma>(var_id i := int k)) = Some w \<longrightarrow> w = 0)"
      proof (intro ballI impI allI)
        fix k w assume k: "k \<noteq> nat (\<sigma> (var_id j))" "qval W m body (\<sigma>(var_id i := int k)) = Some w"
        have "(\<sigma>(var_id i := int k)) (var_id i) \<noteq> (\<sigma>(var_id i := int k)) (var_id j)"
          using k(1) ji(1) s by auto
        then show "w = 0" by (rule vanishes_eq [OF _ ji(6) k(2)])
      qed
    qed simp
    then have "qval W m ?r \<sigma> = Some v"
      using qval_rename [OF body iI mj nb, of W m \<sigma>] s by (simp del: fun_upd_apply)
    then show "qval W m r \<sigma> = Some v" by (rule refinesD(10) [OF rr in_range_mono [OF free range]])
  qed (simp_all add: tensor_id_def bound_value_def node_exec_def)
qed

lemma fold_matcher_refines:
  assumes "scoped I (extents W) e" and "barendregt e" and "fold_matcher n e = Inr (Some d)"
  shows "refines I W e d"
proof -
  from assms(3) obtain js al body where e: "e = Node (Sum_n js al) [body]"
    by (cases "(n, e)" rule: fold_matcher.cases) auto
  with assms(1) obtain i where i: "js = [i]" by auto
  show ?thesis
  proof (cases "contains_bubble_with_index i (collect_bubbles body [])")
    case None
    with assms(3) e i have d: "d = qsum [i] body" by simp
    show ?thesis unfolding d e i
      by (rule refinesI) (use assms(1) e i in \<open>auto simp: qsum_def tensor_id_def bound_value_def node_value_def
            node_exec_def\<close>)
  next
    case (Some j)
    with assms(3) e i obtain b1 where b1: "substitute_index n body i j = Inr b1"
      "eliminate_trivial_deltas n b1 = Inr d" by (auto simp: rbind_Inr_iff)
    then have "b1 = rename_index i j body"
      by (simp add: substitute_index_def qtl_rewrite_index)
    with b1 fold_sum_refines [OF _ _ Some, of I W al n d] assms(1,2) e i show ?thesis by simp
  qed
qed

lemma fold_kronecker_deltas_refines:
  "scoped I (extents W) e \<Longrightarrow> barendregt e \<Longrightarrow> fold_kronecker_deltas n e = Inr r \<Longrightarrow> refines I W e r"
  unfolding fold_kronecker_deltas_def by (rule qtl_rewrite_refines) (auto intro: fold_matcher_refines)

section \<open>The pass succeeds\<close>

lemma rename_total:
  assumes "qtl_ok e" and "qtl_size e < n"
  shows "\<exists>r. qtl_rewrite n (index_matcher i (qvar j)) e = Inr r \<and> qtl_ok r \<and> (qtl_is_access e \<longrightarrow> qtl_is_access r) \<and>
    qtl_size r \<le> qtl_size e"
proof -
  have "\<exists>r. qtl_rewrite n (index_matcher i (qvar j)) e = Inr r \<and> qtl_ok r \<and> (qtl_is_access e \<longrightarrow> qtl_is_access r)"
  proof (rule qtl_rewrite_total [where P = "\<lambda>_. True" and \<mu> = qtl_size])
    fix e :: qtl_expr
    show "\<exists>r. index_matcher i (qvar j) e = Inr r \<and> (\<forall>d. r = Some d \<longrightarrow> True \<and> qtl_ok d \<and>
        qtl_size d \<le> qtl_size e \<and> (qtl_is_access e \<longrightarrow> qtl_is_access d))"
      by (cases e) (simp add: index_matcher_def qvar_def node_ok_def base_expr_substitute_def)
  next
    fix e c assume "c \<in> set (qtl_subs e)"
    then show "True \<and> qtl_size c < qtl_size e" using qtl_size_mem by (cases e) simp
  qed (use assms in auto)
  then obtain r where r: "qtl_rewrite n (index_matcher i (qvar j)) e = Inr r" "qtl_ok r"
    "qtl_is_access e \<longrightarrow> qtl_is_access r" by blast
  have "qtl_size r \<le> qtl_size e" unfolding qtl_rewrite_index [OF r(1)] rename_index_def
    by (rule size_rewrite_leaves) (auto simp: qvar_def split: if_splits)
  with r show ?thesis by blast
qed

lemma eliminate_total:
  assumes "qtl_ok e" and "qtl_size e < n"
  shows "\<exists>r. eliminate_trivial_deltas n e = Inr r \<and> qtl_ok r \<and> qtl_size r \<le> qtl_size e"
proof -
  have leaf: "trivial_delta e = Some d \<Longrightarrow> d = qinteger_literal 1 \<and> \<not> qtl_is_access e" for e d
    by (auto elim!: trivial_delta_Some)
  have "\<exists>r. qtl_rewrite n trivial_delta_matcher e = Inr r \<and> qtl_ok r \<and> (qtl_is_access e \<longrightarrow> qtl_is_access r)"
  proof (rule qtl_rewrite_total [where P = "\<lambda>_. True" and \<mu> = qtl_size])
    fix e :: qtl_expr
    show "\<exists>r. trivial_delta_matcher e = Inr r \<and> (\<forall>d. r = Some d \<longrightarrow> True \<and> qtl_ok d \<and>
        qtl_size d \<le> qtl_size e \<and> (qtl_is_access e \<longrightarrow> qtl_is_access d))"
      unfolding trivial_delta_matcher_eq using leaf [of e]
      by (cases e) (auto simp: qinteger_literal_def node_ok_def base_expr_substitute_def)
  next
    fix e c assume "c \<in> set (qtl_subs e)"
    then show "True \<and> qtl_size c < qtl_size e" using qtl_size_mem by (cases e) simp
  qed (use assms in auto)
  then obtain r where r: "qtl_rewrite n trivial_delta_matcher e = Inr r" "qtl_ok r" by blast
  have "r = rewrite_leaves trivial_delta e"
    using r(1) unfolding trivial_delta_matcher_eq
    by (rule qtl_rewrite_leaves [rotated]) (auto dest!: leaf simp: qinteger_literal_def)
  moreover have "qtl_size (rewrite_leaves trivial_delta e) \<le> qtl_size e"
    by (rule size_rewrite_leaves) (auto dest!: leaf simp: qinteger_literal_def)
  ultimately show ?thesis using r by (auto simp: eliminate_trivial_deltas_def)
qed

lemma fold_matcher_total:
  assumes "qtl_ok e" and "scoped I (extents (W :: tensor_env)) e" and "qtl_size e < n"
  shows "\<exists>r. fold_matcher n e = Inr r \<and> (\<forall>d. r = Some d \<longrightarrow>
    qtl_ok d \<and> qtl_size d \<le> qtl_size e \<and> (qtl_is_access e \<longrightarrow> qtl_is_access d))"
proof (cases "(n, e)" rule: fold_matcher.cases)
  case (1 k js al body)
  then have e: "e = Node (Sum_n js al) [body]" and k: "k = n" by simp_all
  with assms(2) obtain i where i: "js = [i]" by auto
  have body: "qtl_ok body" "qtl_size body < n" using assms e by simp_all
  show ?thesis
  proof (cases "contains_bubble_with_index i (collect_bubbles body [])")
    case None
    with e i assms(1) show ?thesis by (simp add: qsum_def node_ok_def sum_expr_substitute_def)
  next
    case (Some j)
    from rename_total [OF body, of i j] obtain b1 where b1: "substitute_index n body i j = Inr b1" "qtl_ok b1"
      "qtl_size b1 \<le> qtl_size body" by (auto simp: substitute_index_def)
    then have "qtl_size b1 < n" using body(2) by simp
    from eliminate_total [OF b1(2) this] obtain b2 where "eliminate_trivial_deltas n b1 = Inr b2" "qtl_ok b2"
      "qtl_size b2 \<le> qtl_size b1" by blast
    with b1 Some e i show ?thesis by simp
  qed
qed simp_all

lemma fold_kronecker_deltas_total:
  assumes "qtl_ok e" and "scoped I (extents (W :: tensor_env)) e" and "barendregt e" and "qtl_size e < n"
  shows "\<exists>r. fold_kronecker_deltas n e = Inr r \<and> qtl_ok r \<and> (qtl_is_access e \<longrightarrow> qtl_is_access r)"
  unfolding fold_kronecker_deltas_def
proof (rule qtl_rewrite_total [where P = "\<lambda>e. scoped I (extents W) e \<and> barendregt e \<and> qtl_size e < n"
      and \<mu> = qtl_size])
  fix e c assume "scoped I (extents W) e \<and> barendregt e \<and> qtl_size e < n" "c \<in> set (qtl_subs e)"
  then show "(scoped I (extents W) c \<and> barendregt c \<and> qtl_size c < n) \<and> qtl_size c < qtl_size e"
    using qtl_size_mem barendregt_child(1) by (cases e) (fastforce intro: less_trans)
next
  fix e assume P: "scoped I (extents W) e \<and> barendregt e \<and> qtl_size e < n" and "qtl_ok e"
  with fold_matcher_total [of e I W n] obtain r where r: "fold_matcher n e = Inr r" "\<forall>d. r = Some d \<longrightarrow>
      qtl_ok d \<and> qtl_size d \<le> qtl_size e \<and> (qtl_is_access e \<longrightarrow> qtl_is_access d)" by blast
  moreover have "scoped I (extents W) d \<and> barendregt d" if "r = Some d" for d
    using fold_matcher_refines [of I W e n d] P r(1) that refinesD(3) refines_barendregt by blast
  ultimately show "\<exists>r. fold_matcher n e = Inr r \<and> (\<forall>d. r = Some d \<longrightarrow>
      (scoped I (extents W) d \<and> barendregt d \<and> qtl_size d < n) \<and> qtl_ok d \<and> qtl_size d \<le> qtl_size e \<and>
      (qtl_is_access e \<longrightarrow> qtl_is_access d))"
    using P by fastforce
qed (use assms in auto)

text \<open>C37. Folding Kronecker deltas is correct and returns: after the expansion of multi-indices, if no name is
  bound twice and deltas compare indices with equally many values, then the result has the value of the original
  wherever that has one, and run as a statement it changes the memory in the same way.\<close>
theorem fold_kronecker_deltas_sound:
  assumes "qtl_ok e" and "scoped I (extents W) e" and "barendregt e" and "qtl_size e < n"
  shows "\<exists>r. fold_kronecker_deltas n e = Inr r \<and> (\<forall>m \<sigma>. in_range I W \<sigma> e \<longrightarrow>
    (\<forall>v. qval W m e \<sigma> = Some v \<longrightarrow> qval W m r \<sigma> = Some v) \<and>
    (\<forall>m'. qexec W e \<sigma> m = Some m' \<longrightarrow> qexec W r \<sigma> m = Some m'))"
proof -
  obtain r where r: "fold_kronecker_deltas n e = Inr r"
    using fold_kronecker_deltas_total [OF assms] by blast
  from fold_kronecker_deltas_refines [OF assms(2,3) r] r show ?thesis by (auto dest: refinesD(10,11))
qed

definition index_variable :: "nat \<Rightarrow> variable_declaration" where
  "index_variable a = \<lparr>var_id = a, var_name = ''index'', var_type = Index_t\<rparr>"

definition tensor_variable :: "nat \<Rightarrow> int \<Rightarrow> variable_declaration" where
  "tensor_variable a r = \<lparr>var_id = a, var_name = ''obj'', var_type = Array_t Double_t r\<rparr>"

lemma example_variables [simp]:
  "var_id (index_variable a) = a" "var_type (index_variable a) = Index_t"
  "var_id (tensor_variable a r) = a" "var_type (tensor_variable a r) = Array_t Double_t r"
  by (simp_all add: index_variable_def tensor_variable_def)

definition contraction_example :: qtl_expr where
  "contraction_example = qsum [index_variable 2]
     (Node (Binary_n Multiplies)
        [Node (Kronecker_delta_n 3) [qvar (index_variable 1), qvar (index_variable 2)],
         qsubscription (qvar (tensor_variable 7 1)) [qvar (index_variable 2)]])"

theorem fold_kronecker_deltas_sound_witness:
  "\<exists>r. fold_kronecker_deltas 10 contraction_example = Inr r \<and>
     qval \<lparr>extents = (\<lambda>_. 3), shape_of = (\<lambda>_. [3]), elements = (\<lambda>_. [])\<rparr>
       (\<lambda>t xs. case xs of [x] \<Rightarrow> Some (of_int (x * x)) | _ \<Rightarrow> None) r (\<lambda>_. 2) = Some 4"
proof -
  let ?W = "\<lparr>extents = (\<lambda>_. 3), shape_of = (\<lambda>_. [3 :: int]), elements = (\<lambda>_. [])\<rparr>"
  let ?m = "\<lambda>t xs. case xs of [x] \<Rightarrow> Some (of_int (x * x)) | _ \<Rightarrow> None"
  have "\<exists>r. fold_kronecker_deltas 10 contraction_example = Inr r \<and>
      (\<forall>m \<sigma>. in_range {1, 2} ?W \<sigma> contraction_example \<longrightarrow>
        (\<forall>v. qval ?W m contraction_example \<sigma> = Some v \<longrightarrow> qval ?W m r \<sigma> = Some v) \<and>
        (\<forall>m'. qexec ?W contraction_example \<sigma> m = Some m' \<longrightarrow> qexec ?W r \<sigma> m = Some m'))"
    by (rule fold_kronecker_deltas_sound)
      (simp_all add: contraction_example_def qtl_builders barendregt_def node_ok_def
        sum_expr_substitute_def base_expr_substitute_def kronecker_delta_expr_substitute_def)
  moreover have "in_range {1, 2} ?W (\<lambda>_. 2) contraction_example"
    by (simp add: in_range_def)
  moreover have "qval ?W ?m contraction_example (\<lambda>_. 2) = Some 4"
    by (simp add: contraction_example_def qtl_builders node_value_def numeral_3_eq_3 arithmetic_def
        in_delta_range_def delta_value_def tensor_id_def)
  ultimately show ?thesis by blast
qed

section \<open>Two indices of one bubble\<close>



end
