(* ===== verification/TopLevelSums.thy ===== *)
theory TopLevelSums
  imports KroneckerFolding
begin

text \<open>
  Lowering of the sums at the top level of assignments (\<open>qubus/src/qtl/lower_top_level_sums.cpp\<close>) is
  correct where the assigned tensor does not occur in the sum: instead of assigning the sum, the result
  assigns zero and adds up the summands in loops.  Where the tensor does occur, the result differs.
\<close>

section \<open>What a meaning depends on\<close>

lemma index_values_cong:
  assumes "scope_ok I N (qtl_label e) (qtl_subs e)" and "\<And>x. x \<in> free_ids e \<Longrightarrow> \<sigma> x = \<tau> x"
  shows "index_values W \<sigma> e = index_values W \<tau> e"
proof (cases e)
  case (Node l cs)
  show ?thesis
  proof (cases l)
    case (Variable_ref_n v)
    with Node assms(1) have e: "e = qvar v" "multi_index_pattern (qvar v) = None" by (simp_all add: qvar_def)
    moreover have "\<sigma> (var_id v) = \<tau> (var_id v)" using assms(2) e(1) by (simp add: qvar_def)
    ultimately show ?thesis by (simp add: index_values_qvar)
  qed (use Node assms(1) in \<open>cases cs; simp\<close>)+
qed

lemma coordinates_cong:
  assumes "\<forall>e \<in> set es. scoped I N e" and "\<And>x. x \<in> \<Union> (free_ids ` set es) \<Longrightarrow> \<sigma> x = \<tau> x"
  shows "coordinates W \<sigma> es = coordinates W \<tau> es"
  using assms
proof (induction es)
  case (Cons e es)
  have "index_values W \<sigma> e = index_values W \<tau> e"
    by (rule index_values_cong [of I N]) (use Cons.prems in \<open>cases e; auto\<close>)+
  with Cons show ?case by simp
qed simp

lemma element_cong:
  assumes "scoped I N e" and "\<And>x. x \<in> free_ids e \<Longrightarrow> \<sigma> x = \<tau> x"
  shows "element W \<sigma> e = element W \<tau> e"
proof (cases "(W, \<sigma>, e)" rule: element.cases)
  case (1 W' \<sigma>' a es)
  have "coordinates W \<sigma> es = coordinates W \<tau> es"
    by (rule coordinates_cong [of _ I N]) (use 1 assms in auto)
  with 1 show ?thesis by simp
qed simp_all

text \<open>Values and runs depend on the free indices only.\<close>

lemma qval_cong:
  assumes "scoped I N e" and "\<And>x. x \<in> free_ids e \<Longrightarrow> \<sigma> x = \<tau> x"
  shows "qval W m e \<sigma> = qval W m e \<tau>"
  using assms
proof (induction e arbitrary: \<sigma> \<tau>)
  case (Node l cs)
  have c: "qval W m c \<sigma> = qval W m c \<tau>" if "c \<in> set cs" "bound_ids l = []" for c
  proof (rule Node.IH [OF that(1)])
    show "scoped I N c" using Node.prems(1) that(1) by simp
    show "\<sigma> x = \<tau> x" if "x \<in> free_ids c" for x
      using that \<open>c \<in> set cs\<close> \<open>bound_ids l = []\<close> by (intro Node.prems(2)) auto
  qed
  have iv: "index_values W \<sigma> c = index_values W \<tau> c" if "c \<in> set cs" "bound_ids l = []" for c
  proof (rule index_values_cong [of I N])
    show "scope_ok I N (qtl_label c) (qtl_subs c)" using Node.prems(1) that(1) by (cases c) fastforce
    show "\<sigma> x = \<tau> x" if "x \<in> free_ids c" for x
      using that \<open>c \<in> set cs\<close> \<open>bound_ids l = []\<close> by (intro Node.prems(2)) auto
  qed
  show ?case
  proof (cases l)
    case (Sum_n js al)
    with Node.prems obtain i where i: "js = [i]" by auto
    have "qval W m c (\<sigma>(var_id i := int k)) = qval W m c (\<tau>(var_id i := int k))" if "c \<in> set cs" for c k
      by (rule Node.IH [OF that]) (use Node.prems Sum_n i that in auto)
    then have "cs = [b] \<Longrightarrow> (\<lambda>k. qval W m b (\<sigma>(var_id i := int k))) = (\<lambda>k. qval W m b (\<tau>(var_id i := int k)))" for b
      by (auto simp del: fun_upd_apply)
    with Sum_n i show ?thesis by (auto simp: node_value_def split: list.split)
  next
    case Subscription_n
    with element_cong [OF Node.prems] show ?thesis by (simp add: node_value_def)
  qed (auto simp: node_value_def c iv split: list.split)
qed

lemma bound_ids_Nil_child:
  "bound_ids l = [] \<Longrightarrow> c \<in> set cs \<Longrightarrow> x \<in> free_ids c \<Longrightarrow> x \<in> free_ids (Node l cs)"
  by auto

lemma qexec_cong:
  assumes "scoped I N e" and "\<And>x. x \<in> free_ids e \<Longrightarrow> \<sigma> x = \<tau> x"
  shows "qexec W e \<sigma> m = qexec W e \<tau> m"
  using assms
proof (induction e arbitrary: \<sigma> \<tau> m)
  case (Node l cs)
  have sub: "scoped I N c" if "c \<in> set cs" for c using Node.prems that by auto
  show ?case
  proof (cases l)
    case (Binary_n t)
    have "element W \<sigma> c = element W \<tau> c" "qval W m c \<sigma> = qval W m c \<tau>" if "c \<in> set cs" for c
      using Node.prems(2) Binary_n that
      by (auto intro!: element_cong [OF sub [OF that]] qval_cong [OF sub [OF that]] bound_ids_Nil_child)
    with Binary_n show ?thesis by (auto simp: node_exec_def split: list.split)
  next
    case (Compound_n ord)
    have "qexec W c \<sigma> u = qexec W c \<tau> u" if "c \<in> set cs" for c u
      using Node.prems(2) Compound_n that by (intro Node.IH [OF that sub [OF that]]) auto
    with Compound_n show ?thesis by (simp add: node_exec_def loop_over_map cong: loop_over_cong)
  next
    case (For_all_n js al)
    with Node.prems obtain i where i: "js = [i]" by auto
    have "qexec W c (\<sigma>(var_id i := int k)) u = qexec W c (\<tau>(var_id i := int k)) u" if "c \<in> set cs" for c k u
      by (rule Node.IH [OF that]) (use Node.prems For_all_n i that in auto)
    with For_all_n i show ?thesis
      by (auto simp: node_exec_def simp del: fun_upd_apply split: list.split cong: loop_over_cong)
  next
    case (For_n ord i)
    have "qexec W c (\<sigma>(var_id i := x)) u = qexec W c (\<tau>(var_id i := x)) u" if "c \<in> set cs" for c x u
      by (rule Node.IH [OF that]) (use Node.prems For_n that in auto)
    with For_n show ?thesis
      by (auto simp: node_exec_def simp del: fun_upd_apply split: list.split option.split cong: loop_over_cong)
  qed (simp_all add: node_exec_def)
qed

text \<open>A tensor that does not occur is not read.\<close>

lemma qval_frame:
  assumes "scoped I N e" and "t \<notin> I" and "t \<notin> free_ids e" and "\<And>u. u \<noteq> t \<Longrightarrow> m' u = m u"
  shows "qval W m' e \<sigma> = qval W m e \<sigma>"
  using assms(1,3)
proof (induction e arbitrary: \<sigma>)
  case (Node l cs)
  have c: "qval W m' c \<tau> = qval W m c \<tau>" if "c \<in> set cs" "t \<notin> set (bound_ids l)" for c \<tau>
    by (rule Node.IH [OF that(1)]) (use Node.prems that in \<open>auto simp del: binders.simps\<close>)
  show ?case
  proof (cases l)
    case (Sum_n js al)
    from Node.prems(1) Sum_n obtain i where "js = [i]" "var_id i \<in> I" by auto
    with assms(2) Sum_n have t: "t \<notin> set (bound_ids l)" by auto
    have "qval W m' b = qval W m b" if "cs = [b]" for b
      by (rule ext, rule c) (use that t in simp_all)
    with Sum_n show ?thesis by (auto simp: node_value_def split: list.split)
  next
    case Subscription_n
    have "u \<noteq> t" if "element W \<sigma> (Node l cs) = Some (u, xs)" for u xs
    proof -
      from that Subscription_n obtain a es where cs: "cs = a # es" and "tensor_id a = Some u"
        by (cases cs) (auto split: option.splits)
      then have "u \<in> free_ids a" by (auto simp: tensor_id_def split: qtl_expr.splits qtl_node.splits list.splits)
      with cs Node.prems(2) Subscription_n show "u \<noteq> t" by auto
    qed
    with Subscription_n assms(4) show ?thesis by (auto simp: node_value_def split: option.split)
  qed (use c in \<open>auto simp: node_value_def split: list.split\<close>)
qed

section \<open>Sums as loops\<close>

inductive summed :: "qtl_expr \<Rightarrow> variable_declaration list \<Rightarrow> qtl_expr \<Rightarrow> bool" where
  body: "summed b [] b"
| sum: "summed s js b \<Longrightarrow> summed (Node (Sum_n [i] al) [s]) (i # js) b"

lemma remove_top_level_sums_summed:
  "\<exists>b js. remove_top_level_sums s acc = (b, acc @ js) \<and> summed s js b"
proof (induction s acc rule: remove_top_level_sums.induct)
  case (1 i al body sum_indices)
  then show ?case using summed.sum by fastforce
qed (auto intro: summed.body)

lemma summed_names:
  assumes "summed s js b"
  shows "free_ids s = free_ids b - var_id ` set js" and "binders s = map var_id js @ binders b"
    and "scoped I N s \<longleftrightarrow> scoped I N b \<and> (\<forall>i \<in> set js. var_type i = Index_t \<and> var_id i \<in> I)"
  using assms by (induction rule: summed.induct) auto

lemma for_alls_names:
  "free_ids (foldr qfor_all js e) = free_ids e - var_id ` set js"
  "binders (foldr qfor_all js e) = map var_id js @ binders e"
  "scoped I N (foldr qfor_all js e) \<longleftrightarrow> scoped I N e \<and> (\<forall>i \<in> set js. var_type i = Index_t \<and> var_id i \<in> I)"
  by (induction js) (auto simp: qfor_all_def)

lemma add_up_loop:
  assumes "\<And>m' c k v. k \<in> set ks \<Longrightarrow> (\<And>u. u \<noteq> t \<Longrightarrow> m' u = m u) \<Longrightarrow> m' t xs = Some c \<Longrightarrow> f k = Some v \<Longrightarrow>
      g k m' = Some (m'(t := (m' t)(xs := Some (c + v))))"
  shows "osum (map f ks) = Some v \<Longrightarrow> (\<And>u. u \<noteq> t \<Longrightarrow> m' u = m u) \<Longrightarrow> m' t xs = Some c \<Longrightarrow>
    loop_over g ks m' = Some (m'(t := (m' t)(xs := Some (c + v))))"
  using assms
proof (induction ks arbitrary: m' c v)
  case Nil
  then show ?case by (simp add: fun_upd_idem)
next
  case (Cons k ks)
  from Cons.prems(1) obtain a b where ab: "f k = Some a" "osum (map f ks) = Some b" "v = a + b"
    by (auto split: option.splits)
  let ?m = "m'(t := (m' t)(xs := Some (c + a)))"
  have "g k m' = Some ?m" by (rule Cons.prems(4)) (use Cons.prems ab in auto)
  moreover have "loop_over g ks ?m = Some (?m(t := (?m t)(xs := Some (c + a + b))))"
    by (rule Cons.IH [OF ab(2)]) (use Cons.prems in auto)
  moreover have "?m(t := (?m t)(xs := Some (c + a + b))) = m'(t := (m' t)(xs := Some (c + v)))"
    using ab(3) by (simp add: add.assoc)
  ultimately show ?case by (simp del: fun_upd_apply)
qed

lemma add_up:
  assumes a: "scoped I N a" "t \<notin> I"
  shows "summed s js b \<Longrightarrow> scoped I N s \<Longrightarrow> var_id ` set js \<inter> free_ids a = {} \<Longrightarrow> t \<notin> free_ids s \<Longrightarrow>
    element W \<sigma> a = Some (t, xs) \<Longrightarrow> qval W m s \<sigma> = Some v \<Longrightarrow> m t xs = Some c \<Longrightarrow>
    qexec W (foldr qfor_all js (qplus_assign a b)) \<sigma> m = Some (m(t := (m t)(xs := Some (c + v))))"
proof (induction arbitrary: \<sigma> m c v rule: summed.induct)
  case (body b)
  then obtain l cs where "a = Node l cs" "l = Subscription_n"
    by (cases "(W, \<sigma>, a)" rule: element.cases) auto
  with body show ?case
    by (simp add: node_value_def arithmetic_def write_to_def write_element_def del: fun_upd_apply)
next
  case (sum s js b i al)
  have ids: "var_id i \<notin> free_ids a" "scoped I N s" "t \<noteq> var_id i" "t \<notin> free_ids s"
    using sum.prems a(2) by auto
  have "loop_over (\<lambda>k. qexec W (foldr qfor_all js (qplus_assign a b)) (\<sigma>(var_id i := int k)))
      [0..<extents W (var_id i)] m = Some (m(t := (m t)(xs := Some (c + v))))"
  proof (rule add_up_loop [where f = "\<lambda>k. qval W m s (\<sigma>(var_id i := int k))"])
    show "osum (map (\<lambda>k. qval W m s (\<sigma>(var_id i := int k))) [0..<extents W (var_id i)]) = Some v"
      using sum.prems(5) by (simp add: node_value_def)
    show "m t xs = Some c" by (rule sum.prems)
  next
    fix m' c k w
    assume m': "\<And>u. u \<noteq> t \<Longrightarrow> m' u = m u" "m' t xs = Some c"
      and w: "qval W m s (\<sigma>(var_id i := int k)) = Some w"
    have "element W (\<sigma>(var_id i := int k)) a = element W \<sigma> a"
      by (rule element_cong [OF a(1)]) (use ids(1) in auto)
    then have el: "element W (\<sigma>(var_id i := int k)) a = Some (t, xs)" using sum.prems(4) by simp
    have "qval W m' s (\<sigma>(var_id i := int k)) = Some w"
      using qval_frame [OF ids(2) a(2) ids(4) m'(1)] w by simp
    then show "qexec W (foldr qfor_all js (qplus_assign a b)) (\<sigma>(var_id i := int k)) m' =
        Some (m'(t := (m' t)(xs := Some (c + w))))"
      using sum.prems(2) by (intro sum.IH ids el m'(2)) (auto simp del: fun_upd_apply)
  qed simp_all
  then show ?case by (simp del: fun_upd_apply)
qed

text \<open>The tensor that a sum is assigned to does not occur in the sum.\<close>

fun sum_assignment_ok :: "nat set \<Rightarrow> qtl_node \<Rightarrow> qtl_expr list \<Rightarrow> bool" where
  "sum_assignment_ok I (Binary_n t) [a, s] \<longleftrightarrow> (t = Assign \<and> is_single_sum s \<longrightarrow>
     (\<exists>v js. a = qsubscription (qvar v) js \<and> var_id v \<notin> free_ids s \<and> binders a = []))"
| "sum_assignment_ok I _ _ \<longleftrightarrow> True"

lemma scoped_tensor: "scoped I N (qsubscription (qvar v) js) \<Longrightarrow> var_id v \<notin> I"
  by (auto simp: qsubscription_def qvar_def)

lemma lower_sum_assignment_refines:
  assumes sc: "scoped I (extents W) (qassign a s)" and ba: "barendregt (qassign a s)"
    and ok: "a = qsubscription (qvar v) ks" "var_id v \<notin> free_ids s" "binders a = []"
  shows "refines I W (qassign a s) (lower_sum_assignment a s)"
proof -
  obtain b js where r: "remove_top_level_sums s [] = (b, js)" "summed s js b"
    using remove_top_level_sums_summed [of s "[]"] by auto
  let ?loop = "foldr qfor_all js (qplus_assign a b)"
  have lower: "lower_sum_assignment a s = qsequenced_tasks [qassign a (qdouble_literal 0), ?loop]"
    by (simp add: lower_sum_assignment_def r)
  have sca: "scoped I (extents W) a" "scoped I (extents W) s" using sc by (simp_all add: qassign_def)
  note names = summed_names(1,2) [OF r(2)] summed_names(3) [OF r(2), of I "extents W"]
  have disj: "var_id ` set js \<inter> free_ids a = {}"
    using ba names(2) by (auto simp: barendregt_def qassign_def)
  have t: "var_id v \<notin> I" using sca(1) ok(1) scoped_tensor by blast
  show ?thesis unfolding lower
  proof (rule refinesI)
    show "free_ids (qsequenced_tasks [qassign a (qdouble_literal 0), ?loop]) \<subseteq> free_ids (qassign a s)"
      using names(1) by (auto simp: qtl_builders for_alls_names)
    show "mset (binders (qsequenced_tasks [qassign a (qdouble_literal 0), ?loop])) \<subseteq># mset (binders (qassign a s))"
      using names(2) ok(3) by (simp add: qsequenced_tasks_def qassign_def qdouble_literal_def qplus_assign_def for_alls_names)
    show "scoped I (extents W) (qsequenced_tasks [qassign a (qdouble_literal 0), ?loop])"
      using names(3) sca by (simp add: qsequenced_tasks_def qassign_def qdouble_literal_def qplus_assign_def for_alls_names)
  next
    fix m \<sigma> m'
    assume "qexec W (qassign a s) \<sigma> m = Some m'"
    then obtain xs w where el: "element W \<sigma> a = Some (var_id v, xs)" and w: "qval W m s \<sigma> = Some w"
      and c: "m (var_id v) xs \<noteq> None" and m': "m' = m(var_id v := (m (var_id v))(xs := Some w))"
      using ok(1) by (auto simp: write_to_def write_element_def qsubscription_def qvar_def tensor_id_def
          split: option.splits if_splits)
    let ?m = "m(var_id v := (m (var_id v))(xs := Some 0))"
    have "qval W ?m s \<sigma> = Some w"
      using qval_frame [OF sca(2) t ok(2), of ?m m] w by simp
    then have "qexec W ?loop \<sigma> ?m = Some (?m(var_id v := (?m (var_id v))(xs := Some (0 + w))))"
      by (intro add_up [OF sca(1) t r(2) sca(2) disj ok(2) el]) simp_all
    moreover have "qexec W (qassign a (qdouble_literal 0)) \<sigma> m = Some ?m"
      using el c by (simp add: write_to_def write_element_def)
    ultimately show "qexec W (qsequenced_tasks [qassign a (qdouble_literal 0), ?loop]) \<sigma> m = Some m'"
      using m' by simp
  qed (auto simp: qassign_def qsequenced_tasks_def tensor_id_def bound_value_def node_value_def arithmetic_def
      split: option.splits)
qed

section \<open>The pass\<close>

lemma refines_for_all: "refines I W (Node (For_all_n [i] al) [x]) (qfor_all i x)"
  by (rule refinesI) (auto simp: qfor_all_def tensor_id_def bound_value_def node_value_def node_exec_def)

lemma refines_order:
  "refines I W (Node (For_n ord i) cs) (Node (For_n Sequential i) cs)"
  "refines I W (Node (Compound_n ord) cs) (Node (Compound_n Sequential) cs)"
  by (rule refinesI; cases cs; auto simp: tensor_id_def bound_value_def node_value_def node_exec_def)+

lemma lower_top_level_sums_refines:
  "scoped I (extents W) e \<Longrightarrow> barendregt e \<Longrightarrow> qeverywhere (sum_assignment_ok I) e \<Longrightarrow>
   refines I W e (lower_top_level_sums e)"
proof (induction e rule: lower_top_level_sums.induct)
  case (1 i al b)
  have "refines I W b (lower_top_level_sums b)"
    using 1 barendregt_child(1) [OF "1.prems"(2), of b] by simp
  then have "refines I W (Node (For_all_n [i] al) [b]) (Node (For_all_n [i] al) [lower_top_level_sums b])"
    by (intro refines_Node "1.prems"(1)) simp
  then show ?case using refines_for_all by (auto intro: refines_trans)
next
  case (2 ord i b c s d)
  show ?case
  proof (cases "s = qinteger_literal 1")
    case True
    have "refines I W d (lower_top_level_sums d)"
      using 2 True barendregt_child(1) [OF "2.prems"(2), of d] by simp
    then have "refines I W (Node (For_n ord i) [b, c, s, d]) (Node (For_n ord i) [b, c, s, lower_top_level_sums d])"
      by (intro refines_Node "2.prems"(1)) simp
    then show ?thesis using True refines_order(1) by (auto simp: qfor_def intro: refines_trans)
  qed simp
next
  case (3 ord es)
  have "refines I W e (lower_top_level_sums e)" if "e \<in> set es" for e
    using 3 that barendregt_child(1) [OF "3.prems"(2) that] by simp
  then have "list_all2 (refines I W) es (map lower_top_level_sums es)"
    by (simp add: list_all2_map2 list_all2_same)
  then have "refines I W (Node (Compound_n ord) es) (Node (Compound_n ord) (map lower_top_level_sums es))"
    by (rule refines_Node [OF "3.prems"(1)])
  then show ?case using refines_order(2) by (auto simp: qsequenced_tasks_def intro: refines_trans)
next
  case (4 t a s)
  show ?case
  proof (cases "t = Assign \<and> is_single_sum s")
    case True
    with "4.prems"(3) obtain v js where "a = qsubscription (qvar v) js" "var_id v \<notin> free_ids s" "binders a = []"
      by auto
    with lower_sum_assignment_refines [of I W a s v js] "4.prems" True show ?thesis
      by (simp add: qassign_def)
  qed auto
qed simp_all


definition row_sums_example :: qtl_expr where
  "row_sums_example = qfor_all (index_variable 3) (qassign
     (qsubscription (qvar (tensor_variable 8 1)) [qvar (index_variable 3)])
     (qsum [index_variable 4]
        (qsubscription (qvar (tensor_variable 9 2)) [qvar (index_variable 3), qvar (index_variable 4)])))"

definition row_sums_env :: tensor_env where
  "row_sums_env = \<lparr>extents = (\<lambda>_. 2), shape_of = (\<lambda>_. [2, 2]), elements = (\<lambda>_. [])\<rparr>"


text \<open>A tensor that its own sum reads is lost: the assignment \<open>A(0) = sum(j, A(0))\<close> multiplies the element by
  the number of values of j, but the lowered code sets it to zero first and then only adds zeros.\<close>
lemma self_reference_lost:
  assumes "m (var_id t) [0] = Some c" and "var_id i \<noteq> var_id t"
  shows "\<exists>a s. a = qsubscription (qvar t) [qinteger_literal 0] \<and> s = qsum [i] a \<and>
    qexec W (qassign a s) \<sigma> m =
      Some (m(var_id t := (m (var_id t))([0] \<mapsto> of_nat (extents W (var_id i)) * c))) \<and>
    qexec W (lower_top_level_sums (qassign a s)) \<sigma> m = Some (m(var_id t := (m (var_id t))([0] \<mapsto> 0)))"
proof -
  define a where "a = qsubscription (qvar t) [qinteger_literal 0]"
  have el: "element W \<tau> a = Some (var_id t, [0])" for \<tau>
    by (simp add: a_def qtl_builders tensor_id_def)
  have val: "qval W n a \<tau> = n (var_id t) [0]" for n \<tau>
    using el by (simp add: a_def qsubscription_def node_value_def)
  have sum: "osum (map (\<lambda>k. Some c) ks) = Some (of_nat (length ks) * c)" for ks :: "nat list"
    by (induction ks) (simp_all add: algebra_simps)
  have loop: "loop_over (\<lambda>k. qexec W (qplus_assign a a) (\<tau> k)) ks n = Some n"
    if "n (var_id t) [0] = Some 0" for ks :: "nat list" and n \<tau>
    using that
    by (induction ks) (simp_all add: el val arithmetic_def write_to_def write_element_def fun_upd_idem)
  have lower: "lower_top_level_sums (qassign a (qsum [i] a)) =
      qsequenced_tasks [qassign a (qdouble_literal 0), qfor_all i (qplus_assign a a)]"
    by (simp add: qassign_def qsum_def is_single_sum_def lower_sum_assignment_def a_def qsubscription_def)
  have "qexec W (qassign a (qsum [i] a)) \<sigma> m =
      Some (m(var_id t := (m (var_id t))([0] \<mapsto> of_nat (extents W (var_id i)) * c)))"
    using assms(1) sum [of "[0..<extents W (var_id i)]"] by (simp add: el val write_to_def write_element_def)
  moreover have "qexec W (lower_top_level_sums (qassign a (qsum [i] a))) \<sigma> m =
      Some (m(var_id t := (m (var_id t))([0] \<mapsto> 0)))"
    using assms(1) loop [of "m(var_id t := (m (var_id t))([0] \<mapsto> 0))" "\<lambda>k. \<sigma>(var_id i := int k)"]
    by (simp add: lower el write_to_def write_element_def del: fun_upd_apply)
      (simp add: el write_to_def write_element_def)
  ultimately show ?thesis by (auto simp: a_def)
qed

lemma self_reference_lost_example:
  "\<exists>e m1 m2. qexec row_sums_env e (\<lambda>_. 0) (\<lambda>t xs. Some 5) = Some m1 \<and>
     qexec row_sums_env (lower_top_level_sums e) (\<lambda>_. 0) (\<lambda>t xs. Some 5) = Some m2 \<and> m1 8 [0] = Some 10 \<and> m2 8 [0] = Some 0"
proof -
  let ?m = "\<lambda>t xs. Some (5 :: rat)"
  let ?t = "tensor_variable 8 1" and ?i = "index_variable 3"
  have prems: "?m (var_id ?t) [0] = Some 5" "var_id ?i \<noteq> var_id ?t" by simp_all
  obtain a s where as: "qexec row_sums_env (qassign a s) (\<lambda>_. 0) ?m =
      Some (?m(var_id ?t := (?m (var_id ?t))([0] \<mapsto> of_nat (extents row_sums_env (var_id ?i)) * 5)))"
    "qexec row_sums_env (lower_top_level_sums (qassign a s)) (\<lambda>_. 0) ?m =
      Some (?m(var_id ?t := (?m (var_id ?t))([0] \<mapsto> 0)))"
    using self_reference_lost [OF prems, of row_sums_env "\<lambda>_. 0"] by blast
  show ?thesis by (intro exI conjI, rule as(1), rule as(2)) (simp_all add: row_sums_env_def)
qed

end
