(* ===== verification/QirAst.thy ===== *)
theory QirAst
  imports ModuleSystem
begin

text \<open>
  The second half of the parser (\<open>qubus/src/IR/parsing.cpp\<close>): the syntax tree that the grammar builds,
  and the analyzers that turn it into a module.  \<open>type_analyzer\<close> reads types, \<open>symbol_table\<close> resolves names
  in nested scopes, \<open>expression_analyzer\<close> builds expressions and \<open>definition_analyzer\<close> adds functions
  and struct types to the module.  The shared pointer of a new variable is the next unused number.
\<close>

section \<open>The syntax tree\<close>

datatype ast_type =
    Basic_type string
  | Parameterized_type string "ast_type_parameter list"
and ast_type_parameter =
    Type_parameter ast_type
  | Int_parameter int

record ast_variable_declaration =
  decl_name :: string
  decl_datatype :: ast_type

datatype ast_expression =
    Ast_variable string
  | Ast_binary_operator ast_expression string ast_expression
  | Ast_unary_operator string ast_expression
  | Ast_qualified_expr ast_expression "ast_qualifier list"
  | Ast_if_expr ast_expression ast_expression_block "ast_expression_block option"
  | Ast_for_expr string ast_variable_declaration ast_integer_range ast_expression_block
  | Ast_let_expr ast_variable_declaration ast_expression
  | Ast_range ast_integer_range
  | Ast_function_call string "ast_expression list"
  | Ast_index int
  | Ast_double "64 word"
  | Ast_bool bool
and ast_qualifier =
    Ast_subscription "ast_expression list"
  | Ast_member_access string
and ast_integer_range =
    Ast_integer_range ast_expression ast_expression ast_expression
and ast_expression_block =
    Ast_block "ast_expression list" bool

text \<open>The fields of a range are in the order of the grammar: lower bound, stride, upper bound.\<close>

record ast_function =
  ast_fn_id :: string
  ast_fn_parameters :: "ast_variable_declaration list"
  ast_fn_result :: ast_variable_declaration
  ast_fn_body :: ast_expression_block

record ast_struct =
  ast_struct_name :: string
  ast_struct_members :: "ast_variable_declaration list"

datatype ast_definition = Ast_function_def ast_function | Ast_struct_def ast_struct

record ast_module =
  ast_module_id :: string
  ast_definitions :: "ast_definition list"

section \<open>Types\<close>

fun analyze_type :: "ast_type \<Rightarrow> qtype result" where
  "analyze_type (Parameterized_type name parameters) =
     (if name = ''Array'' then
        if length parameters \<noteq> 2 then Inl (Parsing_error ''Invalid number of type parameters.'')
        else (case parameters of
                [Type_parameter t, Int_parameter rank] \<Rightarrow>
                  rbind (analyze_type t) (\<lambda>v. Inr (Array_t v rank))
              | _ \<Rightarrow> Inl (Parsing_error ''Invalid parameters type.''))
      else if name = ''Complex'' then
        if length parameters \<noteq> 1 then Inl (Parsing_error ''Invalid number of type parameters.'')
        else (case parameters of
                [Type_parameter t] \<Rightarrow> rbind (analyze_type t) (\<lambda>v. Inr (Complex_t v))
              | _ \<Rightarrow> Inl (Parsing_error ''Invalid parameters type.''))
      else Inl (Parsing_error ''Unknown type.''))"
| "analyze_type (Basic_type name) =
     (if name = ''Int'' then Inr Integer_t
      else if name = ''Double'' then Inr Double_t
      else if name = ''Float'' then Inr Float_t
      else if name = ''Bool'' then Inr Bool_t
      else Inl (Parsing_error ''Unknown type.''))"

section \<open>Symbols\<close>

text \<open>The table is a stack of scopes, the innermost first, with the next unused address.\<close>

type_synonym symbol_scope = "string \<rightharpoonup> variable_declaration"

record symbol_table =
  scopes :: "symbol_scope list"
  next_address :: nat

definition new_symbol_table :: "nat \<Rightarrow> symbol_table" where
  "new_symbol_table address = \<lparr>scopes = [\<lambda>n. None], next_address = address\<rparr>"

definition enter_scope :: "symbol_table \<Rightarrow> symbol_table" where
  "enter_scope s = s\<lparr>scopes := (\<lambda>n. None) # scopes s\<rparr>"

definition leave_scope :: "symbol_table \<Rightarrow> symbol_table" where
  "leave_scope s = s\<lparr>scopes := tl (scopes s)\<rparr>"

definition create_variable ::
  "symbol_table \<Rightarrow> ast_variable_declaration \<Rightarrow> (variable_declaration \<times> symbol_table) result" where
  "create_variable s decl =
     rbind (analyze_type (decl_datatype decl)) (\<lambda>datatype.
       let var = \<lparr>var_id = next_address s, var_name = decl_name decl, var_type = datatype\<rparr>
       in case scopes s of
            [] \<Rightarrow> Inl Undefined_behaviour
          | scope # outer \<Rightarrow>
              if scope (decl_name decl) \<noteq> None then Inl (Parsing_error ''Duplicate definition.'')
              else Inr (var, \<lparr>scopes = scope(decl_name decl \<mapsto> var) # outer, next_address = Suc (next_address s)\<rparr>))"

fun lookup_scopes :: "symbol_scope list \<Rightarrow> string \<Rightarrow> variable_declaration option" where
  "lookup_scopes [] name = None"
| "lookup_scopes (scope # outer) name =
     (case scope name of Some v \<Rightarrow> Some v | None \<Rightarrow> lookup_scopes outer name)"

definition lookup_symbol :: "symbol_table \<Rightarrow> string \<Rightarrow> variable_declaration result" where
  "lookup_symbol s name =
     (case lookup_scopes (scopes s) name of
        Some v \<Rightarrow> Inr v
      | None \<Rightarrow> Inl (Parsing_error ''Unknown variable.''))"

text \<open>\<open>scope_guard\<close>: what runs inside leaves its scope however it ends; after a failure the table is
  not used any more.\<close>

definition scoped_run ::
  "(symbol_table \<Rightarrow> ('a \<times> symbol_table) result) \<Rightarrow> symbol_table \<Rightarrow> ('a \<times> symbol_table) result" where
  "scoped_run f s = rbind (f (enter_scope s)) (\<lambda>(x, s'). Inr (x, leave_scope s'))"

lemma scoped_run_cong [fundef_cong]:
  "s = s' \<Longrightarrow> f (enter_scope s') = g (enter_scope s') \<Longrightarrow> scoped_run f s = scoped_run g s'"
  by (simp add: scoped_run_def)

section \<open>Expressions\<close>

definition binary_operator_tag :: "string \<Rightarrow> binary_op_tag result" where
  "binary_operator_tag operator_id =
     (if operator_id = ''='' then Inr Assign
      else if operator_id = ''+='' then Inr Plus_assign
      else if operator_id = ''+'' then Inr Plus
      else if operator_id = ''-'' then Inr Minus
      else if operator_id = ''*'' then Inr Multiplies
      else if operator_id = ''/'' then Inr Divides
      else if operator_id = ''%'' then Inr Modulus
      else if operator_id = ''=='' then Inr Equal_to
      else if operator_id = ''!='' then Inr Not_equal_to
      else if operator_id = ''<'' then Inr Less
      else if operator_id = ''<='' then Inr Less_equal
      else if operator_id = ''>'' then Inr Greater
      else if operator_id = ''>='' then Inr Greater_equal
      else if operator_id = ''and'' then Inr Logical_and
      else if operator_id = ''or'' then Inr Logical_or
      else Inl Assertion_failed)"

definition unary_operator_tag :: "string \<Rightarrow> unary_op_tag result" where
  "unary_operator_tag operator_id =
     (if operator_id = ''+'' then Inr Plus_u
      else if operator_id = ''-'' then Inr Negate
      else if operator_id = ''not'' then Inr Logical_not
      else Inl Assertion_failed)"

definition loop_ordering :: "string \<Rightarrow> execution_order result" where
  "loop_ordering order_id =
     (if order_id = ''parallel'' then Inr Parallel
      else if order_id = ''unordered'' then Inr Unordered
      else if order_id = ''sequential'' then Inr Sequential
      else Inl Assertion_failed)"

fun analyze_expr :: "ast_expression \<Rightarrow> symbol_table \<Rightarrow> (expr \<times> symbol_table) result"
  and analyze_exprs :: "ast_expression list \<Rightarrow> symbol_table \<Rightarrow> (expr list \<times> symbol_table) result"
  and analyze_qualifier :: "ast_qualifier \<Rightarrow> expr \<Rightarrow> symbol_table \<Rightarrow> (expr \<times> symbol_table) result"
  and analyze_qualifiers :: "ast_qualifier list \<Rightarrow> expr \<Rightarrow> symbol_table \<Rightarrow> (expr \<times> symbol_table) result"
  and analyze_range :: "ast_integer_range \<Rightarrow> symbol_table \<Rightarrow> ((expr \<times> expr \<times> expr) \<times> symbol_table) result"
  and analyze_block :: "ast_expression_block \<Rightarrow> symbol_table \<Rightarrow> (expr \<times> symbol_table) result"
  and analyze_else :: "ast_expression_block option \<Rightarrow> symbol_table \<Rightarrow> (expr option \<times> symbol_table) result"
where
  "analyze_expr (Ast_variable name) s = rbind (lookup_symbol s name) (\<lambda>v. Inr (Variable_ref_expr v, s))"
| "analyze_expr (Ast_binary_operator l operator_id r) s =
     rbind (analyze_expr l s) (\<lambda>(lhs, s1).
     rbind (analyze_expr r s1) (\<lambda>(rhs, s2).
     rbind (binary_operator_tag operator_id) (\<lambda>tag. Inr (Binary_operator_expr tag lhs rhs, s2))))"
| "analyze_expr (Ast_unary_operator operator_id a) s =
     rbind (analyze_expr a s) (\<lambda>(arg, s1).
     rbind (unary_operator_tag operator_id) (\<lambda>tag. Inr (Unary_operator_expr tag arg, s1)))"
| "analyze_expr (Ast_qualified_expr e qualifiers) s =
     rbind (analyze_expr e s) (\<lambda>(arg, s1).
       if qualifiers = [] then Inr (arg, s1)
       else if is_access arg then analyze_qualifiers qualifiers arg s1
       else Inl (Parsing_error ''Invalid expression.''))"
| "analyze_expr (Ast_if_expr c then_branch else_branch) s =
     scoped_run (\<lambda>s0.
       rbind (analyze_expr c s0) (\<lambda>(cond, s1).
       rbind (analyze_block then_branch s1) (\<lambda>(t, s2).
       rbind (analyze_else else_branch s2) (\<lambda>(e, s3). Inr (If_expr cond t e, s3))))) s"
| "analyze_expr (Ast_for_expr order_id decl r body) s =
     scoped_run (\<lambda>s0.
       rbind (create_variable s0 decl) (\<lambda>(loop_index, s1).
       rbind (analyze_range r s1) (\<lambda>((lower_bound, upper_bound, increment), s2).
       rbind (analyze_block body s2) (\<lambda>(b, s3).
       rbind (loop_ordering order_id) (\<lambda>order.
         Inr (For_expr order loop_index lower_bound upper_bound increment b, s3)))))) s"
| "analyze_expr (Ast_let_expr decl e) s =
     rbind (create_variable s decl) (\<lambda>(var, s1).
     rbind (analyze_expr e s1) (\<lambda>(initializer, s2). Inr (Local_variable_def_expr var initializer, s2)))"
| "analyze_expr (Ast_range r) s =
     rbind (analyze_range r s) (\<lambda>((lower_bound, upper_bound, stride), s1).
       Inr (Integer_range_expr lower_bound upper_bound stride, s1))"
| "analyze_expr (Ast_function_call name args) s =
     rbind (analyze_exprs args s) (\<lambda>(arguments, s1). Inr (Intrinsic_function_expr name arguments, s1))"
| "analyze_expr (Ast_index value) s = Inr (Integer_literal_expr value, s)"
| "analyze_expr (Ast_double value) s = Inr (Double_literal_expr value, s)"
| "analyze_expr (Ast_bool value) s = Inr (Bool_literal_expr value, s)"
| "analyze_exprs [] s = Inr ([], s)"
| "analyze_exprs (e # es) s =
     rbind (analyze_expr e s) (\<lambda>(x, s1). rbind (analyze_exprs es s1) (\<lambda>(xs, s2). Inr (x # xs, s2)))"
| "analyze_qualifier (Ast_subscription indices) arg s =
     rbind (analyze_exprs indices s) (\<lambda>(xs, s1). Inr (Subscription_expr arg xs, s1))"
| "analyze_qualifier (Ast_member_access member_name) arg s = Inr (Member_access_expr arg member_name, s)"
| "analyze_qualifiers [] arg s = Inr (arg, s)"
| "analyze_qualifiers (q # qs) arg s =
     rbind (analyze_qualifier q arg s) (\<lambda>(arg', s1). analyze_qualifiers qs arg' s1)"
| "analyze_range (Ast_integer_range lower_bound stride upper_bound) s =
     rbind (analyze_expr lower_bound s) (\<lambda>(l, s1).
     rbind (analyze_expr upper_bound s1) (\<lambda>(u, s2).
     rbind (analyze_expr stride s2) (\<lambda>(i, s3). Inr ((l, u, i), s3))))"
| "analyze_block (Ast_block expressions is_scoped) s =
     rbind (analyze_exprs expressions s) (\<lambda>(es, s1). Inr (Compound_expr Sequential es, s1))"
| "analyze_else None s = Inr (None, s)"
| "analyze_else (Some b) s = rbind (analyze_block b s) (\<lambda>(e, s1). Inr (Some e, s1))"

section \<open>Definitions and modules\<close>

fun create_variables ::
  "symbol_table \<Rightarrow> ast_variable_declaration list \<Rightarrow> (variable_declaration list \<times> symbol_table) result" where
  "create_variables s [] = Inr ([], s)"
| "create_variables s (d # ds) =
     rbind (create_variable s d) (\<lambda>(v, s1). rbind (create_variables s1 ds) (\<lambda>(vs, s2). Inr (v # vs, s2)))"

definition analyze_signature_and_body ::
  "ast_function \<Rightarrow> symbol_table \<Rightarrow>
     ((variable_declaration list \<times> variable_declaration \<times> expr) \<times> symbol_table) result" where
  "analyze_signature_and_body func s0 =
     rbind (create_variables s0 (ast_fn_parameters func)) (\<lambda>(params, s1).
     rbind (create_variable s1 (ast_fn_result func)) (\<lambda>(res, s2).
     rbind (analyze_block (ast_fn_body func) s2) (\<lambda>(body, s3). Inr ((params, res, body), s3))))"

definition analyze_function :: "ast_function \<Rightarrow> qmodule \<times> symbol_table \<Rightarrow> (qmodule \<times> symbol_table) result" where
  "analyze_function func ms =
     rbind (scoped_run (analyze_signature_and_body func) (snd ms)) (\<lambda>((params, res, body), s).
     rbind (add_function (fst ms) (ast_fn_id func) params res body) (\<lambda>m. Inr (m, s)))"

definition analyze_member :: "ast_variable_declaration \<Rightarrow> member result" where
  "analyze_member d = rbind (analyze_type (decl_datatype d)) (\<lambda>t. Inr (t, decl_name d))"

definition analyze_struct :: "ast_struct \<Rightarrow> qmodule \<times> symbol_table \<Rightarrow> (qmodule \<times> symbol_table) result" where
  "analyze_struct st ms =
     rbind (traverse analyze_member (ast_struct_members st)) (\<lambda>members.
     rbind (add_type (fst ms) (Struct (ast_struct_name st) members)) (\<lambda>m. Inr (m, snd ms)))"

fun analyze_definition :: "ast_definition \<Rightarrow> qmodule \<times> symbol_table \<Rightarrow> (qmodule \<times> symbol_table) result" where
  "analyze_definition (Ast_function_def f) ms = analyze_function f ms"
| "analyze_definition (Ast_struct_def st) ms = analyze_struct st ms"

fun analyze_definitions :: "ast_definition list \<Rightarrow> qmodule \<times> symbol_table \<Rightarrow> (qmodule \<times> symbol_table) result" where
  "analyze_definitions [] ms = Inr ms"
| "analyze_definitions (d # ds) ms = rbind (analyze_definition d ms) (analyze_definitions ds)"

text \<open>\<open>isascii\<close> and \<open>parse_qir\<close>; what \<open>phrase_parse\<close> makes of the text is an argument here: the syntax tree,
  or \<open>None\<close> where the grammar fails, leaves text unread or misses something it expects.\<close>

definition is_ascii :: "char \<Rightarrow> bool" where
  "is_ascii c = (of_char c < (128 :: nat))"

definition parse_qir ::
  "(string \<Rightarrow> ast_module option result) \<Rightarrow> nat \<Rightarrow> nat \<Rightarrow> string \<Rightarrow> qmodule result" where
  "parse_qir phrase_parse module_address address code =
     (if \<exists>c \<in> set code. \<not> is_ascii c then Inl (Parsing_error ''Invalid character.'')
      else rbind (phrase_parse code) (\<lambda>r.
        case r of
          None \<Rightarrow> Inl (Parsing_error ''Syntax error.'')
        | Some ast \<Rightarrow>
            rbind (parse_symbol_id (ast_module_id ast)) (\<lambda>i.
            rbind (analyze_definitions (ast_definitions ast) (new_module module_address i, new_symbol_table address))
              (\<lambda>ms. Inr (fst ms)))))"

end
