(* ===== verification/PrettyPrinter.thy ===== *)
theory PrettyPrinter
  imports QirAst QtlSemantics
begin

text \<open>
  The printer of modules (\<open>qubus/src/IR/pretty_printer.cpp\<close>), which \<open>module::save\<close> and
  \<open>module::dump\<close> use and \<open>parse_qir\<close> is meant to invert.  The blocks of text come from the library
  carrot, which is not part of the repository; its operations are the fields of a record: the block of a text, two blocks
  beside each other (\<open>operator<<\<close>), a line of blocks growing downwards, and an indented block.
\<close>

record 'b carrot =
  block_text :: "string \<Rightarrow> 'b"
  block_beside :: "'b \<Rightarrow> 'b \<Rightarrow> 'b"
  block_line :: "'b list \<Rightarrow> 'b"
  block_indent :: "'b \<Rightarrow> 'b"

section \<open>Operators\<close>

datatype precedence_level =
    Statement | Assignment | Logical | Comparison | Addition | Multiplication | Unary | Qualifier

fun level_number :: "precedence_level \<Rightarrow> nat" where
  "level_number Statement = 0"
| "level_number Assignment = 1"
| "level_number Logical = 2"
| "level_number Comparison = 3"
| "level_number Addition = 4"
| "level_number Multiplication = 5"
| "level_number Unary = 6"
| "level_number Qualifier = 7"

lemma level_number_inj: "level_number a = level_number b \<Longrightarrow> a = b"
  by (cases a; cases b) auto

instantiation precedence_level :: linorder
begin

definition less_eq_precedence_level :: "precedence_level \<Rightarrow> precedence_level \<Rightarrow> bool" where
  "less_eq_precedence_level a b \<longleftrightarrow> level_number a \<le> level_number b"

definition less_precedence_level :: "precedence_level \<Rightarrow> precedence_level \<Rightarrow> bool" where
  "less_precedence_level a b \<longleftrightarrow> level_number a < level_number b"

instance
  by standard (auto simp: less_eq_precedence_level_def less_precedence_level_def intro: level_number_inj)

end

lemmas level_order [simp] = less_eq_precedence_level_def less_precedence_level_def

fun translate_binary_op_tag :: "binary_op_tag \<Rightarrow> string result" where
  "translate_binary_op_tag Plus = Inr ''+''"
| "translate_binary_op_tag Minus = Inr ''-''"
| "translate_binary_op_tag Multiplies = Inr ''*''"
| "translate_binary_op_tag Divides = Inr ''/''"
| "translate_binary_op_tag Modulus = Inr ''%''"
| "translate_binary_op_tag Div_floor = Inr ''//''"
| "translate_binary_op_tag Assign = Inr ''=''"
| "translate_binary_op_tag Plus_assign = Inr ''+=''"
| "translate_binary_op_tag Equal_to = Inr ''==''"
| "translate_binary_op_tag Not_equal_to = Inr ''!=''"
| "translate_binary_op_tag Greater = Inr ''>''"
| "translate_binary_op_tag Less = Inr ''<''"
| "translate_binary_op_tag Greater_equal = Inr ''>=''"
| "translate_binary_op_tag Less_equal = Inr ''<=''"
| "translate_binary_op_tag Logical_and = Inr ''&&''"
| "translate_binary_op_tag Logical_or = Inr ''||''"
| "translate_binary_op_tag Nop_b = Inl Assertion_failed"

fun binary_precedence_level :: "binary_op_tag \<Rightarrow> precedence_level result" where
  "binary_precedence_level Assign = Inr Assignment"
| "binary_precedence_level Plus_assign = Inr Assignment"
| "binary_precedence_level Logical_and = Inr Logical"
| "binary_precedence_level Logical_or = Inr Logical"
| "binary_precedence_level Equal_to = Inr Comparison"
| "binary_precedence_level Not_equal_to = Inr Comparison"
| "binary_precedence_level Greater = Inr Comparison"
| "binary_precedence_level Less = Inr Comparison"
| "binary_precedence_level Greater_equal = Inr Comparison"
| "binary_precedence_level Less_equal = Inr Comparison"
| "binary_precedence_level Plus = Inr Addition"
| "binary_precedence_level Minus = Inr Addition"
| "binary_precedence_level Multiplies = Inr Multiplication"
| "binary_precedence_level Divides = Inr Multiplication"
| "binary_precedence_level Modulus = Inr Multiplication"
| "binary_precedence_level Div_floor = Inr Multiplication"
| "binary_precedence_level Nop_b = Inl Assertion_failed"

fun translate_unary_op_tag :: "unary_op_tag \<Rightarrow> string result" where
  "translate_unary_op_tag Plus_u = Inr ''+''"
| "translate_unary_op_tag Negate = Inr ''-''"
| "translate_unary_op_tag Logical_not = Inr ''!''"
| "translate_unary_op_tag Nop_u = Inl Assertion_failed"

definition unary_precedence_level :: "unary_op_tag \<Rightarrow> precedence_level" where
  "unary_precedence_level tag = Unary"

section \<open>Numbers (\<open>std::to_string\<close>)\<close>

definition int_to_string :: "int \<Rightarrow> string" where
  "int_to_string i = (if i < 0 then ''-'' @ to_string (nat (- i)) else to_string (nat i))"

text \<open>Of a floating point number \<open>std::to_string\<close> gives six decimals, rounded to the nearest, halves to even.\<close>

definition round_half_even :: "rat \<Rightarrow> int" where
  "round_half_even x =
     (let n = \<lfloor>x\<rfloor>; d = x - of_int n
      in if d < 1 / 2 then n else if 1 / 2 < d then n + 1 else if even n then n else n + 1)"

definition pad_zeros :: "nat \<Rightarrow> string \<Rightarrow> string" where
  "pad_zeros n s = replicate (n - length s) (CHR ''0'') @ s"

definition fixed_to_string :: "bool \<Rightarrow> rat \<Rightarrow> string" where
  "fixed_to_string negative x =
     (let n = nat (round_half_even (1000000 * x))
      in (if negative then ''-'' else []) @ to_string (n div 1000000) @ ''.'' @ pad_zeros 6 (to_string (n mod 1000000)))"

definition special_to_string :: "bool \<Rightarrow> bool \<Rightarrow> string" where
  "special_to_string negative nan = (if negative then ''-'' else []) @ (if nan then ''nan'' else ''inf'')"

definition double_to_string :: "64 word \<Rightarrow> string" where
  "double_to_string w =
     (case double_value w of
        Some x \<Rightarrow> fixed_to_string (bit w 63) \<bar>x\<bar>
      | None \<Rightarrow> special_to_string (bit w 63) (take_bit 52 w \<noteq> 0))"

definition float_to_string :: "32 word \<Rightarrow> string" where
  "float_to_string w =
     (case float_value w of
        Some x \<Rightarrow> fixed_to_string (bit w 31) \<bar>x\<bar>
      | None \<Rightarrow> special_to_string (bit w 31) (take_bit 23 w \<noteq> 0))"

section \<open>Types\<close>

definition beside :: "'b carrot \<Rightarrow> 'b list \<Rightarrow> 'b" where
  "beside C bs = foldl (block_beside C) (hd bs) (tl bs)"

definition catch_logic_error :: "string \<Rightarrow> 'a result \<Rightarrow> 'a result" where
  "catch_logic_error message r =
     (case r of
        Inl No_case_applicable \<Rightarrow> Inl (Printing_error message)
      | Inl (Printing_error s) \<Rightarrow> Inl (Printing_error message)
      | _ \<Rightarrow> r)"

lemma catch_logic_error_Inr [simp]: "catch_logic_error s (Inr x) = Inr x"
  by (simp add: catch_logic_error_def)

lemma catch_logic_error_Inr_iff [simp]: "catch_logic_error s r = Inr x \<longleftrightarrow> r = Inr x"
  by (auto simp: catch_logic_error_def split: sum.splits qerror.splits)

fun print_type :: "'b carrot \<Rightarrow> qtype \<Rightarrow> 'b result" where
  "print_type C Double_t = Inr (block_text C ''Double'')"
| "print_type C Float_t = Inr (block_text C ''Float'')"
| "print_type C Integer_t = Inr (block_text C ''Int'')"
| "print_type C Bool_t = Inr (block_text C ''Bool'')"
| "print_type C (Complex_t t) = catch_logic_error ''Encountered an unknown type.''
     (rbind (print_type C t) (\<lambda>b. Inr (beside C [block_text C ''Complex{'', b, block_text C ''}''])))"
| "print_type C (Array_t t r) = catch_logic_error ''Encountered an unknown type.''
     (rbind (print_type C t) (\<lambda>b.
       Inr (beside C [block_text C ''Array{'', b, block_text C '', '', block_text C (int_to_string r), block_text C ''}''])))"
| "print_type C (Array_slice_t t r) = catch_logic_error ''Encountered an unknown type.''
     (rbind (print_type C t) (\<lambda>b.
       Inr (beside C [block_text C ''Slice{'', b, block_text C '', '', block_text C (int_to_string r), block_text C ''}''])))"
| "print_type C (Struct_t i ms) = Inr (block_text C i)"
| "print_type C t = catch_logic_error ''Encountered an unknown type.'' (Inl No_case_applicable)"

section \<open>Expressions\<close>

definition bracket :: "'b carrot \<Rightarrow> 'b \<Rightarrow> bool \<Rightarrow> 'b" where
  "bracket C b enabled = (if enabled then beside C [block_text C ''('', b, block_text C '')''] else b)"

text \<open>The loops that put commas between blocks.\<close>

fun add_list :: "'b carrot \<Rightarrow> 'b \<Rightarrow> 'b list \<Rightarrow> 'b" where
  "add_list C start [] = start"
| "add_list C start [b] = block_beside C start b"
| "add_list C start (b # bs) = add_list C (block_beside C (block_beside C start b) (block_text C '', '')) bs"

definition print_loop_head :: "'b carrot \<Rightarrow> execution_order \<Rightarrow> 'b" where
  "print_loop_head C order = block_text C
     (case order of Sequential \<Rightarrow> ''for '' | Unordered \<Rightarrow> ''unordered for '' | Parallel \<Rightarrow> ''parallel for '')"

abbreviation unknown_expression :: "'a result \<Rightarrow> 'a result" where
  "unknown_expression \<equiv> catch_logic_error ''Encountered an unknown expression.''"

function print :: "'b carrot \<Rightarrow> expr \<Rightarrow> precedence_level \<Rightarrow> 'b result" where
  "print C (Binary_operator_expr tag a b) prec_level = unknown_expression
     (rbind (binary_precedence_level tag) (\<lambda>new_prec_level.
      rbind (print C a new_prec_level) (\<lambda>x.
      rbind (translate_binary_op_tag tag) (\<lambda>t.
      rbind (print C b new_prec_level) (\<lambda>y.
        Inr (bracket C (beside C [x, block_text C '' '', block_text C t, block_text C '' '', y])
               (new_prec_level < prec_level)))))))"
| "print C (Unary_operator_expr tag a) prec_level = unknown_expression
     (rbind (translate_unary_op_tag tag) (\<lambda>t.
      rbind (print C a (unary_precedence_level tag)) (\<lambda>x.
        Inr (bracket C (block_beside C (block_text C t) x) (unary_precedence_level tag < prec_level)))))"
| "print C (Variable_ref_expr v) prec_level = Inr (block_text C (var_name v))"
| "print C (Double_literal_expr d) prec_level = Inr (block_text C (double_to_string d))"
| "print C (Float_literal_expr f) prec_level = Inr (block_text C (float_to_string f))"
| "print C (Integer_literal_expr i) prec_level = Inr (block_text C (int_to_string i))"
| "print C (Bool_literal_expr b) prec_level = Inr (block_text C (if b then ''true'' else ''false''))"
| "print C (Integer_range_expr l u s) prec_level = unknown_expression
     (rbind (print C l Statement) (\<lambda>x.
      rbind (print C s Statement) (\<lambda>y.
      rbind (print C u Statement) (\<lambda>z.
        Inr (beside C [x, block_text C '':'', y, block_text C '':'', z])))))"
| "print C (Compound_expr order es) prec_level = unknown_expression
     (case order of
        Sequential \<Rightarrow> rbind (traverse (\<lambda>e. print C e Statement) es) (\<lambda>bs. Inr (block_line C bs))
      | Unordered \<Rightarrow> rbind (traverse (\<lambda>e. print C e Statement) es) (\<lambda>bs.
          Inr (block_line C [block_text C ''unordered do'', block_indent C (block_line C bs), block_text C ''end'']))
      | Parallel \<Rightarrow> Inl No_case_applicable)"
| "print C (Subscription_expr a indices) prec_level = unknown_expression
     (rbind (print C a Qualifier) (\<lambda>x.
      rbind (traverse (\<lambda>e. print C e Statement) indices) (\<lambda>bs.
        Inr (bracket C (block_beside C (add_list C (block_beside C x (block_text C ''['')) bs) (block_text C '']''))
               (Qualifier < prec_level)))))"
| "print C (Type_conversion_expr t a) prec_level = unknown_expression
     (rbind (print_type C t) (\<lambda>ty.
      rbind (print C a Statement) (\<lambda>x.
        Inr (beside C [block_text C ''convert'', block_text C ''{'', ty, block_text C ''}'', block_text C ''('', x,
          block_text C '')'']))))"
| "print C (Intrinsic_function_expr name args) prec_level = unknown_expression
     (rbind (traverse (\<lambda>e. print C e Statement) args) (\<lambda>bs.
        Inr (block_beside C (add_list C (block_beside C (block_text C name) (block_text C ''('')) bs)
               (block_text C '')''))))"
| "print C (For_expr order v l u i b) prec_level = unknown_expression
     (rbind (print_type C (var_type v)) (\<lambda>t.
      rbind (print C l Statement) (\<lambda>x.
      rbind (print C i Statement) (\<lambda>y.
      rbind (print C u Statement) (\<lambda>z.
      rbind (print C b Statement) (\<lambda>body.
        Inr (block_line C
          [beside C [print_loop_head C order, block_text C (var_name v), block_text C '' :: '', t, block_text C '' in '',
             x, block_text C '':'', y, block_text C '':'', z],
           block_indent C body, block_text C ''end''])))))))"
| "print C (If_expr c t e) prec_level = unknown_expression
     (rbind (print C c Statement) (\<lambda>x.
      rbind (print C t Statement) (\<lambda>y.
      rbind (case e of
               None \<Rightarrow> Inr []
             | Some b \<Rightarrow> rbind (print C b Statement) (\<lambda>z. Inr [block_text C ''else'', block_indent C z])) (\<lambda>zs.
        Inr (block_line C
          ([block_beside C (block_text C ''if '') x, block_indent C y] @ zs @ [block_text C ''end'']))))))"
| "print C (Local_variable_def_expr v a) prec_level = unknown_expression
     (rbind (print_type C (var_type v)) (\<lambda>t.
      rbind (print C a Statement) (\<lambda>x.
        Inr (beside C [block_text C ''let '', block_text C (var_name v), block_text C '' :: '', t, block_text C '' = '', x]))))"
| "print C (Member_access_expr a member_name) prec_level = unknown_expression
     (rbind (print C a Qualifier) (\<lambda>x.
        Inr (bracket C (beside C [x, block_text C ''.'', block_text C member_name]) (Qualifier < prec_level))))"
| "print C (Macro_expr ps b) prec_level = unknown_expression (Inl No_case_applicable)"
| "print C (Construct_expr t ps) prec_level = unknown_expression (Inl No_case_applicable)"
  by pat_completeness auto

termination by (relation "measure (\<lambda>(C, e, p). size e)") (auto simp: size_list_mem less_Suc_eq_le intro: le_SucI dest: size_list_mem)

section \<open>Definitions and modules\<close>

definition pretty_print_user_defined_type :: "'b carrot \<Rightarrow> struct_type \<Rightarrow> 'b result" where
  "pretty_print_user_defined_type C t =
     rbind (traverse (\<lambda>(datatype, i). rbind (print_type C datatype) (\<lambda>b.
              Inr (beside C [block_text C i, block_text C '' :: '', b]))) (struct_members t)) (\<lambda>members.
       Inr (block_line C
         [block_beside C (block_text C ''struct '') (block_text C (struct_id t)), block_indent C (block_line C members),
          block_text C ''end'']))"

definition pretty_print_expr :: "'b carrot \<Rightarrow> expr \<Rightarrow> 'b result" where
  "pretty_print_expr C e = print C e Statement"

definition print_declaration :: "'b carrot \<Rightarrow> variable_declaration \<Rightarrow> 'b list result" where
  "print_declaration C v = rbind (print_type C (var_type v)) (\<lambda>t.
     Inr [block_text C (var_name v), block_text C '' :: '', t])"

fun print_params :: "'b carrot \<Rightarrow> 'b \<Rightarrow> variable_declaration list \<Rightarrow> 'b result" where
  "print_params C start [] = Inr start"
| "print_params C start [v] = rbind (print_declaration C v) (\<lambda>bs. Inr (beside C (start # bs)))"
| "print_params C start (v # vs) =
     rbind (print_declaration C v) (\<lambda>bs. print_params C (beside C (start # bs @ [block_text C '', ''])) vs)"

definition pretty_print_function :: "'b carrot \<Rightarrow> qfunction \<Rightarrow> 'b result" where
  "pretty_print_function C f =
     rbind (print_params C (beside C [block_text C ''function '', block_text C (fn_name f), block_text C ''('']) (fn_params f))
       (\<lambda>params.
     rbind (print_declaration C (fn_result f)) (\<lambda>res.
     rbind (pretty_print_expr C (fn_body f)) (\<lambda>body.
       Inr (block_line C
         [beside C ([params, block_text C '') -> ''] @ res), block_indent C body, block_text C ''end'']))))"

text \<open>The tables of a module are hash tables; the orders of their iteration are arguments.\<close>

definition pretty_print_module :: "'b carrot \<Rightarrow> string list \<Rightarrow> string list \<Rightarrow> qmodule \<Rightarrow> 'b result" where
  "pretty_print_module C ts fs m =
     rbind (traverse (pretty_print_user_defined_type C) (module_types ts m)) (\<lambda>types.
     rbind (traverse (pretty_print_function C) (module_functions fs m)) (\<lambda>functions.
       Inr (block_line C
         ([block_beside C (block_text C ''module '') (block_text C (symbol_string (mod_id m))), block_text C []] @
          types @ functions))))"

end
