(* ===== verification/QirAnalysis.thy ===== *)
theory QirAnalysis
  imports QirAst
begin

text \<open>
  What the analyzers of the parser (theory \<open>QirAst\<close>) guarantee.  \<open>resolved\<close> walks over an expression as a
  reader would: each variable has to be the one that its name denotes at that point, the innermost declaration
  in sight, and no scope declares a name twice.  Every expression that the analyzer returns is resolved, and
  its new variables have addresses that no other variable has.
\<close>

section \<open>Names and scopes\<close>

fun declare_in :: "variable_declaration \<Rightarrow> symbol_scope list \<Rightarrow> symbol_scope list option" where
  "declare_in v [] = None"
| "declare_in v (sc # outer) = (if sc (var_name v) = None then Some (sc(var_name v \<mapsto> v) # outer) else None)"

text \<open>The declaration of a name in sight: the one in the first of the scopes, counted from the innermost, that
  declares the name at all.\<close>

definition innermost :: "symbol_scope list \<Rightarrow> string \<Rightarrow> variable_declaration option" where
  "innermost sc n = Option.bind (find (\<lambda>m. m n \<noteq> None) sc) (\<lambda>m. m n)"

lemma innermost_lookup [simp]: "innermost sc n = lookup_scopes sc n"
  unfolding innermost_def by (induction sc) (auto split: option.splits)

fun resolved :: "expr \<Rightarrow> symbol_scope list \<Rightarrow> symbol_scope list option"
  and resolved_all :: "expr list \<Rightarrow> symbol_scope list \<Rightarrow> symbol_scope list option"
  and resolved_opt :: "expr option \<Rightarrow> symbol_scope list \<Rightarrow> symbol_scope list option"
where
  "resolved (Variable_ref_expr v) sc = (if innermost sc (var_name v) = Some v then Some sc else None)"
| "resolved (Binary_operator_expr t a b) sc = Option.bind (resolved a sc) (resolved b)"
| "resolved (Unary_operator_expr t a) sc = resolved a sc"
| "resolved (Double_literal_expr d) sc = Some sc"
| "resolved (Float_literal_expr f) sc = Some sc"
| "resolved (Integer_literal_expr i) sc = Some sc"
| "resolved (Bool_literal_expr b) sc = Some sc"
| "resolved (Compound_expr order es) sc = resolved_all es sc"
| "resolved (For_expr order v l u i b) sc =
     map_option tl (Option.bind (Option.bind (Option.bind (Option.bind
       (declare_in v ((\<lambda>n. None) # sc)) (resolved l)) (resolved u)) (resolved i)) (resolved b))"
| "resolved (If_expr c t e) sc =
     map_option tl (Option.bind (Option.bind (resolved c ((\<lambda>n. None) # sc)) (resolved t)) (resolved_opt e))"
| "resolved (Integer_range_expr l u i) sc = Option.bind (Option.bind (resolved l sc) (resolved u)) (resolved i)"
| "resolved (Macro_expr ps b) sc = None"
| "resolved (Subscription_expr a es) sc = Option.bind (resolved a sc) (resolved_all es)"
| "resolved (Member_access_expr a n) sc = resolved a sc"
| "resolved (Type_conversion_expr t a) sc = resolved a sc"
| "resolved (Local_variable_def_expr v i) sc = Option.bind (declare_in v sc) (resolved i)"
| "resolved (Construct_expr t es) sc = resolved_all es sc"
| "resolved (Intrinsic_function_expr n es) sc = resolved_all es sc"
| "resolved_all [] sc = Some sc"
| "resolved_all (e # es) sc = Option.bind (resolved e sc) (resolved_all es)"
| "resolved_opt None sc = Some sc"
| "resolved_opt (Some e) sc = resolved e sc"

text \<open>The variables that an expression declares, in the order of their declaration.\<close>

fun declared :: "expr \<Rightarrow> variable_declaration list" where
  "declared (Binary_operator_expr t a b) = declared a @ declared b"
| "declared (Unary_operator_expr t a) = declared a"
| "declared (Compound_expr order es) = concat (map declared es)"
| "declared (For_expr order v l u i b) = v # declared l @ declared u @ declared i @ declared b"
| "declared (If_expr c t e) = declared c @ declared t @ (case e of None \<Rightarrow> [] | Some b \<Rightarrow> declared b)"
| "declared (Integer_range_expr l u i) = declared l @ declared u @ declared i"
| "declared (Subscription_expr a es) = declared a @ concat (map declared es)"
| "declared (Member_access_expr a n) = declared a"
| "declared (Type_conversion_expr t a) = declared a"
| "declared (Local_variable_def_expr v i) = v # declared i"
| "declared (Construct_expr t es) = concat (map declared es)"
| "declared (Intrinsic_function_expr n es) = concat (map declared es)"
| "declared (Macro_expr ps b) = ps @ declared b"
| "declared e = []"

text \<open>A run of the analyzer from one table to another takes the next addresses one after the other.\<close>

definition addresses :: "symbol_table \<Rightarrow> symbol_table \<Rightarrow> variable_declaration list \<Rightarrow> bool" where
  "addresses s s' vs \<longleftrightarrow> next_address s \<le> next_address s' \<and> map var_id vs = [next_address s..<next_address s']"

lemma addresses_same [intro, simp]: "next_address s = next_address s' \<Longrightarrow> addresses s s' []"
  by (simp add: addresses_def)

lemma addresses_trans:
  assumes "addresses s s1 vs" and "addresses s1 s2 ws"
  shows "addresses s s2 (vs @ ws)"
  using assms upt_add_eq_append [of "next_address s" "next_address s1" "next_address s2 - next_address s1"]
  by (simp add: addresses_def)

lemma create_variable_Inr:
  assumes "create_variable s d = Inr (v, s')"
  shows "declare_in v (scopes s) = Some (scopes s')" and "addresses s s' [v]" and "var_name v = decl_name d"
    and "analyze_type (decl_datatype d) = Inr (var_type v)"
  using assms
  by (cases "scopes s"; auto simp: create_variable_def rbind_Inr_iff Let_def addresses_def split: if_splits)+

lemma scoped_run_Inr:
  assumes "scoped_run f s = Inr (x, s')"
  obtains s1 where "f (enter_scope s) = Inr (x, s1)" and "s' = leave_scope s1"
  using assms by (auto simp: scoped_run_def rbind_Inr_iff)

lemma scopes_enter_leave [simp]:
  "scopes (enter_scope s) = (\<lambda>n. None) # scopes s" "scopes (leave_scope s) = tl (scopes s)"
  "next_address (enter_scope s) = next_address s" "next_address (leave_scope s) = next_address s"
  by (simp_all add: enter_scope_def leave_scope_def)

lemma addresses_scope [simp]:
  "addresses (enter_scope s) s' = addresses s s'" "addresses s (leave_scope s') = addresses s s'"
  by (simp_all add: addresses_def fun_eq_iff)

lemma lookup_symbol_Inr: "lookup_symbol s n = Inr v \<longleftrightarrow> lookup_scopes (scopes s) n = Some v"
  by (simp add: lookup_symbol_def split: option.splits)

definition scope_names :: "symbol_scope list \<Rightarrow> bool" where
  "scope_names sc \<longleftrightarrow> (\<forall>m \<in> set sc. \<forall>n v. m n = Some v \<longrightarrow> var_name v = n)"

lemma scope_names_simps [simp]:
  "scope_names []"
  "scope_names (m # sc) \<longleftrightarrow> (\<forall>n v. m n = Some v \<longrightarrow> var_name v = n) \<and> scope_names sc"
  by (auto simp: scope_names_def)

lemma scope_names_tl: "scope_names sc \<Longrightarrow> scope_names (tl sc)"
  by (cases sc) auto

lemma scope_names_declare: "scope_names sc \<Longrightarrow> declare_in v sc = Some sc' \<Longrightarrow> scope_names sc'"
  by (cases sc) (auto split: if_splits)

lemma lookup_scopes_name: "scope_names sc \<Longrightarrow> lookup_scopes sc n = Some v \<Longrightarrow> var_name v = n"
  by (induction sc) (auto split: option.splits)

text \<open>\<open>ran s r s' vs\<close>: the analyzer went from \<open>s\<close> to \<open>s'\<close> as the walk \<open>r\<close> does and declared \<open>vs\<close>.\<close>

definition ran ::
  "symbol_table \<Rightarrow> (symbol_scope list \<Rightarrow> symbol_scope list option) \<Rightarrow> symbol_table \<Rightarrow> variable_declaration list \<Rightarrow> bool" where
  "ran s r s' vs \<longleftrightarrow> r (scopes s) = Some (scopes s') \<and> addresses s s' vs \<and> scope_names (scopes s')"

lemma ran_trans: "ran s r s1 vs \<Longrightarrow> ran s1 q s2 ws \<Longrightarrow> ran s (\<lambda>sc. Option.bind (r sc) q) s2 (vs @ ws)"
  by (auto simp: ran_def intro: addresses_trans)

lemma ran_names: "ran s r s' vs \<Longrightarrow> scope_names (scopes s')"
  by (simp add: ran_def)

lemma ran_create:
  "create_variable s d = Inr (v, s') \<Longrightarrow> scope_names (scopes s) \<Longrightarrow> ran s (declare_in v) s' [v]"
  using create_variable_Inr [of s d v s'] by (auto simp: ran_def intro: scope_names_declare)

lemma ran_scoped:
  "ran (enter_scope s) r s' vs \<Longrightarrow> ran s (\<lambda>sc. map_option tl (r ((\<lambda>n. None) # sc))) (leave_scope s') vs"
  by (auto simp: ran_def intro: scope_names_tl)

lemma ran_refl [simp]: "ran s Some s vs \<longleftrightarrow> vs = [] \<and> scope_names (scopes s)"
  by (auto simp: ran_def addresses_def)

lemma ran_cong: "ran s r s' vs \<Longrightarrow> r (scopes s) = q (scopes s) \<Longrightarrow> vs = ws \<Longrightarrow> ran s q s' ws"
  by (simp add: ran_def)

lemma analyze_ran:
  shows "analyze_expr a s = Inr (e, s') \<Longrightarrow> scope_names (scopes s) \<Longrightarrow> ran s (resolved e) s' (declared e)"
    and "analyze_exprs as s = Inr (es, s') \<Longrightarrow> scope_names (scopes s) \<Longrightarrow>
      ran s (resolved_all es) s' (concat (map declared es))"
    and "analyze_qualifier q arg s = Inr (e, s') \<Longrightarrow> ran s0 (resolved arg) s (declared arg) \<Longrightarrow>
      ran s0 (resolved e) s' (declared e)"
    and "analyze_qualifiers qs arg s = Inr (e, s') \<Longrightarrow> ran s0 (resolved arg) s (declared arg) \<Longrightarrow>
      ran s0 (resolved e) s' (declared e)"
    and "analyze_range r s = Inr ((l, u, i), s') \<Longrightarrow> scope_names (scopes s) \<Longrightarrow>
      ran s (resolved (Integer_range_expr l u i)) s' (declared (Integer_range_expr l u i))"
    and "analyze_block b s = Inr (e, s') \<Longrightarrow> scope_names (scopes s) \<Longrightarrow> ran s (resolved e) s' (declared e)"
    and "analyze_else eb s = Inr (eo, s') \<Longrightarrow> scope_names (scopes s) \<Longrightarrow>
      ran s (resolved_opt eo) s' (case eo of None \<Rightarrow> [] | Some b \<Rightarrow> declared b)"
proof (induction a s and as s and q arg s and qs arg s and r s and b s and eb s
    arbitrary: e s' and es s' and e s' s0 and e s' s0 and l u i s' and e s' and eo s'
    rule: analyze_expr_analyze_exprs_analyze_qualifier_analyze_qualifiers_analyze_range_analyze_block_analyze_else.induct)
  case (1 name s)
  then show ?case
    by (auto simp: rbind_Inr_iff lookup_symbol_Inr ran_def dest: lookup_scopes_name)
next
  case (2 l operator_id r s)
  from "2.prems"(1) obtain lhs s1 rhs tag where a: "analyze_expr l s = Inr (lhs, s1)" "analyze_expr r s1 = Inr (rhs, s')"
    "e = Binary_operator_expr tag lhs rhs" by (auto simp: rbind_Inr_iff)
  note r1 = "2.IH"(1) [OF a(1) "2.prems"(2)]
  note r2 = "2.IH"(2) [OF a(1) refl a(2) ran_names [OF r1]]
  from ran_trans [OF r1 r2] show ?case by (rule ran_cong) (simp_all add: a)
next
  case (3 operator_id a s)
  from "3.prems"(1) obtain arg tag where a: "analyze_expr a s = Inr (arg, s')" "e = Unary_operator_expr tag arg"
    by (auto simp: rbind_Inr_iff)
  from "3.IH" [OF a(1) "3.prems"(2)] show ?case by (rule ran_cong) (simp_all add: a)
next
  case (4 x qs s)
  from "4.prems"(1) obtain arg s1 where a: "analyze_expr x s = Inr (arg, s1)"
    "if qs = [] then e = arg \<and> s' = s1 else is_access arg \<and> analyze_qualifiers qs arg s1 = Inr (e, s')"
    by (auto simp: rbind_Inr_iff split: if_splits)
  note r = "4.IH"(1) [OF a(1) "4.prems"(2)]
  show ?case
  proof (cases "qs = []")
    case True
    with a r show ?thesis by simp
  next
    case False
    with a(2) have "is_access arg" "analyze_qualifiers qs arg s1 = Inr (e, s')" by auto
    from "4.IH"(2) [OF a(1) refl False this r] show ?thesis .
  qed
next
  case (5 c then_branch else_branch s)
  from "5.prems"(1) obtain cond s1 t s2 eo s3 where a: "analyze_expr c (enter_scope s) = Inr (cond, s1)"
    "analyze_block then_branch s1 = Inr (t, s2)" "analyze_else else_branch s2 = Inr (eo, s3)"
    "e = If_expr cond t eo" "s' = leave_scope s3" by (auto simp: rbind_Inr_iff elim!: scoped_run_Inr)
  have n: "scope_names (scopes (enter_scope s))" using "5.prems"(2) by simp
  note r1 = "5.IH"(1) [OF a(1) n]
  note r2 = "5.IH"(2) [OF a(1) refl a(2) ran_names [OF r1]]
  note r3 = "5.IH"(3) [OF a(1) refl a(2) refl a(3) ran_names [OF r2]]
  from ran_scoped [OF ran_trans [OF ran_trans [OF r1 r2] r3]] show ?case
    unfolding a(5) by (rule ran_cong) (simp_all add: a(4))
next
  case (6 order_id decl r body s)
  from "6.prems"(1) obtain v s1 l u i s2 b s3 order where a: "create_variable (enter_scope s) decl = Inr (v, s1)"
    "analyze_range r s1 = Inr ((l, u, i), s2)" "analyze_block body s2 = Inr (b, s3)"
    "e = For_expr order v l u i b" "s' = leave_scope s3" by (auto simp: rbind_Inr_iff elim!: scoped_run_Inr)
  have n: "scope_names (scopes (enter_scope s))" using "6.prems"(2) by simp
  note r1 = ran_create [OF a(1) n]
  note r2 = "6.IH"(1) [OF a(1) refl a(2) ran_names [OF r1]]
  note r3 = "6.IH"(2) [OF a(1) refl a(2) refl refl refl a(3) ran_names [OF r2]]
  from ran_scoped [OF ran_trans [OF ran_trans [OF r1 r2] r3]] show ?case
    unfolding a(5) by (rule ran_cong) (simp_all add: a(4) bind_assoc)
next
  case (7 decl x s)
  from "7.prems"(1) obtain v s1 i where a: "create_variable s decl = Inr (v, s1)" "analyze_expr x s1 = Inr (i, s')"
    "e = Local_variable_def_expr v i" by (auto simp: rbind_Inr_iff)
  note r1 = ran_create [OF a(1) "7.prems"(2)]
  note r2 = "7.IH" [OF a(1) refl a(2) ran_names [OF r1]]
  from ran_trans [OF r1 r2] show ?case by (rule ran_cong) (simp_all add: a)
next
  case (8 r s)
  from "8.prems"(1) obtain l u i where a: "analyze_range r s = Inr ((l, u, i), s')" "e = Integer_range_expr l u i"
    by (auto simp: rbind_Inr_iff)
  from "8.IH" [OF a(1) "8.prems"(2)] show ?case by (simp add: a)
next
  case (9 n args s)
  from "9.prems"(1) obtain es where a: "analyze_exprs args s = Inr (es, s')" "e = Intrinsic_function_expr n es"
    by (auto simp: rbind_Inr_iff)
  from "9.IH" [OF a(1) "9.prems"(2)] show ?case by (rule ran_cong) (simp_all add: a)
next
  case (14 x xs s)
  from "14.prems"(1) obtain y s1 ys where a: "analyze_expr x s = Inr (y, s1)" "analyze_exprs xs s1 = Inr (ys, s')"
    "es = y # ys" by (auto simp: rbind_Inr_iff)
  note r1 = "14.IH"(1) [OF a(1) "14.prems"(2)]
  note r2 = "14.IH"(2) [OF a(1) refl a(2) ran_names [OF r1]]
  from ran_trans [OF r1 r2] show ?case by (rule ran_cong) (simp_all add: a)
next
  case (15 indices arg s)
  from "15.prems"(1) obtain es where a: "analyze_exprs indices s = Inr (es, s')" "e = Subscription_expr arg es"
    by (auto simp: rbind_Inr_iff)
  from ran_trans [OF "15.prems"(2) "15.IH" [OF a(1) ran_names [OF "15.prems"(2)]]] show ?case
    by (rule ran_cong) (simp_all add: a)
next
  case (18 q qs arg s)
  from "18.prems"(1) obtain arg' s1 where a: "analyze_qualifier q arg s = Inr (arg', s1)"
    "analyze_qualifiers qs arg' s1 = Inr (e, s')" by (auto simp: rbind_Inr_iff)
  from "18.IH"(2) [OF a(1) refl a(2) "18.IH"(1) [OF a(1) "18.prems"(2)]] show ?case .
next
  case (19 lower stride upper s)
  from "19.prems"(1) obtain s1 s2 where a: "analyze_expr lower s = Inr (l, s1)" "analyze_expr upper s1 = Inr (u, s2)"
    "analyze_expr stride s2 = Inr (i, s')" by (auto simp: rbind_Inr_iff)
  note r1 = "19.IH"(1) [OF a(1) "19.prems"(2)]
  note r2 = "19.IH"(2) [OF a(1) refl a(2) ran_names [OF r1]]
  note r3 = "19.IH"(3) [OF a(1) refl a(2) refl a(3) ran_names [OF r2]]
  from ran_trans [OF ran_trans [OF r1 r2] r3] show ?case by (rule ran_cong) simp_all
next
  case (20 es b s)
  from "20.prems"(1) obtain xs where a: "analyze_exprs es s = Inr (xs, s')" "e = Compound_expr Sequential xs"
    by (auto simp: rbind_Inr_iff)
  from "20.IH" [OF a(1) "20.prems"(2)] show ?case by (rule ran_cong) (simp_all add: a)
next
  case (22 b s)
  from "22.prems"(1) obtain x where a: "analyze_block b s = Inr (x, s')" "eo = Some x"
    by (auto simp: rbind_Inr_iff)
  from "22.IH" [OF a(1) "22.prems"(2)] show ?case by (rule ran_cong) (simp_all add: a)
qed (auto simp: ran_def)

text \<open>Only the innermost scope changes, and loops and conditionals leave nothing behind.\<close>

lemma declare_in_frame: "declare_in v sc = Some sc' \<Longrightarrow> length sc' = length sc \<and> tl sc' = tl sc"
  by (cases sc) (auto split: if_splits)

lemma frame_pop: "length sc' = Suc (length sc) \<Longrightarrow> tl sc' = sc \<Longrightarrow> length (tl sc') = length sc \<and> tl (tl sc') = tl sc"
  by simp

lemma resolved_frame:
  shows "resolved e sc = Some sc' \<Longrightarrow> length sc' = length sc \<and> tl sc' = tl sc"
    and "resolved_all es sc = Some sc' \<Longrightarrow> length sc' = length sc \<and> tl sc' = tl sc"
    and "resolved_opt eo sc = Some sc' \<Longrightarrow> length sc' = length sc \<and> tl sc' = tl sc"
proof (induction e sc and es sc and eo sc arbitrary: sc' and sc' and sc' rule: resolved_resolved_all_resolved_opt.induct)
  case (9 order v l u i b sc)
  then show ?case by (fastforce simp: bind_eq_Some_conv dest: declare_in_frame)
next
  case (16 v i sc)
  then show ?case by (fastforce simp: bind_eq_Some_conv dest: declare_in_frame)
qed (auto simp: bind_eq_Some_conv split: if_splits dest!: declare_in_frame)

section \<open>Modules\<close>

fun declare_all :: "variable_declaration list \<Rightarrow> symbol_scope list \<Rightarrow> symbol_scope list option" where
  "declare_all [] sc = Some sc"
| "declare_all (v # vs) sc = Option.bind (declare_in v sc) (declare_all vs)"

text \<open>The names of a function: its parameters and its result share one scope inside the scope of the module,
  in which nothing is declared; the body is walked in this scope.\<close>

definition function_variables :: "qfunction \<Rightarrow> variable_declaration list" where
  "function_variables f = fn_params f @ fn_result f # declared (fn_body f)"

definition function_resolved :: "qfunction \<Rightarrow> bool" where
  "function_resolved f \<longleftrightarrow>
     Option.bind (declare_all (fn_params f @ [fn_result f]) [\<lambda>n. None, \<lambda>n. None]) (resolved (fn_body f)) \<noteq> None"

lemma declare_all_append: "declare_all (vs @ ws) sc = Option.bind (declare_all vs sc) (declare_all ws)"
proof (induction vs arbitrary: sc)
  case (Cons v vs)
  have "declare_all (vs @ ws) = (\<lambda>sc. Option.bind (declare_all vs sc) (declare_all ws))"
    using Cons by blast
  then show ?case by (simp add: bind_assoc)
qed simp

lemma declare_all_frame: "declare_all vs sc = Some sc' \<Longrightarrow> length sc' = length sc \<and> tl sc' = tl sc"
  by (induction vs arbitrary: sc) (auto simp: bind_eq_Some_conv dest!: declare_in_frame)

lemma create_variables_ran:
  "create_variables s ds = Inr (vs, s') \<Longrightarrow> scope_names (scopes s) \<Longrightarrow> ran s (declare_all vs) s' vs"
proof (induction s ds arbitrary: vs s' rule: create_variables.induct)
  case (2 s d ds)
  from "2.prems"(1) obtain w s1 ws where a: "create_variable s d = Inr (w, s1)" "create_variables s1 ds = Inr (ws, s')"
    "vs = w # ws" by (auto simp: rbind_Inr_iff)
  note r1 = ran_create [OF a(1) "2.prems"(2)]
  from ran_trans [OF r1 "2.IH" [OF a(1) refl a(2) ran_names [OF r1]]] show ?case
    by (rule ran_cong) (simp_all add: a)
qed (simp add: ran_def)

definition table_between :: "nat \<Rightarrow> qmodule \<times> symbol_table \<Rightarrow> bool" where
  "table_between a ms \<longleftrightarrow> a \<le> next_address (snd ms) \<and> scopes (snd ms) = [\<lambda>n. None] \<and> module_inv (fst ms)"

text \<open>What holds of the functions of a module while its definitions are analyzed: their variables have
  addresses between the first one and the next unused one, no two variables have the same.\<close>

definition functions_resolved :: "nat \<Rightarrow> qmodule \<Rightarrow> nat \<Rightarrow> bool" where
  "functions_resolved a m b \<longleftrightarrow>
     (\<forall>n f. function_index m n = Some f \<longrightarrow> function_resolved f \<and> distinct (map var_id (function_variables f)) \<and>
        var_id ` set (function_variables f) \<subseteq> {a..<b}) \<and>
     (\<forall>n f k g. function_index m n = Some f \<longrightarrow> function_index m k = Some g \<longrightarrow> n \<noteq> k \<longrightarrow>
        var_id ` set (function_variables f) \<inter> var_id ` set (function_variables g) = {})"

definition analysis_inv :: "nat \<Rightarrow> qmodule \<times> symbol_table \<Rightarrow> bool" where
  "analysis_inv a ms \<longleftrightarrow> table_between a ms \<and> functions_resolved a (fst ms) (next_address (snd ms))"

lemma analyze_function_inv:
  assumes "analyze_function func ms = Inr ms'" and inv: "analysis_inv a ms"
  shows "analysis_inv a ms'"
proof -
  obtain m s where ms: "ms = (m, s)" by (cases ms)
  from assms(1) obtain params res body s' m' where a: "scoped_run (analyze_signature_and_body func) s = Inr ((params, res, body), s')"
    "add_function m (ast_fn_id func) params res body = Inr m'" "ms' = (m', s')"
    by (auto simp: analyze_function_def ms rbind_Inr_iff)
  from a(1) obtain s1 s2 s3 where b: "create_variables (enter_scope s) (ast_fn_parameters func) = Inr (params, s1)"
    "create_variable s1 (ast_fn_result func) = Inr (res, s2)" "analyze_block (ast_fn_body func) s2 = Inr (body, s3)"
    "s' = leave_scope s3"
    by (auto elim!: scoped_run_Inr simp: analyze_signature_and_body_def rbind_Inr_iff)
  from inv have sc: "scopes s = [\<lambda>n. None]" and low: "a \<le> next_address s" and mi: "module_inv m"
    and fr: "functions_resolved a m (next_address s)"
    by (auto simp: analysis_inv_def table_between_def ms)
  note r1 = create_variables_ran [OF b(1)]
  have r1: "ran (enter_scope s) (declare_all params) s1 params"
    using create_variables_ran [OF b(1)] sc by simp
  note r2 = ran_create [OF b(2) ran_names [OF r1]]
  note r3 = analyze_ran(6) [OF b(3) ran_names [OF r2]]
  have r: "ran (enter_scope s) (\<lambda>sc. Option.bind (declare_all (params @ [res]) sc) (resolved body)) s3
      (params @ res # declared body)"
    using ran_trans [OF ran_trans [OF r1 r2] r3] by (rule ran_cong) (simp_all add: declare_all_append)
  define f where "f = make_function (mod_address m) (ast_fn_id func) params res body"
  have fv: "function_variables f = params @ res # declared body" by (simp add: f_def make_function_def function_variables_def)
  have ids: "map var_id (function_variables f) = [next_address s..<next_address s']" and mono: "next_address s \<le> next_address s'"
    using r unfolding fv by (simp_all add: ran_def addresses_def b(4))
  have fr': "function_resolved f"
    using r by (simp add: ran_def function_resolved_def sc f_def make_function_def)
  have ids': "var_id ` set (function_variables f) = {next_address s..<next_address s'}"
    using ids by (metis list.set_map set_upt)
  have m': "function_index m' = (function_index m)(ast_fn_id func \<mapsto> f)" "module_inv m'"
    using a(2) add_function_inv [OF mi a(2)] by (auto simp: add_function_def f_def split: if_splits)
  have "scopes s' = [\<lambda>n. None]"
  proof -
    have "tl (scopes s3) = [\<lambda>n. None]"
      using r sc resolved_frame(1) [of body _ "scopes s3"] declare_all_frame [of "params @ [res]"]
      by (auto simp: ran_def bind_eq_Some_conv)
    then show ?thesis by (simp add: b(4))
  qed
  moreover have "functions_resolved a m' (next_address s')"
    unfolding functions_resolved_def
  proof (intro conjI allI impI)
    fix n g assume "function_index m' n = Some g"
    then have "g = f \<or> function_index m n = Some g" by (auto simp: m' split: if_splits)
    then have "function_resolved g \<and> distinct (map var_id (function_variables g)) \<and>
      (var_id ` set (function_variables g) \<subseteq> {a..<next_address s} \<or>
       var_id ` set (function_variables g) = {next_address s..<next_address s'})"
    proof
      assume "g = f"
      then show ?thesis using fr' ids ids' by simp
    next
      assume "function_index m n = Some g"
      then show ?thesis using fr unfolding functions_resolved_def by blast
    qed
    moreover have "{a..<next_address s} \<subseteq> {a..<next_address s'}" "{next_address s..<next_address s'} \<subseteq> {a..<next_address s'}"
      using mono low by auto
    ultimately show "function_resolved g" "distinct (map var_id (function_variables g))"
      "var_id ` set (function_variables g) \<subseteq> {a..<next_address s'}" by blast+
  next
    fix n g k h assume g: "function_index m' n = Some g" "function_index m' k = Some h" "n \<noteq> k"
    have old: "function_index m k = Some h \<Longrightarrow> var_id ` set (function_variables h) \<subseteq> {a..<next_address s}" for k h
      using fr unfolding functions_resolved_def by blast
    show "var_id ` set (function_variables g) \<inter> var_id ` set (function_variables h) = {}"
    proof (cases "n = ast_fn_id func \<or> k = ast_fn_id func")
      case True
      then consider "g = f" "function_index m k = Some h" | "h = f" "function_index m n = Some g"
        using g by (auto simp: m')
      moreover have "{a..<next_address s} \<inter> {next_address s..<next_address s'} = {}" by auto
      ultimately show ?thesis by cases (use old [of k h] old [of n g] ids' in blast)+
    next
      case False
      then have "function_index m n = Some g" "function_index m k = Some h" using g by (simp_all add: m')
      with g(3) fr show ?thesis unfolding functions_resolved_def by blast
    qed
  qed
  ultimately show ?thesis using m' mono low by (simp add: analysis_inv_def table_between_def a(3))
qed

lemma analyze_definition_inv:
  assumes a: "analyze_definition d ms = Inr ms'" "analysis_inv a ms"
  shows "analysis_inv a ms'"
proof (cases d)
  case (Ast_function_def f)
  with a show ?thesis by (simp add: analyze_function_inv)
next
  case (Ast_struct_def st)
  from a obtain t m' where t: "add_type (fst ms) t = Inr m'" "ms' = (m', snd ms)"
    by (auto simp: Ast_struct_def analyze_struct_def rbind_Inr_iff)
  then have "function_index m' = function_index (fst ms)" "module_inv m'"
    using a(2) add_type_inv [of "fst ms" t m']
    by (auto simp: add_type_def analysis_inv_def table_between_def split: if_splits)
  with a(2) t(2) show ?thesis
    by (simp add: analysis_inv_def table_between_def functions_resolved_def)
qed

lemma analyze_definitions_inv: "analyze_definitions ds ms = Inr ms' \<Longrightarrow> analysis_inv a ms \<Longrightarrow> analysis_inv a ms'"
  by (induction ds ms rule: analyze_definitions.induct) (auto simp: rbind_Inr_iff dest: analyze_definition_inv)

text \<open>C11. The modules that the parser returns are closed and unambiguous: whatever the grammar makes of the text,
  each variable that a function uses is the innermost declaration of its name in sight, a parameter, the result, the
  index of an enclosing loop or an earlier local variable, no scope declares a name twice, and all variables of the
  module have addresses of their own.\<close>
theorem parsed_module_resolved:
  assumes "parse_qir phrase_parse module_address address code = Inr m"
  shows "module_inv m \<and> (\<forall>n f. lookup_function m n = Inr f \<longrightarrow> function_resolved f \<and>
    distinct (map var_id (function_variables f)) \<and> (\<forall>v \<in> set (function_variables f). address \<le> var_id v) \<and>
    (\<forall>k g. lookup_function m k = Inr g \<longrightarrow> n \<noteq> k \<longrightarrow>
       var_id ` set (function_variables f) \<inter> var_id ` set (function_variables g) = {}))"
proof -
  obtain ast :: ast_module and i s where a: "analyze_definitions (ast_definitions ast) (new_module module_address i, new_symbol_table address) = Inr (m, s)"
    using assms by (clarsimp simp: parse_qir_def rbind_Inr_iff split: if_splits option.splits)
  have "analysis_inv address (new_module module_address i, new_symbol_table address)"
    by (simp add: analysis_inv_def table_between_def functions_resolved_def new_module_def new_symbol_table_def module_inv_def)
  from analyze_definitions_inv [OF a this] have inv: "analysis_inv address (m, s)" .
  have look: "lookup_function m n = Inr f \<longleftrightarrow> function_index m n = Some f" for n f
    by (simp add: lookup_function_def split: option.splits)
  from inv show ?thesis
    unfolding analysis_inv_def table_between_def functions_resolved_def look
    by (auto simp: subset_iff)
qed

definition loop_example :: ast_module where
  "loop_example = \<lparr>ast_module_id = ''test'', ast_definitions = [Ast_function_def
     \<lparr>ast_fn_id = ''fill'', ast_fn_parameters = [\<lparr>decl_name = ''n'', decl_datatype = Basic_type ''Int''\<rparr>],
      ast_fn_result = \<lparr>decl_name = ''x'', decl_datatype =
        Parameterized_type ''Array'' [Type_parameter (Basic_type ''Int''), Int_parameter 1]\<rparr>,
      ast_fn_body = Ast_block [Ast_for_expr ''sequential'' \<lparr>decl_name = ''i'', decl_datatype = Basic_type ''Int''\<rparr>
        (Ast_integer_range (Ast_index 0) (Ast_index 1) (Ast_variable ''n''))
        (Ast_block [Ast_binary_operator (Ast_qualified_expr (Ast_variable ''x'') [Ast_subscription [Ast_variable ''i'']])
           ''='' (Ast_variable ''i'')] False)] False\<rparr>]\<rparr>"

theorem parsed_module_resolved_witness:
  "\<exists>m f. parse_qir (\<lambda>code. Inr (Some loop_example)) 1 10 ''module test'' = Inr m \<and> lookup_function m ''fill'' = Inr f \<and>
     function_resolved f \<and> map var_id (function_variables f) = [10, 11, 12]"
proof -
  obtain m f where m: "parse_qir (\<lambda>code. Inr (Some loop_example)) 1 10 ''module test'' = Inr m"
    "lookup_function m ''fill'' = Inr f" "map var_id (function_variables f) = [10, 11, 12]"
    by (simp add: loop_example_def parse_qir_def is_ascii_def parse_symbol_id_def id_list.simps ascii_alpha_def
        ascii_alnum_def id_char_def analyze_function_def analyze_signature_and_body_def scoped_run_def
        create_variable_def new_symbol_table_def enter_scope_def lookup_symbol_def leave_scope_def
        binary_operator_tag_def loop_ordering_def add_function_def new_module_def lookup_function_def
        make_function_def function_variables_def Let_def)
  from parsed_module_resolved [OF m(1)] m(2) have "function_resolved f" by blast
  with m show ?thesis by (intro exI [of _ m] exI [of _ f]) simp
qed

end
