(* ===== verification/ParserCombinators.thy ===== *)
theory ParserCombinators
  imports ModuleSystem
begin

text \<open>
  The interface of the parser library Boost.Spirit X3, which is not part of the repository, as far as
  \<open>qubus/src/IR/parsing.cpp\<close> uses it.  A grammar is data: parsers are built by the combinators of the
  library, and a rule names a parser.  The locale \<open>x3\<close> states what the library's documentation
  promises of each combinator; \<open>run\<close> is an interpreter of grammars that keeps all the promises, so that they can hold.
  A parser that does not return has the result \<open>None\<close>.
\<close>

section \<open>Parsers, attributes and outcomes\<close>

text \<open>\<open>Seq\<close> is \<open>>>\<close>, \<open>Expect\<close> is \<open>>\<close>, \<open>Alt\<close> is \<open>|\<close>, \<open>Kleene\<close> is \<open>*\<close>, \<open>Opt\<close> is the unary and \<open>Diff\<close> the binary minus,
  \<open>Sep_by\<close> is \<open>%\<close>.\<close>

datatype 'v attribute =
    A_none
  | A_string string
  | A_int int
  | A_double "64 word"
  | A_bool bool
  | A_pair "'v attribute" "'v attribute"
  | A_list "'v attribute list"
  | A_opt "'v attribute option"
  | A_value 'v

datatype ('r, 'v) parser =
    Lit string
  | Str string
  | Attr "'v attribute"
  | Ascii_alpha
  | Ascii_alnum
  | Long
  | Strict_double
  | Seq "('r, 'v) parser" "('r, 'v) parser"
  | Expect "('r, 'v) parser" "('r, 'v) parser"
  | Alt "('r, 'v) parser" "('r, 'v) parser"
  | Kleene "('r, 'v) parser"
  | Opt "('r, 'v) parser"
  | Sep_by "('r, 'v) parser" "('r, 'v) parser"
  | Diff "('r, 'v) parser" "('r, 'v) parser"
  | Raw "('r, 'v) parser"
  | Lexeme "('r, 'v) parser"
  | Rule 'r

datatype 'v outcome = Match "'v attribute" string | Fail | Expectation_failure

text \<open>Unused attributes do not show in the attribute of a sequence.\<close>

fun pair_attribute :: "'v attribute \<Rightarrow> 'v attribute \<Rightarrow> 'v attribute" where
  "pair_attribute A_none b = b"
| "pair_attribute a A_none = a"
| "pair_attribute a b = A_pair a b"

fun cons_attribute :: "'v attribute \<Rightarrow> 'v attribute \<Rightarrow> 'v attribute" where
  "cons_attribute a (A_list bs) = A_list (a # bs)"
| "cons_attribute a b = A_none"

section \<open>Characters and numbers\<close>

definition is_space :: "char \<Rightarrow> bool" where
  "is_space c \<longleftrightarrow> c \<in> {CHR '' '', CHR 0x09, CHR 0x0A, CHR 0x0B, CHR 0x0C, CHR 0x0D}"

definition is_digit :: "char \<Rightarrow> bool" where
  "is_digit c = (let n = of_char c :: nat in 48 \<le> n \<and> n \<le> 57)"

definition digit_value :: "char \<Rightarrow> nat" where
  "digit_value c = of_char c - 48"

definition digits_value :: "string \<Rightarrow> nat" where
  "digits_value ds = foldl (\<lambda>n c. 10 * n + digit_value c) 0 ds"

fun skip_sign :: "string \<Rightarrow> bool \<times> string" where
  "skip_sign (c # cs) = (if c = CHR ''-'' then (True, cs) else if c = CHR ''+'' then (False, cs) else (False, c # cs))"
| "skip_sign [] = (False, [])"

text \<open>\<open>long_\<close>: an optional sign and all digits that follow, if there is one and the number fits.\<close>

definition parse_long :: "string \<Rightarrow> (int \<times> string) option" where
  "parse_long s =
     (let (negative, u) = skip_sign s; ds = takeWhile is_digit u;
          n = (if negative then - int (digits_value ds) else int (digits_value ds))
      in if ds = [] \<or> \<not> in_i64 n then None else Some (n, dropWhile is_digit u))"

text \<open>\<open>real_parser\<close> with \<open>strict_real_policies\<close>: a number needs a decimal point or an exponent, or is one of
  the words \<open>inf\<close> and \<open>nan\<close>.  The predicate tells where such a number may begin.\<close>

definition lower :: "char \<Rightarrow> char" where
  "lower c = (let n = of_char c :: nat in if 65 \<le> n \<and> n \<le> 90 then char_of (n + 32) else c)"

definition strict_real_prefix :: "string \<Rightarrow> bool" where
  "strict_real_prefix s =
     (let u = snd (skip_sign s); ds = takeWhile is_digit u; r = dropWhile is_digit u
      in take 3 (map lower u) \<in> {''inf'', ''nan''} \<or>
         (case r of
            [] \<Rightarrow> False
          | c # cs \<Rightarrow>
              if c = CHR ''.'' then ds \<noteq> [] \<or> (cs \<noteq> [] \<and> is_digit (hd cs))
              else ds \<noteq> [] \<and> lower c = CHR ''e''))"

section \<open>What the library promises\<close>

definition skip_spaces :: "bool \<Rightarrow> string \<Rightarrow> string" where
  "skip_spaces skipping s = (if skipping then dropWhile is_space s else s)"

definition literal_outcome :: "string \<Rightarrow> 'v attribute \<Rightarrow> string \<Rightarrow> 'v outcome" where
  "literal_outcome l a s = (if take (length l) s = l then Match a (drop (length l) s) else Fail)"

definition char_outcome :: "(char \<Rightarrow> bool) \<Rightarrow> string \<Rightarrow> 'v outcome" where
  "char_outcome p s = (case s of [] \<Rightarrow> Fail | c # cs \<Rightarrow> if p c then Match (A_string [c]) cs else Fail)"

definition long_outcome :: "string \<Rightarrow> 'v outcome" where
  "long_outcome s = (case parse_long s of None \<Rightarrow> Fail | Some (n, r) \<Rightarrow> Match (A_int n) r)"

definition on_match :: "'v outcome option \<Rightarrow> ('v attribute \<Rightarrow> string \<Rightarrow> 'v outcome option) \<Rightarrow> 'v outcome option" where
  "on_match x f = Option.bind x (\<lambda>x. case x of Match a r \<Rightarrow> f a r | Fail \<Rightarrow> Some Fail | Expectation_failure \<Rightarrow> Some Expectation_failure)"

definition on_fail :: "'v outcome option \<Rightarrow> 'v outcome option \<Rightarrow> 'v outcome option" where
  "on_fail x y = Option.bind x (\<lambda>x. case x of Fail \<Rightarrow> y | Match a r \<Rightarrow> Some (Match a r) | Expectation_failure \<Rightarrow> Some Expectation_failure)"

definition expected :: "'v outcome option \<Rightarrow> 'v outcome option" where
  "expected x = on_fail x (Some Expectation_failure)"

definition on_mismatch :: "'v outcome option \<Rightarrow> 'v outcome option \<Rightarrow> 'v outcome option" where
  "on_mismatch x y = Option.bind x (\<lambda>x. case x of
     Match a r \<Rightarrow> Some Fail | Fail \<Rightarrow> y | Expectation_failure \<Rightarrow> Some Expectation_failure)"

lemma outcome_simps [simp]:
  "on_match (Some (Match a r)) f = f a r"
  "on_match (Some Fail) f = Some Fail"
  "on_match (Some Expectation_failure) f = Some Expectation_failure"
  "on_match None f = None"
  "on_fail (Some (Match a r)) y = Some (Match a r)"
  "on_fail (Some Fail) y = y"
  "on_fail (Some Expectation_failure) y = Some Expectation_failure"
  "on_fail None y = None"
  "expected (Some (Match a r)) = Some (Match a r)"
  "expected (Some Fail) = Some Expectation_failure"
  "on_mismatch (Some (Match a r)) y = Some Fail"
  "on_mismatch (Some Fail) y = y"
  by (simp_all add: on_match_def on_fail_def expected_def on_mismatch_def)

locale x3 =
  fixes rule :: "'r \<Rightarrow> ('r, 'v) parser"
    and action :: "'r \<Rightarrow> 'v attribute \<Rightarrow> 'v attribute"
    and parse :: "('r, 'v) parser \<Rightarrow> bool \<Rightarrow> string \<Rightarrow> 'v outcome option"
  assumes parse_Lit: "parse (Lit l) k s = Some (literal_outcome l A_none (skip_spaces k s))"
    and parse_Str: "parse (Str l) k s = Some (literal_outcome l (A_string l) (skip_spaces k s))"
    and parse_Attr: "parse (Attr a) k s = Some (Match a s)"
    and parse_Ascii_alpha: "parse Ascii_alpha k s = Some (char_outcome ascii_alpha (skip_spaces k s))"
    and parse_Ascii_alnum: "parse Ascii_alnum k s = Some (char_outcome ascii_alnum (skip_spaces k s))"
    and parse_Long: "parse Long k s = Some (long_outcome (skip_spaces k s))"
    and parse_Strict_double: "\<not> strict_real_prefix (skip_spaces k s) \<Longrightarrow> parse Strict_double k s = Some Fail"
    and parse_Seq: "parse (Seq p q) k s =
      on_match (parse p k s) (\<lambda>a r. on_match (parse q k r) (\<lambda>b t. Some (Match (pair_attribute a b) t)))"
    and parse_Expect: "parse (Expect p q) k s =
      on_match (parse p k s) (\<lambda>a r. on_match (expected (parse q k r)) (\<lambda>b t. Some (Match (pair_attribute a b) t)))"
    and parse_Alt: "parse (Alt p q) k s = on_fail (parse p k s) (parse q k s)"
    and parse_Kleene: "parse (Kleene p) k s =
      on_fail (on_match (parse p k s) (\<lambda>a r. on_match (parse (Kleene p) k r) (\<lambda>b t. Some (Match (cons_attribute a b) t))))
        (Some (Match (A_list []) s))"
    and parse_Opt: "parse (Opt p) k s =
      on_fail (on_match (parse p k s) (\<lambda>a r. Some (Match (A_opt (Some a)) r))) (Some (Match (A_opt None) s))"
    and parse_Sep_by: "parse (Sep_by p q) k s =
      on_match (parse p k s) (\<lambda>a r. on_match (parse (Kleene (Seq q p)) k r) (\<lambda>b t. Some (Match (cons_attribute a b) t)))"
    and parse_Diff: "parse (Diff p q) k s = on_mismatch (parse q k s) (parse p k s)"
    and parse_Raw: "parse (Raw p) k s =
      on_match (parse p k (skip_spaces k s)) (\<lambda>a r.
        Some (Match (A_string (take (length (skip_spaces k s) - length r) (skip_spaces k s))) r))"
    and parse_Lexeme: "parse (Lexeme p) k s = parse p False (skip_spaces k s)"
    and parse_Rule: "parse (Rule r) k s = on_match (parse (rule r) k s) (\<lambda>a t. Some (Match (action r a) t))"

text \<open>An interpreter of grammars that keeps these promises; real numbers are read by an argument.\<close>

lemma on_match_mono [partial_function_mono]:
  assumes "mono_option B" and "\<And>a r. mono_option (\<lambda>f. C f a r)"
  shows "mono_option (\<lambda>f. on_match (B f) (C f))"
  unfolding on_match_def
proof (rule bind_mono [OF assms(1)])
  fix x show "mono_option (\<lambda>f. case x of Match a r \<Rightarrow> C f a r | Fail \<Rightarrow> Some Fail | Expectation_failure \<Rightarrow> Some Expectation_failure)"
    by (cases x) (simp_all add: assms(2) option.const_mono)
qed

lemma on_fail_mono [partial_function_mono]:
  "mono_option B \<Longrightarrow> mono_option C \<Longrightarrow> mono_option (\<lambda>f. on_fail (B f) (C f))"
  unfolding on_fail_def by (rule bind_mono, assumption) (case_tac y; simp add: option.const_mono)

lemma expected_mono [partial_function_mono]: "mono_option B \<Longrightarrow> mono_option (\<lambda>f. expected (B f))"
  unfolding expected_def by (intro on_fail_mono option.const_mono)

lemma on_mismatch_mono [partial_function_mono]:
  "mono_option B \<Longrightarrow> mono_option C \<Longrightarrow> mono_option (\<lambda>f. on_mismatch (B f) (C f))"
  unfolding on_mismatch_def by (rule bind_mono, assumption) (case_tac y; simp add: option.const_mono)

definition real_outcome :: "(string \<Rightarrow> (64 word \<times> string) option) \<Rightarrow> string \<Rightarrow> 'v outcome" where
  "real_outcome real s =
     (if strict_real_prefix s then (case real s of None \<Rightarrow> Fail | Some (x, r) \<Rightarrow> Match (A_double x) r) else Fail)"

type_synonym ('r, 'v) engine = "('r, 'v) parser \<Rightarrow> bool \<Rightarrow> string \<Rightarrow> 'v outcome option"

definition parser_step ::
  "(string \<Rightarrow> (64 word \<times> string) option) \<Rightarrow> ('r \<Rightarrow> ('r, 'v) parser) \<Rightarrow> ('r \<Rightarrow> 'v attribute \<Rightarrow> 'v attribute) \<Rightarrow>
     ('r, 'v) engine \<Rightarrow> ('r, 'v) engine" where
  "parser_step real rule action f g k s =
     (case g of
        Lit l \<Rightarrow> Some (literal_outcome l A_none (skip_spaces k s))
      | Str l \<Rightarrow> Some (literal_outcome l (A_string l) (skip_spaces k s))
      | Attr a \<Rightarrow> Some (Match a s)
      | Ascii_alpha \<Rightarrow> Some (char_outcome ascii_alpha (skip_spaces k s))
      | Ascii_alnum \<Rightarrow> Some (char_outcome ascii_alnum (skip_spaces k s))
      | Long \<Rightarrow> Some (long_outcome (skip_spaces k s))
      | Strict_double \<Rightarrow> Some (real_outcome real (skip_spaces k s))
      | Seq p q \<Rightarrow>
          on_match (f p k s) (\<lambda>a r.
          on_match (f q k r) (\<lambda>b t. Some (Match (pair_attribute a b) t)))
      | Expect p q \<Rightarrow>
          on_match (f p k s) (\<lambda>a r.
          on_match (expected (f q k r)) (\<lambda>b t. Some (Match (pair_attribute a b) t)))
      | Alt p q \<Rightarrow> on_fail (f p k s) (f q k s)
      | Kleene p \<Rightarrow>
          on_fail (on_match (f p k s) (\<lambda>a r.
                   on_match (f (Kleene p) k r) (\<lambda>b t. Some (Match (cons_attribute a b) t))))
            (Some (Match (A_list []) s))
      | Opt p \<Rightarrow>
          on_fail (on_match (f p k s) (\<lambda>a r. Some (Match (A_opt (Some a)) r)))
            (Some (Match (A_opt None) s))
      | Sep_by p q \<Rightarrow>
          on_match (f p k s) (\<lambda>a r.
          on_match (f (Kleene (Seq q p)) k r) (\<lambda>b t. Some (Match (cons_attribute a b) t)))
      | Diff p q \<Rightarrow> on_mismatch (f q k s) (f p k s)
      | Raw p \<Rightarrow>
          on_match (f p k (skip_spaces k s)) (\<lambda>a r.
            Some (Match (A_string (take (length (skip_spaces k s) - length r) (skip_spaces k s))) r))
      | Lexeme p \<Rightarrow> f p False (skip_spaces k s)
      | Rule r \<Rightarrow> on_match (f (rule r) k s) (\<lambda>a t. Some (Match (action r a) t)))"

lemma parser_step_mono [partial_function_mono]:
  assumes "\<And>g k s. mono_option (\<lambda>f. F f g k s)"
  shows "mono_option (\<lambda>f. parser_step real rule action (F f) g k s)"
  unfolding parser_step_def
  by (cases g) (simp_all add: option.const_mono assms on_match_mono on_fail_mono expected_mono on_mismatch_mono)

partial_function (option) run ::
  "(string \<Rightarrow> (64 word \<times> string) option) \<Rightarrow> ('r \<Rightarrow> ('r, 'v) parser) \<Rightarrow> ('r \<Rightarrow> 'v attribute \<Rightarrow> 'v attribute) \<Rightarrow>
     ('r, 'v) engine" where
  "run real rule action g k s = parser_step real rule action (run real rule action) g k s"

declare run.simps [code]

interpretation run: x3 rule action "run real rule action"
  by unfold_locales (subst run.simps, simp add: parser_step_def real_outcome_def)+

end
