(* ===== verification/QirGrammar.thy ===== *)
theory QirGrammar
  imports ParserCombinators QirAst
begin

text \<open>
  The grammar of the intermediate language (namespace \<open>grammar\<close> of \<open>qubus/src/IR/parsing.cpp\<close>), rule by
  rule, in the combinators of theory \<open>ParserCombinators\<close>.  The attribute of a rule is a node of the syntax tree
  (theory \<open>QirAst\<close>): \<open>rule_attribute\<close> is what the declarations of the rules and the adapted structures make of the
  attributes of the parts.
\<close>

section \<open>Rules\<close>

datatype qir_rule =
    R_id | R_basic_type | R_parameterized_type | R_type | R_module | R_definition | R_function
  | R_user_defined_type | R_struct_definition | R_variable_declaration | R_expression_block | R_expression
  | R_variable | R_assignment | R_non_task_expr | R_logical_expr | R_logical_expressions | R_comparison
  | R_comparisons | R_addition | R_additions | R_multiplication | R_multiplications | R_qualified_expr
  | R_base_expression | R_function_call | R_unary_operator | R_unary_operators | R_subscription | R_member_access
  | R_if_expr | R_for_expr | R_let_expr | R_integer_range

datatype qir_value =
    V_type ast_type
  | V_declaration ast_variable_declaration
  | V_expr ast_expression
  | V_qualifier ast_qualifier
  | V_range ast_integer_range
  | V_block ast_expression_block
  | V_definition ast_definition
  | V_module ast_module

type_synonym qir_parser = "(qir_rule, qir_value) parser"
type_synonym qir_attribute = "qir_value attribute"

fun alternatives :: "qir_parser list \<Rightarrow> qir_parser" where
  "alternatives [p] = p"
| "alternatives (p # q # ps) = foldl Alt p (q # ps)"
| "alternatives [] = Attr A_none"

definition keyword :: qir_parser where
  "keyword = alternatives (map Lit [''for'', ''if'', ''else'', ''end'', ''module'', ''struct'', ''function'', ''let'',
     ''parallel'', ''unordered'', ''true'', ''false''])"

definition id_def :: qir_parser where
  "id_def = Diff (Raw (Lexeme (Seq Ascii_alpha (Kleene (Alt Ascii_alnum (Lit ''_'')))))) keyword"

definition boolean :: qir_parser where
  "boolean = Alt (Seq (Lit ''true'') (Attr (A_bool True))) (Seq (Lit ''false'') (Attr (A_bool False)))"

definition literal :: qir_parser where
  "literal = Alt (Alt Strict_double Long) boolean"

definition integer_range_def :: qir_parser where
  "integer_range_def =
     Seq (Seq (Seq (Rule R_logical_expressions) (Lit '':''))
           (Alt (Seq (Rule R_logical_expressions) (Lit '':'')) (Attr (A_int 1))))
       (Rule R_logical_expressions)"

definition type_parameter :: qir_parser where
  "type_parameter = Alt (Rule R_type) Long"

definition parameterized_type_def :: qir_parser where
  "parameterized_type_def =
     Seq (Rule R_id) (Expect (Expect (Lit ''{'') (Opt (Sep_by type_parameter (Lit '','')))) (Lit ''}''))"

definition type_def :: qir_parser where
  "type_def = Alt (Rule R_parameterized_type) (Rule R_basic_type)"

definition variable_declaration_def :: qir_parser where
  "variable_declaration_def = Seq (Rule R_id) (Expect (Lit ''::'') (Rule R_type))"

definition module_def :: qir_parser where
  "module_def = Expect (Expect (Lit ''module'') (Rule R_id)) (Kleene (Rule R_definition))"

definition definition_def :: qir_parser where
  "definition_def = Alt (Rule R_function) (Rule R_user_defined_type)"

definition function_def :: qir_parser where
  "function_def =
     Expect (Expect (Expect (Expect (Expect (Expect (Expect (Lit ''function'') (Rule R_id)) (Lit ''(''))
       (Opt (Sep_by (Rule R_variable_declaration) (Lit '','')))) (Seq (Lit '')'') (Lit ''->'')))
       (Rule R_variable_declaration)) (Rule R_expression_block)) (Lit ''end'')"

definition struct_definition_def :: qir_parser where
  "struct_definition_def =
     Expect (Expect (Expect (Lit ''struct'') (Rule R_id)) (Kleene (Rule R_variable_declaration))) (Lit ''end'')"

definition expression_block_def :: qir_parser where
  "expression_block_def = Seq (Kleene (Rule R_expression)) (Attr (A_bool False))"

definition expression_def :: qir_parser where
  "expression_def = alternatives [Rule R_if_expr, Rule R_for_expr, Rule R_let_expr, Rule R_assignment]"

definition multiplication_op :: qir_parser where
  "multiplication_op = alternatives [Str ''*'', Str ''/'', Str ''%'']"

definition multiplication_def :: qir_parser where
  "multiplication_def = Seq (Seq (Rule R_unary_operators) multiplication_op) (Rule R_multiplications)"

definition multiplications_def :: qir_parser where
  "multiplications_def = Alt (Rule R_multiplication) (Rule R_unary_operators)"

definition addition_op :: qir_parser where
  "addition_op = Alt (Str ''+'') (Str ''-'')"

definition addition_def :: qir_parser where
  "addition_def = Seq (Seq (Rule R_multiplications) addition_op) (Rule R_additions)"

definition additions_def :: qir_parser where
  "additions_def = Alt (Rule R_addition) (Rule R_multiplications)"

definition comparison_op :: qir_parser where
  "comparison_op = alternatives [Str ''=='', Str ''!='', Str ''<'', Str ''>'', Str ''<='', Str ''>='']"

definition comparison_def :: qir_parser where
  "comparison_def = Seq (Seq (Rule R_additions) comparison_op) (Rule R_comparisons)"

definition comparisons_def :: qir_parser where
  "comparisons_def = Alt (Rule R_comparison) (Rule R_additions)"

definition logical_op :: qir_parser where
  "logical_op = Alt (Str ''and'') (Str ''or'')"

definition logical_expr_def :: qir_parser where
  "logical_expr_def = Seq (Seq (Rule R_comparisons) logical_op) (Rule R_logical_expressions)"

definition logical_expressions_def :: qir_parser where
  "logical_expressions_def = Alt (Rule R_logical_expr) (Rule R_comparisons)"

definition non_task_expr_def :: qir_parser where
  "non_task_expr_def = Alt (Rule R_integer_range) (Rule R_logical_expressions)"

definition assignment_op :: qir_parser where
  "assignment_op = Alt (Str ''='') (Str ''+='')"

definition assignment_def :: qir_parser where
  "assignment_def = Expect (Seq (Rule R_non_task_expr) assignment_op) (Rule R_non_task_expr)"

definition unary_op :: qir_parser where
  "unary_op = alternatives [Str ''+'', Str ''-'', Str ''not'']"

definition unary_operator_def :: qir_parser where
  "unary_operator_def = Seq unary_op (Rule R_unary_operators)"

definition unary_operators_def :: qir_parser where
  "unary_operators_def = Alt (Rule R_unary_operator) (Rule R_qualified_expr)"

definition subscription_def :: qir_parser where
  "subscription_def = Seq (Seq (Lit ''['') (Opt (Sep_by (Rule R_non_task_expr) (Lit '','')))) (Lit '']'')"

definition member_access_def :: qir_parser where
  "member_access_def = Seq (Lit ''.'') (Rule R_id)"

definition qualified_expr_def :: qir_parser where
  "qualified_expr_def = Seq (Rule R_base_expression) (Kleene (Alt (Rule R_subscription) (Rule R_member_access)))"

definition function_call_def :: qir_parser where
  "function_call_def =
     Seq (Seq (Seq (Rule R_id) (Lit ''('')) (Sep_by (Rule R_non_task_expr) (Lit '',''))) (Lit '')'')"

definition base_expression_def :: qir_parser where
  "base_expression_def =
     alternatives [Seq (Seq (Lit ''('') (Rule R_non_task_expr)) (Lit '')''), Rule R_function_call, Rule R_variable, literal]"

definition if_expr_def :: qir_parser where
  "if_expr_def =
     Expect (Expect (Expect (Expect (Lit ''if'') (Rule R_non_task_expr)) (Rule R_expression_block))
       (Opt (Expect (Lit ''else'') (Rule R_expression_block)))) (Lit ''end'')"

definition ordering_def :: qir_parser where
  "ordering_def = alternatives [Str ''parallel'', Str ''unordered'', Attr (A_string ''sequential'')]"

definition for_expr_def :: qir_parser where
  "for_expr_def =
     Expect (Expect (Expect (Expect (Expect (Seq ordering_def (Lit ''for'')) (Rule R_variable_declaration)) (Lit ''in''))
       (Rule R_integer_range)) (Rule R_expression_block)) (Lit ''end'')"

definition let_expr_def :: qir_parser where
  "let_expr_def =
     Expect (Expect (Expect (Lit ''let'') (Rule R_variable_declaration)) (Lit ''='')) (Rule R_non_task_expr)"

fun rule_parser :: "qir_rule \<Rightarrow> qir_parser" where
  "rule_parser R_id = id_def"
| "rule_parser R_basic_type = Rule R_id"
| "rule_parser R_parameterized_type = parameterized_type_def"
| "rule_parser R_type = type_def"
| "rule_parser R_module = module_def"
| "rule_parser R_definition = definition_def"
| "rule_parser R_function = function_def"
| "rule_parser R_user_defined_type = Rule R_struct_definition"
| "rule_parser R_struct_definition = struct_definition_def"
| "rule_parser R_variable_declaration = variable_declaration_def"
| "rule_parser R_expression_block = expression_block_def"
| "rule_parser R_expression = expression_def"
| "rule_parser R_variable = Rule R_id"
| "rule_parser R_assignment = assignment_def"
| "rule_parser R_non_task_expr = non_task_expr_def"
| "rule_parser R_logical_expr = logical_expr_def"
| "rule_parser R_logical_expressions = logical_expressions_def"
| "rule_parser R_comparison = comparison_def"
| "rule_parser R_comparisons = comparisons_def"
| "rule_parser R_addition = addition_def"
| "rule_parser R_additions = additions_def"
| "rule_parser R_multiplication = multiplication_def"
| "rule_parser R_multiplications = multiplications_def"
| "rule_parser R_qualified_expr = qualified_expr_def"
| "rule_parser R_base_expression = base_expression_def"
| "rule_parser R_function_call = function_call_def"
| "rule_parser R_unary_operator = unary_operator_def"
| "rule_parser R_unary_operators = unary_operators_def"
| "rule_parser R_subscription = subscription_def"
| "rule_parser R_member_access = member_access_def"
| "rule_parser R_if_expr = if_expr_def"
| "rule_parser R_for_expr = for_expr_def"
| "rule_parser R_let_expr = let_expr_def"
| "rule_parser R_integer_range = integer_range_def"

section \<open>Attributes\<close>

text \<open>A \<open>long\<close> that becomes the \<open>int\<close> of a type parameter keeps its lower 32 bits.\<close>

definition to_int32 :: "int \<Rightarrow> int" where
  "to_int32 n = sint (word_of_int n :: 32 word)"

fun as_string :: "qir_attribute \<Rightarrow> string option" where
  "as_string (A_string s) = Some s"
| "as_string a = None"

fun as_expression :: "qir_attribute \<Rightarrow> ast_expression option" where
  "as_expression (A_value (V_expr e)) = Some e"
| "as_expression (A_value (V_range r)) = Some (Ast_range r)"
| "as_expression (A_int i) = Some (Ast_index i)"
| "as_expression (A_double d) = Some (Ast_double d)"
| "as_expression (A_bool b) = Some (Ast_bool b)"
| "as_expression a = None"

fun as_type_parameter :: "qir_attribute \<Rightarrow> ast_type_parameter option" where
  "as_type_parameter (A_value (V_type t)) = Some (Type_parameter t)"
| "as_type_parameter (A_int n) = Some (Int_parameter (to_int32 n))"
| "as_type_parameter a = None"

fun as_declaration :: "qir_attribute \<Rightarrow> ast_variable_declaration option" where
  "as_declaration (A_value (V_declaration d)) = Some d"
| "as_declaration a = None"

fun as_qualifier :: "qir_attribute \<Rightarrow> ast_qualifier option" where
  "as_qualifier (A_value (V_qualifier q)) = Some q"
| "as_qualifier a = None"

fun as_range :: "qir_attribute \<Rightarrow> ast_integer_range option" where
  "as_range (A_value (V_range r)) = Some r"
| "as_range a = None"

fun as_block :: "qir_attribute \<Rightarrow> ast_expression_block option" where
  "as_block (A_value (V_block b)) = Some b"
| "as_block a = None"

fun as_definition :: "qir_attribute \<Rightarrow> ast_definition option" where
  "as_definition (A_value (V_definition d)) = Some d"
| "as_definition a = None"

fun as_all :: "(qir_attribute \<Rightarrow> 'a option) \<Rightarrow> qir_attribute list \<Rightarrow> 'a list option" where
  "as_all f [] = Some []"
| "as_all f (a # as) = Option.bind (f a) (\<lambda>x. Option.bind (as_all f as) (\<lambda>xs. Some (x # xs)))"

text \<open>An optional list is a list, empty where nothing was read.\<close>

fun as_list :: "(qir_attribute \<Rightarrow> 'a option) \<Rightarrow> qir_attribute \<Rightarrow> 'a list option" where
  "as_list f (A_list as) = as_all f as"
| "as_list f (A_opt None) = Some []"
| "as_list f (A_opt (Some (A_list as))) = as_all f as"
| "as_list f a = None"

fun as_pair :: "(qir_attribute \<Rightarrow> 'a option) \<Rightarrow> (qir_attribute \<Rightarrow> 'b option) \<Rightarrow> qir_attribute \<Rightarrow> ('a \<times> 'b) option" where
  "as_pair f g (A_pair a b) = Option.bind (f a) (\<lambda>x. Option.bind (g b) (\<lambda>y. Some (x, y)))"
| "as_pair f g a = None"

definition attribute_value :: "('a \<Rightarrow> qir_value) \<Rightarrow> 'a option \<Rightarrow> qir_attribute" where
  "attribute_value f x = (case x of Some y \<Rightarrow> A_value (f y) | None \<Rightarrow> A_none)"

lemma attribute_value_Some [simp]: "attribute_value f (Some x) = A_value (f x)"
  by (simp add: attribute_value_def)

definition binary_value :: "qir_attribute \<Rightarrow> qir_attribute" where
  "binary_value a = attribute_value (\<lambda>((l, operator_id), r). V_expr (Ast_binary_operator l operator_id r))
     (as_pair (as_pair as_expression as_string) as_expression a)"

definition declaration_of :: "string \<times> ast_type \<Rightarrow> ast_variable_declaration" where
  "declaration_of d = \<lparr>decl_name = fst d, decl_datatype = snd d\<rparr>"

fun as_type :: "qir_attribute \<Rightarrow> ast_type option" where
  "as_type (A_value (V_type t)) = Some t"
| "as_type a = None"

fun as_else :: "qir_attribute \<Rightarrow> ast_expression_block option option" where
  "as_else (A_opt None) = Some None"
| "as_else (A_opt (Some a)) = map_option Some (as_block a)"
| "as_else a = None"

fun as_bool :: "qir_attribute \<Rightarrow> bool option" where
  "as_bool (A_bool b) = Some b"
| "as_bool a = None"

fun rule_attribute :: "qir_rule \<Rightarrow> qir_attribute \<Rightarrow> qir_attribute" where
  "rule_attribute R_id a = a"
| "rule_attribute R_basic_type a = attribute_value (\<lambda>n. V_type (Basic_type n)) (as_string a)"
| "rule_attribute R_parameterized_type a =
     attribute_value (\<lambda>(n, ps). V_type (Parameterized_type n ps)) (as_pair as_string (as_list as_type_parameter) a)"
| "rule_attribute R_type a = a"
| "rule_attribute R_module a =
     attribute_value (\<lambda>(i, ds). V_module \<lparr>ast_module_id = i, ast_definitions = ds\<rparr>)
       (as_pair as_string (as_list as_definition) a)"
| "rule_attribute R_definition a = a"
| "rule_attribute R_function a =
     attribute_value (\<lambda>(((i, ps), r), b). V_definition (Ast_function_def
         \<lparr>ast_fn_id = i, ast_fn_parameters = ps, ast_fn_result = r, ast_fn_body = b\<rparr>))
       (as_pair (as_pair (as_pair as_string (as_list as_declaration)) as_declaration) as_block a)"
| "rule_attribute R_user_defined_type a = a"
| "rule_attribute R_struct_definition a =
     attribute_value (\<lambda>(n, ms). V_definition (Ast_struct_def \<lparr>ast_struct_name = n, ast_struct_members = ms\<rparr>))
       (as_pair as_string (as_list as_declaration) a)"
| "rule_attribute R_variable_declaration a =
     attribute_value (\<lambda>d. V_declaration (declaration_of d)) (as_pair as_string as_type a)"
| "rule_attribute R_expression_block a =
     attribute_value (\<lambda>(es, sc). V_block (Ast_block es sc)) (as_pair (as_list as_expression) as_bool a)"
| "rule_attribute R_expression a = a"
| "rule_attribute R_variable a = attribute_value (\<lambda>n. V_expr (Ast_variable n)) (as_string a)"
| "rule_attribute R_assignment a = binary_value a"
| "rule_attribute R_non_task_expr a = attribute_value V_expr (as_expression a)"
| "rule_attribute R_logical_expr a = binary_value a"
| "rule_attribute R_logical_expressions a = a"
| "rule_attribute R_comparison a = binary_value a"
| "rule_attribute R_comparisons a = a"
| "rule_attribute R_addition a = binary_value a"
| "rule_attribute R_additions a = a"
| "rule_attribute R_multiplication a = binary_value a"
| "rule_attribute R_multiplications a = a"
| "rule_attribute R_qualified_expr a =
     attribute_value (\<lambda>(e, qs). V_expr (Ast_qualified_expr e qs)) (as_pair as_expression (as_list as_qualifier) a)"
| "rule_attribute R_base_expression a = attribute_value V_expr (as_expression a)"
| "rule_attribute R_function_call a =
     attribute_value (\<lambda>(n, es). V_expr (Ast_function_call n es)) (as_pair as_string (as_list as_expression) a)"
| "rule_attribute R_unary_operator a =
     attribute_value (\<lambda>(operator_id, e). V_expr (Ast_unary_operator operator_id e)) (as_pair as_string as_expression a)"
| "rule_attribute R_unary_operators a = a"
| "rule_attribute R_subscription a = attribute_value (\<lambda>es. V_qualifier (Ast_subscription es)) (as_list as_expression a)"
| "rule_attribute R_member_access a = attribute_value (\<lambda>n. V_qualifier (Ast_member_access n)) (as_string a)"
| "rule_attribute R_if_expr a =
     attribute_value (\<lambda>((c, t), e). V_expr (Ast_if_expr c t e)) (as_pair (as_pair as_expression as_block) as_else a)"
| "rule_attribute R_for_expr a =
     attribute_value (\<lambda>(((order_id, v), r), b). V_expr (Ast_for_expr order_id v r b))
       (as_pair (as_pair (as_pair as_string as_declaration) as_range) as_block a)"
| "rule_attribute R_let_expr a =
     attribute_value (\<lambda>(v, e). V_expr (Ast_let_expr v e)) (as_pair as_declaration as_expression a)"
| "rule_attribute R_integer_range a =
     attribute_value (\<lambda>((l, s), u). V_range (Ast_integer_range l s u))
       (as_pair (as_pair as_expression as_expression) as_expression a)"

section \<open>Reading a module\<close>

text \<open>\<open>phrase_parse\<close> with the skipper skips the spaces at the end, too; \<open>parse_qir\<close> then asks for the end of the text.\<close>

definition phrase_parse ::
  "(qir_rule, qir_value) engine \<Rightarrow> string \<Rightarrow> ast_module option result" where
  "phrase_parse parse code =
     (case parse (Rule R_module) True code of
        None \<Rightarrow> Inl Diverged
      | Some (Match (A_value (V_module ast)) r) \<Rightarrow> Inr (if dropWhile is_space r = [] then Some ast else None)
      | Some _ \<Rightarrow> Inr None)"

definition parse_qir_text ::
  "(qir_rule, qir_value) engine \<Rightarrow> nat \<Rightarrow> nat \<Rightarrow> string \<Rightarrow> qmodule result" where
  "parse_qir_text parse = parse_qir (phrase_parse parse)"

end
