(* ===== verification/QirSource.thy ===== *)
theory QirSource
  imports QirAnalysis PrettyPrinter QirGrammar
begin

text \<open>
  The part of the intermediate language that survives printing and reading.  \<open>readable\<close> says which expressions it
  has, \<open>statement\<close> which statements; for them \<open>source\<close> is the syntax tree that the printed text stands for, and
  \<open>show_expr\<close> and \<open>show_lines\<close> are the text itself.  The analyzer gives back from the syntax
  tree an expression that differs from the original in the addresses of its variables only.
\<close>

section \<open>What can be read\<close>

definition reserved_prefixes :: "string list" where
  "reserved_prefixes = [''for'', ''if'', ''else'', ''end'', ''module'', ''struct'', ''function'', ''let'', ''parallel'',
     ''unordered'', ''true'', ''false'', ''not'', ''and'', ''or'']"

definition readable_name :: "string \<Rightarrow> bool" where
  "readable_name n \<longleftrightarrow> valid_id n \<and> (\<forall>k \<in> set reserved_prefixes. take (length k) n \<noteq> k)"

fun readable_type :: "qtype \<Rightarrow> bool" where
  "readable_type Double_t = True"
| "readable_type Float_t = True"
| "readable_type Integer_t = True"
| "readable_type Bool_t = True"
| "readable_type (Complex_t t) = readable_type t"
| "readable_type (Array_t t r) = (readable_type t \<and> 0 \<le> r \<and> r < 2147483648)"
| "readable_type t = False"

definition readable_declaration :: "variable_declaration \<Rightarrow> bool" where
  "readable_declaration v \<longleftrightarrow> readable_name (var_name v) \<and> readable_type (var_type v)"

definition readable_operator :: "binary_op_tag \<Rightarrow> bool" where
  "readable_operator t \<longleftrightarrow> t \<in> {Plus, Minus, Multiplies, Divides, Modulus, Equal_to, Not_equal_to, Less, Greater}"

definition operator_level :: "binary_op_tag \<Rightarrow> precedence_level" where
  "operator_level t = (case binary_precedence_level t of Inr l \<Rightarrow> l | Inl e \<Rightarrow> Statement)"

fun expr_level :: "expr \<Rightarrow> precedence_level" where
  "expr_level (Binary_operator_expr t a b) = operator_level t"
| "expr_level (Unary_operator_expr t a) = Unary"
| "expr_level e = Qualifier"

text \<open>Expressions without effects; a range only where the first argument allows it.\<close>

fun readable :: "bool \<Rightarrow> expr \<Rightarrow> bool" where
  "readable r (Variable_ref_expr v) = readable_name (var_name v)"
| "readable r (Integer_literal_expr i) = (0 \<le> i \<and> i \<le> i64_max)"
| "readable r (Bool_literal_expr b) = True"
| "readable r (Unary_operator_expr t a) = ((t = Plus_u \<or> t = Negate) \<and> readable False a)"
| "readable r (Binary_operator_expr t a b) =
     (readable_operator t \<and> operator_level t \<noteq> expr_level a \<and> readable False a \<and> readable False b)"
| "readable r (Subscription_expr a es) = (is_access a \<and> readable False a \<and> (\<forall>e \<in> set es. readable True e))"
| "readable r (Member_access_expr a n) = (is_access a \<and> readable False a \<and> readable_name n)"
| "readable r (Intrinsic_function_expr n es) = (readable_name n \<and> es \<noteq> [] \<and> (\<forall>e \<in> set es. readable True e))"
| "readable r (Integer_range_expr l u s) = (r \<and> readable False l \<and> readable False u \<and> readable False s)"
| "readable r e = False"

text \<open>Blocks are sequences of statements.\<close>

fun is_block :: "expr \<Rightarrow> bool" where
  "is_block (Compound_expr order es) = (order = Sequential)"
| "is_block e = False"

fun body_of :: "expr \<Rightarrow> expr list" where
  "body_of (Compound_expr order es) = es"
| "body_of e = []"

lemma body_of_size: "x \<in> set (body_of e) \<Longrightarrow> size x < size e"
  by (cases e rule: body_of.cases) (auto dest: size_list_mem)

function (sequential) statement :: "expr \<Rightarrow> bool" where
  "statement (Binary_operator_expr t a b) =
     ((t = Assign \<or> t = Plus_assign) \<and> is_access a \<and> readable False a \<and> readable True b)"
| "statement (For_expr order v l u i b) =
     (readable_declaration v \<and> readable False l \<and> readable False u \<and> readable False i \<and>
      is_block b \<and> (\<forall>e \<in> set (body_of b). statement e))"
| "statement (If_expr c t eb) =
     (readable True c \<and> is_block t \<and> (\<forall>e \<in> set (body_of t). statement e) \<and>
      (case eb of None \<Rightarrow> True | Some b \<Rightarrow> is_block b \<and> (\<forall>e \<in> set (body_of b). statement e)))"
| "statement (Local_variable_def_expr v i) = (readable_declaration v \<and> readable True i)"
| "statement e = False"
  by pat_completeness auto

termination
  by (relation "measure size") (auto dest!: body_of_size)

definition readable_block :: "expr \<Rightarrow> bool" where
  "readable_block b \<longleftrightarrow> is_block b \<and> (\<forall>e \<in> set (body_of b). statement e)"

section \<open>The syntax tree of an expression\<close>

fun type_source :: "qtype \<Rightarrow> ast_type" where
  "type_source Double_t = Basic_type ''Double''"
| "type_source Float_t = Basic_type ''Float''"
| "type_source Integer_t = Basic_type ''Int''"
| "type_source Bool_t = Basic_type ''Bool''"
| "type_source (Complex_t t) = Parameterized_type ''Complex'' [Type_parameter (type_source t)]"
| "type_source (Array_t t r) = Parameterized_type ''Array'' [Type_parameter (type_source t), Int_parameter r]"
| "type_source t = Basic_type []"

lemma analyze_type_source [simp]: "readable_type t \<Longrightarrow> analyze_type (type_source t) = Inr t"
  by (induction t rule: readable_type.induct) simp_all

definition declaration_source :: "variable_declaration \<Rightarrow> ast_variable_declaration" where
  "declaration_source v = \<lparr>decl_name = var_name v, decl_datatype = type_source (var_type v)\<rparr>"

text \<open>The texts of the operators as the printer writes them.\<close>

definition binary_text :: "binary_op_tag \<Rightarrow> string" where
  "binary_text t = (case translate_binary_op_tag t of Inr s \<Rightarrow> s | Inl e \<Rightarrow> [])"

definition unary_text :: "unary_op_tag \<Rightarrow> string" where
  "unary_text t = (case translate_unary_op_tag t of Inr s \<Rightarrow> s | Inl e \<Rightarrow> [])"

definition in_brackets :: "bool \<Rightarrow> ast_expression \<Rightarrow> ast_expression" where
  "in_brackets b e = (if b then Ast_qualified_expr e [] else e)"

fun add_qualifier :: "ast_expression \<Rightarrow> ast_qualifier \<Rightarrow> ast_expression" where
  "add_qualifier (Ast_qualified_expr e qs) q = Ast_qualified_expr e (qs @ [q])"
| "add_qualifier e q = Ast_qualified_expr e [q]"

fun source :: "precedence_level \<Rightarrow> expr \<Rightarrow> ast_expression" where
  "source p (Variable_ref_expr v) = Ast_qualified_expr (Ast_variable (var_name v)) []"
| "source p (Integer_literal_expr i) = Ast_qualified_expr (Ast_index i) []"
| "source p (Bool_literal_expr b) = Ast_qualified_expr (Ast_bool b) []"
| "source p (Unary_operator_expr t a) =
     in_brackets (Unary < p) (Ast_unary_operator (unary_text t) (source Unary a))"
| "source p (Binary_operator_expr t a b) =
     in_brackets (operator_level t < p)
       (Ast_binary_operator (source (operator_level t) a) (binary_text t) (source (operator_level t) b))"
| "source p (Subscription_expr a es) = add_qualifier (source Qualifier a) (Ast_subscription (map (source Statement) es))"
| "source p (Member_access_expr a n) = add_qualifier (source Qualifier a) (Ast_member_access n)"
| "source p (Intrinsic_function_expr n es) = Ast_qualified_expr (Ast_function_call n (map (source Statement) es)) []"
| "source p (Integer_range_expr l u s) =
     Ast_range (Ast_integer_range (source Statement l) (source Statement s) (source Statement u))"
| "source p e = Ast_index 0"

fun order_text :: "execution_order \<Rightarrow> string" where
  "order_text Sequential = ''sequential''"
| "order_text Unordered = ''unordered''"
| "order_text Parallel = ''parallel''"

function (sequential) statement_source :: "expr \<Rightarrow> ast_expression" where
  "statement_source (Binary_operator_expr t a b) =
     Ast_binary_operator (source Assignment a) (binary_text t) (source Assignment b)"
| "statement_source (For_expr order v l u i b) =
     Ast_for_expr (order_text order) (declaration_source v)
       (Ast_integer_range (source Statement l) (source Statement i) (source Statement u))
       (Ast_block (map statement_source (body_of b)) False)"
| "statement_source (If_expr c t e) =
     Ast_if_expr (source Statement c) (Ast_block (map statement_source (body_of t)) False)
       (case e of None \<Rightarrow> None | Some b \<Rightarrow> Some (Ast_block (map statement_source (body_of b)) False))"
| "statement_source (Local_variable_def_expr v i) = Ast_let_expr (declaration_source v) (source Statement i)"
| "statement_source e = Ast_index 0"
  by pat_completeness auto

termination
  by (relation "measure size") (auto dest!: body_of_size)

definition block_source :: "expr \<Rightarrow> ast_expression_block" where
  "block_source b = Ast_block (map statement_source (body_of b)) False"

section \<open>The analyzer gives the expression back\<close>

text \<open>Two variables, expressions or tables that agree up to the addresses of variables.\<close>

definition erase_var :: "variable_declaration \<Rightarrow> variable_declaration" where
  "erase_var v = v\<lparr>var_id := 0\<rparr>"

fun erase :: "expr \<Rightarrow> expr" where
  "erase (Binary_operator_expr t a b) = Binary_operator_expr t (erase a) (erase b)"
| "erase (Unary_operator_expr t a) = Unary_operator_expr t (erase a)"
| "erase (Compound_expr order es) = Compound_expr order (map erase es)"
| "erase (For_expr order v l u i b) = For_expr order (erase_var v) (erase l) (erase u) (erase i) (erase b)"
| "erase (If_expr c t e) = If_expr (erase c) (erase t) (map_option erase e)"
| "erase (Integer_range_expr l u i) = Integer_range_expr (erase l) (erase u) (erase i)"
| "erase (Subscription_expr a es) = Subscription_expr (erase a) (map erase es)"
| "erase (Member_access_expr a n) = Member_access_expr (erase a) n"
| "erase (Type_conversion_expr t a) = Type_conversion_expr t (erase a)"
| "erase (Local_variable_def_expr v i) = Local_variable_def_expr (erase_var v) (erase i)"
| "erase (Construct_expr t es) = Construct_expr t (map erase es)"
| "erase (Intrinsic_function_expr n es) = Intrinsic_function_expr n (map erase es)"
| "erase (Macro_expr ps b) = Macro_expr (map erase_var ps) (erase b)"
| "erase (Variable_ref_expr v) = Variable_ref_expr (erase_var v)"
| "erase e = e"

lemma is_access_erase [simp]: "is_access (erase e) = is_access e"
  by (cases e) simp_all

lemma is_access_erased: "erase e' = erase e \<Longrightarrow> is_access e \<Longrightarrow> is_access e'"
  by (metis is_access_erase)

definition same_names :: "symbol_scope list \<Rightarrow> symbol_scope list \<Rightarrow> bool" where
  "same_names = list_all2 (\<lambda>m m'. \<forall>n. map_option erase_var (m n) = map_option erase_var (m' n))"

lemma same_names_simps [simp]:
  "same_names [] [] = True"
  "same_names (m # sc) (m' # sc') \<longleftrightarrow>
     (\<forall>n. map_option erase_var (m n) = map_option erase_var (m' n)) \<and> same_names sc sc'"
  by (simp_all add: same_names_def)

lemma same_names_lookup:
  "same_names sc sc' \<Longrightarrow> map_option erase_var (lookup_scopes sc n) = map_option erase_var (lookup_scopes sc' n)"
  unfolding same_names_def
proof (induction rule: list_all2_induct)
  case (Cons m sc m' sc')
  from Cons(1) have "map_option erase_var (m n) = map_option erase_var (m' n)" by blast
  with Cons(3) show ?case by (auto split: option.splits)
qed simp

lemma same_names_tl: "same_names sc sc' \<Longrightarrow> same_names (tl sc) (tl sc')"
  by (cases sc; cases sc') (auto simp: same_names_def)

lemma create_variable_source:
  assumes "declare_in v sc = Some sc1" and "same_names sc (scopes s)" and "readable_type (var_type v)"
  shows "\<exists>v' s1. create_variable s (declaration_source v) = Inr (v', s1) \<and> erase_var v' = erase_var v \<and>
    same_names sc1 (scopes s1)"
proof -
  obtain m outer m' outer' where sc: "sc = m # outer" "scopes s = m' # outer'" "m (var_name v) = None"
    "sc1 = m(var_name v \<mapsto> v) # outer"
    using assms(1,2) by (cases sc; cases "scopes s") (auto simp: same_names_def split: if_splits)
  have same: "\<forall>n. map_option erase_var (m n) = map_option erase_var (m' n)" "same_names outer outer'"
    using assms(2) sc by simp_all
  then have "m' (var_name v) = None" using sc(3) by (metis map_option_is_None)
  then show ?thesis
    using sc same assms(3) by (simp add: create_variable_def declaration_source_def erase_var_def Let_def)
qed

lemma resolved_all_same:
  "\<forall>e \<in> set es. \<forall>sc sc'. resolved e sc = Some sc' \<longrightarrow> sc' = sc \<Longrightarrow> resolved_all es sc = Some sc' \<Longrightarrow> sc' = sc"
  by (induction es arbitrary: sc) (auto simp: bind_eq_Some_conv)

lemma readable_resolved: "readable r e \<Longrightarrow> resolved e sc = Some sc' \<Longrightarrow> sc' = sc"
proof (induction r e arbitrary: sc sc' rule: readable.induct)
  case (6 r a es)
  then show ?case by (fastforce simp: bind_eq_Some_conv dest: resolved_all_same [rotated])
next
  case (8 r n es)
  then show ?case by (auto dest: resolved_all_same [rotated])
next
  case (9 r l u i)
  then show ?case by (fastforce simp: bind_eq_Some_conv)
qed (auto simp: bind_eq_Some_conv split: if_splits)

lemma resolved_all_readable:
  assumes "resolved_all es sc = Some sc'" and "\<forall>e \<in> set es. readable True e"
  shows "\<forall>e \<in> set es. resolved e sc = Some sc"
  using assms
proof (induction es)
  case (Cons e es)
  then obtain sc1 where "resolved e sc = Some sc1" "resolved_all es sc1 = Some sc'"
    by (auto simp: bind_eq_Some_conv)
  moreover from this(1) Cons.prems(2) have "sc1 = sc" by (auto dest: readable_resolved)
  ultimately show ?case using Cons by simp
qed simp

lemma rbind_Inr_id [simp]: "rbind m Inr = m"
  by (cases m) simp_all

lemma analyze_exprs_source:
  assumes "\<forall>e \<in> set es. \<exists>e'. analyze_expr (f e) s = Inr (e', s) \<and> erase e' = erase e"
  shows "\<exists>es'. analyze_exprs (map f es) s = Inr (es', s) \<and> map erase es' = map erase es"
  using assms by (induction es) fastforce+

lemma analyze_in_brackets [simp]: "analyze_expr (in_brackets b e) s = analyze_expr e s"
  by (cases "analyze_expr e s") (auto simp: in_brackets_def)

lemma analyze_qualifiers_snoc:
  "analyze_qualifiers (qs @ [q]) arg s = rbind (analyze_qualifiers qs arg s) (\<lambda>(arg', s'). analyze_qualifier q arg' s')"
  by (induction qs arbitrary: arg s) (auto simp: rbind_assoc split_def intro!: rbind_cong)

lemma analyze_qualifiers_access:
  "analyze_qualifiers qs arg s = Inr (e, s') \<Longrightarrow> qs \<noteq> [] \<Longrightarrow> \<exists>x. analyze_qualifiers qs arg s = Inr (e, s') \<and> is_access e"
proof (induction qs arbitrary: arg s)
  case (Cons q qs)
  then obtain a1 s1 where a: "analyze_qualifier q arg s = Inr (a1, s1)" "analyze_qualifiers qs a1 s1 = Inr (e, s')"
    by (auto simp: rbind_Inr_iff)
  from a(1) have "is_access a1" by (cases q) (auto simp: rbind_Inr_iff)
  with Cons a show ?case by (cases "qs = []") auto
qed simp

lemma analyze_add_qualifier:
  assumes "analyze_expr (Ast_qualified_expr b qs) s = Inr (arg, s1)" and "is_access arg"
  shows "analyze_expr (add_qualifier (Ast_qualified_expr b qs) q) s = analyze_qualifier q arg s1"
proof -
  obtain arg0 s0 where a: "analyze_expr b s = Inr (arg0, s0)"
    using assms(1) by (auto simp: rbind_Inr_iff)
  show ?thesis
  proof (cases "qs = []")
    case True
    with assms a show ?thesis by (auto simp: split_def)
  next
    case False
    with assms(1) a have "is_access arg0" "analyze_qualifiers qs arg0 s0 = Inr (arg, s1)"
      by (auto split: if_splits)
    with False a show ?thesis by (simp add: analyze_qualifiers_snoc)
  qed
qed

lemma analyze_add_qualifier_shape:
  assumes "\<exists>b qs. x = Ast_qualified_expr b qs" and "analyze_expr x s = Inr (arg, s1)" and "is_access arg"
  shows "analyze_expr (add_qualifier x q) s = analyze_qualifier q arg s1"
  using assms analyze_add_qualifier by blast

lemma add_qualifier_shape: "\<exists>b qs. add_qualifier x q = Ast_qualified_expr b qs"
  by (cases x rule: ast_expression.exhaust) auto

lemma access_source: "is_access e \<Longrightarrow> \<exists>b qs. source p e = Ast_qualified_expr b qs"
  by (cases e) (auto simp: add_qualifier_shape)

lemma readable_operator_cases:
  assumes "readable_operator t"
  obtains "t = Plus" | "t = Minus" | "t = Multiplies" | "t = Divides" | "t = Modulus" | "t = Equal_to"
    | "t = Not_equal_to" | "t = Less" | "t = Greater"
  using assms by (auto simp: readable_operator_def)

lemma binary_tag_of_text: "readable_operator t \<or> t = Assign \<or> t = Plus_assign \<Longrightarrow> binary_operator_tag (binary_text t) = Inr t"
  by (auto simp: readable_operator_def binary_text_def binary_operator_tag_def)

lemma unary_tag_of_text: "t = Plus_u \<or> t = Negate \<Longrightarrow> unary_operator_tag (unary_text t) = Inr t"
  by (auto simp: unary_text_def unary_operator_tag_def)

lemma analyze_source:
  assumes "readable r e" and "resolved e sc = Some sc'" and "same_names sc (scopes s)"
  shows "\<exists>e'. analyze_expr (source p e) s = Inr (e', s) \<and> erase e' = erase e"
  using assms
proof (induction r e arbitrary: p sc' rule: readable.induct)
  case (1 r v)
  then have "lookup_scopes sc (var_name v) = Some v" by (simp split: if_splits)
  then have look: "map_option erase_var (lookup_scopes (scopes s) (var_name v)) = Some (erase_var v)"
    using same_names_lookup [OF "1.prems"(3), of "var_name v"] by (metis option.simps(9))
  show ?case
  proof (cases "lookup_scopes (scopes s) (var_name v)")
    case None
    with look show ?thesis by simp
  next
    case (Some v')
    with look show ?thesis by (simp add: lookup_symbol_def)
  qed
next
  case (4 r t a)
  from "4.prems" "4.IH" [of sc' Unary] obtain a' where
    "analyze_expr (source Unary a) s = Inr (a', s)" "erase a' = erase a" by auto
  with "4.prems"(1) unary_tag_of_text [of t] show ?case by auto
next
  case (5 r t a b)
  from "5.prems"(1,2) obtain sc1 where r: "readable False a" "readable False b" "resolved a sc = Some sc1" "resolved b sc1 = Some sc'"
    by (auto simp: bind_eq_Some_conv)
  then have "sc1 = sc" by (auto dest: readable_resolved)
  with r "5.IH"(1) [of sc1 "operator_level t"] "5.IH"(2) [of sc' "operator_level t"] "5.prems"(3) obtain a' b' where
    "analyze_expr (source (operator_level t) a) s = Inr (a', s)" "erase a' = erase a"
    "analyze_expr (source (operator_level t) b) s = Inr (b', s)" "erase b' = erase b" by auto
  with "5.prems"(1) binary_tag_of_text [of t] show ?case by simp
next
  case (6 r a es)
  from "6.prems"(1,2) obtain sc1 where r: "is_access a" "readable False a" "\<forall>e \<in> set es. readable True e"
    "resolved a sc = Some sc1" "resolved_all es sc1 = Some sc'"
    by (auto simp: bind_eq_Some_conv)
  then have "sc1 = sc" by (auto dest: readable_resolved)
  with r "6.IH"(1) [of sc1 Qualifier] "6.prems"(3) obtain a' where
    a: "analyze_expr (source Qualifier a) s = Inr (a', s)" "erase a' = erase a" by auto
  have "\<forall>e \<in> set es. resolved e sc = Some sc" using resolved_all_readable r(3,5) \<open>sc1 = sc\<close> by blast
  with r(3) "6.IH"(2) "6.prems"(3) have "\<forall>e \<in> set es. \<exists>e'. analyze_expr (source Statement e) s = Inr (e', s) \<and> erase e' = erase e"
    by blast
  then obtain es' where es: "analyze_exprs (map (source Statement) es) s = Inr (es', s)" "map erase es' = map erase es"
    using analyze_exprs_source by blast
  from analyze_add_qualifier_shape [OF access_source [OF r(1)] a(1) is_access_erased [OF a(2) r(1)]]
  show ?case using a es by simp
next
  case (7 r a n)
  from "7.prems" "7.IH" [of sc' Qualifier] obtain a' where
    a: "analyze_expr (source Qualifier a) s = Inr (a', s)" "erase a' = erase a" by auto
  have acc: "is_access a" using "7.prems"(1) by simp
  from analyze_add_qualifier_shape [OF access_source [OF acc] a(1) is_access_erased [OF a(2) acc]]
  show ?case using a by simp
next
  case (8 r n es)
  then have "\<forall>e \<in> set es. resolved e sc = Some sc" using resolved_all_readable by auto
  with "8.prems" "8.IH" have "\<forall>e \<in> set es. \<exists>e'. analyze_expr (source Statement e) s = Inr (e', s) \<and> erase e' = erase e"
    by auto
  then obtain es' where es: "analyze_exprs (map (source Statement) es) s = Inr (es', s)" "map erase es' = map erase es"
    using analyze_exprs_source by blast
  then show ?case by simp
next
  case (9 r l u i)
  from "9.prems"(1,2) obtain sc1 sc2 where r: "readable False l" "readable False u" "readable False i"
    "resolved l sc = Some sc1" "resolved u sc1 = Some sc2" "resolved i sc2 = Some sc'"
    by (auto simp: bind_eq_Some_conv)
  then have "sc1 = sc" "sc2 = sc" by (auto dest: readable_resolved)
  with r "9.IH"(1) [of sc1 Statement] "9.IH"(2) [of sc2 Statement] "9.IH"(3) [of sc' Statement] "9.prems"(1,3)
  obtain l' u' i' where
    "analyze_expr (source Statement l) s = Inr (l', s)" "erase l' = erase l"
    "analyze_expr (source Statement u) s = Inr (u', s)" "erase u' = erase u"
    "analyze_expr (source Statement i) s = Inr (i', s)" "erase i' = erase i" by auto
  then show ?case by simp
qed auto

subsection \<open>Statements\<close>

definition read_back :: "(symbol_table \<Rightarrow> (expr \<times> symbol_table) result) \<Rightarrow> expr \<Rightarrow> bool" where
  "read_back f e \<longleftrightarrow> (\<forall>sc sc' s. resolved e sc = Some sc' \<longrightarrow> same_names sc (scopes s) \<longrightarrow>
     (\<exists>e' s'. f s = Inr (e', s') \<and> erase e' = erase e \<and> same_names sc' (scopes s')))"

lemma read_backD:
  assumes "read_back f e" and "resolved e sc = Some sc'" and "same_names sc (scopes s)"
  obtains e' s' where "f s = Inr (e', s')" and "erase e' = erase e" and "same_names sc' (scopes s')"
  using assms unfolding read_back_def by blast

lemma read_back_source: "readable r e \<Longrightarrow> read_back (analyze_expr (source p e)) e"
  unfolding read_back_def by (metis analyze_source readable_resolved)

lemma read_back_list:
  assumes "\<forall>e \<in> set es. read_back (analyze_expr (f e)) e" and "resolved_all es sc = Some sc'"
    and "same_names sc (scopes s)"
  shows "\<exists>es' s'. analyze_exprs (map f es) s = Inr (es', s') \<and> map erase es' = map erase es \<and> same_names sc' (scopes s')"
  using assms
proof (induction es arbitrary: sc s)
  case (Cons e es)
  from Cons.prems(2) obtain sc1 where r: "resolved e sc = Some sc1" "resolved_all es sc1 = Some sc'"
    by (auto simp: bind_eq_Some_conv)
  from read_backD [OF _ r(1) Cons.prems(3), of "analyze_expr (f e)"] Cons.prems(1) obtain e' s1 where
    a: "analyze_expr (f e) s = Inr (e', s1)" "erase e' = erase e" "same_names sc1 (scopes s1)" by auto
  from Cons.IH [OF _ r(2) a(3)] Cons.prems(1) obtain es' s' where
    "analyze_exprs (map f es) s1 = Inr (es', s')" "map erase es' = map erase es" "same_names sc' (scopes s')" by auto
  with a show ?case by simp
qed simp

lemma read_back_block:
  assumes "is_block b" and "\<forall>e \<in> set (body_of b). read_back (analyze_expr (f e)) e"
  shows "read_back (analyze_block (Ast_block (map f (body_of b)) k)) b"
proof -
  from assms(1) obtain es where b: "b = Compound_expr Sequential es" by (cases b) auto
  show ?thesis
    unfolding read_back_def
  proof (intro allI impI)
    fix sc sc' and s :: symbol_table assume "resolved b sc = Some sc'" "same_names sc (scopes s)"
    with read_back_list [of es f sc sc' s] assms(2) b obtain es' s' where
      "analyze_exprs (map f es) s = Inr (es', s')" "map erase es' = map erase es" "same_names sc' (scopes s')" by auto
    then show "\<exists>e' s'. analyze_block (Ast_block (map f (body_of b)) k) s = Inr (e', s') \<and> erase e' = erase b \<and>
        same_names sc' (scopes s')"
      by (simp add: b)
  qed
qed

lemma same_names_enter: "same_names sc (scopes s) \<Longrightarrow> same_names ((\<lambda>n. None) # sc) (scopes (enter_scope s))"
  by simp

lemma loop_ordering_text [simp]: "loop_ordering (order_text order) = Inr order"
  by (cases order) (simp_all add: loop_ordering_def)

lemma read_back_statement: "statement e \<Longrightarrow> read_back (analyze_expr (statement_source e)) e"
proof (induction e rule: statement.induct)
  case (1 t a b)
  show ?case
    unfolding read_back_def
  proof (intro allI impI)
    fix sc sc' and s :: symbol_table assume r: "resolved (Binary_operator_expr t a b) sc = Some sc'" "same_names sc (scopes s)"
    then obtain sc1 where r1: "resolved a sc = Some sc1" "resolved b sc1 = Some sc'" by (auto simp: bind_eq_Some_conv)
    from 1 have ab: "readable False a" "readable True b" "t = Assign \<or> t = Plus_assign" by auto
    from analyze_source [OF ab(1) r1(1) r(2), of Assignment] obtain a' where
      a: "analyze_expr (source Assignment a) s = Inr (a', s)" "erase a' = erase a" by blast
    have sc: "sc1 = sc" "sc' = sc" using readable_resolved ab(1,2) r1 by blast+
    from analyze_source [OF ab(2), of sc sc' s Assignment] r1 r(2) sc obtain b' where
      b: "analyze_expr (source Assignment b) s = Inr (b', s)" "erase b' = erase b" by auto
    have "binary_operator_tag (binary_text t) = Inr t" using ab(3) binary_tag_of_text by blast
    with a b r sc show "\<exists>e' s'. analyze_expr (statement_source (Binary_operator_expr t a b)) s = Inr (e', s') \<and>
        erase e' = erase (Binary_operator_expr t a b) \<and> same_names sc' (scopes s')" by simp
  qed
next
  case (2 order v l u i b)
  show ?case
    unfolding read_back_def
  proof (intro allI impI)
    fix sc sc' and s :: symbol_table assume r: "resolved (For_expr order v l u i b) sc = Some sc'" "same_names sc (scopes s)"
    then obtain sc0 sc1 sc2 sc3 sc4 where r1: "declare_in v ((\<lambda>n. None) # sc) = Some sc0" "resolved l sc0 = Some sc1"
      "resolved u sc1 = Some sc2" "resolved i sc2 = Some sc3" "resolved b sc3 = Some sc4" "sc' = tl sc4"
      by (auto simp: bind_eq_Some_conv)
    from 2 have ab: "readable_type (var_type v)" "readable False l" "readable False u" "readable False i"
      by (auto simp: readable_declaration_def)
    from create_variable_source [OF r1(1) same_names_enter [OF r(2)] ab(1)] obtain v' s1 where
      v: "create_variable (enter_scope s) (declaration_source v) = Inr (v', s1)" "erase_var v' = erase_var v"
        "same_names sc0 (scopes s1)" by blast
    have sc: "sc1 = sc0" "sc2 = sc0" "sc3 = sc0" using readable_resolved ab r1 by blast+
    from analyze_source [OF ab(2) r1(2) v(3), of Statement] obtain l' where
      l: "analyze_expr (source Statement l) s1 = Inr (l', s1)" "erase l' = erase l" by blast
    from analyze_source [OF ab(3), of sc1 sc2 s1 Statement] r1(3) v(3) sc obtain u' where
      u: "analyze_expr (source Statement u) s1 = Inr (u', s1)" "erase u' = erase u" by auto
    from analyze_source [OF ab(4), of sc2 sc3 s1 Statement] r1(4) v(3) sc obtain i' where
      i: "analyze_expr (source Statement i) s1 = Inr (i', s1)" "erase i' = erase i" by auto
    have "read_back (analyze_block (Ast_block (map statement_source (body_of b)) False)) b"
      by (rule read_back_block) (use 2 in auto)
    from read_backD [OF this, of sc0 sc4 s1] r1(5) sc v(3) obtain b' s2 where
      b: "analyze_block (Ast_block (map statement_source (body_of b)) False) s1 = Inr (b', s2)" "erase b' = erase b"
        "same_names sc4 (scopes s2)" by auto
    show "\<exists>e' s'. analyze_expr (statement_source (For_expr order v l u i b)) s = Inr (e', s') \<and>
        erase e' = erase (For_expr order v l u i b) \<and> same_names sc' (scopes s')"
      using v l u i b by (simp add: scoped_run_def r1(6) same_names_tl)
  qed
next
  case (3 c t eb)
  show ?case
    unfolding read_back_def
  proof (intro allI impI)
    fix sc sc' and s :: symbol_table assume r: "resolved (If_expr c t eb) sc = Some sc'" "same_names sc (scopes s)"
    then obtain sc1 sc2 sc3 where r1: "resolved c ((\<lambda>n. None) # sc) = Some sc1" "resolved t sc1 = Some sc2"
      "resolved_opt eb sc2 = Some sc3" "sc' = tl sc3" by (auto simp: bind_eq_Some_conv)
    from 3 have c: "readable True c" by auto
    from analyze_source [OF c r1(1) same_names_enter [OF r(2)], of Statement] obtain c' where
      c': "analyze_expr (source Statement c) (enter_scope s) = Inr (c', enter_scope s)" "erase c' = erase c" by blast
    have sc: "sc1 = (\<lambda>n. None) # sc" using readable_resolved [OF c r1(1)] .
    have "read_back (analyze_block (Ast_block (map statement_source (body_of t)) False)) t"
      by (rule read_back_block) (use 3 in auto)
    from read_backD [OF this r1(2), of "enter_scope s"] sc r(2) obtain t' s2 where
      t: "analyze_block (Ast_block (map statement_source (body_of t)) False) (enter_scope s) = Inr (t', s2)"
        "erase t' = erase t" "same_names sc2 (scopes s2)" by auto
    have "\<exists>eb' s3. analyze_else (case eb of None \<Rightarrow> None | Some b \<Rightarrow> Some (Ast_block (map statement_source (body_of b)) False)) s2 =
        Inr (eb', s3) \<and> map_option erase eb' = map_option erase eb \<and> same_names sc3 (scopes s3)"
    proof (cases eb)
      case None
      with r1(3) t(3) show ?thesis by simp
    next
      case (Some b)
      have "read_back (analyze_block (Ast_block (map statement_source (body_of b)) False)) b"
        by (rule read_back_block) (use 3 Some in auto)
      from read_backD [OF this _ t(3), of sc3] r1(3) Some show ?thesis by fastforce
    qed
    with t c' show "\<exists>e' s'. analyze_expr (statement_source (If_expr c t eb)) s = Inr (e', s') \<and>
        erase e' = erase (If_expr c t eb) \<and> same_names sc' (scopes s')"
      by (auto simp: scoped_run_def r1(4) same_names_tl)
  qed
next
  case (4 v i)
  show ?case
    unfolding read_back_def
  proof (intro allI impI)
    fix sc sc' and s :: symbol_table assume r: "resolved (Local_variable_def_expr v i) sc = Some sc'" "same_names sc (scopes s)"
    then obtain sc1 where r1: "declare_in v sc = Some sc1" "resolved i sc1 = Some sc'" by (auto simp: bind_eq_Some_conv)
    from 4 have ab: "readable_type (var_type v)" "readable True i" by (auto simp: readable_declaration_def)
    from create_variable_source [OF r1(1) r(2) ab(1)] obtain v' s1 where
      v: "create_variable s (declaration_source v) = Inr (v', s1)" "erase_var v' = erase_var v"
        "same_names sc1 (scopes s1)" by blast
    from analyze_source [OF ab(2) r1(2) v(3), of Statement] obtain i' where
      "analyze_expr (source Statement i) s1 = Inr (i', s1)" "erase i' = erase i" by blast
    with v readable_resolved [OF ab(2) r1(2)]
    show "\<exists>e' s'. analyze_expr (statement_source (Local_variable_def_expr v i)) s = Inr (e', s') \<and>
        erase e' = erase (Local_variable_def_expr v i) \<and> same_names sc' (scopes s')" by simp
  qed
qed simp_all

subsection \<open>Functions and modules\<close>

definition function_source :: "qfunction \<Rightarrow> ast_function" where
  "function_source f =
     \<lparr>ast_fn_id = fn_name f, ast_fn_parameters = map declaration_source (fn_params f),
      ast_fn_result = declaration_source (fn_result f), ast_fn_body = block_source (fn_body f)\<rparr>"

definition struct_source :: "struct_type \<Rightarrow> ast_struct" where
  "struct_source t =
     \<lparr>ast_struct_name = struct_id t,
      ast_struct_members = map (\<lambda>(datatype, i). \<lparr>decl_name = i, decl_datatype = type_source datatype\<rparr>) (struct_members t)\<rparr>"

definition readable_function :: "qfunction \<Rightarrow> bool" where
  "readable_function f \<longleftrightarrow> readable_name (fn_name f) \<and> (\<forall>v \<in> set (fn_params f). readable_declaration v) \<and>
     readable_declaration (fn_result f) \<and> readable_block (fn_body f) \<and> function_resolved f"

definition readable_struct :: "struct_type \<Rightarrow> bool" where
  "readable_struct t \<longleftrightarrow> readable_name (struct_id t) \<and>
     (\<forall>(datatype, i) \<in> set (struct_members t). readable_name i \<and> readable_type datatype)"

definition same_function :: "qfunction \<Rightarrow> qfunction \<Rightarrow> bool" where
  "same_function f g \<longleftrightarrow> fn_name g = fn_name f \<and> map erase_var (fn_params g) = map erase_var (fn_params f) \<and>
     erase_var (fn_result g) = erase_var (fn_result f) \<and> erase (fn_body g) = erase (fn_body f)"

lemma create_variables_source:
  assumes "declare_all vs sc = Some sc1" and "same_names sc (scopes s)" and "\<forall>v \<in> set vs. readable_declaration v"
  shows "\<exists>vs' s1. create_variables s (map declaration_source vs) = Inr (vs', s1) \<and>
    map erase_var vs' = map erase_var vs \<and> same_names sc1 (scopes s1)"
  using assms
proof (induction vs arbitrary: sc s)
  case (Cons v vs)
  from Cons.prems(1) obtain sc0 where r: "declare_in v sc = Some sc0" "declare_all vs sc0 = Some sc1"
    by (auto simp: bind_eq_Some_conv)
  from create_variable_source [OF r(1) Cons.prems(2)] Cons.prems(3) obtain v' s1 where
    v: "create_variable s (declaration_source v) = Inr (v', s1)" "erase_var v' = erase_var v" "same_names sc0 (scopes s1)"
    by (auto simp: readable_declaration_def)
  from Cons.IH [OF r(2) v(3)] Cons.prems(3) obtain vs' s2 where
    "create_variables s1 (map declaration_source vs) = Inr (vs', s2)" "map erase_var vs' = map erase_var vs"
    "same_names sc1 (scopes s2)" by auto
  with v show ?case by simp
qed simp

lemma same_names_empty: "same_names [\<lambda>n. None] sc \<Longrightarrow> sc = [\<lambda>n. None]"
  by (cases sc) (auto simp: same_names_def)

lemma analyze_function_source:
  assumes f: "readable_function f" and s: "scopes s = [\<lambda>n. None]"
    and free: "function_index m (fn_name f) = None" "type_index m (fn_name f) = None"
  shows "\<exists>g s'. analyze_function (function_source f) (m, s) = Inr (m\<lparr>function_index := (function_index m)(fn_name f \<mapsto> g)\<rparr>, s') \<and>
    same_function f g \<and> scopes s' = [\<lambda>n. None]"
proof -
  from f obtain sc1 sc2 where r: "declare_all (fn_params f @ [fn_result f]) [\<lambda>n. None, \<lambda>n. None] = Some sc1"
    "resolved (fn_body f) sc1 = Some sc2"
    by (auto simp: readable_function_def function_resolved_def bind_eq_Some_conv)
  then obtain sc0 where r0: "declare_all (fn_params f) [\<lambda>n. None, \<lambda>n. None] = Some sc0" "declare_in (fn_result f) sc0 = Some sc1"
    by (auto simp: declare_all_append bind_eq_Some_conv)
  have "same_names [\<lambda>n. None, \<lambda>n. None] (scopes (enter_scope s))" by (simp add: s)
  from create_variables_source [OF r0(1) this] f obtain ps s1 where
    ps: "create_variables (enter_scope s) (map declaration_source (fn_params f)) = Inr (ps, s1)"
      "map erase_var ps = map erase_var (fn_params f)" "same_names sc0 (scopes s1)"
    by (auto simp: readable_function_def)
  from create_variable_source [OF r0(2) ps(3)] f obtain res s2 where
    res: "create_variable s1 (declaration_source (fn_result f)) = Inr (res, s2)" "erase_var res = erase_var (fn_result f)"
      "same_names sc1 (scopes s2)"
    by (auto simp: readable_function_def readable_declaration_def)
  have "read_back (analyze_block (block_source (fn_body f))) (fn_body f)"
    unfolding block_source_def
    by (rule read_back_block) (use f in \<open>auto simp: readable_function_def readable_block_def intro: read_back_statement\<close>)
  from read_backD [OF this r(2) res(3)] obtain b s3 where
    b: "analyze_block (block_source (fn_body f)) s2 = Inr (b, s3)" "erase b = erase (fn_body f)" "same_names sc2 (scopes s3)"
    by blast
  have "tl sc2 = [\<lambda>n. None]"
    using resolved_frame(1) [OF r(2)] declare_all_frame [OF r(1)] by simp
  with same_names_tl [OF b(3)] have "scopes (leave_scope s3) = [\<lambda>n. None]" by (auto dest: same_names_empty)
  moreover have "analyze_function (function_source f) (m, s) =
      Inr (m\<lparr>function_index := (function_index m)(fn_name f \<mapsto> make_function (mod_address m) (fn_name f) ps res b)\<rparr>,
        leave_scope s3)"
    using ps(1) res(1) b(1) free
    by (simp add: analyze_function_def scoped_run_def analyze_signature_and_body_def function_source_def add_function_def)
  moreover have "same_function f (make_function (mod_address m) (fn_name f) ps res b)"
    using ps(2) res(2) b(2) by (simp add: same_function_def make_function_def)
  ultimately show ?thesis by blast
qed

lemma analyze_functions_source:
  assumes "\<forall>f \<in> set fs. readable_function f \<and> function_index m (fn_name f) = None \<and> type_index m (fn_name f) = None"
    and "distinct (map fn_name fs)" and "scopes s = [\<lambda>n. None]"
  shows "\<exists>m' s'. analyze_definitions (map (\<lambda>f. Ast_function_def (function_source f)) fs) (m, s) = Inr (m', s') \<and>
    mod_id m' = mod_id m \<and> type_index m' = type_index m \<and>
    (\<forall>f \<in> set fs. \<exists>g. function_index m' (fn_name f) = Some g \<and> same_function f g) \<and>
    (\<forall>n. n \<notin> fn_name ` set fs \<longrightarrow> function_index m' n = function_index m n)"
  using assms
proof (induction fs arbitrary: m s)
  case (Cons f fs)
  from analyze_function_source [of f s m] Cons.prems obtain g s1 where
    g: "analyze_function (function_source f) (m, s) = Inr (m\<lparr>function_index := (function_index m)(fn_name f \<mapsto> g)\<rparr>, s1)"
      "same_function f g" "scopes s1 = [\<lambda>n. None]" by auto
  let ?m = "m\<lparr>function_index := (function_index m)(fn_name f \<mapsto> g)\<rparr>"
  have "\<forall>f \<in> set fs. readable_function f \<and> function_index ?m (fn_name f) = None \<and> type_index ?m (fn_name f) = None"
    using Cons.prems by auto (metis imageI)
  from Cons.IH [OF this _ g(3)] Cons.prems(2) obtain m' s' where
    m': "analyze_definitions (map (\<lambda>f. Ast_function_def (function_source f)) fs) (?m, s1) = Inr (m', s')"
      "mod_id m' = mod_id ?m" "type_index m' = type_index ?m"
      "\<forall>f \<in> set fs. \<exists>g. function_index m' (fn_name f) = Some g \<and> same_function f g"
      "\<forall>n. n \<notin> fn_name ` set fs \<longrightarrow> function_index m' n = function_index ?m n" by auto
  have "fn_name f \<notin> fn_name ` set fs" using Cons.prems(2) by auto
  with m'(5) have "function_index m' (fn_name f) = Some g" by simp
  with g m' show ?case by auto
qed simp

lemma analyze_struct_source:
  assumes "readable_struct t"
  shows "analyze_struct (struct_source t) (m, s) = rbind (add_type m t) (\<lambda>m'. Inr (m', s))"
proof -
  have "traverse analyze_member (ast_struct_members (struct_source t)) = Inr (struct_members t)"
    using assms unfolding readable_struct_def struct_source_def
    by (auto simp: traverse_Inr_iff list_all2_map1 analyze_member_def split_def intro!: list.rel_refl_strong)
  then show ?thesis by (cases t) (simp add: analyze_struct_def struct_source_def)
qed

lemma analyze_structs_source:
  assumes "\<forall>t \<in> set ts. readable_struct t"
  shows "analyze_definitions (map (\<lambda>t. Ast_struct_def (struct_source t)) ts) (m, s) =
    rbind (add_types m ts) (\<lambda>m'. Inr (m', s))"
  using assms
proof (induction ts arbitrary: m)
  case (Cons t ts)
  then show ?case by (cases "add_type m t") (simp_all add: analyze_struct_source)
qed simp

lemma analyze_definitions_append:
  "analyze_definitions (ds @ es) ms = rbind (analyze_definitions ds ms) (analyze_definitions es)"
  by (induction ds arbitrary: ms) (auto simp: rbind_assoc intro!: rbind_cong)

definition module_source :: "string list \<Rightarrow> string list \<Rightarrow> qmodule \<Rightarrow> ast_module" where
  "module_source ts fs m =
     \<lparr>ast_module_id = symbol_string (mod_id m),
      ast_definitions = map (\<lambda>t. Ast_struct_def (struct_source t)) (module_types ts m) @
        map (\<lambda>f. Ast_function_def (function_source f)) (module_functions fs m)\<rparr>"

definition readable_module :: "qmodule \<Rightarrow> bool" where
  "readable_module m \<longleftrightarrow> module_inv m \<and> (\<exists>n. mod_id m = [n] \<and> readable_name n) \<and>
     (\<forall>n f. function_index m n = Some f \<longrightarrow> readable_function f) \<and>
     (\<forall>n t. type_index m n = Some t \<longrightarrow> readable_struct t)"

definition same_module :: "qmodule \<Rightarrow> qmodule \<Rightarrow> bool" where
  "same_module m m' \<longleftrightarrow> mod_id m' = mod_id m \<and> type_index m' = type_index m \<and>
     (\<forall>n. rel_option same_function (function_index m n) (function_index m' n))"

lemma parse_qir_source:
  assumes m: "readable_module m" and fs: "iteration_order fs (function_index m)" and ts: "iteration_order ts (type_index m)"
    and code: "\<forall>c \<in> set code. is_ascii c" "read code = Inr (Some (module_source ts fs m))"
  shows "\<exists>m'. parse_qir read module_address address code = Inr m' \<and> same_module m m'"
proof -
  have inv: "module_inv m" using m by (simp add: readable_module_def)
  obtain i where i: "mod_id m = [i]" "readable_name i" using m by (auto simp: readable_module_def)
  then have id: "parse_symbol_id (symbol_string (mod_id m)) = Inr (mod_id m)"
    by (simp add: symbol_id_roundtrip readable_name_def)
  let ?m0 = "new_module module_address (mod_id m)"
  have "module_inv ?m0" by (simp add: new_module_def module_inv_def)
  from copied_types [OF inv ts this] obtain m1 where m1: "add_types ?m0 (module_types ts m) = Inr m1"
    "type_index m1 = type_index m" "module_inv m1" by (auto simp: new_module_def free_symbol_def)
  from add_types_keeps [OF m1(1)] have keeps: "mod_id m1 = mod_id m" "function_index m1 = (\<lambda>n. None)"
    by (simp_all add: new_module_def)
  have "\<forall>t \<in> set (module_types ts m). readable_struct t"
    using m ts by (fastforce simp: module_types_def entries_def readable_module_def iteration_order_def)
  from analyze_structs_source [OF this, of ?m0 "new_symbol_table address"] m1(1)
  have types: "analyze_definitions (map (\<lambda>t. Ast_struct_def (struct_source t)) (module_types ts m)) (?m0, new_symbol_table address) =
      Inr (m1, new_symbol_table address)" by simp
  have fn: "function_index m n = Some f \<Longrightarrow> fn_name f = n" for n f using module_inv_names [OF inv] by blast
  have look: "n \<in> set fs \<Longrightarrow> \<exists>f. function_index m n = Some f" for n using fs by (auto simp: iteration_order_def)
  have listed: "module_functions fs m = map (\<lambda>n. the (function_index m n)) fs"
    by (simp add: module_functions_def entries_def)
  have names: "map fn_name (module_functions fs m) = fs"
    unfolding listed map_map by (rule map_idI) (use look fn in fastforce)
  have in_module: "f \<in> set (module_functions fs m) \<longleftrightarrow> function_index m (fn_name f) = Some f" for f
  proof
    assume "f \<in> set (module_functions fs m)"
    then obtain n where "n \<in> set fs" "f = the (function_index m n)" by (auto simp: listed)
    with look fn show "function_index m (fn_name f) = Some f" by force
  next
    assume "function_index m (fn_name f) = Some f"
    moreover from this have "fn_name f \<in> set fs" using fs by (auto simp: iteration_order_def)
    ultimately show "f \<in> set (module_functions fs m)" unfolding listed by force
  qed
  have "\<forall>f \<in> set (module_functions fs m). readable_function f \<and> function_index m1 (fn_name f) = None \<and> type_index m1 (fn_name f) = None"
  proof
    fix f assume "f \<in> set (module_functions fs m)"
    then have f: "function_index m (fn_name f) = Some f" using in_module by blast
    then have "readable_function f" using m unfolding readable_module_def by blast
    moreover have "type_index m (fn_name f) = None" using module_inv_disjoint [OF inv] f by fastforce
    ultimately show "readable_function f \<and> function_index m1 (fn_name f) = None \<and> type_index m1 (fn_name f) = None"
      by (simp add: keeps m1(2))
  qed
  moreover have "distinct (map fn_name (module_functions fs m))" using fs by (simp add: names iteration_order_def)
  ultimately obtain m2 s2 where m2:
    "analyze_definitions (map (\<lambda>f. Ast_function_def (function_source f)) (module_functions fs m)) (m1, new_symbol_table address) =
       Inr (m2, s2)" "mod_id m2 = mod_id m" "type_index m2 = type_index m"
    "\<forall>f \<in> set (module_functions fs m). \<exists>g. function_index m2 (fn_name f) = Some g \<and> same_function f g"
    "\<forall>n. n \<notin> fn_name ` set (module_functions fs m) \<longrightarrow> function_index m2 n = None"
    using analyze_functions_source [of "module_functions fs m" m1 "new_symbol_table address"] keeps m1(2)
    by (auto simp: new_symbol_table_def)
  have "rel_option same_function (function_index m n) (function_index m2 n)" for n
  proof (cases "function_index m n")
    case None
    then have "n \<notin> fn_name ` set (module_functions fs m)" using in_module by auto
    with m2(5) None show ?thesis by simp
  next
    case (Some f)
    then have n: "fn_name f = n" by (rule fn)
    with Some in_module have "f \<in> set (module_functions fs m)" by blast
    with m2(4) obtain g where "function_index m2 n = Some g" "same_function f g" unfolding n [symmetric] by blast
    with Some show ?thesis by simp
  qed
  then have "same_module m m2" by (simp add: same_module_def m2)
  moreover have "parse_qir read module_address address code = Inr m2"
    using code id types m2(1)
    by (simp add: parse_qir_def module_source_def analyze_definitions_append)
  ultimately show ?thesis by blast
qed

end
