(* ===== verification/QirText.thy ===== *)
theory QirText
  imports QirSource
begin

text \<open>
  The text of a module: what the printer (theory \<open>PrettyPrinter\<close>) writes for readable modules, as lines of
  characters.  The locale \<open>carrot_library\<close> states what the library carrot is used for: a text is a line,
  blocks of one line beside each other are one line, a line of blocks growing downwards has the lines of all of them,
  and indentation puts four spaces before every line.
\<close>

section \<open>The layout library\<close>

locale carrot_library =
  fixes C :: "'b carrot" and lines :: "'b \<Rightarrow> string list"
  assumes lines_text: "lines (block_text C s) = [s]"
    and lines_beside: "lines a = [x] \<Longrightarrow> lines b = [y] \<Longrightarrow> lines (block_beside C a b) = [x @ y]"
    and lines_line: "lines (block_line C bs) = concat (map lines bs)"
    and lines_indent: "lines (block_indent C b) = map (\<lambda>l. ''    '' @ l) (lines b)"

text \<open>Blocks as lists of lines satisfy the laws.\<close>

definition line_blocks :: "string list carrot" where
  "line_blocks = \<lparr>block_text = (\<lambda>s. [s]), block_beside = (\<lambda>a b. [concat a @ concat b]), block_line = concat,
     block_indent = map (\<lambda>l. ''    '' @ l)\<rparr>"

interpretation line_blocks: carrot_library line_blocks "\<lambda>b. b"
  by unfold_locales (simp_all add: line_blocks_def)

definition rendered :: "string list \<Rightarrow> string" where
  "rendered ls = concat (map (\<lambda>l. l @ [CHR 0x0A]) ls)"

section \<open>The text of expressions and statements\<close>

fun show_type :: "qtype \<Rightarrow> string" where
  "show_type Double_t = ''Double''"
| "show_type Float_t = ''Float''"
| "show_type Integer_t = ''Int''"
| "show_type Bool_t = ''Bool''"
| "show_type (Complex_t t) = ''Complex{'' @ show_type t @ ''}''"
| "show_type (Array_t t r) = ''Array{'' @ show_type t @ '', '' @ int_to_string r @ ''}''"
| "show_type t = []"

definition enclosed :: "bool \<Rightarrow> string \<Rightarrow> string" where
  "enclosed b s = (if b then ''('' @ s @ '')'' else s)"

fun comma_separated :: "string list \<Rightarrow> string" where
  "comma_separated [] = []"
| "comma_separated [s] = s"
| "comma_separated (s # ss) = s @ '', '' @ comma_separated ss"

fun show_expr :: "precedence_level \<Rightarrow> expr \<Rightarrow> string" where
  "show_expr p (Variable_ref_expr v) = var_name v"
| "show_expr p (Integer_literal_expr i) = int_to_string i"
| "show_expr p (Bool_literal_expr b) = (if b then ''true'' else ''false'')"
| "show_expr p (Unary_operator_expr t a) = enclosed (Unary < p) (unary_text t @ show_expr Unary a)"
| "show_expr p (Binary_operator_expr t a b) =
     enclosed (operator_level t < p)
       (show_expr (operator_level t) a @ '' '' @ binary_text t @ '' '' @ show_expr (operator_level t) b)"
| "show_expr p (Subscription_expr a es) =
     show_expr Qualifier a @ ''['' @ comma_separated (map (show_expr Statement) es) @ '']''"
| "show_expr p (Member_access_expr a n) = show_expr Qualifier a @ ''.'' @ n"
| "show_expr p (Intrinsic_function_expr n es) = n @ ''('' @ comma_separated (map (show_expr Statement) es) @ '')''"
| "show_expr p (Integer_range_expr l u s) =
     show_expr Statement l @ '':'' @ show_expr Statement s @ '':'' @ show_expr Statement u"
| "show_expr p e = []"

definition indented :: "string list \<Rightarrow> string list" where
  "indented ls = map (\<lambda>l. ''    '' @ l) ls"

definition show_declaration :: "variable_declaration \<Rightarrow> string" where
  "show_declaration v = var_name v @ '' :: '' @ show_type (var_type v)"

fun order_words :: "execution_order \<Rightarrow> string" where
  "order_words Sequential = ''for ''"
| "order_words Unordered = ''unordered for ''"
| "order_words Parallel = ''parallel for ''"

function (sequential) show_lines :: "expr \<Rightarrow> string list" where
  "show_lines (Binary_operator_expr t a b) =
     [show_expr Assignment a @ '' '' @ binary_text t @ '' '' @ show_expr Assignment b]"
| "show_lines (For_expr order v l u i b) =
     [order_words order @ show_declaration v @ '' in '' @ show_expr Statement l @ '':'' @ show_expr Statement i @ '':'' @
        show_expr Statement u] @ indented (concat (map show_lines (body_of b))) @ [''end'']"
| "show_lines (If_expr c t e) =
     [''if '' @ show_expr Statement c] @ indented (concat (map show_lines (body_of t))) @
       (case e of None \<Rightarrow> [] | Some b \<Rightarrow> ''else'' # indented (concat (map show_lines (body_of b)))) @ [''end'']"
| "show_lines (Local_variable_def_expr v i) = [''let '' @ show_declaration v @ '' = '' @ show_expr Statement i]"
| "show_lines e = []"
  by pat_completeness auto

termination
  by (relation "measure size") (auto dest!: body_of_size)

definition show_block :: "expr \<Rightarrow> string list" where
  "show_block b = concat (map show_lines (body_of b))"

definition show_struct :: "struct_type \<Rightarrow> string list" where
  "show_struct t = [''struct '' @ struct_id t] @
     indented (map (\<lambda>(datatype, i). i @ '' :: '' @ show_type datatype) (struct_members t)) @ [''end'']"

definition show_function :: "qfunction \<Rightarrow> string list" where
  "show_function f =
     [''function '' @ fn_name f @ ''('' @ comma_separated (map show_declaration (fn_params f)) @ '') -> '' @
        show_declaration (fn_result f)] @ indented (show_block (fn_body f)) @ [''end'']"

definition show_module :: "string list \<Rightarrow> string list \<Rightarrow> qmodule \<Rightarrow> string list" where
  "show_module ts fs m = [''module '' @ symbol_string (mod_id m), []] @ concat (map show_struct (module_types ts m)) @
     concat (map show_function (module_functions fs m))"

section \<open>The printer writes this text\<close>

context carrot_library
begin

abbreviation prints :: "'b result \<Rightarrow> string list \<Rightarrow> bool" where
  "prints r ls \<equiv> \<exists>b. r = Inr b \<and> lines b = ls"

lemma lines_beside_all:
  "list_all2 (\<lambda>b x. lines b = [x]) bs xs \<Longrightarrow> lines b = [x] \<Longrightarrow> lines (beside C (b # bs)) = [x @ concat xs]"
proof (induction bs arbitrary: b x xs)
  case (Cons c bs)
  then obtain y ys where xs: "xs = y # ys" "lines c = [y]" "list_all2 (\<lambda>b x. lines b = [x]) bs ys"
    by (auto simp: list_all2_Cons1)
  have "beside C (b # c # bs) = beside C (block_beside C b c # bs)" by (simp add: beside_def)
  with Cons.IH [OF xs(3), of "block_beside C b c" "x @ y"] xs lines_beside Cons.prems(2) show ?case by simp
qed (simp add: beside_def)

lemma lines_add_list:
  "list_all2 (\<lambda>b x. lines b = [x]) bs xs \<Longrightarrow> lines b = [x] \<Longrightarrow> lines (add_list C b bs) = [x @ comma_separated xs]"
proof (induction bs arbitrary: b x xs rule: induct_list012)
  case (2 c)
  then show ?case by (auto simp: list_all2_Cons1 intro: lines_beside)
next
  case (3 c d bs)
  then obtain y z ys where xs: "xs = y # z # ys" "lines c = [y]" "list_all2 (\<lambda>b x. lines b = [x]) (d # bs) (z # ys)"
    by (auto simp: list_all2_Cons1)
  have "lines (block_beside C (block_beside C b c) (block_text C '', '')) = [(x @ y) @ '', '']"
    using lines_beside [OF lines_beside [OF 3(4) xs(2)] lines_text] .
  from "3.IH"(2) [OF xs(3) this] show ?case by (simp add: xs)
qed simp

lemma lines_bracket: "lines b = [x] \<Longrightarrow> lines (bracket C b k) = [enclosed k x]"
  using lines_beside_all [of "[b, block_text C '')'']" "[x, '')'']" "block_text C ''(''" "''(''"]
  by (simp add: bracket_def enclosed_def lines_text)

lemma prints_type: "readable_type t \<Longrightarrow> prints (print_type C t) [show_type t]"
proof (induction t rule: readable_type.induct)
  case (5 t)
  then obtain b where b: "print_type C t = Inr b" "lines b = [show_type t]" by auto
  with lines_beside_all [of "[b, block_text C ''}'']" "[show_type t, ''}'']" "block_text C ''Complex{''" "''Complex{''"]
  show ?case by (simp add: lines_text)
next
  case (6 t r)
  then obtain b where b: "print_type C t = Inr b" "lines b = [show_type t]" by auto
  with lines_beside_all [of "[b, block_text C '', '', block_text C (int_to_string r), block_text C ''}'']"
      "[show_type t, '', '', int_to_string r, ''}'']" "block_text C ''Array{''" "''Array{''"]
  show ?case by (simp add: lines_text)
qed (simp_all add: lines_text)

lemma traverse_prints:
  assumes "\<forall>e \<in> set es. prints (print C e p) [f e]"
  shows "\<exists>bs. traverse (\<lambda>e. print C e p) es = Inr bs \<and> list_all2 (\<lambda>b x. lines b = [x]) bs (map f es)"
  using assms by (induction es) fastforce+

lemma operator_texts:
  "readable_operator t \<or> t = Assign \<or> t = Plus_assign \<Longrightarrow>
     binary_precedence_level t = Inr (operator_level t) \<and> translate_binary_op_tag t = Inr (binary_text t)"
  by (auto simp: readable_operator_def binary_text_def operator_level_def)

lemma prints_binary:
  assumes "readable_operator t \<or> t = Assign \<or> t = Plus_assign"
    and "prints (print C a (operator_level t)) [x]" and "prints (print C b (operator_level t)) [y]"
  shows "prints (print C (Binary_operator_expr t a b) p)
    [enclosed (operator_level t < p) (x @ '' '' @ binary_text t @ '' '' @ y)]"
proof -
  from assms obtain b1 b2 where b: "print C a (operator_level t) = Inr b1" "lines b1 = [x]"
    "print C b (operator_level t) = Inr b2" "lines b2 = [y]" by blast
  have "lines (beside C [b1, block_text C '' '', block_text C (binary_text t), block_text C '' '', b2]) =
      [x @ '' '' @ binary_text t @ '' '' @ y]"
    using lines_beside_all [of "[block_text C '' '', block_text C (binary_text t), block_text C '' '', b2]"
        "['' '', binary_text t, '' '', y]" b1 x] b by (simp add: lines_text)
  from lines_bracket [OF this] operator_texts [OF assms(1)] b show ?thesis by simp
qed

lemma prints_expr: "readable r e \<Longrightarrow> prints (print C e p) [show_expr p e]"
proof (induction r e arbitrary: p rule: readable.induct)
  case (4 r t a)
  then obtain b where b: "print C a Unary = Inr b" "lines b = [show_expr Unary a]" by fastforce
  have "translate_unary_op_tag t = Inr (unary_text t)" using 4 by (auto simp: unary_text_def)
  with b lines_bracket [OF lines_beside [OF lines_text b(2)]] show ?case
    by (simp add: unary_precedence_level_def)
next
  case (5 r t a b)
  then have "readable_operator t" "prints (print C a (operator_level t)) [show_expr (operator_level t) a]"
    "prints (print C b (operator_level t)) [show_expr (operator_level t) b]" by auto
  with prints_binary [of t a "show_expr (operator_level t) a" b "show_expr (operator_level t) b" p] show ?case
    by (simp del: print.simps)
next
  case (6 r a es)
  from 6 obtain b where b: "print C a Qualifier = Inr b" "lines b = [show_expr Qualifier a]" by fastforce
  from 6 traverse_prints [of es Statement "show_expr Statement"] obtain bs where
    bs: "traverse (\<lambda>e. print C e Statement) es = Inr bs"
      "list_all2 (\<lambda>b x. lines b = [x]) bs (map (show_expr Statement) es)" by auto
  have "lines (block_beside C (add_list C (block_beside C b (block_text C ''['')) bs) (block_text C '']'')) =
      [((show_expr Qualifier a @ ''['') @ comma_separated (map (show_expr Statement) es)) @ '']'']"
    by (intro lines_beside lines_add_list lines_text bs(2) b(2))
  with b bs show ?case by (cases p) (simp_all add: bracket_def)
next
  case (7 r a n)
  from 7 obtain b where b: "print C a Qualifier = Inr b" "lines b = [show_expr Qualifier a]" by fastforce
  with lines_beside_all [of "[block_text C ''.'', block_text C n]" "[''.'', n]" b "show_expr Qualifier a"] show ?case
    by (cases p) (simp_all add: lines_text bracket_def)
next
  case (8 r n es)
  from 8 traverse_prints [of es Statement "show_expr Statement"] obtain bs where
    bs: "traverse (\<lambda>e. print C e Statement) es = Inr bs"
      "list_all2 (\<lambda>b x. lines b = [x]) bs (map (show_expr Statement) es)" by auto
  have "lines (block_beside C (add_list C (block_beside C (block_text C n) (block_text C ''('')) bs) (block_text C '')'')) =
      [((n @ ''('') @ comma_separated (map (show_expr Statement) es)) @ '')'']"
    by (intro lines_beside lines_add_list lines_text bs(2))
  with bs show ?case by simp
next
  case (9 r l u s)
  then obtain x y z where b: "print C l Statement = Inr x" "lines x = [show_expr Statement l]"
    "print C u Statement = Inr y" "lines y = [show_expr Statement u]"
    "print C s Statement = Inr z" "lines z = [show_expr Statement s]" by fastforce
  with lines_beside_all [of "[block_text C '':'', z, block_text C '':'', y]"
      "['':'', show_expr Statement s, '':'', show_expr Statement u]" x "show_expr Statement l"]
  show ?case by (simp add: lines_text)
qed (simp_all add: lines_text)

lemma prints_declaration:
  assumes "readable_type (var_type v)"
  shows "\<exists>bs. print_declaration C v = Inr bs \<and>
    list_all2 (\<lambda>b x. lines b = [x]) bs [var_name v, '' :: '', show_type (var_type v)]"
  using prints_type [OF assms] by (auto simp: print_declaration_def lines_text)

lemma lines_one: "lines b = [x] \<Longrightarrow> lines (block_line C (b # bs)) = x # concat (map lines bs)"
  by (simp add: lines_line)

lemma prints_block:
  assumes "is_block b" and "\<forall>e \<in> set (body_of b). prints (print C e Statement) (show_lines e)"
  shows "prints (print C b p) (show_block b)"
proof -
  obtain es where b: "b = Compound_expr Sequential es" using assms(1) by (cases b) auto
  have "\<exists>bs. traverse (\<lambda>e. print C e Statement) es = Inr bs \<and> map lines bs = map show_lines es"
    using assms(2) unfolding b by (simp, induction es) fastforce+
  then show ?thesis by (auto simp: b show_block_def lines_line)
qed

lemma prints_statement: "statement e \<Longrightarrow> prints (print C e Statement) (show_lines e)"
proof (induction e rule: statement.induct)
  case (1 t a b)
  then have t: "t = Assign \<or> t = Plus_assign" "readable False a" "readable True b" by auto
  then have "operator_level t = Assignment" by (auto simp: operator_level_def)
  with prints_binary [of t a "show_expr Assignment a" b "show_expr Assignment b" Statement] t
    prints_expr [OF t(2), of Assignment] prints_expr [OF t(3), of Assignment]
  show ?case by (simp del: print.simps add: enclosed_def)
next
  case (2 order v l u i b)
  then have r: "readable_type (var_type v)" "readable False l" "readable False u" "readable False i" "is_block b"
    by (auto simp: readable_declaration_def)
  from prints_type [OF r(1)] obtain t where t: "print_type C (var_type v) = Inr t" "lines t = [show_type (var_type v)]"
    by blast
  from prints_expr [OF r(2), of Statement] prints_expr [OF r(4), of Statement] prints_expr [OF r(3), of Statement]
  obtain x y z where x: "print C l Statement = Inr x" "lines x = [show_expr Statement l]"
    and y: "print C i Statement = Inr y" "lines y = [show_expr Statement i]"
    and z: "print C u Statement = Inr z" "lines z = [show_expr Statement u]" by blast
  have "prints (print C b Statement) (show_block b)" by (rule prints_block [OF r(5)]) (use 2 in auto)
  then obtain body where b: "print C b Statement = Inr body" "lines body = show_block b" by blast
  have head: "print_loop_head C order = block_text C (order_words order)"
    by (cases order) (simp_all add: print_loop_head_def)
  have "lines (beside C [print_loop_head C order, block_text C (var_name v), block_text C '' :: '', t, block_text C '' in '',
      x, block_text C '':'', y, block_text C '':'', z]) = [order_words order @ concat [var_name v, '' :: '', show_type (var_type v),
      '' in '', show_expr Statement l, '':'', show_expr Statement i, '':'', show_expr Statement u]]"
    unfolding head by (rule lines_beside_all) (simp_all add: lines_text t x y z)
  with t x y z b show ?case
    by (simp add: lines_line lines_indent lines_text show_declaration_def indented_def show_block_def)
next
  case (3 c t eb)
  then have r: "readable True c" "is_block t" by auto
  from prints_expr [OF r(1), of Statement] obtain x where x: "print C c Statement = Inr x" "lines x = [show_expr Statement c]"
    by blast
  have "prints (print C t Statement) (show_block t)" by (rule prints_block [OF r(2)]) (use 3 in auto)
  then obtain y where y: "print C t Statement = Inr y" "lines y = show_block t" by blast
  have head: "lines (block_beside C (block_text C ''if '') x) = [''if '' @ show_expr Statement c]"
    by (rule lines_beside [OF lines_text x(2)])
  show ?case
  proof (cases eb)
    case None
    with x y head show ?thesis
      by (simp add: lines_line lines_indent lines_text indented_def show_block_def)
  next
    case (Some b)
    have "prints (print C b Statement) (show_block b)" by (rule prints_block) (use 3 Some in auto)
    then obtain z where "print C b Statement = Inr z" "lines z = show_block b" by blast
    with x y head Some show ?thesis
      by (simp add: lines_line lines_indent lines_text indented_def show_block_def)
  qed
next
  case (4 v i)
  then have r: "readable_type (var_type v)" "readable True i" by (auto simp: readable_declaration_def)
  from prints_type [OF r(1)] prints_expr [OF r(2), of Statement] obtain t x where
    t: "print_type C (var_type v) = Inr t" "lines t = [show_type (var_type v)]" and
    x: "print C i Statement = Inr x" "lines x = [show_expr Statement i]" by blast
  have "lines (beside C [block_text C ''let '', block_text C (var_name v), block_text C '' :: '', t, block_text C '' = '', x]) =
      [''let '' @ concat [var_name v, '' :: '', show_type (var_type v), '' = '', show_expr Statement i]]"
    by (rule lines_beside_all) (simp_all add: lines_text t x)
  with t x show ?case by (simp add: show_declaration_def)
qed simp_all

lemma prints_params:
  "\<forall>v \<in> set vs. readable_type (var_type v) \<Longrightarrow> lines b = [x] \<Longrightarrow>
     prints (print_params C b vs) [x @ comma_separated (map show_declaration vs)]"
proof (induction vs arbitrary: b x rule: induct_list012)
  case (2 v)
  then obtain bs where bs: "print_declaration C v = Inr bs"
    "list_all2 (\<lambda>b x. lines b = [x]) bs [var_name v, '' :: '', show_type (var_type v)]"
    using prints_declaration [of v] by auto
  with lines_beside_all [OF bs(2) 2(2)] show ?case by (simp add: show_declaration_def)
next
  case (3 v w vs)
  then obtain bs where bs: "print_declaration C v = Inr bs"
    "list_all2 (\<lambda>b x. lines b = [x]) bs [var_name v, '' :: '', show_type (var_type v)]"
    using prints_declaration [of v] by auto
  have "list_all2 (\<lambda>b x. lines b = [x]) (bs @ [block_text C '', '']) ([var_name v, '' :: '', show_type (var_type v)] @ ['', ''])"
    by (intro list_all2_appendI bs(2)) (simp add: lines_text)
  from lines_beside_all [OF this 3(4)]
  have "lines (beside C (b # bs @ [block_text C '', ''])) = [x @ show_declaration v @ '', '']"
    by (simp add: show_declaration_def)
  from "3.IH"(2) [OF _ this] 3(3) bs(1) show ?case by auto
qed simp

lemma prints_function: "readable_function f \<Longrightarrow> prints (pretty_print_function C f) (show_function f)"
proof -
  assume f: "readable_function f"
  then have r: "\<forall>v \<in> set (fn_params f). readable_type (var_type v)" "readable_type (var_type (fn_result f))"
    "readable_block (fn_body f)"
    by (auto simp: readable_function_def readable_declaration_def)
  have "lines (beside C [block_text C ''function '', block_text C (fn_name f), block_text C ''('']) =
      [''function '' @ concat [fn_name f, ''('']]"
    by (rule lines_beside_all) (simp_all add: lines_text)
  from prints_params [OF r(1) this] obtain p where p: "print_params C
      (beside C [block_text C ''function '', block_text C (fn_name f), block_text C ''('']) (fn_params f) = Inr p"
    "lines p = [(''function '' @ concat [fn_name f, ''('']) @ comma_separated (map show_declaration (fn_params f))]" by blast
  from prints_declaration [OF r(2)] obtain bs where bs: "print_declaration C (fn_result f) = Inr bs"
    "list_all2 (\<lambda>b x. lines b = [x]) bs [var_name (fn_result f), '' :: '', show_type (var_type (fn_result f))]" by blast
  have "list_all2 (\<lambda>b x. lines b = [x]) (block_text C '') -> '' # bs)
      ('') -> '' # [var_name (fn_result f), '' :: '', show_type (var_type (fn_result f))])"
    using bs(2) by (simp add: lines_text)
  note head = lines_beside_all [OF this p(2)]
  have "prints (print C (fn_body f) Statement) (show_block (fn_body f))"
    by (rule prints_block) (use r(3) in \<open>auto simp: readable_block_def intro: prints_statement\<close>)
  then obtain b where "print C (fn_body f) Statement = Inr b" "lines b = show_block (fn_body f)" by blast
  with head p(1) bs(1) show ?thesis
    by (simp add: pretty_print_function_def pretty_print_expr_def show_function_def show_declaration_def lines_line
        lines_indent lines_text indented_def)
qed

lemma prints_struct: "readable_struct t \<Longrightarrow> prints (pretty_print_user_defined_type C t) (show_struct t)"
proof -
  assume t: "readable_struct t"
  let ?show = "\<lambda>(datatype, i). i @ '' :: '' @ show_type datatype"
  let ?print = "\<lambda>(datatype, i). rbind (print_type C datatype) (\<lambda>b. Inr (beside C [block_text C i, block_text C '' :: '', b]))"
  have member: "prints (?print m) [?show m]" if "m \<in> set (struct_members t)" for m
  proof -
    obtain d i where m: "m = (d, i)" by (cases m)
    with that t have "readable_type d" by (auto simp: readable_struct_def)
    from prints_type [OF this] obtain b where b: "print_type C d = Inr b" "lines b = [show_type d]" by blast
    with lines_beside_all [of "[block_text C '' :: '', b]" "['' :: '', show_type d]" "block_text C i" i] show ?thesis
      by (simp add: m lines_text)
  qed
  have "\<exists>bs. traverse ?print ms = Inr bs \<and> concat (map lines bs) = map ?show ms" if "set ms \<subseteq> set (struct_members t)" for ms
    using that
  proof (induction ms)
    case (Cons m ms)
    with member [of m] show ?case by fastforce
  qed simp
  then obtain bs where "traverse ?print (struct_members t) = Inr bs" "concat (map lines bs) = map ?show (struct_members t)"
    by blast
  with lines_beside [OF lines_text lines_text, of "''struct ''" "struct_id t"] show ?thesis
    by (simp add: pretty_print_user_defined_type_def show_struct_def lines_line lines_indent lines_text indented_def)
qed

lemma traverse_prints_all:
  assumes "\<forall>x \<in> set xs. prints (f x) (g x)"
  shows "\<exists>bs. traverse f xs = Inr bs \<and> map lines bs = map g xs"
  using assms by (induction xs) fastforce+

theorem prints_module:
  assumes "readable_module m" and "iteration_order fs (function_index m)" and "iteration_order ts (type_index m)"
  shows "prints (pretty_print_module C ts fs m) (show_module ts fs m)"
proof -
  have "\<forall>t \<in> set (module_types ts m). readable_struct t"
    using assms(1,3) by (fastforce simp: module_types_def entries_def readable_module_def iteration_order_def)
  then obtain bs where bs: "traverse (pretty_print_user_defined_type C) (module_types ts m) = Inr bs"
    "map lines bs = map show_struct (module_types ts m)"
    using traverse_prints_all [of "module_types ts m"] prints_struct by blast
  have "\<forall>f \<in> set (module_functions fs m). readable_function f"
    using assms(1,2) by (fastforce simp: module_functions_def entries_def readable_module_def iteration_order_def)
  then obtain cs where cs: "traverse (pretty_print_function C) (module_functions fs m) = Inr cs"
    "map lines cs = map show_function (module_functions fs m)"
    using traverse_prints_all [of "module_functions fs m"] prints_function by blast
  from bs cs lines_beside [OF lines_text lines_text, of "''module ''" "symbol_string (mod_id m)"] show ?thesis
    by (simp add: pretty_print_module_def show_module_def lines_line lines_text)
qed

end

end
