(* ===== verification/QirReading.thy ===== *)
theory QirReading
  imports QirText QirGrammar
begin

text \<open>
  The grammar (theory \<open>QirGrammar\<close>) reads the printed text (theory \<open>QirText\<close>): for readable expressions,
  statements and modules it builds the syntax tree \<open>source\<close>.  The proofs are inside the locale of the
  parser library, so they rest on what its documentation promises only.
\<close>

section \<open>The beginning of a text\<close>

definition spaces :: "string \<Rightarrow> bool" where
  "spaces w \<longleftrightarrow> (\<forall>c \<in> set w. is_space c)"

definition first_char :: "string \<Rightarrow> char option" where
  "first_char s = (case dropWhile is_space s of [] \<Rightarrow> None | c # cs \<Rightarrow> Some c)"

definition starts :: "string \<Rightarrow> string \<Rightarrow> bool" where
  "starts l s \<longleftrightarrow> take (length l) (dropWhile is_space s) = l"

lemma spaces_simps [simp]:
  "spaces []" "spaces (c # w) \<longleftrightarrow> is_space c \<and> spaces w" "spaces (v @ w) \<longleftrightarrow> spaces v \<and> spaces w"
  by (auto simp: spaces_def)

lemma space_chars [simp]: "is_space CHR '' ''" "is_space CHR 0x0A"
  by (simp_all add: is_space_def)

lemma drop_spaces [simp]: "spaces w \<Longrightarrow> dropWhile is_space (w @ s) = dropWhile is_space s"
  by (induction w) simp_all

lemma drop_no_space [simp]: "\<not> is_space c \<Longrightarrow> dropWhile is_space (c # s) = c # s"
  by simp

lemma begin_simps [simp]:
  "spaces w \<Longrightarrow> first_char (w @ s) = first_char s" "spaces w \<Longrightarrow> starts l (w @ s) = starts l s"
  "is_space c \<Longrightarrow> first_char (c # s) = first_char s" "is_space c \<Longrightarrow> starts l (c # s) = starts l s"
  "\<not> is_space c \<Longrightarrow> first_char (c # s) = Some c"
  "first_char [] = None"
  by (simp_all add: first_char_def starts_def)

lemma starts_first: "starts (c # l) s \<Longrightarrow> first_char s = Some c"
  by (cases "dropWhile is_space s") (simp_all add: starts_def first_char_def)

lemma not_starts: "first_char s \<noteq> Some c \<Longrightarrow> \<not> starts (c # l) s"
  using starts_first by blast

lemma starts_Nil [simp]: "starts [] s"
  by (simp add: starts_def)

lemma starts_cons: "\<not> is_space c \<Longrightarrow> starts l (c # s) \<longleftrightarrow> take (length l) (c # s) = l"
  by (simp add: starts_def)

text \<open>Letters and digits are neither spaces nor punctuation.\<close>

lemma id_char_classes:
  "ascii_alpha c \<Longrightarrow> id_char c" "is_digit c \<Longrightarrow> id_char c"
  by (auto simp: id_char_def ascii_alnum_def is_digit_def Let_def)

lemma id_char_no_punctuation:
  assumes "id_char c"
  shows "\<not> is_space c" and "c \<notin> set ''=)],}:([.*/%+-<>!{''"
  using assms
  by (auto simp: id_char_def ascii_alnum_def ascii_alpha_def is_space_def)

text \<open>What may follow a name or a number.\<close>

definition separate :: "string \<Rightarrow> bool" where
  "separate s \<longleftrightarrow> s = [] \<or> \<not> id_char (hd s)"

text \<open>No operator of the level or a higher one follows; \<open>+=\<close> is none of them.\<close>

definition stops :: "precedence_level \<Rightarrow> string \<Rightarrow> bool" where
  "stops L s \<longleftrightarrow> separate s \<and> first_char s \<notin> Some ` set ''[.('' \<and>
     (level_number L \<le> 5 \<longrightarrow> first_char s \<notin> Some ` set ''*/%'') \<and>
     (level_number L \<le> 4 \<longrightarrow> first_char s \<noteq> Some CHR ''-'' \<and> (first_char s = Some CHR ''+'' \<longrightarrow> starts ''+='' s)) \<and>
     (level_number L \<le> 3 \<longrightarrow> \<not> starts ''=='' s \<and> first_char s \<notin> Some ` set ''!<>'') \<and>
     (level_number L \<le> 2 \<longrightarrow> \<not> starts ''and'' s \<and> \<not> starts ''or'' s)"

lemma stops_mono: "stops L s \<Longrightarrow> L \<le> L' \<Longrightarrow> stops L' s"
  by (auto simp: stops_def)

text \<open>No expression begins here.\<close>

definition no_start :: "string \<Rightarrow> bool" where
  "no_start s \<longleftrightarrow> first_char s \<in> insert None (Some ` set ''=)],}:'') \<or> starts ''end'' s \<or> starts ''else'' s"

section \<open>Combinators\<close>

context x3
begin

abbreviation reads :: "('r, 'v) parser \<Rightarrow> string \<Rightarrow> 'v attribute \<Rightarrow> string \<Rightarrow> bool" where
  "reads p s a r \<equiv> parse p True s = Some (Match a r)"

abbreviation rejects :: "('r, 'v) parser \<Rightarrow> string \<Rightarrow> bool" where
  "rejects p s \<equiv> parse p True s = Some Fail"

lemma reads_Lit: "starts l s \<Longrightarrow> reads (Lit l) s A_none (drop (length l) (dropWhile is_space s))"
  and reads_Str: "starts l s \<Longrightarrow> reads (Str l) s (A_string l) (drop (length l) (dropWhile is_space s))"
  and rejects_Lit: "\<not> starts l s \<Longrightarrow> rejects (Lit l) s"
  and rejects_Str: "\<not> starts l s \<Longrightarrow> rejects (Str l) s"
  by (simp_all add: parse_Lit parse_Str starts_def literal_outcome_def skip_spaces_def)

lemma reads_token:
  assumes "spaces w" and "\<not> is_space c"
  shows "reads (Lit (c # l)) (w @ c # l @ r) A_none r" and "reads (Str (c # l)) (w @ c # l @ r) (A_string (c # l)) r"
  using assms by (simp_all add: parse_Lit parse_Str literal_outcome_def skip_spaces_def)

lemma reads_Seq: "reads p s a r \<Longrightarrow> reads q r b t \<Longrightarrow> reads (Seq p q) s (pair_attribute a b) t"
  and rejects_Seq1: "rejects p s \<Longrightarrow> rejects (Seq p q) s"
  and rejects_Seq2: "reads p s a r \<Longrightarrow> rejects q r \<Longrightarrow> rejects (Seq p q) s"
  and reads_Expect: "reads p s a r \<Longrightarrow> reads q r b t \<Longrightarrow> reads (Expect p q) s (pair_attribute a b) t"
  and rejects_Expect: "rejects p s \<Longrightarrow> rejects (Expect p q) s"
  and reads_Alt1: "reads p s a r \<Longrightarrow> reads (Alt p q) s a r"
  and reads_Alt2: "rejects p s \<Longrightarrow> reads q s a r \<Longrightarrow> reads (Alt p q) s a r"
  and rejects_Alt: "rejects p s \<Longrightarrow> rejects q s \<Longrightarrow> rejects (Alt p q) s"
  and reads_Opt: "reads p s a r \<Longrightarrow> reads (Opt p) s (A_opt (Some a)) r"
  and reads_Opt_stop: "rejects p s \<Longrightarrow> reads (Opt p) s (A_opt None) s"
  and reads_Sep_by: "reads p s a r \<Longrightarrow> reads (Kleene (Seq q p)) r (A_list bs) t \<Longrightarrow> reads (Sep_by p q) s (A_list (a # bs)) t"
  and rejects_Sep_by: "rejects p s \<Longrightarrow> rejects (Sep_by p q) s"
  and reads_Diff: "rejects q s \<Longrightarrow> reads p s a r \<Longrightarrow> reads (Diff p q) s a r"
  and rejects_Diff1: "reads q s b t \<Longrightarrow> rejects (Diff p q) s"
  and rejects_Diff2: "rejects q s \<Longrightarrow> rejects p s \<Longrightarrow> rejects (Diff p q) s"
  and reads_Rule: "reads (rule x) s a r \<Longrightarrow> action x a = b \<Longrightarrow> reads (Rule x) s b r"
  and rejects_Rule: "rejects (rule x) s \<Longrightarrow> rejects (Rule x) s"
  by (simp_all add: parse_Seq parse_Expect parse_Alt parse_Opt parse_Sep_by parse_Diff parse_Rule)

lemma reads_Kleene_stop: "rejects p s \<Longrightarrow> reads (Kleene p) s (A_list []) s"
  by (subst parse_Kleene) simp

lemma reads_Kleene: "reads p s a r \<Longrightarrow> reads (Kleene p) r (A_list bs) t \<Longrightarrow> reads (Kleene p) s (A_list (a # bs)) t"
  by (subst parse_Kleene) simp

lemma reads_char:
  assumes "\<not> is_space c"
  shows "spaces w \<Longrightarrow> reads (Lit [c]) (w @ c # s) A_none s" and "reads (Lit [c]) (c # s) A_none s"
  using assms by (simp_all add: parse_Lit literal_outcome_def skip_spaces_def)

lemma reads_Attr: "reads (Attr a) s a s"
  by (simp add: parse_Attr)

lemmas rejects_rules = rejects_Seq1 rejects_Expect rejects_Alt rejects_Sep_by rejects_Rule

end

section \<open>Names\<close>

lemma readable_nameD:
  assumes "readable_name n"
  shows "n \<noteq> []" and "ascii_alpha (hd n)" and "\<forall>c \<in> set n. id_char c"
    and "k \<in> set reserved_prefixes \<Longrightarrow> take (length k) n \<noteq> k"
  using assms by (auto simp: readable_name_def valid_id_def list_all_iff)

lemma readable_name_first:
  assumes "readable_name n"
  shows "first_char (n @ s) = Some (hd n)" and "dropWhile is_space (n @ s) = n @ s" and "ascii_alpha (hd n)"
    and "\<not> is_space (hd n)"
proof -
  obtain c cs where n: "n = c # cs" using readable_nameD(1) [OF assms] by (cases n) auto
  have "ascii_alpha c" using readable_nameD(2) [OF assms] n by simp
  then have "\<not> is_space c" using id_char_classes(1) id_char_no_punctuation(1) by blast
  then show "first_char (n @ s) = Some (hd n)" "dropWhile is_space (n @ s) = n @ s" "\<not> is_space (hd n)"
    by (simp_all add: n)
  show "ascii_alpha (hd n)" by (rule readable_nameD(2) [OF assms])
qed

text \<open>A reserved word that is no prefix of a name does not begin the text, because nothing that follows the name
  continues it.\<close>

lemma no_word_at_name:
  assumes "readable_name n" and "k \<in> set reserved_prefixes" and "separate s" and "spaces w"
  shows "\<not> starts k (w @ n @ s)"
proof
  assume "starts k (w @ n @ s)"
  then have k: "take (length k) (n @ s) = k"
    using assms(4) readable_name_first(2) [OF assms(1)] by (simp add: starts_def)
  show False
  proof (cases "length k \<le> length n")
    case True
    with k readable_nameD(4) [OF assms(1,2)] show False by simp
  next
    case False
    then have len: "length n < length k" by simp
    have "length (take (length k) (n @ s)) = length k" using k by simp
    with len have "s \<noteq> []" by auto
    moreover have "k ! length n = s ! 0"
      using len by (subst k [symmetric]) (simp add: nth_append)
    moreover note len
    moreover have "\<forall>c \<in> set k. id_char c"
      using assms(2) by (auto simp: reserved_prefixes_def id_char_def ascii_alnum_def ascii_alpha_def)
    ultimately have "id_char (hd s)" by (metis hd_conv_nth nth_mem)
    with \<open>s \<noteq> []\<close> assms(3) show False by (simp add: separate_def)
  qed
qed

lemma reserved_prefixes_alpha: "\<forall>k \<in> set reserved_prefixes. k \<noteq> [] \<and> ascii_alpha (hd k)"
  by (simp add: reserved_prefixes_def ascii_alpha_def)

section \<open>Numbers\<close>

lemma digit_is_digit: "is_digit (digit n)" "digit_value (digit n) = n mod 10"
proof -
  have "n mod 10 < 10" by simp
  then have "of_char (char_of (48 + n mod 10) :: char) = 48 + n mod 10" by simp
  then show "is_digit (digit n)" "digit_value (digit n) = n mod 10"
    by (simp_all add: is_digit_def digit_value_def digit_def Let_def)
qed

lemma to_string_digits: "to_string n \<noteq> [] \<and> (\<forall>c \<in> set (to_string n). is_digit c) \<and> digits_value (to_string n) = n"
proof (induction n rule: to_string.induct)
  case (1 n)
  then show ?case
    by (subst (1 2 3) to_string.simps) (auto simp: digit_is_digit digits_value_def)
qed

lemma digit_first: "is_digit c \<Longrightarrow> \<not> is_space c \<and> c \<noteq> CHR ''-'' \<and> c \<noteq> CHR ''+''"
  using id_char_classes(2) id_char_no_punctuation by fastforce

lemma to_string_cons: obtains c cs where "to_string n = c # cs" and "is_digit c" and "\<forall>d \<in> set cs. is_digit d"
  using to_string_digits [of n] by (cases "to_string n") auto

lemma skip_sign_digit [simp]: "is_digit c \<Longrightarrow> skip_sign (c # cs) = (False, c # cs)"
  using digit_first by simp

lemma separate_digit: "separate s \<Longrightarrow> takeWhile is_digit s = [] \<and> dropWhile is_digit s = s"
  by (cases s) (auto simp: separate_def dest: id_char_classes(2))

lemma digits_split:
  assumes "separate s"
  shows "takeWhile is_digit (to_string n @ s) = to_string n" and "dropWhile is_digit (to_string n @ s) = s"
  using to_string_digits [of n] separate_digit [OF assms] by (simp_all add: takeWhile_append2 dropWhile_append2)

lemma parse_long_to_string:
  assumes "separate s" and "int n \<le> i64_max"
  shows "parse_long (to_string n @ s) = Some (int n, s)"
proof -
  obtain c cs where c: "to_string n = c # cs" "is_digit c" by (rule to_string_cons)
  then have "skip_sign (to_string n @ s) = (False, to_string n @ s)" using digit_first by simp
  moreover have "in_i64 (int n)" using assms(2) by (simp add: in_i64_def i64_min_def)
  ultimately show ?thesis
    using to_string_digits [of n] digits_split [OF assms(1), of n] by (simp add: parse_long_def)
qed

lemma lower_digit: "is_digit c \<Longrightarrow> lower c = c"
  by (auto simp: is_digit_def lower_def Let_def)

lemma lower_e: "lower c = CHR ''e'' \<Longrightarrow> id_char c"
proof -
  assume "lower c = CHR ''e''"
  then have "c = CHR ''e'' \<or> (of_char c :: nat) = 69"
    by (auto simp: lower_def Let_def split: if_splits dest: arg_cong [where f = "of_char :: char \<Rightarrow> nat"])
  then show "id_char c" by (auto simp: id_char_def ascii_alnum_def ascii_alpha_def)
qed

lemma no_real_to_string:
  assumes "separate s" and "first_char s \<noteq> Some CHR ''.''"
  shows "\<not> strict_real_prefix (to_string n @ s)"
proof -
  obtain c cs where c: "to_string n = c # cs" "is_digit c" by (rule to_string_cons)
  then have sign: "skip_sign (to_string n @ s) = (False, to_string n @ s)" using digit_first by simp
  have "lower c \<noteq> CHR ''i''" "lower c \<noteq> CHR ''n''"
    using c(2) lower_digit [OF c(2)] by (auto simp: is_digit_def)
  then have "take 3 (map lower (to_string n @ s)) \<notin> {''inf'', ''nan''}"
    by (auto simp: c(1))
  moreover have "d \<noteq> CHR ''.'' \<and> lower d \<noteq> CHR ''e''" if "s = d # ds" for d ds
    using assms that lower_e [of d] by (auto simp: separate_def is_space_def)
  ultimately show ?thesis
    unfolding strict_real_prefix_def Let_def sign snd_conv digits_split [OF assms(1)] by (cases s) auto
qed

lemma no_real_first:
  assumes "\<And>c. first_char s = Some c \<Longrightarrow> \<not> is_digit c \<and> c \<notin> set ''+-.'' \<and> lower c \<notin> set ''in''"
  shows "\<not> strict_real_prefix (dropWhile is_space s)"
proof (cases "dropWhile is_space s")
  case Nil
  then show ?thesis unfolding Nil by (simp add: strict_real_prefix_def)
next
  case (Cons c cs)
  with assms [of c] have c: "\<not> is_digit c" "c \<notin> set ''+-.''" "lower c \<notin> set ''in''" by (simp_all add: first_char_def)
  then have "take 3 (map lower (c # cs)) \<notin> {''inf'', ''nan''}" by auto
  with c show ?thesis by (simp add: Cons strict_real_prefix_def)
qed

section \<open>Where nothing begins\<close>

lemma no_start_first:
  assumes "no_start s" and "first_char s = Some c"
  shows "c \<in> set ''=)],}:e''"
  using assms by (auto simp: no_start_def dest: starts_first)

lemma no_start_not_starts:
  assumes "no_start s" and "c \<notin> set ''=)],}:e''"
  shows "\<not> starts (c # l) s"
  using no_start_first [OF assms(1)] assms(2) starts_first by blast

section \<open>What follows an expression\<close>

lemma id_char_simps [simp]:
  "\<not> id_char CHR '')''" "\<not> id_char CHR '']''" "\<not> id_char CHR '',''" "\<not> id_char CHR '':''" "\<not> id_char CHR '' ''"
  "\<not> id_char CHR 0x0A" "\<not> id_char CHR ''[''" "\<not> id_char CHR ''.''" "\<not> id_char CHR ''(''" "\<not> id_char CHR ''{''"
  "\<not> id_char CHR ''}''"
  by (simp_all add: id_char_def ascii_alnum_def ascii_alpha_def)

lemma separate_simps [simp]: "separate []" "separate (c # s) \<longleftrightarrow> \<not> id_char c"
  by (simp_all add: separate_def)

lemma space_simps [simp]:
  "\<not> is_space CHR '')''" "\<not> is_space CHR '']''" "\<not> is_space CHR '',''" "\<not> is_space CHR '':''" "\<not> is_space CHR ''[''"
  "\<not> is_space CHR ''.''" "\<not> is_space CHR ''(''" "\<not> is_space CHR ''{''" "\<not> is_space CHR ''}''" "\<not> is_space CHR ''=''"
  "\<not> is_space CHR ''+''" "\<not> is_space CHR ''-''" "\<not> is_space CHR ''*''" "\<not> is_space CHR ''/''" "\<not> is_space CHR ''%''"
  "\<not> is_space CHR ''<''" "\<not> is_space CHR ''>''" "\<not> is_space CHR ''!''"
  by (simp_all add: is_space_def)

lemma stops_close: "c \<in> set '')],:}'' \<Longrightarrow> stops L (c # s)"
  by (auto simp: stops_def starts_cons)

lemma stops_Nil: "stops L []"
  by (simp add: stops_def starts_def)

lemma operator_level_values:
  "operator_level Multiplies = Multiplication" "operator_level Divides = Multiplication"
  "operator_level Modulus = Multiplication" "operator_level Plus = Addition" "operator_level Minus = Addition"
  "operator_level Equal_to = Comparison" "operator_level Not_equal_to = Comparison" "operator_level Less = Comparison"
  "operator_level Greater = Comparison" "operator_level Assign = Assignment" "operator_level Plus_assign = Assignment"
  by (simp_all add: operator_level_def)

lemma show_level:
  assumes "level_number p \<le> level_number (expr_level e)" and "level_number q \<le> level_number (expr_level e)"
  shows "show_expr p e = show_expr q e" and "source p e = source q e"
  using assms by (cases e; simp add: enclosed_def in_brackets_def)+

lemma readable_level: "readable False e \<Longrightarrow> 3 \<le> level_number (expr_level e)"
  by (cases e) (auto simp: readable_operator_def operator_level_def)

lemma show_bracket:
  assumes "level_number (expr_level e) < level_number p"
  shows "show_expr p e = ''('' @ show_expr (expr_level e) e @ '')''"
    and "source p e = Ast_qualified_expr (source (expr_level e) e) []"
  using assms by (cases p; cases e; simp add: enclosed_def in_brackets_def)+

lemma level_of_number: "k < 8 \<Longrightarrow> \<exists>L. level_number L = k"
proof -
  assume "k < 8"
  then have "k \<in> {0, 1, 2, 3, 4, 5, 6, 7}" by auto
  then show ?thesis by (elim insertE emptyE) (metis level_number.simps)+
qed

fun level_rule :: "precedence_level \<Rightarrow> qir_rule" where
  "level_rule Comparison = R_comparisons"
| "level_rule Addition = R_additions"
| "level_rule Multiplication = R_multiplications"
| "level_rule Unary = R_unary_operators"
| "level_rule Qualifier = R_qualified_expr"
| "level_rule p = R_logical_expressions"

abbreviation expr_value :: "ast_expression \<Rightarrow> qir_attribute" where
  "expr_value e \<equiv> A_value (V_expr e)"

lemma as_all_values [simp]:
  "as_all as_expression (map (\<lambda>x. expr_value (f x)) xs) = Some (map f xs)"
  "as_all as_qualifier (map (\<lambda>x. A_value (V_qualifier (g x))) ys) = Some (map g ys)"
  by (induction xs, simp_all) (induction ys, simp_all)

locale qir_reader = x3 rule_parser rule_attribute parse
  for parse :: "(qir_rule, qir_value) engine"
begin

lemma reads_literals:
  assumes "starts k s" and "k \<in> set (l # l' # ls)"
  shows "\<exists>a r. reads (alternatives (map Lit (l # l' # ls))) s a r"
proof -
  have fold: "\<exists>a r. reads (foldl Alt p (map Lit ls)) s a r"
    if "(\<exists>a r. reads p s a r) \<or> (rejects p s \<and> k \<in> set ls)" for p ls
    using that
  proof (induction ls arbitrary: p)
    case (Cons l ls)
    have "(\<exists>a r. reads (Alt p (Lit l)) s a r) \<or> (rejects (Alt p (Lit l)) s \<and> k \<in> set ls)"
      using Cons.prems assms(1) by (cases "starts l s") (auto simp: parse_Alt reads_Lit rejects_Lit)
    then show ?case using Cons.IH by simp
  qed auto
  have "(\<exists>a r. reads (Lit l) s a r) \<or> (rejects (Lit l) s \<and> k \<in> set (l' # ls))"
    using assms by (cases "starts l s") (auto intro: reads_Lit rejects_Lit)
  then show ?thesis using fold [of "Lit l" "l' # ls"] by simp
qed

lemma keyword_rejects:
  assumes "\<And>k. k \<in> set reserved_prefixes \<Longrightarrow> \<not> starts k s"
  shows "rejects keyword s"
  unfolding keyword_def by (auto intro!: rejects_Alt rejects_Lit assms simp: reserved_prefixes_def)

lemma reads_id_chars:
  assumes "separate s" and "\<forall>c \<in> set cs. id_char c"
  shows "\<exists>as. parse (Kleene (Alt Ascii_alnum (Lit ''_''))) False (cs @ s) = Some (Match (A_list as) s)"
  using assms(2)
proof (induction cs)
  case Nil
  have "parse (Alt Ascii_alnum (Lit ''_'')) False s = Some Fail"
    using assms(1) by (cases s) (auto simp: parse_Alt parse_Ascii_alnum parse_Lit char_outcome_def literal_outcome_def
        skip_spaces_def separate_def id_char_def)
  then show ?case by (subst parse_Kleene) simp
next
  case (Cons c cs)
  then obtain as where "parse (Kleene (Alt Ascii_alnum (Lit ''_''))) False (cs @ s) = Some (Match (A_list as) s)" by auto
  moreover have "\<exists>a. parse (Alt Ascii_alnum (Lit ''_'')) False ((c # cs) @ s) = Some (Match a (cs @ s))"
    using Cons.prems by (auto simp: parse_Alt parse_Ascii_alnum parse_Lit char_outcome_def literal_outcome_def
        skip_spaces_def id_char_def)
  ultimately show ?case by (subst parse_Kleene) auto
qed

lemma reads_id:
  assumes "readable_name n" and "separate s" and "spaces w"
  shows "reads (Rule R_id) (w @ n @ s) (A_string n) s"
proof (rule reads_Rule)
  obtain c cs where n: "n = c # cs" using readable_nameD(1) [OF assms(1)] by (cases n) auto
  have c: "ascii_alpha c" "\<forall>c \<in> set cs. id_char c" using readable_nameD(2,3) [OF assms(1)] n by auto
  obtain as where "parse (Kleene (Alt Ascii_alnum (Lit ''_''))) False (cs @ s) = Some (Match (A_list as) s)"
    using reads_id_chars [OF assms(2) c(2)] by blast
  then have "\<exists>a. parse (Seq Ascii_alpha (Kleene (Alt Ascii_alnum (Lit ''_'')))) False (n @ s) = Some (Match a s)"
    using c(1) by (simp add: parse_Seq parse_Ascii_alpha char_outcome_def skip_spaces_def n)
  then have "reads (Raw (Lexeme (Seq Ascii_alpha (Kleene (Alt Ascii_alnum (Lit ''_'')))))) (w @ n @ s) (A_string n) s"
    using assms(3) readable_name_first(2) [OF assms(1)]
    by (auto simp: parse_Raw parse_Lexeme skip_spaces_def)
  moreover have "rejects keyword (w @ n @ s)"
    using no_word_at_name [OF assms(1) _ assms(2,3)] by (rule keyword_rejects)
  ultimately show "reads (rule_parser R_id) (w @ n @ s) (A_string n) s"
    by (simp add: id_def_def reads_Diff)
qed simp

lemma rejects_id_first:
  assumes "\<And>c. first_char s = Some c \<Longrightarrow> \<not> ascii_alpha c"
  shows "rejects (Rule R_id) s"
proof (rule rejects_Rule)
  have "parse (Seq Ascii_alpha (Kleene (Alt Ascii_alnum (Lit ''_'')))) False (dropWhile is_space s) = Some Fail"
    using assms
    by (cases "dropWhile is_space s") (simp_all del: dropWhile_eq_Nil_conv add: parse_Seq parse_Ascii_alpha char_outcome_def skip_spaces_def first_char_def)
  then have raw: "rejects (Raw (Lexeme (Seq Ascii_alpha (Kleene (Alt Ascii_alnum (Lit ''_'')))))) s"
    by (simp add: parse_Raw parse_Lexeme skip_spaces_def)
  have "rejects keyword s"
  proof (rule keyword_rejects)
    fix k assume "k \<in> set reserved_prefixes"
    then have "k \<noteq> []" "ascii_alpha (hd k)" using reserved_prefixes_alpha by blast+
    then obtain c l where "k = c # l" "ascii_alpha c" by (cases k) auto
    with assms show "\<not> starts k s" by (auto dest: starts_first)
  qed
  with raw show "rejects (rule_parser R_id) s" by (simp add: id_def_def rejects_Diff2)
qed

lemma rejects_id_word:
  assumes "starts k s" and "k \<in> {''for'', ''if'', ''else'', ''end'', ''module'', ''struct'', ''function'', ''let'',
     ''parallel'', ''unordered'', ''true'', ''false''}"
  shows "rejects (Rule R_id) s"
proof (rule rejects_Rule)
  have "\<exists>a r. reads keyword s a r"
    unfolding keyword_def using assms by (intro reads_literals) auto
  then show "rejects (rule_parser R_id) s" by (auto simp: id_def_def intro: rejects_Diff1)
qed

lemma reads_number:
  assumes "spaces w" and "separate s" and "first_char s \<noteq> Some CHR ''.''" and "0 \<le> i" and "i \<le> i64_max"
  shows "reads literal (w @ int_to_string i @ s) (A_int i) s"
proof -
  have i: "int_to_string i = to_string (nat i)" "int (nat i) = i" using assms(4) by (simp_all add: int_to_string_def)
  obtain c cs where c: "to_string (nat i) = c # cs" "is_digit c" by (rule to_string_cons)
  then have drop: "dropWhile is_space (w @ int_to_string i @ s) = int_to_string i @ s"
    using assms(1) digit_first [OF c(2)] by (simp add: i)
  have "rejects Strict_double (w @ int_to_string i @ s)"
    using no_real_to_string [OF assms(2,3), of "nat i"] drop by (simp add: parse_Strict_double skip_spaces_def i)
  moreover have "reads Long (w @ int_to_string i @ s) (A_int i) s"
    using parse_long_to_string [OF assms(2), of "nat i", unfolded i(2), OF assms(5)] drop
    by (simp add: parse_Long long_outcome_def skip_spaces_def i(1))
  ultimately show ?thesis by (simp add: literal_def reads_Alt1 reads_Alt2)
qed

lemma rejects_number_first:
  assumes "\<And>c. first_char s = Some c \<Longrightarrow> \<not> is_digit c \<and> c \<notin> set ''+-.'' \<and> lower c \<notin> set ''in''"
  shows "rejects (Alt Strict_double Long) s"
proof (rule rejects_Alt)
  show "rejects Strict_double s"
    using no_real_first [OF assms] by (simp add: parse_Strict_double skip_spaces_def)
  have "parse_long (dropWhile is_space s) = None"
    using assms by (cases "dropWhile is_space s") (auto simp del: dropWhile_eq_Nil_conv simp: parse_long_def first_char_def)
  then show "rejects Long s" by (simp add: parse_Long long_outcome_def skip_spaces_def)
qed

lemma rejects_boolean: "\<not> starts ''true'' s \<Longrightarrow> \<not> starts ''false'' s \<Longrightarrow> rejects boolean s"
  unfolding boolean_def by (intro rejects_Alt rejects_Seq1 rejects_Lit)

lemma rejects_id_no_start: "no_start s \<Longrightarrow> rejects (Rule R_id) s"
proof -
  assume s: "no_start s"
  show ?thesis
  proof (cases "starts ''end'' s \<or> starts ''else'' s")
    case True
    then show ?thesis using rejects_id_word [of "''end''" s] rejects_id_word [of "''else''" s] by auto
  next
    case False
    with s have "first_char s \<in> insert None (Some ` set ''=)],}:'')" by (simp add: no_start_def)
    then show ?thesis by (intro rejects_id_first) (auto simp: ascii_alpha_def)
  qed
qed

lemma rejects_base_no_start:
  assumes "no_start s"
  shows "rejects (Rule R_base_expression) s"
proof (rule rejects_Rule)
  note no = no_start_not_starts [OF assms]
  have "rejects (Alt Strict_double Long) s"
    using no_start_first [OF assms] by (intro rejects_number_first) (auto simp: is_digit_def lower_def)
  then have lit: "rejects literal s"
    unfolding literal_def by (rule rejects_Alt) (intro rejects_boolean no; simp)
  have var: "rejects (Rule R_variable) s" by (rule rejects_Rule) (simp add: rejects_id_no_start [OF assms])
  have call: "rejects (Rule R_function_call) s"
    by (rule rejects_Rule) (simp add: function_call_def_def rejects_Seq1 rejects_id_no_start [OF assms])
  show "rejects (rule_parser R_base_expression) s"
    by (simp add: base_expression_def_def rejects_Alt rejects_Seq1 rejects_Lit no lit var call)
qed

lemma rejects_unary_op:
  "\<not> starts ''+'' s \<Longrightarrow> \<not> starts ''-'' s \<Longrightarrow> \<not> starts ''not'' s \<Longrightarrow> rejects unary_op s"
  by (simp add: unary_op_def rejects_Alt rejects_Str)

lemma rejects_no_start:
  assumes "no_start s"
  shows "rejects (Rule R_qualified_expr) s" and "rejects (Rule R_unary_operators) s"
    and "rejects (Rule R_multiplications) s" and "rejects (Rule R_additions) s" and "rejects (Rule R_comparisons) s"
    and "rejects (Rule R_logical_expressions) s" and "rejects (Rule R_integer_range) s"
    and "rejects (Rule R_non_task_expr) s" and "rejects (Rule R_assignment) s"
proof -
  note no = no_start_not_starts [OF assms]
  show q: "rejects (Rule R_qualified_expr) s"
    by (rule rejects_Rule) (simp add: qualified_expr_def_def rejects_Seq1 rejects_base_no_start [OF assms])
  have "rejects (Rule R_unary_operator) s"
    by (rule rejects_Rule) (simp add: unary_operator_def_def rejects_Seq1 rejects_unary_op no)
  with q show u: "rejects (Rule R_unary_operators) s"
    by (intro rejects_Rule) (simp add: unary_operators_def_def rejects_Alt)
  then have "rejects (Rule R_multiplication) s"
    by (intro rejects_Rule) (simp add: multiplication_def_def rejects_Seq1)
  with u show m: "rejects (Rule R_multiplications) s"
    by (intro rejects_Rule) (simp add: multiplications_def_def rejects_Alt)
  then have "rejects (Rule R_addition) s"
    by (intro rejects_Rule) (simp add: addition_def_def rejects_Seq1)
  with m show a: "rejects (Rule R_additions) s"
    by (intro rejects_Rule) (simp add: additions_def_def rejects_Alt)
  then have "rejects (Rule R_comparison) s"
    by (intro rejects_Rule) (simp add: comparison_def_def rejects_Seq1)
  with a show c: "rejects (Rule R_comparisons) s"
    by (intro rejects_Rule) (simp add: comparisons_def_def rejects_Alt)
  then have "rejects (Rule R_logical_expr) s"
    by (intro rejects_Rule) (simp add: logical_expr_def_def rejects_Seq1)
  with c show l: "rejects (Rule R_logical_expressions) s"
    by (intro rejects_Rule) (simp add: logical_expressions_def_def rejects_Alt)
  then show r: "rejects (Rule R_integer_range) s"
    by (intro rejects_Rule) (simp add: integer_range_def_def rejects_Seq1)
  with l show n: "rejects (Rule R_non_task_expr) s"
    by (intro rejects_Rule) (simp add: non_task_expr_def_def rejects_Alt)
  then show "rejects (Rule R_assignment) s"
    by (intro rejects_Rule) (simp add: assignment_def_def rejects_Expect rejects_Seq1)
qed

section \<open>Levels\<close>

text \<open>An expression of one level is one of the lower levels, too, where no operator follows.\<close>

lemma lift_multiplications:
  assumes "reads (Rule R_unary_operators) s a r" and "stops Multiplication r"
  shows "reads (Rule R_multiplications) s a r"
proof (rule reads_Rule)
  have "rejects multiplication_op r"
    using assms(2) by (auto simp: multiplication_op_def stops_def intro!: rejects_Alt rejects_Str not_starts)
  then have "rejects (Rule R_multiplication) s"
    by (intro rejects_Rule) (simp add: multiplication_def_def parse_Seq assms(1))
  then show "reads (rule_parser R_multiplications) s a r"
    by (simp add: multiplications_def_def reads_Alt2 assms(1))
qed simp

lemma lift_additions:
  assumes "reads (Rule R_multiplications) s a r" and "stops Addition r"
  shows "reads (Rule R_additions) s a r"
proof (rule reads_Rule)
  have "rejects (Seq (Seq (Rule R_multiplications) addition_op) (Rule R_additions)) s"
  proof (cases "first_char r = Some CHR ''+''")
    case False
    then have "rejects addition_op r"
      using assms(2) by (auto simp: addition_op_def stops_def intro!: rejects_Alt rejects_Str not_starts)
    then show ?thesis using assms(1) by (simp add: parse_Seq)
  next
    case True
    with assms(2) have r: "starts ''+='' r" by (simp add: stops_def)
    then have p: "starts ''+'' r" by (cases "dropWhile is_space r") (simp_all add: starts_def)
    have "first_char (drop 1 (dropWhile is_space r)) = Some CHR ''=''"
      using r by (cases "dropWhile is_space r"; cases "tl (dropWhile is_space r)") (simp_all add: starts_def is_space_def)
    then have "no_start (drop 1 (dropWhile is_space r))" by (simp add: no_start_def)
    note rejects_no_start(4) [OF this]
    moreover have "reads addition_op r (A_string ''+'') (drop 1 (dropWhile is_space r))"
      using reads_Str [OF p] by (simp add: addition_op_def reads_Alt1)
    ultimately show ?thesis using assms(1) by (simp add: parse_Seq)
  qed
  then have "rejects (Rule R_addition) s" by (intro rejects_Rule) (simp add: addition_def_def)
  then show "reads (rule_parser R_additions) s a r" by (simp add: additions_def_def reads_Alt2 assms(1))
qed simp

lemma lift_comparisons:
  assumes "reads (Rule R_additions) s a r" and "stops Comparison r"
  shows "reads (Rule R_comparisons) s a r"
proof (rule reads_Rule)
  have "rejects comparison_op r"
    using assms(2) by (auto simp: comparison_op_def stops_def intro!: rejects_Alt rejects_Str not_starts)
  then have "rejects (Rule R_comparison) s"
    by (intro rejects_Rule) (simp add: comparison_def_def parse_Seq assms(1))
  then show "reads (rule_parser R_comparisons) s a r" by (simp add: comparisons_def_def reads_Alt2 assms(1))
qed simp

lemma lift_logical:
  assumes "reads (Rule R_comparisons) s a r" and "stops Logical r"
  shows "reads (Rule R_logical_expressions) s a r"
proof (rule reads_Rule)
  have "rejects logical_op r"
    using assms(2) by (auto simp: logical_op_def stops_def intro!: rejects_Alt rejects_Str)
  then have "rejects (Rule R_logical_expr) s"
    by (intro rejects_Rule) (simp add: logical_expr_def_def parse_Seq assms(1))
  then show "reads (rule_parser R_logical_expressions) s a r"
    by (simp add: logical_expressions_def_def reads_Alt2 assms(1))
qed simp

lemma lift_unary:
  assumes "reads (Rule R_qualified_expr) s a r" and "rejects unary_op s"
  shows "reads (Rule R_unary_operators) s a r"
proof (rule reads_Rule)
  have "rejects (Rule R_unary_operator) s"
    by (rule rejects_Rule) (simp add: unary_operator_def_def rejects_Seq1 assms(2))
  then show "reads (rule_parser R_unary_operators) s a r"
    by (simp add: unary_operators_def_def reads_Alt2 assms(1))
qed simp

lemma rejects_unary_at_name:
  "readable_name n \<Longrightarrow> separate s \<Longrightarrow> spaces w \<Longrightarrow> rejects unary_op (w @ n @ s)"
proof -
  assume n: "readable_name n" "separate s" "spaces w"
  then have first: "first_char (w @ n @ s) = Some (hd n)" "ascii_alpha (hd n)"
    using readable_name_first(1,3) by simp_all
  show ?thesis
  proof (rule rejects_unary_op)
    show "\<not> starts ''+'' (w @ n @ s)" "\<not> starts ''-'' (w @ n @ s)"
      using first id_char_no_punctuation(2) [OF id_char_classes(1) [OF first(2)]] by (auto dest!: starts_first)
    show "\<not> starts ''not'' (w @ n @ s)"
      by (rule no_word_at_name [OF n(1) _ n(2,3)]) (simp add: reserved_prefixes_def)
  qed
qed

lemma rejects_unary_at_qualified:
  "readable r e \<Longrightarrow> expr_level e = Qualifier \<Longrightarrow> r = False \<Longrightarrow> separate s \<Longrightarrow> spaces w \<Longrightarrow>
     rejects unary_op (w @ show_expr p e @ s)"
proof (induction r e arbitrary: p s rule: readable.induct)
  case (1 r v)
  then show ?case by (simp add: rejects_unary_at_name)
next
  case (2 r i)
  obtain c cs where c: "to_string (nat i) = c # cs" "is_digit c" by (rule to_string_cons)
  then have "int_to_string i = c # cs" "\<not> is_space c" "c \<noteq> CHR ''+''" "c \<noteq> CHR ''-''" "c \<noteq> CHR ''n''"
    using 2 digit_first [OF c(2)] by (auto simp: int_to_string_def is_digit_def)
  with 2 show ?case by (intro rejects_unary_op not_starts) simp_all
next
  case (3 r b)
  then show ?case by (intro rejects_unary_op not_starts) (simp_all add: is_space_def)
next
  case (5 r t a b)
  then show ?case by (auto simp: readable_operator_def operator_level_def)
next
  case (6 r a es)
  then have "expr_level a = Qualifier" by (cases a) auto
  with 6 show ?case by (simp add: "6.IH"(1))
next
  case (7 r a n)
  then have "expr_level a = Qualifier" by (cases a) auto
  with 7 show ?case by simp
next
  case (8 r n es)
  then show ?case using rejects_unary_at_name [of n "''('' @ comma_separated (map (show_expr Statement) es) @ '')'' @ s" w]
    by simp
qed auto

text \<open>From the level of the expression itself to any level: down by the lemmas above, up in brackets.\<close>

definition reads_at :: "precedence_level \<Rightarrow> expr \<Rightarrow> bool" where
  "reads_at L e \<longleftrightarrow> (\<forall>w s. spaces w \<longrightarrow> stops L s \<longrightarrow>
     reads (Rule (level_rule L)) (w @ show_expr L e @ s) (expr_value (source L e)) s)"

lemma lift_down:
  assumes "reads (Rule (level_rule L)) t a s" and "level_number L = Suc (level_number L')" and "2 \<le> level_number L'"
    and "stops L' s" and "L = Qualifier \<Longrightarrow> rejects unary_op t"
  shows "reads (Rule (level_rule L')) t a s"
  using assms
  by (cases L; cases L')
    (auto intro: lift_logical lift_comparisons lift_additions lift_multiplications lift_unary)

lemma lift_to:
  assumes "reads (Rule (level_rule L)) t a s" and "2 \<le> level_number L'" and "level_number L' \<le> level_number L"
    and "stops L' s" and "L = Qualifier \<Longrightarrow> rejects unary_op t"
  shows "reads (Rule (level_rule L')) t a s"
proof -
  have "reads (Rule (level_rule L')) t a s" if "level_number L = n + level_number L'" for n
    using that assms
  proof (induction n arbitrary: L)
    case 0
    then show ?case using level_number_inj [of L L'] by simp
  next
    case (Suc n)
    have "level_number L \<le> 7" by (cases L) simp_all
    then have "n + level_number L' < 8" using Suc.prems(1) by simp
    then obtain M where M: "level_number M = n + level_number L'" using level_of_number by blast
    have "stops M s" by (rule stops_mono [OF Suc.prems(5)]) (simp add: M)
    then have "reads (Rule (level_rule M)) t a s"
      using Suc.prems M by (intro lift_down [of L t a s M]) simp_all
    moreover have "M \<noteq> Qualifier" using M Suc.prems(1) \<open>level_number L \<le> 7\<close> by auto
    ultimately show ?case using Suc.prems M by (intro Suc.IH [of M]) simp_all
  qed
  then show ?thesis using assms(3) by (metis le_add_diff_inverse2)
qed

text \<open>Expressions where ranges may stand, too.\<close>

definition reads_index :: "expr \<Rightarrow> bool" where
  "reads_index e \<longleftrightarrow> (\<forall>w s. spaces w \<longrightarrow> stops Logical s \<longrightarrow> first_char s \<noteq> Some CHR '':'' \<longrightarrow>
     reads (Rule R_non_task_expr) (w @ show_expr Statement e @ s) (expr_value (source Statement e)) s)"

lemma reads_indexD:
  assumes "reads_index e" and "spaces w" and "stops Logical s" and "first_char s \<noteq> Some CHR '':''"
  shows "reads (Rule R_non_task_expr) (w @ show_expr Statement e @ s) (expr_value (source Statement e)) s"
  using assms by (simp add: reads_index_def)

lemma reads_atD:
  assumes "reads_at L e" and "spaces w" and "stops L s"
  shows "reads (Rule (level_rule L)) (w @ show_expr L e @ s) (expr_value (source L e)) s"
  using assms by (simp add: reads_at_def)

lemma index_of_at:
  assumes "reads_at Logical e" and "readable False e"
  shows "reads_index e"
  unfolding reads_index_def
proof (intro allI impI)
  fix w s assume w: "spaces w" and s: "stops Logical s" "first_char s \<noteq> Some CHR '':''"
  have eq: "show_expr Statement e = show_expr Logical e" "source Statement e = source Logical e"
    using show_level [of Statement e Logical] readable_level [OF assms(2)] by simp_all
  let ?t = "w @ show_expr Statement e @ s"
  have l: "reads (Rule R_logical_expressions) ?t (expr_value (source Statement e)) s"
    using reads_atD [OF assms(1) w s(1)] by (simp add: eq)
  have "rejects (Lit '':'') s" using s(2) by (intro rejects_Lit not_starts)
  with l have "rejects (Seq (Rule R_logical_expressions) (Lit '':'')) ?t" by (rule rejects_Seq2)
  then have "rejects (Rule R_integer_range) ?t"
    by (intro rejects_Rule) (simp add: integer_range_def_def rejects_Seq1)
  with l have "reads non_task_expr_def ?t (expr_value (source Statement e)) s"
    by (simp add: non_task_expr_def_def reads_Alt2)
  then show "reads (Rule R_non_task_expr) ?t (expr_value (source Statement e)) s"
    by (rule reads_Rule [where x = R_non_task_expr, unfolded rule_parser.simps]) simp
qed

lemma qualifiers_stop:
  assumes "first_char s \<notin> Some ` set ''[.''"
  shows "reads (Kleene (Alt (Rule R_subscription) (Rule R_member_access))) s (A_list []) s"
proof (rule reads_Kleene_stop [OF rejects_Alt])
  show "rejects (Rule R_subscription) s"
    by (rule rejects_Rule) (use assms in \<open>auto simp: subscription_def_def intro!: rejects_Seq1 rejects_Lit not_starts\<close>)
  show "rejects (Rule R_member_access) s"
    by (rule rejects_Rule) (use assms in \<open>auto simp: member_access_def_def intro!: rejects_Seq1 rejects_Lit not_starts\<close>)
qed

lemma reads_qualified:
  assumes "reads (Seq (Rule R_base_expression) (Kleene (Alt (Rule R_subscription) (Rule R_member_access)))) t
    (A_pair (expr_value b) (A_list (map (\<lambda>q. A_value (V_qualifier q)) qs))) s"
  shows "reads (Rule R_qualified_expr) t (expr_value (Ast_qualified_expr b qs)) s"
proof (rule reads_Rule)
  show "reads (rule_parser R_qualified_expr) t (A_pair (expr_value b) (A_list (map (\<lambda>q. A_value (V_qualifier q)) qs))) s"
    using assms by (simp add: qualified_expr_def_def)
  show "rule_attribute R_qualified_expr (A_pair (expr_value b) (A_list (map (\<lambda>q. A_value (V_qualifier q)) qs))) =
      expr_value (Ast_qualified_expr b qs)"
    using as_all_values(2) [of "\<lambda>q. q" qs] by simp
qed

lemma reads_unqualified:
  assumes "reads (Rule R_base_expression) t (expr_value b) s" and "first_char s \<notin> Some ` set ''[.''"
  shows "reads (Rule R_qualified_expr) t (expr_value (Ast_qualified_expr b [])) s"
  using reads_Seq [OF assms(1) qualifiers_stop [OF assms(2)]] by (intro reads_qualified) simp

lemma reads_bracketed:
  assumes "reads_index e" and "spaces w"
  shows "reads (Rule R_base_expression) (w @ ''('' @ show_expr Statement e @ '')'' @ s) (expr_value (source Statement e)) s"
proof (rule reads_Rule)
  have "reads (Rule R_non_task_expr) (show_expr Statement e @ '')'' @ s) (expr_value (source Statement e)) ('')'' @ s)"
    using reads_indexD [OF assms(1), of "[]" "'')'' @ s"] stops_close [of "CHR '')''" Logical s] by simp
  then show "reads (rule_parser R_base_expression) (w @ ''('' @ show_expr Statement e @ '')'' @ s)
      (expr_value (source Statement e)) s"
    using assms(2) by (simp add: base_expression_def_def parse_Alt parse_Seq reads_char)
qed simp

lemma all_levels:
  assumes e: "readable False e" and own: "reads_at (expr_level e) e" and L: "2 \<le> level_number L"
  shows "reads_at L e"
proof -
  have low: "3 \<le> level_number (expr_level e)" by (rule readable_level [OF e])
  have down: "reads_at L e" if "2 \<le> level_number L" "level_number L \<le> level_number (expr_level e)" for L
    unfolding reads_at_def
  proof (intro allI impI)
    fix w s assume w: "spaces w" and s: "stops L s"
    have "stops (expr_level e) s" by (rule stops_mono [OF s]) (simp add: that)
    note r = reads_atD [OF own w this]
    have eq: "show_expr L e = show_expr (expr_level e) e" "source L e = source (expr_level e) e"
      using show_level [of L e "expr_level e"] that by simp_all
    have "rejects unary_op (w @ show_expr (expr_level e) e @ s)" if "expr_level e = Qualifier"
      using rejects_unary_at_qualified [OF e that refl _ w] s by (simp add: stops_def)
    then show "reads (Rule (level_rule L)) (w @ show_expr L e @ s) (expr_value (source L e)) s"
      unfolding eq by (rule lift_to [OF r that s])
  qed
  show ?thesis
  proof (cases "level_number L \<le> level_number (expr_level e)")
    case True
    with down L show ?thesis by blast
  next
    case False
    then have lt: "level_number (expr_level e) < level_number L" by simp
    have "reads_at Logical e" using down [of Logical] low by simp
    then have i: "reads_index e" using e by (rule index_of_at)
    have eq: "show_expr Statement e = show_expr (expr_level e) e" "source Statement e = source (expr_level e) e"
      using show_level [of Statement e "expr_level e"] by simp_all
    show ?thesis
      unfolding reads_at_def
    proof (intro allI impI)
      fix w s assume w: "spaces w" and s: "stops L s"
      let ?t = "w @ ''('' @ show_expr Statement e @ '')'' @ s"
      have "reads (Rule R_qualified_expr) ?t (expr_value (Ast_qualified_expr (source Statement e) [])) s"
        using s by (intro reads_unqualified reads_bracketed i w) (simp add: stops_def)
      then have r: "reads (Rule (level_rule Qualifier)) ?t (expr_value (Ast_qualified_expr (source Statement e) [])) s"
        by simp
      have u: "rejects unary_op ?t" using w by (intro rejects_unary_op not_starts) simp_all
      have le: "level_number L \<le> level_number Qualifier" by (cases L) simp_all
      have "reads (Rule (level_rule L)) ?t (expr_value (Ast_qualified_expr (source Statement e) [])) s"
        by (rule lift_to [OF r L le s u])
      moreover have "w @ show_expr L e @ s = ?t" "source L e = Ast_qualified_expr (source Statement e) []"
        unfolding show_bracket [OF lt] eq by simp_all
      ultimately show "reads (Rule (level_rule L)) (w @ show_expr L e @ s) (expr_value (source L e)) s" by simp
    qed
  qed
qed

section \<open>Expressions\<close>

text \<open>A chain of qualifiers, from its end: where the rest of the chain is read, the whole chain is.\<close>

definition reads_chain :: "expr \<Rightarrow> bool" where
  "reads_chain e \<longleftrightarrow> (\<forall>w s as r. spaces w \<longrightarrow> separate s \<longrightarrow> first_char s \<noteq> Some CHR ''('' \<longrightarrow>
     reads (Kleene (Alt (Rule R_subscription) (Rule R_member_access))) s (A_list as) r \<longrightarrow>
     (\<exists>b qs. source Qualifier e = Ast_qualified_expr b qs \<and>
       reads (Seq (Rule R_base_expression) (Kleene (Alt (Rule R_subscription) (Rule R_member_access))))
         (w @ show_expr Qualifier e @ s) (A_pair (expr_value b) (A_list (map (\<lambda>q. A_value (V_qualifier q)) qs @ as))) r))"

lemma reads_chainD:
  assumes "reads_chain e" and "spaces w" and "separate s" and "first_char s \<noteq> Some CHR ''(''"
    and "reads (Kleene (Alt (Rule R_subscription) (Rule R_member_access))) s (A_list as) r"
  obtains b qs where "source Qualifier e = Ast_qualified_expr b qs"
    and "reads (Seq (Rule R_base_expression) (Kleene (Alt (Rule R_subscription) (Rule R_member_access))))
         (w @ show_expr Qualifier e @ s) (A_pair (expr_value b) (A_list (map (\<lambda>q. A_value (V_qualifier q)) qs @ as))) r"
  using assms unfolding reads_chain_def by blast

lemma at_of_chain:
  assumes "reads_chain e"
  shows "reads_at Qualifier e"
  unfolding reads_at_def
proof (intro allI impI)
  fix w s assume w: "spaces w" and s: "stops Qualifier s"
  then have q: "reads (Kleene (Alt (Rule R_subscription) (Rule R_member_access))) s (A_list []) s"
    by (intro qualifiers_stop) (simp add: stops_def)
  from s have "separate s" "first_char s \<noteq> Some CHR ''(''" by (auto simp: stops_def)
  from reads_chainD [OF assms w this q] obtain b qs where "source Qualifier e = Ast_qualified_expr b qs"
    "reads (Seq (Rule R_base_expression) (Kleene (Alt (Rule R_subscription) (Rule R_member_access))))
         (w @ show_expr Qualifier e @ s) (A_pair (expr_value b) (A_list (map (\<lambda>q. A_value (V_qualifier q)) qs))) s"
    by auto
  then show "reads (Rule (level_rule Qualifier)) (w @ show_expr Qualifier e @ s) (expr_value (source Qualifier e)) s"
    by (simp add: reads_qualified)
qed

lemma reads_separated:
  assumes p: "\<And>x v d t. x \<in> set (y # ys) \<Longrightarrow> spaces v \<Longrightarrow> d \<in> {c, CHR '',''} \<Longrightarrow> reads p (v @ f x @ d # t) (g x) (d # t)"
    and c: "c \<in> set '')]''" and w: "spaces w"
  shows "reads (Sep_by p (Lit '','')) (w @ comma_separated (map f (y # ys)) @ c # s) (A_list (map g (y # ys))) (c # s)"
proof -
  have close: "\<not> starts '','' (c # s)" using c by (auto simp: starts_cons)
  define rest where "rest xs = (if xs = [] then c # s else '', '' @ comma_separated (map f xs) @ c # s)" for xs
  have cons: "\<exists>d t. rest xs = d # t \<and> d \<in> {c, CHR '',''}" for xs by (simp add: rest_def)
  have item: "reads p (v @ f x @ rest xs) (g x) (rest xs)" if x: "x \<in> set (y # ys)" "spaces v" for x v xs
  proof -
    obtain d t where "rest xs = d # t" "d \<in> {c, CHR '',''}" using cons [of xs] by blast
    with p [OF x] show ?thesis by metis
  qed
  have commas: "comma_separated (map f (x # xs)) @ c # s = f x @ rest xs" for x xs
    by (cases xs) (simp_all add: rest_def)
  have "reads (Kleene (Seq (Lit '','') p)) (rest xs) (A_list (map g xs)) (c # s)" if "set xs \<subseteq> set (y # ys)" for xs
    using that
  proof (induction xs)
    case Nil
    show ?case using close by (auto simp: rest_def intro!: reads_Kleene_stop rejects_Seq1 rejects_Lit)
  next
    case (Cons x xs)
    have "reads p ('' '' @ f x @ rest xs) (g x) (rest xs)" using Cons.prems by (intro item) auto
    moreover have "rest (x # xs) = CHR '','' # '' '' @ f x @ rest xs"
      using commas [of x xs] by (simp add: rest_def)
    ultimately have "reads (Seq (Lit '','') p) (rest (x # xs)) (g x) (rest xs)"
      by (simp add: parse_Seq reads_char(2))
    with Cons show ?case by (simp add: reads_Kleene)
  qed
  then have "reads (Kleene (Seq (Lit '','') p)) (rest ys) (A_list (map g ys)) (c # s)" by auto
  from reads_Sep_by [OF item [of y w ys] this] w show ?thesis unfolding commas by simp
qed

lemma reads_list:
  assumes "\<forall>e \<in> set (e # es). reads_index e" and "c \<in> set '')]''" and "spaces w"
  shows "reads (Sep_by (Rule R_non_task_expr) (Lit '','')) (w @ comma_separated (map (show_expr Statement) (e # es)) @ c # s)
    (A_list (map (\<lambda>e. expr_value (source Statement e)) (e # es))) (c # s)"
proof (rule reads_separated [OF _ assms(2,3)])
  fix x v d t assume x: "x \<in> set (e # es)" and v: "spaces v" and "d \<in> {c, CHR '',''}"
  then have d: "d = CHR '')'' \<or> d = CHR '']'' \<or> d = CHR '',''" using assms(2) by auto
  then have "stops Logical (d # t)" "first_char (d # t) \<noteq> Some CHR '':''"
    by (auto simp: stops_close)
  with assms(1) x v show "reads (Rule R_non_task_expr) (v @ show_expr Statement x @ d # t) (expr_value (source Statement x)) (d # t)"
    by (blast intro: reads_indexD)
qed

lemma reads_opt_list:
  assumes "\<forall>e \<in> set es. reads_index e"
  shows "\<exists>a. reads (Opt (Sep_by (Rule R_non_task_expr) (Lit '',''))) (comma_separated (map (show_expr Statement) es) @ '']'' @ s)
      a ('']'' @ s) \<and> as_list as_expression a = Some (map (source Statement) es) \<and> (\<exists>x. a = A_opt x)"
proof (cases es)
  case Nil
  have "no_start ('']'' @ s)" by (simp add: no_start_def)
  then have "rejects (Sep_by (Rule R_non_task_expr) (Lit '','')) ('']'' @ s)"
    by (intro rejects_Sep_by rejects_no_start)
  then show ?thesis by (auto simp: Nil dest: reads_Opt_stop)
next
  case (Cons e es')
  from reads_list [of e es' "CHR '']''" "[]" s] assms
  have "reads (Sep_by (Rule R_non_task_expr) (Lit '','')) (comma_separated (map (show_expr Statement) es) @ '']'' @ s)
      (A_list (map (\<lambda>e. expr_value (source Statement e)) es)) ('']'' @ s)"
    by (simp add: Cons)
  from reads_Opt [OF this] show ?thesis by auto
qed

lemma chain_subscription:
  assumes "reads_chain a" and "\<forall>e \<in> set es. reads_index e"
  shows "reads_chain (Subscription_expr a es)"
  unfolding reads_chain_def
proof (intro allI impI)
  fix w s as r
  assume w: "spaces w" and s: "separate s" "first_char s \<noteq> Some CHR ''(''"
    and rest: "reads (Kleene (Alt (Rule R_subscription) (Rule R_member_access))) s (A_list as) r"
  let ?q = "Ast_subscription (map (source Statement) es)"
  let ?t = "''['' @ comma_separated (map (show_expr Statement) es) @ '']'' @ s"
  obtain x where x: "reads (Opt (Sep_by (Rule R_non_task_expr) (Lit '',''))) (comma_separated (map (show_expr Statement) es) @ '']'' @ s)
      (A_opt x) ('']'' @ s)" "as_list as_expression (A_opt x) = Some (map (source Statement) es)"
    using reads_opt_list [OF assms(2)] by blast
  have "reads (Rule R_subscription) ?t (A_value (V_qualifier ?q)) s"
  proof (rule reads_Rule)
    show "reads (rule_parser R_subscription) ?t (A_opt x) s"
      using x(1) by (simp add: subscription_def_def parse_Seq reads_char(2))
  qed (simp add: x(2))
  then have "reads (Kleene (Alt (Rule R_subscription) (Rule R_member_access))) ?t (A_list (A_value (V_qualifier ?q) # as)) r"
    by (intro reads_Kleene [OF reads_Alt1 rest])
  from reads_chainD [OF assms(1) w _ _ this] obtain b qs where b: "source Qualifier a = Ast_qualified_expr b qs"
    "reads (Seq (Rule R_base_expression) (Kleene (Alt (Rule R_subscription) (Rule R_member_access))))
       (w @ show_expr Qualifier a @ ?t)
       (A_pair (expr_value b) (A_list (map (\<lambda>q. A_value (V_qualifier q)) qs @ A_value (V_qualifier ?q) # as))) r"
    by auto
  then show "\<exists>b qs. source Qualifier (Subscription_expr a es) = Ast_qualified_expr b qs \<and>
       reads (Seq (Rule R_base_expression) (Kleene (Alt (Rule R_subscription) (Rule R_member_access))))
         (w @ show_expr Qualifier (Subscription_expr a es) @ s)
         (A_pair (expr_value b) (A_list (map (\<lambda>q. A_value (V_qualifier q)) qs @ as))) r"
    by (intro exI [of _ b] exI [of _ "qs @ [?q]"]) simp
qed

lemma chain_member:
  assumes "reads_chain a" and "readable_name n"
  shows "reads_chain (Member_access_expr a n)"
  unfolding reads_chain_def
proof (intro allI impI)
  fix w s as r
  assume w: "spaces w" and s: "separate s" "first_char s \<noteq> Some CHR ''(''"
    and rest: "reads (Kleene (Alt (Rule R_subscription) (Rule R_member_access))) s (A_list as) r"
  let ?q = "Ast_member_access n"
  let ?t = "''.'' @ n @ s"
  have "reads (Rule R_member_access) ?t (A_value (V_qualifier ?q)) s"
  proof (rule reads_Rule)
    show "reads (rule_parser R_member_access) ?t (A_string n) s"
      using reads_id [OF assms(2) s(1), of "[]"] by (simp add: member_access_def_def parse_Seq reads_char(2))
  qed simp
  moreover have "rejects (Rule R_subscription) ?t"
    by (rule rejects_Rule) (auto simp: subscription_def_def intro!: rejects_Seq1 rejects_Lit not_starts)
  ultimately have "reads (Kleene (Alt (Rule R_subscription) (Rule R_member_access))) ?t (A_list (A_value (V_qualifier ?q) # as)) r"
    by (intro reads_Kleene [OF reads_Alt2 rest])
  from reads_chainD [OF assms(1) w _ _ this] obtain b qs where b: "source Qualifier a = Ast_qualified_expr b qs"
    "reads (Seq (Rule R_base_expression) (Kleene (Alt (Rule R_subscription) (Rule R_member_access))))
       (w @ show_expr Qualifier a @ ?t)
       (A_pair (expr_value b) (A_list (map (\<lambda>q. A_value (V_qualifier q)) qs @ A_value (V_qualifier ?q) # as))) r"
    by auto
  then show "\<exists>b qs. source Qualifier (Member_access_expr a n) = Ast_qualified_expr b qs \<and>
       reads (Seq (Rule R_base_expression) (Kleene (Alt (Rule R_subscription) (Rule R_member_access))))
         (w @ show_expr Qualifier (Member_access_expr a n) @ s)
         (A_pair (expr_value b) (A_list (map (\<lambda>q. A_value (V_qualifier q)) qs @ as))) r"
    by (intro exI [of _ b] exI [of _ "qs @ [?q]"]) simp
qed

lemma rejects_bracket_open: "first_char s \<noteq> Some CHR ''('' \<Longrightarrow> rejects (Seq (Seq (Lit ''('') p) q) s"
  by (intro rejects_Seq1 rejects_Lit not_starts)

lemma reads_variable:
  assumes "readable_name n" and "spaces w" and "separate s" and "first_char s \<noteq> Some CHR ''(''"
  shows "reads (Rule R_base_expression) (w @ n @ s) (expr_value (Ast_variable n)) s"
proof (rule reads_Rule)
  let ?t = "w @ n @ s"
  note i = reads_id [OF assms(1,3,2)]
  have first: "first_char ?t = Some (hd n)" "ascii_alpha (hd n)"
    using readable_name_first(1,3) [OF assms(1)] assms(2) by simp_all
  then have "first_char ?t \<noteq> Some CHR ''(''"
    using id_char_no_punctuation(2) [OF id_char_classes(1) [OF first(2)]] by auto
  note b = rejects_bracket_open [OF this]
  have "rejects (Lit ''('') s" using assms(4) by (intro rejects_Lit not_starts)
  then have "rejects (Rule R_function_call) ?t"
    by (intro rejects_Rule) (simp add: function_call_def_def parse_Seq i)
  moreover have "reads (Rule R_variable) ?t (expr_value (Ast_variable n)) s"
    by (rule reads_Rule [where a = "A_string n"]) (simp_all add: i)
  ultimately show "reads (rule_parser R_base_expression) ?t (expr_value (Ast_variable n)) s"
    by (simp add: base_expression_def_def parse_Alt b)
qed simp

lemma chain_variable:
  assumes "readable_name (var_name v)"
  shows "reads_chain (Variable_ref_expr v)"
  unfolding reads_chain_def
proof (intro allI impI)
  fix w s as r
  assume "spaces w" "separate s" "first_char s \<noteq> Some CHR ''(''"
    and q: "reads (Kleene (Alt (Rule R_subscription) (Rule R_member_access))) s (A_list as) r"
  then have "reads (Rule R_base_expression) (w @ var_name v @ s) (expr_value (Ast_variable (var_name v))) s"
    using reads_variable assms by blast
  from reads_Seq [OF this q]
  show "\<exists>b qs. source Qualifier (Variable_ref_expr v) = Ast_qualified_expr b qs \<and>
       reads (Seq (Rule R_base_expression) (Kleene (Alt (Rule R_subscription) (Rule R_member_access))))
         (w @ show_expr Qualifier (Variable_ref_expr v) @ s)
         (A_pair (expr_value b) (A_list (map (\<lambda>q. A_value (V_qualifier q)) qs @ as))) r"
    by simp
qed

text \<open>Literals: neither a bracket nor a name begins the text.\<close>

lemma reads_literal_base:
  assumes "reads literal t a s" and "as_expression a = Some b" and "first_char t \<noteq> Some CHR ''(''"
    and "rejects (Rule R_id) t"
  shows "reads (Rule R_base_expression) t (expr_value b) s"
proof (rule reads_Rule)
  have "rejects (Rule R_function_call) t" "rejects (Rule R_variable) t"
    by (rule rejects_Rule; simp add: function_call_def_def rejects_Seq1 assms(4))+
  then show "reads (rule_parser R_base_expression) t a s"
    using rejects_bracket_open [OF assms(3)] assms(1) by (simp add: base_expression_def_def parse_Alt)
qed (simp add: assms(2))

lemma at_number:
  assumes "0 \<le> i" and "i \<le> i64_max"
  shows "reads_at Qualifier (Integer_literal_expr i)"
  unfolding reads_at_def
proof (intro allI impI)
  fix w s assume w: "spaces w" and s: "stops Qualifier s"
  obtain c cs where c: "to_string (nat i) = c # cs" "is_digit c" by (rule to_string_cons)
  then have t: "first_char (w @ int_to_string i @ s) = Some c"
    using digit_first [OF c(2)] w assms(1) by (simp add: int_to_string_def)
  have "c \<noteq> CHR ''(''" "\<not> ascii_alpha c" using c(2) by (auto simp: is_digit_def ascii_alpha_def Let_def)
  then have "reads (Rule R_base_expression) (w @ int_to_string i @ s) (expr_value (Ast_index i)) s"
    using t s assms by (intro reads_literal_base [OF reads_number [OF w]] rejects_id_first) (auto simp: stops_def)
  with s show "reads (Rule (level_rule Qualifier)) (w @ show_expr Qualifier (Integer_literal_expr i) @ s)
      (expr_value (source Qualifier (Integer_literal_expr i))) s"
    by (simp add: reads_unqualified stops_def)
qed

lemma at_boolean: "reads_at Qualifier (Bool_literal_expr b)"
  unfolding reads_at_def
proof (intro allI impI)
  fix w s assume w: "spaces w" and s: "stops Qualifier s"
  define k where "k = (if b then ''true'' else ''false'')"
  let ?t = "w @ k @ s"
  have k: "starts k ?t" "drop (length k) (dropWhile is_space ?t) = s"
    using w by (auto simp: k_def starts_def is_space_def)
  have first: "first_char ?t = Some (if b then CHR ''t'' else CHR ''f'')"
    using w by (auto simp: k_def is_space_def)
  have "rejects (Alt Strict_double Long) ?t"
    using first by (intro rejects_number_first) (auto simp: is_digit_def lower_def)
  moreover have "reads boolean ?t (A_bool b) s"
  proof (cases b)
    case True
    then show ?thesis using reads_Lit [OF k(1)] k(2)
      by (auto simp: boolean_def k_def parse_Alt parse_Seq reads_Attr)
  next
    case False
    then have "rejects (Lit ''true'') ?t" using first by (intro rejects_Lit not_starts) simp
    with False show ?thesis using reads_Lit [OF k(1)] k(2)
      by (auto simp: boolean_def k_def parse_Alt parse_Seq reads_Attr)
  qed
  ultimately have "reads literal ?t (A_bool b) s" by (simp add: literal_def reads_Alt2)
  moreover have "rejects (Rule R_id) ?t" using k(1) by (rule rejects_id_word) (simp add: k_def)
  ultimately have "reads (Rule R_base_expression) ?t (expr_value (Ast_bool b)) s"
    using first by (intro reads_literal_base [of _ "A_bool b"]) auto
  with s show "reads (Rule (level_rule Qualifier)) (w @ show_expr Qualifier (Bool_literal_expr b) @ s)
      (expr_value (source Qualifier (Bool_literal_expr b))) s"
    by (simp add: reads_unqualified stops_def k_def)
qed

lemma at_function_call:
  assumes n: "readable_name n" and "es \<noteq> []" and "\<forall>e \<in> set es. reads_index e"
  shows "reads_at Qualifier (Intrinsic_function_expr n es)"
  unfolding reads_at_def
proof (intro allI impI)
  fix w s assume w: "spaces w" and s: "stops Qualifier s"
  let ?args = "comma_separated (map (show_expr Statement) es)"
  let ?t = "w @ n @ ''('' @ ?args @ '')'' @ s"
  note i = reads_id [OF n, of "''('' @ ?args @ '')'' @ s", OF _ w]
  have "reads (Sep_by (Rule R_non_task_expr) (Lit '','')) (?args @ CHR '')'' # s)
      (A_list (map (\<lambda>e. expr_value (source Statement e)) es)) (CHR '')'' # s)"
    using reads_list [of "hd es" "tl es" "CHR '')''" "[]" s] assms(2,3) by simp
  then have "reads function_call_def ?t (A_pair (A_string n) (A_list (map (\<lambda>e. expr_value (source Statement e)) es))) s"
    using i by (simp add: function_call_def_def parse_Seq reads_char(2))
  then have call: "reads (Rule R_function_call) ?t (expr_value (Ast_function_call n (map (source Statement) es))) s"
    by (simp add: parse_Rule)
  have first: "first_char ?t = Some (hd n)" "ascii_alpha (hd n)"
    using readable_name_first(1,3) [OF n] w by simp_all
  then have "first_char ?t \<noteq> Some CHR ''(''"
    using id_char_no_punctuation(2) [OF id_char_classes(1) [OF first(2)]] by auto
  note b = rejects_bracket_open [OF this]
  have "reads (Rule R_base_expression) ?t (expr_value (Ast_function_call n (map (source Statement) es))) s"
  proof (rule reads_Rule)
    show "reads (rule_parser R_base_expression) ?t (expr_value (Ast_function_call n (map (source Statement) es))) s"
      using b call by (simp add: base_expression_def_def parse_Alt)
  qed simp
  with s show "reads (Rule (level_rule Qualifier)) (w @ show_expr Qualifier (Intrinsic_function_expr n es) @ s)
      (expr_value (source Qualifier (Intrinsic_function_expr n es))) s"
    by (simp add: reads_unqualified stops_def)
qed

lemma at_unary:
  assumes "t = Plus_u \<or> t = Negate" and "reads_at Unary a"
  shows "reads_at Unary (Unary_operator_expr t a)"
  unfolding reads_at_def
proof (intro allI impI)
  fix w s assume w: "spaces w" and s: "stops Unary s"
  have r: "reads (Rule R_unary_operators) (show_expr Unary a @ s) (expr_value (source Unary a)) s"
    using reads_atD [OF assms(2), of "[]"] s by simp
  let ?t = "w @ unary_text t @ show_expr Unary a @ s"
  have "reads unary_op ?t (A_string (unary_text t)) (show_expr Unary a @ s)"
    using assms(1)
  proof
    assume "t = Plus_u"
    then show ?thesis using reads_token(2) [OF w, of "CHR ''+''" "[]"]
      by (simp add: unary_op_def unary_text_def parse_Alt)
  next
    assume t: "t = Negate"
    then have "rejects (Str ''+'') ?t" using w by (intro rejects_Str not_starts) (simp add: unary_text_def)
    with t show ?thesis using reads_token(2) [OF w, of "CHR ''-''" "[]"]
      by (simp add: unary_op_def unary_text_def parse_Alt)
  qed
  with r have "reads (Rule R_unary_operator) ?t (expr_value (Ast_unary_operator (unary_text t) (source Unary a))) s"
    by (simp add: parse_Rule unary_operator_def_def parse_Seq)
  then have "reads (Rule R_unary_operators) ?t (expr_value (Ast_unary_operator (unary_text t) (source Unary a))) s"
    by (simp add: parse_Rule [of R_unary_operators] unary_operators_def_def parse_Alt)
  then show "reads (Rule (level_rule Unary)) (w @ show_expr Unary (Unary_operator_expr t a) @ s)
      (expr_value (source Unary (Unary_operator_expr t a))) s"
    by (simp add: enclosed_def in_brackets_def)
qed

lemma reads_operator:
  assumes "readable_operator t"
  shows "operator_level t = Multiplication \<Longrightarrow>
      reads multiplication_op ('' '' @ binary_text t @ '' '' @ s) (A_string (binary_text t)) ('' '' @ s)"
    and "operator_level t = Addition \<Longrightarrow>
      reads addition_op ('' '' @ binary_text t @ '' '' @ s) (A_string (binary_text t)) ('' '' @ s)"
    and "operator_level t = Comparison \<Longrightarrow>
      reads comparison_op ('' '' @ binary_text t @ '' '' @ s) (A_string (binary_text t)) ('' '' @ s)"
  using assms
  by (elim readable_operator_cases; simp add: operator_level_values binary_text_def multiplication_op_def addition_op_def
      comparison_op_def parse_Alt parse_Str literal_outcome_def skip_spaces_def)+

lemma stops_before_operator:
  "readable_operator t \<Longrightarrow> operator_level t = Multiplication \<Longrightarrow> stops Unary ('' '' @ binary_text t @ '' '' @ s)"
  "readable_operator t \<Longrightarrow> operator_level t = Addition \<Longrightarrow> stops Multiplication ('' '' @ binary_text t @ '' '' @ s)"
  "readable_operator t \<Longrightarrow> operator_level t = Comparison \<Longrightarrow> stops Addition ('' '' @ binary_text t @ '' '' @ s)"
  by (elim readable_operator_cases; simp add: operator_level_values binary_text_def stops_def)+

lemma binary_attribute:
  assumes "reads p t (expr_value l) s1" and "reads q s1 (A_string k) s2" and "reads r s2 (expr_value e) s"
  shows "reads (Seq (Seq p q) r) t (A_pair (A_pair (expr_value l) (A_string k)) (expr_value e)) s"
  using assms by (simp add: parse_Seq)

lemma at_binary:
  assumes t: "readable_operator t" and a: "readable False a" "operator_level t \<noteq> expr_level a"
    and at: "\<And>L. 2 \<le> level_number L \<Longrightarrow> reads_at L a" "\<And>L. 2 \<le> level_number L \<Longrightarrow> reads_at L b"
  shows "reads_at (operator_level t) (Binary_operator_expr t a b)"
  unfolding reads_at_def
proof (intro allI impI)
  fix w s assume w: "spaces w" and s: "stops (operator_level t) s"
  let ?L = "operator_level t"
  let ?r = "'' '' @ binary_text t @ '' '' @ show_expr ?L b @ s"
  let ?t = "w @ show_expr ?L a @ ?r"
  let ?v = "Ast_binary_operator (source ?L a) (binary_text t) (source ?L b)"
  have L: "?L = Multiplication \<or> ?L = Addition \<or> ?L = Comparison"
    using t by (elim readable_operator_cases) (simp_all add: operator_level_values)
  have right: "reads (Rule (level_rule ?L)) ('' '' @ show_expr ?L b @ s) (expr_value (source ?L b)) s"
    using reads_atD [OF at(2) _ s, of "'' ''"] L by auto
  have left: "reads (Rule (level_rule M)) ?t (expr_value (source ?L a)) ?r"
    if "level_number M = Suc (level_number ?L)" "stops M ?r" for M
  proof -
    have "show_expr ?L a = show_expr M a \<and> source ?L a = source M a"
    proof (cases "level_number (expr_level a) < level_number ?L")
      case True
      then show ?thesis using show_bracket [of a ?L] show_bracket [of a M] that(1) by simp
    next
      case False
      then have "level_number ?L < level_number (expr_level a)"
        using a(2) level_number_inj [of ?L "expr_level a"] by linarith
      then show ?thesis using show_level [of ?L a M] that(1) by simp
    qed
    with reads_atD [OF at(1) w that(2)] that(1) L show ?thesis by auto
  qed
  have "reads (Rule (level_rule ?L)) ?t (expr_value ?v) s"
    using L
  proof (elim disjE)
    assume l: "?L = Multiplication"
    from binary_attribute [OF left [OF _ stops_before_operator(1) [OF t l]] reads_operator(1) [OF t l] right] l
    have "reads (Rule R_multiplication) ?t (expr_value ?v) s"
      by (simp add: parse_Rule multiplication_def_def binary_value_def)
    then show ?thesis by (simp add: l parse_Rule [of R_multiplications] multiplications_def_def parse_Alt)
  next
    assume l: "?L = Addition"
    from binary_attribute [OF left [OF _ stops_before_operator(2) [OF t l]] reads_operator(2) [OF t l] right] l
    have "reads (Rule R_addition) ?t (expr_value ?v) s"
      by (simp add: parse_Rule addition_def_def binary_value_def)
    then show ?thesis by (simp add: l parse_Rule [of R_additions] additions_def_def parse_Alt)
  next
    assume l: "?L = Comparison"
    from binary_attribute [OF left [OF _ stops_before_operator(3) [OF t l]] reads_operator(3) [OF t l] right] l
    have "reads (Rule R_comparison) ?t (expr_value ?v) s"
      by (simp add: parse_Rule comparison_def_def binary_value_def)
    then show ?thesis by (simp add: l parse_Rule [of R_comparisons] comparisons_def_def parse_Alt)
  qed
  then show "reads (Rule (level_rule ?L)) (w @ show_expr ?L (Binary_operator_expr t a b) @ s)
      (expr_value (source ?L (Binary_operator_expr t a b))) s"
    by (simp add: enclosed_def in_brackets_def)
qed

lemma reads_range:
  assumes "reads_at Logical l" and "reads_at Logical u" and "reads_at Logical i"
    and "readable False l" and "readable False u" and "readable False i" and "spaces w" and "stops Logical s"
  shows "reads (Rule R_integer_range)
    (w @ show_expr Statement l @ '':'' @ show_expr Statement i @ '':'' @ show_expr Statement u @ s)
    (A_value (V_range (Ast_integer_range (source Statement l) (source Statement i) (source Statement u)))) s"
proof -
  have eq: "show_expr Statement e = show_expr Logical e" "source Statement e = source Logical e" if "readable False e" for e
    using show_level [of Statement e Logical] readable_level [OF that] by simp_all
  note e = eq [OF assms(4)] eq [OF assms(5)] eq [OF assms(6)]
  have r: "reads (Rule R_logical_expressions) (v @ show_expr Logical e @ t) (expr_value (source Logical e)) t"
    if "reads_at Logical e" "stops Logical t" "spaces v" for e t v
    using reads_atD [OF that(1,3,2)] by simp
  have colon: "stops Logical ('':'' @ t)" for t by (simp add: stops_close)
  let ?u = "show_expr Logical u @ s" and ?i = "show_expr Logical i"
  have u: "reads (Rule R_logical_expressions) ?u (expr_value (source Logical u)) s"
    using r [OF assms(2) assms(8), of "[]"] by simp
  have i: "reads (Rule R_logical_expressions) (?i @ '':'' @ ?u) (expr_value (source Logical i)) ('':'' @ ?u)"
    using r [OF assms(3) colon, of "[]"] by simp
  have l: "reads (Rule R_logical_expressions) (w @ show_expr Logical l @ '':'' @ ?i @ '':'' @ ?u)
      (expr_value (source Logical l)) ('':'' @ ?i @ '':'' @ ?u)"
    using r [OF assms(1) colon assms(7)] by simp
  show ?thesis
    using l i u by (simp add: e parse_Rule [of R_integer_range] integer_range_def_def parse_Seq parse_Alt reads_char(2))
qed

lemma index_of_range:
  assumes "reads_at Logical l" and "reads_at Logical u" and "reads_at Logical i"
    and "readable False l" and "readable False u" and "readable False i"
  shows "reads_index (Integer_range_expr l u i)"
  unfolding reads_index_def
proof (intro allI impI)
  fix w s assume "spaces w" and "stops Logical s"
  from reads_range [OF assms this]
  show "reads (Rule R_non_task_expr) (w @ show_expr Statement (Integer_range_expr l u i) @ s)
      (expr_value (source Statement (Integer_range_expr l u i))) s"
    by (simp add: parse_Rule [of R_non_task_expr] non_task_expr_def_def parse_Alt)
qed

text \<open>All readable expressions are read back, at every level.\<close>

lemma reads_expr:
  "readable r e \<Longrightarrow> (readable False e \<longrightarrow> (\<forall>L. 2 \<le> level_number L \<longrightarrow> reads_at L e)) \<and> reads_index e \<and>
     (is_access e \<longrightarrow> reads_chain e)"
proof (induction r e rule: readable.induct)
  case (1 r v)
  then have "reads_chain (Variable_ref_expr v)" by (simp add: chain_variable)
  moreover from at_of_chain [OF this] have "\<forall>L. 2 \<le> level_number L \<longrightarrow> reads_at L (Variable_ref_expr v)"
    using all_levels [of "Variable_ref_expr v"] 1 by simp
  ultimately show ?case using index_of_at [of "Variable_ref_expr v"] 1 by simp
next
  case (2 r i)
  then have "\<forall>L. 2 \<le> level_number L \<longrightarrow> reads_at L (Integer_literal_expr i)"
    using all_levels [of "Integer_literal_expr i"] at_number by simp
  then show ?case using index_of_at [of "Integer_literal_expr i"] 2 by simp
next
  case (3 r b)
  have "\<forall>L. 2 \<le> level_number L \<longrightarrow> reads_at L (Bool_literal_expr b)"
    using all_levels [of "Bool_literal_expr b"] at_boolean by simp
  then show ?case using index_of_at [of "Bool_literal_expr b"] by simp
next
  case (4 r t a)
  then have "reads_at Unary a" "t = Plus_u \<or> t = Negate" by auto
  then have "\<forall>L. 2 \<le> level_number L \<longrightarrow> reads_at L (Unary_operator_expr t a)"
    using all_levels [of "Unary_operator_expr t a"] at_unary 4 by simp
  then show ?case using index_of_at [of "Unary_operator_expr t a"] 4 by simp
next
  case (5 r t a b)
  then have "reads_at (operator_level t) (Binary_operator_expr t a b)" by (intro at_binary) auto
  then have "\<forall>L. 2 \<le> level_number L \<longrightarrow> reads_at L (Binary_operator_expr t a b)"
    using all_levels [of "Binary_operator_expr t a b"] 5 by simp
  then show ?case using index_of_at [of "Binary_operator_expr t a b"] 5 by simp
next
  case (6 r a es)
  then have "reads_chain (Subscription_expr a es)" by (intro chain_subscription) auto
  moreover from at_of_chain [OF this] have "\<forall>L. 2 \<le> level_number L \<longrightarrow> reads_at L (Subscription_expr a es)"
    using all_levels [of "Subscription_expr a es"] 6 by simp
  ultimately show ?case using index_of_at [of "Subscription_expr a es"] 6 by simp
next
  case (7 r a n)
  then have "reads_chain (Member_access_expr a n)" by (intro chain_member) auto
  moreover from at_of_chain [OF this] have "\<forall>L. 2 \<le> level_number L \<longrightarrow> reads_at L (Member_access_expr a n)"
    using all_levels [of "Member_access_expr a n"] 7 by simp
  ultimately show ?case using index_of_at [of "Member_access_expr a n"] 7 by simp
next
  case (8 r n es)
  then have "reads_at Qualifier (Intrinsic_function_expr n es)" by (intro at_function_call) auto
  then have "\<forall>L. 2 \<le> level_number L \<longrightarrow> reads_at L (Intrinsic_function_expr n es)"
    using all_levels [of "Intrinsic_function_expr n es"] 8 by simp
  then show ?case using index_of_at [of "Intrinsic_function_expr n es"] 8 by simp
next
  case (9 r l u i)
  then have "reads_index (Integer_range_expr l u i)" by (intro index_of_range) simp_all
  then show ?case by simp
qed simp_all

lemmas reads_readable = reads_expr [THEN conjunct1] reads_expr [THEN conjunct2, THEN conjunct1]

end

end
