(* ===== verification/QirLines.thy ===== *)
theory QirLines
  imports QirReading
begin

text \<open>
  The printed lines as one text, with any spaces before each of them, and the grammar on types and declarations.
  The way a module takes through \<open>module::save\<close> and \<open>module::load\<close> (\<open>qubus/src/IR/module.cpp\<close>) ends in theory
  \<open>QirRoundTrip\<close>.
\<close>

section \<open>Lines\<close>

text \<open>The text of some lines, with any spaces before each of them.\<close>

inductive flat :: "string list \<Rightarrow> string \<Rightarrow> bool" where
  flat_Nil: "spaces t \<Longrightarrow> flat [] t"
| flat_Cons: "spaces w \<Longrightarrow> flat ls t \<Longrightarrow> flat (l # ls) (w @ l @ CHR 0x0A # t)"

inductive_cases flat_ConsE: "flat (l # ls) t"

inductive_simps flat_Nil_iff [simp]: "flat [] t"

lemma flat_space: "flat ls t \<Longrightarrow> is_space c \<Longrightarrow> flat ls (c # t)"
proof (induction rule: flat.induct)
  case (flat_Cons w ls t l)
  then show ?case using flat.flat_Cons [of "c # w" ls t l] by simp
qed simp

lemma flat_unindent: "flat (map (\<lambda>l. ''    '' @ l) ls @ ks) t \<Longrightarrow> flat (ls @ ks) t"
proof (induction ls arbitrary: t)
  case (Cons l ls)
  then obtain w t' where "t = w @ (''    '' @ l) @ CHR 0x0A # t'" "spaces w" "flat (map (\<lambda>l. ''    '' @ l) ls @ ks) t'"
    by (auto elim: flat_ConsE)
  with Cons.IH flat_Cons [of "w @ ''    ''" "ls @ ks" t' l] show ?case by simp
qed simp

lemma flat_rendered: "flat ls (rendered ls)"
proof (induction ls)
  case (Cons l ls)
  then show ?case using flat_Cons [of "[]" ls "rendered ls" l] by (simp add: rendered_def)
qed (simp add: rendered_def)

text \<open>Lines begin with a letter and with none of the words that would continue an expression.\<close>

definition good_start :: "string \<Rightarrow> bool" where
  "good_start s \<longleftrightarrow> (\<forall>c. first_char s = Some c \<longrightarrow> ascii_alpha c) \<and> \<not> starts ''and'' s \<and> \<not> starts ''or'' s"

definition good_line :: "string \<Rightarrow> bool" where
  "good_line l \<longleftrightarrow> (\<forall>t. good_start t \<longrightarrow> good_start (l @ CHR 0x0A # t))"

lemma flat_good_start: "flat ls t \<Longrightarrow> \<forall>l \<in> set ls. good_line l \<Longrightarrow> good_start t"
proof (induction rule: flat.induct)
  case (flat_Nil t)
  then have drop: "dropWhile is_space t = []" by (simp add: spaces_def)
  show ?case unfolding good_start_def first_char_def starts_def drop by simp
next
  case (flat_Cons w ls t l)
  then have "good_start (l @ CHR 0x0A # t)" by (simp add: good_line_def)
  with flat_Cons(1) show ?case by (simp add: good_start_def)
qed

lemma good_line_indent [simp]: "good_line (CHR '' '' # l) = good_line l"
  by (simp add: good_line_def good_start_def)

lemma good_line_word:
  assumes "l \<noteq> []" and "ascii_alpha (hd l)" and "hd l \<noteq> CHR ''a''" and "hd l \<noteq> CHR ''o''"
  shows "good_line l"
proof -
  obtain c cs where l: "l = c # cs" using assms(1) by (cases l) auto
  have "\<not> is_space c" using assms(2) l id_char_no_punctuation(1) id_char_classes(1) by auto
  with assms l show ?thesis by (auto simp: good_line_def good_start_def dest!: starts_first)
qed

lemma good_line_name:
  assumes "readable_name n" and "s = [] \<or> \<not> id_char (hd s)"
  shows "good_line (n @ s)"
  unfolding good_line_def good_start_def
proof (intro allI impI conjI)
  fix t :: string
  have sep: "separate (s @ CHR 0x0A # t)" using assms(2) by (cases s) auto
  show "ascii_alpha c" if "first_char ((n @ s) @ CHR 0x0A # t) = Some c" for c
    using that readable_name_first(1,3) [OF assms(1)] by simp
  show "\<not> starts ''and'' ((n @ s) @ CHR 0x0A # t)" "\<not> starts ''or'' ((n @ s) @ CHR 0x0A # t)"
    using no_word_at_name [OF assms(1) _ sep, of _ "[]"] by (simp_all add: reserved_prefixes_def)
qed

lemma stops_at_line_end:
  assumes "good_start t"
  shows "stops Logical (CHR 0x0A # t)" and "first_char (CHR 0x0A # t) \<noteq> Some CHR '':''"
    and "first_char (CHR 0x0A # t) \<noteq> Some CHR ''{''"
proof -
  have c: "c \<notin> set ''=)],}:([.*/%+-<>!{''" if "first_char t = Some c" for c
    using that assms id_char_no_punctuation(2) id_char_classes(1) by (auto simp: good_start_def)
  then have no: "first_char t \<noteq> Some c" if "c \<in> set ''=)],}:([.*/%+-<>!{''" for c using that by blast
  show "stops Logical (CHR 0x0A # t)"
    using assms no by (auto simp: stops_def good_start_def dest!: starts_first)
  show "first_char (CHR 0x0A # t) \<noteq> Some CHR '':''" "first_char (CHR 0x0A # t) \<noteq> Some CHR ''{''"
    using no [of "CHR '':''"] no [of "CHR ''{''"] by simp_all
qed

lemma access_text:
  "is_access a \<Longrightarrow> readable False a \<Longrightarrow> \<exists>n r. show_expr p a = n @ r \<and> readable_name n \<and> (r = [] \<or> \<not> id_char (hd r))"
proof (induction a arbitrary: p)
  case (Subscription_expr a es)
  then obtain n r where "show_expr Qualifier a = n @ r" "readable_name n" "r = [] \<or> \<not> id_char (hd r)"
    by (metis readable.simps(6,7))
  then show ?case by (intro exI [of _ n] exI [of _ "r @ ''['' @ comma_separated (map (show_expr Statement) es) @ '']''"])
      (cases r; simp)
next
  case (Member_access_expr a m)
  then obtain n r where "show_expr Qualifier a = n @ r" "readable_name n" "r = [] \<or> \<not> id_char (hd r)"
    by (metis readable.simps(6,7))
  then show ?case by (intro exI [of _ n] exI [of _ "r @ ''.'' @ m"]) (cases r; simp)
qed auto

section \<open>Types and declarations\<close>

lemma type_names: "readable_name ''Double''" "readable_name ''Float''" "readable_name ''Int''" "readable_name ''Bool''"
  "readable_name ''Complex''" "readable_name ''Array''"
  by (simp_all add: readable_name_def valid_id_def reserved_prefixes_def id_char_def ascii_alnum_def ascii_alpha_def)

lemma to_int32_id: "0 \<le> r \<Longrightarrow> r < 2147483648 \<Longrightarrow> to_int32 r = r"
  by (simp add: to_int32_def sint_sbintrunc' signed_take_bit_int_eq_self)

context qir_reader
begin

lemma reads_basic_type:
  assumes "readable_name n" and "spaces w" and "separate s" and "first_char s \<noteq> Some CHR ''{''"
  shows "reads (Rule R_type) (w @ n @ s) (A_value (V_type (Basic_type n))) s"
proof (rule reads_Rule)
  note i = reads_id [OF assms(1,3,2)]
  have "rejects (Lit ''{'') s" using assms(4) by (intro rejects_Lit not_starts)
  then have "rejects (Rule R_parameterized_type) (w @ n @ s)"
    using i by (intro rejects_Rule) (simp add: parameterized_type_def_def parse_Seq parse_Expect)
  moreover have "reads (Rule R_basic_type) (w @ n @ s) (A_value (V_type (Basic_type n))) s"
    by (rule reads_Rule [where a = "A_string n"]) (simp_all add: i)
  ultimately show "reads (rule_parser R_type) (w @ n @ s) (A_value (V_type (Basic_type n))) s"
    by (simp add: type_def_def reads_Alt2)
qed simp

lemma reads_parameterized_type:
  assumes "readable_name n" and "spaces w"
    and "reads (Sep_by type_parameter (Lit '','')) t (A_list as) (''}'' @ s)" and "as_all as_type_parameter as = Some ps"
  shows "reads (Rule R_type) (w @ n @ ''{'' @ t) (A_value (V_type (Parameterized_type n ps))) s"
proof (rule reads_Rule)
  let ?t = "w @ n @ ''{'' @ t"
  have i: "reads (Rule R_id) ?t (A_string n) (''{'' @ t)" using reads_id [OF assms(1) _ assms(2)] by simp
  have "reads parameterized_type_def ?t (A_pair (A_string n) (A_opt (Some (A_list as)))) s"
    using i assms(3) by (simp add: parameterized_type_def_def parse_Seq parse_Expect parse_Opt reads_char(2))
  then have "reads (Rule R_parameterized_type) ?t (A_value (V_type (Parameterized_type n ps))) s"
    by (simp add: parse_Rule assms(4))
  then show "reads (rule_parser R_type) ?t (A_value (V_type (Parameterized_type n ps))) s"
    by (simp add: type_def_def reads_Alt1)
qed simp

lemma reads_rank:
  assumes "0 \<le> r" and "r < 2147483648"
  shows "reads type_parameter ('' '' @ int_to_string r @ ''}'' @ s) (A_int r) (''}'' @ s)"
proof -
  obtain c cs where c: "to_string (nat r) = c # cs" "is_digit c" by (rule to_string_cons)
  let ?t = "'' '' @ int_to_string r @ ''}'' @ s"
  have drop: "dropWhile is_space ?t = to_string (nat r) @ ''}'' @ s" and first: "first_char ?t = Some c"
    using digit_first [OF c(2)] assms(1) by (simp_all add: int_to_string_def c(1))
  have id: "rejects (Rule R_id) ?t"
    using first c(2) by (intro rejects_id_first) (auto simp: is_digit_def ascii_alpha_def Let_def)
  then have "rejects (Rule R_basic_type) ?t" by (intro rejects_Rule) simp
  moreover have "rejects (Rule R_parameterized_type) ?t"
    using id by (intro rejects_Rule) (simp add: parameterized_type_def_def rejects_Seq1)
  ultimately have "rejects (Rule R_type) ?t" by (intro rejects_Rule) (simp add: type_def_def rejects_Alt)
  moreover have "reads Long ?t (A_int r) (''}'' @ s)"
    unfolding parse_Long skip_spaces_def long_outcome_def
    using parse_long_to_string [of "''}'' @ s" "nat r"] assms drop by (simp add: i64_max_def)
  ultimately show ?thesis by (simp add: type_parameter_def reads_Alt2)
qed

lemma reads_type:
  "readable_type t \<Longrightarrow> spaces w \<Longrightarrow> separate s \<Longrightarrow> first_char s \<noteq> Some CHR ''{'' \<Longrightarrow>
     reads (Rule R_type) (w @ show_type t @ s) (A_value (V_type (type_source t))) s"
proof (induction t arbitrary: w s rule: readable_type.induct)
  case (5 t)
  have t: "reads type_parameter (show_type t @ ''}'' @ s) (A_value (V_type (type_source t))) (''}'' @ s)"
    using "5.IH" [of "[]" "''}'' @ s"] 5 by (simp add: type_parameter_def reads_Alt1)
  have "reads (Kleene (Seq (Lit '','') type_parameter)) (''}'' @ s) (A_list []) (''}'' @ s)"
    by (intro reads_Kleene_stop rejects_Seq1 rejects_Lit not_starts) simp
  from reads_parameterized_type [OF type_names(5) \<open>spaces w\<close> reads_Sep_by [OF t this]]
  show ?case by simp
next
  case (6 t r)
  have t: "reads type_parameter (show_type t @ '', '' @ int_to_string r @ ''}'' @ s) (A_value (V_type (type_source t)))
      ('', '' @ int_to_string r @ ''}'' @ s)"
    using "6.IH" [of "[]" "'', '' @ int_to_string r @ ''}'' @ s"] 6 by (simp add: type_parameter_def reads_Alt1)
  have stop: "reads (Kleene (Seq (Lit '','') type_parameter)) (''}'' @ s) (A_list []) (''}'' @ s)"
    by (intro reads_Kleene_stop rejects_Seq1 rejects_Lit not_starts) simp
  have "reads (Seq (Lit '','') type_parameter) ('', '' @ int_to_string r @ ''}'' @ s) (A_int r) (''}'' @ s)"
    using reads_rank [of r s] 6 by (simp add: parse_Seq reads_char(2))
  from reads_Kleene [OF this stop]
  have "reads (Kleene (Seq (Lit '','') type_parameter)) ('', '' @ int_to_string r @ ''}'' @ s) (A_list [A_int r]) (''}'' @ s)" .
  from reads_parameterized_type [OF type_names(6) \<open>spaces w\<close> reads_Sep_by [OF t this]] 6 to_int32_id [of r]
  show ?case by simp
next
  case 1
  then show ?case using reads_basic_type [OF type_names(1), of w s] by simp
next
  case 2
  then show ?case using reads_basic_type [OF type_names(2), of w s] by simp
next
  case 3
  then show ?case using reads_basic_type [OF type_names(3), of w s] by simp
next
  case 4
  then show ?case using reads_basic_type [OF type_names(4), of w s] by simp
qed simp_all

lemma reads_declaration:
  assumes "readable_declaration v" and "spaces w" and "separate s" and "first_char s \<noteq> Some CHR ''{''"
  shows "reads (Rule R_variable_declaration) (w @ show_declaration v @ s) (A_value (V_declaration (declaration_source v))) s"
proof -
  let ?t = "w @ var_name v @ '' :: '' @ show_type (var_type v) @ s"
  have v: "readable_name (var_name v)" "readable_type (var_type v)" using assms(1) by (simp_all add: readable_declaration_def)
  have i: "reads (Rule R_id) ?t (A_string (var_name v)) ('' :: '' @ show_type (var_type v) @ s)"
    using reads_id [OF v(1) _ assms(2)] by simp
  have "reads (Lit ''::'') ('' :: '' @ show_type (var_type v) @ s) A_none ('' '' @ show_type (var_type v) @ s)"
    using reads_token(1) [of "'' ''" "CHR '':''" "'':''"] by simp
  moreover have "reads (Rule R_type) ('' '' @ show_type (var_type v) @ s) (A_value (V_type (type_source (var_type v)))) s"
    using reads_type [OF v(2) _ assms(3,4), of "'' ''"] by simp
  ultimately have "reads variable_declaration_def ?t (A_pair (A_string (var_name v)) (A_value (V_type (type_source (var_type v))))) s"
    using i by (simp add: variable_declaration_def_def parse_Seq parse_Expect)
  then show ?thesis
    by (simp add: parse_Rule [of R_variable_declaration] show_declaration_def declaration_source_def declaration_of_def)
qed

end

end
