(* ===== verification/QirStatements.thy ===== *)
theory QirStatements
  imports QirLines
begin

text \<open>
  The grammar reads the printed statements: assignments, loops, conditionals and definitions of variables, and the
  blocks of statements up to the word that ends them.
\<close>

section \<open>Lines of statements\<close>

lemma show_assignment:
  "readable r e \<Longrightarrow> show_expr Assignment e = show_expr Statement e \<and> source Assignment e = source Statement e"
  by (cases e) (auto simp: readable_operator_def operator_level_def enclosed_def in_brackets_def)

lemma access_readable: "is_access a \<Longrightarrow> readable r a \<Longrightarrow> readable False a"
  by (cases a) auto

lemma good_statement_lines: "statement e \<Longrightarrow> l \<in> set (show_lines e) \<Longrightarrow> good_line l"
proof (induction e arbitrary: l rule: statement.induct)
  case (1 t a b)
  then have a: "is_access a" "readable False a" by auto
  from access_text [OF a, of Assignment] obtain n r where
    n: "show_expr Assignment a = n @ r" "readable_name n" "r = [] \<or> \<not> id_char (hd r)" by blast
  let ?r = "r @ '' '' @ binary_text t @ '' '' @ show_expr Assignment b"
  have "?r = [] \<or> \<not> id_char (hd ?r)" using n(3) by (cases r) simp_all
  from good_line_name [OF n(2) this] 1 n(1) show ?case by simp
next
  case (2 order v l u i b)
  have "good_line (order_words order @ s)" for s
    by (rule good_line_word; cases order; simp add: ascii_alpha_def)
  moreover have "good_line ''end''" by (rule good_line_word) (simp_all add: ascii_alpha_def)
  ultimately show ?case using 2 by (auto simp: indented_def)
next
  case (3 c t e)
  have "good_line (''if '' @ s)" for s by (rule good_line_word) (simp_all add: ascii_alpha_def)
  moreover have "good_line ''end''" "good_line ''else''" by (rule good_line_word; simp add: ascii_alpha_def)+
  ultimately show ?case using 3 by (auto simp: indented_def split: option.splits)
next
  case (4 v i)
  have "good_line (''let '' @ s)" for s by (rule good_line_word) (simp_all add: ascii_alpha_def)
  with 4 show ?case by simp
qed simp_all

definition good_lines :: "string list \<Rightarrow> bool" where
  "good_lines ls \<longleftrightarrow> (\<forall>l \<in> set ls. good_line l)"

lemma good_lines_simps [simp]:
  "good_lines []" "good_lines (l # ls) \<longleftrightarrow> good_line l \<and> good_lines ls" "good_lines (ls @ ks) \<longleftrightarrow> good_lines ls \<and> good_lines ks"
  by (auto simp: good_lines_def)

lemma good_lines_indented [simp]: "good_lines (indented ls) = good_lines ls"
  by (simp add: good_lines_def indented_def)

lemma good_lines_statement: "statement e \<Longrightarrow> good_lines (show_lines e)"
  by (simp add: good_lines_def good_statement_lines)

lemma good_lines_statements: "\<forall>e \<in> set es. statement e \<Longrightarrow> good_lines (concat (map show_lines es))"
  by (auto simp: good_lines_def intro: good_statement_lines)

lemma good_words [simp]: "good_line ''end''" "good_line ''else''"
  by (rule good_line_word; simp add: ascii_alpha_def)+

text \<open>The first line of a text and the lines that follow it.\<close>

lemma flat_line:
  assumes "flat (l # ls) t" and "good_lines ls"
  obtains w r where "t = w @ l @ CHR 0x0A # r" and "spaces w" and "flat ls (CHR 0x0A # r)" and "good_start r"
    and "stops Logical (CHR 0x0A # r)" and "first_char (CHR 0x0A # r) \<noteq> Some CHR '':''"
    and "first_char (CHR 0x0A # r) \<noteq> Some CHR ''{''"
proof -
  from assms(1) obtain w r where r: "t = w @ l @ CHR 0x0A # r" "spaces w" "flat ls r" by (auto elim: flat_ConsE)
  have "good_start r" using flat_good_start [OF r(3)] assms(2) by (simp add: good_lines_def)
  with stops_at_line_end [OF this] that [OF r(1,2) flat_space [OF r(3)]] show thesis by simp
qed

lemma flat_indented: "flat (indented ls @ ks) t \<Longrightarrow> flat (ls @ ks) t"
  unfolding indented_def by (rule flat_unindent)

section \<open>Where no statement begins\<close>

context qir_reader
begin

lemma rejects_if: "\<not> starts ''if'' t \<Longrightarrow> rejects (Rule R_if_expr) t"
  by (rule rejects_Rule) (simp add: if_expr_def_def rejects_Expect rejects_Lit)

lemma rejects_let: "\<not> starts ''let'' t \<Longrightarrow> rejects (Rule R_let_expr) t"
  by (rule rejects_Rule) (simp add: let_expr_def_def rejects_Expect rejects_Lit)

lemma reads_no_ordering:
  "\<not> starts ''parallel'' t \<Longrightarrow> \<not> starts ''unordered'' t \<Longrightarrow> reads ordering_def t (A_string ''sequential'') t"
  by (simp add: ordering_def_def reads_Alt2 rejects_Alt rejects_Str reads_Attr)

lemma rejects_for:
  "\<not> starts ''for'' t \<Longrightarrow> \<not> starts ''parallel'' t \<Longrightarrow> \<not> starts ''unordered'' t \<Longrightarrow> rejects (Rule R_for_expr) t"
  by (rule rejects_Rule)
    (simp add: for_expr_def_def rejects_Expect rejects_Seq2 [OF reads_no_ordering] rejects_Lit)

lemma rejects_statement_end:
  assumes "starts ''end'' t \<or> starts ''else'' t"
  shows "rejects (Rule R_expression) t"
proof (rule rejects_Rule)
  have "first_char t = Some CHR ''e''" using assms by (auto dest: starts_first)
  then have no: "\<not> starts (c # l) t" if "c \<noteq> CHR ''e''" for c l using that by (intro not_starts) simp
  have "no_start t" using assms by (auto simp: no_start_def)
  then show "rejects (rule_parser R_expression) t"
    by (simp add: expression_def_def rejects_Alt rejects_if rejects_for rejects_let rejects_no_start no)
qed

section \<open>Blocks\<close>

definition reads_statement :: "expr \<Rightarrow> bool" where
  "reads_statement e \<longleftrightarrow> (\<forall>ls t. good_lines ls \<longrightarrow> flat (show_lines e @ ls) t \<longrightarrow>
     (\<exists>r. reads (Rule R_expression) t (expr_value (statement_source e)) r \<and> flat ls r))"

lemma reads_statementD:
  assumes "reads_statement e" and "good_lines ls" and "flat (show_lines e @ ls) t"
  obtains r where "reads (Rule R_expression) t (expr_value (statement_source e)) r" and "flat ls r"
  using assms unfolding reads_statement_def by blast

lemma reads_statements:
  assumes "\<forall>e \<in> set es. statement e \<and> reads_statement e" and "k = ''end'' \<or> k = ''else''" and "good_lines ls"
    and "flat (concat (map show_lines es) @ k # ls) t"
  shows "\<exists>r. reads (Kleene (Rule R_expression)) t (A_list (map (\<lambda>e. expr_value (statement_source e)) es)) r \<and>
    flat (k # ls) r"
  using assms(1,4)
proof (induction es arbitrary: t)
  case Nil
  then have "starts k t" using assms(2) by (auto elim!: flat_ConsE simp: starts_def is_space_def)
  then have "rejects (Rule R_expression) t" using assms(2) by (intro rejects_statement_end) auto
  with Nil show ?case by (auto intro: reads_Kleene_stop)
next
  case (Cons e es)
  have "good_lines (concat (map show_lines es) @ k # ls)"
    using Cons.prems(1) assms(2,3) good_lines_statements [of es] by auto
  then obtain r where r: "reads (Rule R_expression) t (expr_value (statement_source e)) r"
    "flat (concat (map show_lines es) @ k # ls) r"
    using reads_statementD [of e "concat (map show_lines es) @ k # ls" t] Cons.prems by auto
  from Cons.IH [OF _ r(2)] Cons.prems(1) obtain r' where
    "reads (Kleene (Rule R_expression)) r (A_list (map (\<lambda>e. expr_value (statement_source e)) es)) r'" "flat (k # ls) r'"
    by auto
  with reads_Kleene [OF r(1)] show ?case by auto
qed

lemma reads_block:
  assumes "is_block b" and "\<forall>e \<in> set (body_of b). statement e \<and> reads_statement e" and "k = ''end'' \<or> k = ''else''"
    and "good_lines ls" and "flat (indented (concat (map show_lines (body_of b))) @ k # ls) t"
  shows "\<exists>r. reads (Rule R_expression_block) t (A_value (V_block (block_source b))) r \<and> flat (k # ls) r"
proof -
  from reads_statements [OF assms(2-4) flat_indented [OF assms(5)]] obtain r where
    r: "reads (Kleene (Rule R_expression)) t (A_list (map (\<lambda>e. expr_value (statement_source e)) (body_of b))) r"
      "flat (k # ls) r" by blast
  then have "reads (Rule R_expression_block) t (A_value (V_block (block_source b))) r"
    by (simp add: parse_Rule [of R_expression_block] expression_block_def_def parse_Seq reads_Attr block_source_def)
  with r(2) show ?thesis by blast
qed

lemma reads_word_line:
  assumes "flat (k # ls) t" and "k = ''end'' \<or> k = ''else''"
  shows "\<exists>r. reads (Lit k) t A_none r \<and> flat ls r"
proof -
  from assms(1) obtain w r where r: "t = w @ k @ CHR 0x0A # r" "spaces w" "flat ls r" by (auto elim: flat_ConsE)
  from assms(2) have "reads (Lit k) t A_none (CHR 0x0A # r)"
    using reads_token(1) [OF r(2), of "hd k" "tl k" "CHR 0x0A # r"] r(1) by (auto simp: is_space_def)
  with flat_space [OF r(3)] show ?thesis by auto
qed

section \<open>Statements\<close>

lemma reads_assignment:
  assumes t: "t = Assign \<or> t = Plus_assign" and a: "is_access a" "readable False a" and b: "readable True b"
  shows "reads_statement (Binary_operator_expr t a b)"
  unfolding reads_statement_def
proof (intro allI impI)
  fix ls s assume ls: "good_lines ls" and s: "flat (show_lines (Binary_operator_expr t a b) @ ls) s"
  note same = show_assignment [OF a(2), THEN conjunct1] show_assignment [OF b, THEN conjunct1]
    show_assignment [OF a(2), THEN conjunct2] show_assignment [OF b, THEN conjunct2]
  from s have "flat ((show_expr Statement a @ '' '' @ binary_text t @ '' '' @ show_expr Statement b) # ls) s"
    by (simp add: same)
  then obtain w r where r: "s = w @ (show_expr Statement a @ '' '' @ binary_text t @ '' '' @ show_expr Statement b) @ CHR 0x0A # r"
    "spaces w" "flat ls (CHR 0x0A # r)" "stops Logical (CHR 0x0A # r)" "first_char (CHR 0x0A # r) \<noteq> Some CHR '':''"
    using ls by (rule flat_line)
  let ?rest = "'' '' @ show_expr Statement b @ CHR 0x0A # r"
  let ?op = "'' '' @ binary_text t @ ?rest"
  have op_text: "binary_text t = ''='' \<and> t = Assign \<or> binary_text t = ''+='' \<and> t = Plus_assign"
    using t by (auto simp: binary_text_def)
  have "stops Logical ?op" "first_char ?op \<noteq> Some CHR '':''"
    using op_text by (auto simp: stops_def starts_def)
  from reads_indexD [OF reads_readable(2) [OF a(2)] r(2) this]
  have left: "reads (Rule R_non_task_expr) s (expr_value (source Statement a)) ?op" by (simp add: r(1))
  have op: "reads assignment_op ?op (A_string (binary_text t)) ?rest"
    using op_text by (auto simp: assignment_op_def parse_Alt parse_Str literal_outcome_def skip_spaces_def)
  have right: "reads (Rule R_non_task_expr) ?rest (expr_value (source Statement b)) (CHR 0x0A # r)"
    by (rule reads_indexD [OF reads_readable(2) [OF b] _ r(4,5)]) simp
  have "reads (Rule R_assignment) s (expr_value (statement_source (Binary_operator_expr t a b))) (CHR 0x0A # r)"
    using left op right
    by (simp add: parse_Rule [of R_assignment] assignment_def_def parse_Seq parse_Expect binary_value_def same)
  moreover have "rejects (Rule R_if_expr) s" "rejects (Rule R_for_expr) s" "rejects (Rule R_let_expr) s"
  proof -
    from access_text [OF a, of Statement] obtain n q where
      n: "show_expr Statement a = n @ q" "readable_name n" "q = [] \<or> \<not> id_char (hd q)" by blast
    have "separate (q @ ?op)" using n(3) by (cases q) simp_all
    from no_word_at_name [OF n(2) _ this r(2)] have "\<not> starts k s" if "k \<in> set reserved_prefixes" for k
      using that by (simp add: r(1) n(1))
    then show "rejects (Rule R_if_expr) s" "rejects (Rule R_for_expr) s" "rejects (Rule R_let_expr) s"
      by (intro rejects_if rejects_for rejects_let; simp add: reserved_prefixes_def)+
  qed
  ultimately have "reads (Rule R_expression) s (expr_value (statement_source (Binary_operator_expr t a b))) (CHR 0x0A # r)"
    by (simp add: parse_Rule [of R_expression] expression_def_def parse_Alt del: statement_source.simps)
  with r(3) show "\<exists>r. reads (Rule R_expression) s (expr_value (statement_source (Binary_operator_expr t a b))) r \<and> flat ls r"
    by blast
qed

lemma reads_let:
  assumes v: "readable_declaration v" and i: "readable True i"
  shows "reads_statement (Local_variable_def_expr v i)"
  unfolding reads_statement_def
proof (intro allI impI)
  fix ls s assume ls: "good_lines ls" and s: "flat (show_lines (Local_variable_def_expr v i) @ ls) s"
  from s have "flat ((''let '' @ show_declaration v @ '' = '' @ show_expr Statement i) # ls) s" by simp
  then obtain w r where r: "s = w @ (''let '' @ show_declaration v @ '' = '' @ show_expr Statement i) @ CHR 0x0A # r"
    "spaces w" "flat ls (CHR 0x0A # r)" "stops Logical (CHR 0x0A # r)" "first_char (CHR 0x0A # r) \<noteq> Some CHR '':''"
    using ls by (rule flat_line)
  let ?rest = "'' '' @ show_expr Statement i @ CHR 0x0A # r"
  have head: "reads (Lit ''let'') s A_none ('' '' @ show_declaration v @ '' ='' @ ?rest)"
    using reads_token(1) [OF r(2), of "CHR ''l''" "''et''"] r(1) by (simp add: is_space_def)
  have decl: "reads (Rule R_variable_declaration) ('' '' @ show_declaration v @ '' ='' @ ?rest)
      (A_value (V_declaration (declaration_source v))) ('' ='' @ ?rest)"
    by (rule reads_declaration [OF v]) simp_all
  have eq: "reads (Lit ''='') ('' ='' @ ?rest) A_none ?rest"
    using reads_token(1) [of "'' ''" "CHR ''=''" "[]" ?rest] by simp
  have right: "reads (Rule R_non_task_expr) ?rest (expr_value (source Statement i)) (CHR 0x0A # r)"
    by (rule reads_indexD [OF reads_readable(2) [OF i] _ r(4,5)]) simp
  have first: "first_char s = Some CHR ''l''" using r by (simp add: is_space_def)
  have "reads (Rule R_let_expr) s (expr_value (Ast_let_expr (declaration_source v) (source Statement i))) (CHR 0x0A # r)"
    using head decl eq right by (simp add: parse_Rule [of R_let_expr] let_expr_def_def parse_Expect)
  moreover have "rejects (Rule R_if_expr) s" "rejects (Rule R_for_expr) s"
    using first by (intro rejects_if rejects_for not_starts; simp)+
  ultimately have "reads (Rule R_expression) s (expr_value (statement_source (Local_variable_def_expr v i))) (CHR 0x0A # r)"
    by (simp add: parse_Rule [of R_expression] expression_def_def parse_Alt)
  with r(3) show "\<exists>r. reads (Rule R_expression) s (expr_value (statement_source (Local_variable_def_expr v i))) r \<and> flat ls r"
    by blast
qed

lemma reads_ordering:
  assumes "spaces w"
  shows "reads (Seq ordering_def (Lit ''for'')) (w @ order_words order @ s) (A_string (order_text order)) ('' '' @ s)"
    and "rejects (Rule R_if_expr) (w @ order_words order @ s)"
proof -
  let ?t = "w @ order_words order @ s"
  have first: "first_char ?t = Some (hd (order_words order))" using assms by (cases order) (simp_all add: is_space_def)
  then show "rejects (Rule R_if_expr) ?t" by (intro rejects_if not_starts) (cases order; simp)
  show "reads (Seq ordering_def (Lit ''for'')) ?t (A_string (order_text order)) ('' '' @ s)"
  proof (cases order)
    case Sequential
    then have "reads ordering_def ?t (A_string ''sequential'') ?t"
      using first by (intro reads_no_ordering not_starts) simp_all
    moreover have "reads (Lit ''for'') ?t A_none ('' '' @ s)"
      using Sequential reads_token(1) [OF assms, of "CHR ''f''" "''or''" "'' '' @ s"] by (simp add: is_space_def)
    ultimately show ?thesis using Sequential by (simp add: parse_Seq)
  next
    case Unordered
    then have "rejects (Str ''parallel'') ?t" using first by (intro rejects_Str not_starts) simp
    moreover have "reads (Str ''unordered'') ?t (A_string ''unordered'') ('' for '' @ s)"
      using Unordered reads_token(2) [OF assms, of "CHR ''u''" "''nordered''" "'' for '' @ s"] by (simp add: is_space_def)
    moreover have "reads (Lit ''for'') ('' for '' @ s) A_none ('' '' @ s)"
      using reads_token(1) [of "'' ''" "CHR ''f''" "''or''" "'' '' @ s"] by (simp add: is_space_def)
    ultimately show ?thesis using Unordered by (simp add: ordering_def_def parse_Seq parse_Alt)
  next
    case Parallel
    then have "reads (Str ''parallel'') ?t (A_string ''parallel'') ('' for '' @ s)"
      using reads_token(2) [OF assms, of "CHR ''p''" "''arallel''" "'' for '' @ s"] by (simp add: is_space_def)
    moreover have "reads (Lit ''for'') ('' for '' @ s) A_none ('' '' @ s)"
      using reads_token(1) [of "'' ''" "CHR ''f''" "''or''" "'' '' @ s"] by (simp add: is_space_def)
    ultimately show ?thesis using Parallel by (simp add: ordering_def_def parse_Seq parse_Alt)
  qed
qed

lemma reads_for:
  assumes v: "readable_declaration v" and e: "readable False l" "readable False u" "readable False i"
    and b: "is_block b" "\<forall>e \<in> set (body_of b). statement e \<and> reads_statement e"
  shows "reads_statement (For_expr order v l u i b)"
  unfolding reads_statement_def
proof (intro allI impI)
  fix ls s assume ls: "good_lines ls" and s: "flat (show_lines (For_expr order v l u i b) @ ls) s"
  let ?range = "show_expr Statement l @ '':'' @ show_expr Statement i @ '':'' @ show_expr Statement u"
  let ?body = "indented (concat (map show_lines (body_of b))) @ ''end'' # ls"
  from s have "flat ((order_words order @ show_declaration v @ '' in '' @ ?range) # ?body) s" by simp
  moreover have "good_lines ?body" using ls b(2) good_lines_statements [of "body_of b"] by simp
  ultimately obtain w r where r: "s = w @ (order_words order @ show_declaration v @ '' in '' @ ?range) @ CHR 0x0A # r"
    "spaces w" "flat ?body (CHR 0x0A # r)" "stops Logical (CHR 0x0A # r)" by (rule flat_line)
  from reads_block [OF b _ ls r(3)] obtain t where
    t: "reads (Rule R_expression_block) (CHR 0x0A # r) (A_value (V_block (block_source b))) t" "flat (''end'' # ls) t"
    by blast
  from reads_word_line [OF t(2)] obtain t' where t': "reads (Lit ''end'') t A_none t'" "flat ls t'" by blast
  let ?rest = "'' '' @ ?range @ CHR 0x0A # r"
  have head: "reads (Seq ordering_def (Lit ''for'')) s (A_string (order_text order)) ('' '' @ show_declaration v @ '' in'' @ ?rest)"
    and no_if: "rejects (Rule R_if_expr) s"
    using reads_ordering [OF r(2), of order "show_declaration v @ '' in'' @ ?rest"] r(1) by simp_all
  have decl: "reads (Rule R_variable_declaration) ('' '' @ show_declaration v @ '' in'' @ ?rest)
      (A_value (V_declaration (declaration_source v))) ('' in'' @ ?rest)"
    by (rule reads_declaration [OF v]) (simp_all add: is_space_def)
  have word: "reads (Lit ''in'') ('' in'' @ ?rest) A_none ?rest"
    using reads_token(1) [of "'' ''" "CHR ''i''" "''n''" ?rest] by (simp add: is_space_def)
  have all: "reads_at Logical l" "reads_at Logical u" "reads_at Logical i"
    using reads_readable(1) e by simp_all
  have range: "reads (Rule R_integer_range) ?rest
      (A_value (V_range (Ast_integer_range (source Statement l) (source Statement i) (source Statement u)))) (CHR 0x0A # r)"
    using reads_range [OF all e _ r(4), of "'' ''"] by simp
  have "reads (Rule R_for_expr) s (expr_value (statement_source (For_expr order v l u i b))) t'"
    using head decl word range t(1) t'(1)
    by (simp add: parse_Rule [of R_for_expr] for_expr_def_def parse_Expect block_source_def)
  with no_if have "reads (Rule R_expression) s (expr_value (statement_source (For_expr order v l u i b))) t'"
    by (simp add: parse_Rule [of R_expression] expression_def_def parse_Alt)
  with t'(2) show "\<exists>r. reads (Rule R_expression) s (expr_value (statement_source (For_expr order v l u i b))) r \<and> flat ls r"
    by blast
qed

lemma reads_if_head:
  assumes c: "readable True c" and s: "flat ((''if '' @ show_expr Statement c) # ls) s" and ls: "good_lines ls"
  shows "\<exists>r t. reads (Lit ''if'') s A_none r \<and> reads (Rule R_non_task_expr) r (expr_value (source Statement c)) t \<and> flat ls t"
proof -
  from s ls obtain w r where r: "s = w @ (''if '' @ show_expr Statement c) @ CHR 0x0A # r"
    "spaces w" "flat ls (CHR 0x0A # r)" "stops Logical (CHR 0x0A # r)" "first_char (CHR 0x0A # r) \<noteq> Some CHR '':''"
    by (rule flat_line)
  let ?rest = "'' '' @ show_expr Statement c @ CHR 0x0A # r"
  have "reads (Lit ''if'') s A_none ?rest"
    using reads_token(1) [OF r(2), of "CHR ''i''" "''f''" ?rest] r(1) by (simp add: is_space_def)
  moreover have "reads (Rule R_non_task_expr) ?rest (expr_value (source Statement c)) (CHR 0x0A # r)"
    by (rule reads_indexD [OF reads_readable(2) [OF c] _ r(4,5)]) simp
  ultimately show ?thesis using r(3) by blast
qed

lemma reads_if:
  assumes c: "readable True c" and t: "is_block t" "\<forall>e \<in> set (body_of t). statement e \<and> reads_statement e"
    and e: "case eb of None \<Rightarrow> True | Some b \<Rightarrow> is_block b \<and> (\<forall>e \<in> set (body_of b). statement e \<and> reads_statement e)"
  shows "reads_statement (If_expr c t eb)"
  unfolding reads_statement_def
proof (intro allI impI)
  fix ls s assume ls: "good_lines ls" and s: "flat (show_lines (If_expr c t eb) @ ls) s"
  let ?then = "indented (concat (map show_lines (body_of t)))"
  define rest where "rest = (case eb of None \<Rightarrow> [] | Some b \<Rightarrow> ''else'' # indented (concat (map show_lines (body_of b)))) @ ''end'' # ls"
  have good: "good_lines rest" "good_lines (tl rest)"
    using ls e good_lines_statements by (auto simp: rest_def split: option.splits)
  from s have "flat ((''if '' @ show_expr Statement c) # ?then @ rest) s" by (simp add: rest_def)
  from reads_if_head [OF c this] good(1) t(2) good_lines_statements [of "body_of t"] obtain r1 r2 where
    head: "reads (Lit ''if'') s A_none r1" "reads (Rule R_non_task_expr) r1 (expr_value (source Statement c)) r2"
      "flat (?then @ rest) r2" by auto
  obtain k where k: "rest = k # tl rest" "k = ''end'' \<or> k = ''else''"
    by (cases eb) (auto simp: rest_def)
  from head(3) k(1) have "flat (?then @ k # tl rest) r2" by simp
  from reads_block [OF t k(2) good(2) this] k(1) obtain r3 where
    block: "reads (Rule R_expression_block) r2 (A_value (V_block (block_source t))) r3" "flat rest r3" by auto
  have "\<exists>r4. reads (Opt (Expect (Lit ''else'') (Rule R_expression_block))) r3
      (A_opt (map_option (\<lambda>b. A_value (V_block (block_source b))) eb)) r4 \<and> flat (''end'' # ls) r4"
  proof (cases eb)
    case None
    then have "flat (''end'' # ls) r3" using block(2) by (simp add: rest_def)
    moreover from this have "\<not> starts ''else'' r3" by (auto elim!: flat_ConsE simp: starts_def is_space_def)
    ultimately show ?thesis
      using None reads_Opt_stop [OF rejects_Expect [OF rejects_Lit], of "''else''" r3] by auto
  next
    case (Some b)
    let ?else = "indented (concat (map show_lines (body_of b))) @ ''end'' # ls"
    have "flat (''else'' # ?else) r3" using block(2) Some by (simp add: rest_def)
    from reads_word_line [OF this] obtain r where r: "reads (Lit ''else'') r3 A_none r" "flat ?else r" by blast
    have b: "is_block b" "\<forall>e \<in> set (body_of b). statement e \<and> reads_statement e" using e Some by simp_all
    from reads_block [OF b _ ls r(2)] obtain r4 where
      "reads (Rule R_expression_block) r (A_value (V_block (block_source b))) r4" "flat (''end'' # ls) r4" by auto
    with reads_Opt [OF reads_Expect [OF r(1)]] Some show ?thesis by fastforce
  qed
  then obtain r4 where r4: "reads (Opt (Expect (Lit ''else'') (Rule R_expression_block))) r3
      (A_opt (map_option (\<lambda>b. A_value (V_block (block_source b))) eb)) r4" "flat (''end'' # ls) r4" by blast
  from reads_word_line [OF r4(2)] obtain r5 where r5: "reads (Lit ''end'') r4 A_none r5" "flat ls r5" by blast
  have "reads (Rule R_if_expr) s (expr_value (statement_source (If_expr c t eb))) r5"
    using head(1,2) block(1) r4(1) r5(1)
    by (cases eb) (simp_all add: parse_Rule [of R_if_expr] if_expr_def_def parse_Expect block_source_def)
  then have "reads (Rule R_expression) s (expr_value (statement_source (If_expr c t eb))) r5"
    by (simp add: parse_Rule [of R_expression] expression_def_def parse_Alt)
  with r5(2) show "\<exists>r. reads (Rule R_expression) s (expr_value (statement_source (If_expr c t eb))) r \<and> flat ls r"
    by blast
qed

text \<open>Every readable statement is read back.\<close>

lemma statement_read: "statement e \<Longrightarrow> reads_statement e"
proof (induction e rule: statement.induct)
  case (1 t a b)
  then show ?case by (intro reads_assignment) auto
next
  case (2 order v l u i b)
  then show ?case by (intro reads_for) auto
next
  case (3 c t eb)
  then show ?case by (intro reads_if) (auto split: option.splits)
next
  case (4 v i)
  then show ?case by (intro reads_let) auto
qed simp_all

lemma reads_readable_block:
  assumes "readable_block b" and "good_lines ls" and "flat (indented (show_block b) @ ''end'' # ls) t"
  shows "\<exists>r. reads (Rule R_expression_block) t (A_value (V_block (block_source b))) r \<and> flat (''end'' # ls) r"
  using reads_block [of b "''end''" ls t] assms statement_read by (simp add: readable_block_def show_block_def)

lemma good_lines_block: "readable_block b \<Longrightarrow> good_lines (show_block b)"
  by (simp add: readable_block_def show_block_def good_lines_statements)

end

end
