(* ===== verification/QirRoundTrip.thy ===== *)
theory QirRoundTrip
  imports QirStatements
begin

text \<open>
  The way of a module through \<open>module::save\<close> and \<open>module::load\<close> (\<open>qubus/src/IR/module.cpp\<close>): it is printed, the
  text is parsed, and the syntax tree is analyzed.  The result is the module again, up to the addresses of variables.
\<close>

section \<open>Definitions\<close>

lemma good_lines_members:
  assumes "\<forall>(d, i) \<in> set ms. readable_name i \<and> readable_type d"
  shows "good_lines (map (\<lambda>(d, i). i @ '' :: '' @ show_type d) ms)"
proof -
  have "good_line (n @ '' :: '' @ s)" if "readable_name n" for n s using that by (intro good_line_name) simp_all
  with assms show ?thesis by (auto simp: good_lines_def)
qed

context qir_reader
begin

lemma rejects_declaration_end: "starts ''end'' t \<Longrightarrow> rejects (Rule R_variable_declaration) t"
  by (intro rejects_Rule) (simp add: variable_declaration_def_def rejects_Seq1 rejects_id_word)

lemma reads_members:
  assumes "\<forall>(d, i) \<in> set ms. readable_name i \<and> readable_type d" and "good_lines ls"
    and "flat (map (\<lambda>(d, i). i @ '' :: '' @ show_type d) ms @ ''end'' # ls) t"
  shows "\<exists>r. reads (Kleene (Rule R_variable_declaration)) t
      (A_list (map (\<lambda>(d, i). A_value (V_declaration \<lparr>decl_name = i, decl_datatype = type_source d\<rparr>)) ms)) r \<and>
    flat (''end'' # ls) r"
  using assms(1,3)
proof (induction ms arbitrary: t)
  case Nil
  then have "starts ''end'' t" by (auto elim!: flat_ConsE simp: starts_def is_space_def)
  with Nil show ?case by (auto intro: reads_Kleene_stop rejects_declaration_end)
next
  case (Cons m ms)
  obtain d i where m: "m = (d, i)" by (cases m)
  let ?lines = "map (\<lambda>(d, i). i @ '' :: '' @ show_type d) ms @ ''end'' # ls"
  define v where "v = \<lparr>var_id = 0, var_name = i, var_type = d\<rparr>"
  have v: "readable_declaration v" using Cons.prems(1) by (simp add: v_def m readable_declaration_def)
  from Cons.prems(2) have "flat (show_declaration v # ?lines) t" by (simp add: m v_def show_declaration_def)
  moreover have "good_lines ?lines" using assms(2) Cons.prems(1) good_lines_members [of ms] by simp
  ultimately obtain w r where r: "t = w @ show_declaration v @ CHR 0x0A # r" "spaces w" "flat ?lines (CHR 0x0A # r)"
    "first_char (CHR 0x0A # r) \<noteq> Some CHR ''{''" by (rule flat_line)
  have "reads (Rule R_variable_declaration) t (A_value (V_declaration (declaration_source v))) (CHR 0x0A # r)"
    using reads_declaration [OF v r(2) _ r(4)] r(1) by simp
  note decl = reads_Kleene [OF this]
  from Cons.IH [OF _ r(3)] Cons.prems(1) obtain r' where
    "reads (Kleene (Rule R_variable_declaration)) (CHR 0x0A # r)
      (A_list (map (\<lambda>(d, i). A_value (V_declaration \<lparr>decl_name = i, decl_datatype = type_source d\<rparr>)) ms)) r'"
    "flat (''end'' # ls) r'" by auto
  with decl show ?case by (auto simp: m v_def declaration_source_def)
qed

lemma as_members [simp]:
  "as_all as_declaration (map (\<lambda>(d, i). A_value (V_declaration \<lparr>decl_name = i, decl_datatype = f d\<rparr>)) ms) =
     Some (map (\<lambda>(d, i). \<lparr>decl_name = i, decl_datatype = f d\<rparr>) ms)"
  by (induction ms) auto

lemma reads_struct:
  assumes t: "readable_struct t" and ls: "good_lines ls" and s: "flat (show_struct t @ ls) s"
  shows "\<exists>r. reads (Rule R_definition) s (A_value (V_definition (Ast_struct_def (struct_source t)))) r \<and> flat ls r"
proof -
  let ?members = "map (\<lambda>(d, i). i @ '' :: '' @ show_type d) (struct_members t)"
  have n: "readable_name (struct_id t)" and ms: "\<forall>(d, i) \<in> set (struct_members t). readable_name i \<and> readable_type d"
    using t by (auto simp: readable_struct_def)
  have good: "good_lines (indented ?members @ ''end'' # ls)" using ls good_lines_members [OF ms] by simp
  from s have "flat ((''struct '' @ struct_id t) # indented ?members @ ''end'' # ls) s"
    by (simp add: show_struct_def split_def)
  then obtain w r where r: "s = w @ (''struct '' @ struct_id t) @ CHR 0x0A # r" "spaces w"
    "flat (indented ?members @ ''end'' # ls) (CHR 0x0A # r)" using good by (rule flat_line)
  from reads_members [OF ms ls flat_indented [OF r(3)]] obtain r1 where
    r1: "reads (Kleene (Rule R_variable_declaration)) (CHR 0x0A # r)
      (A_list (map (\<lambda>(d, i). A_value (V_declaration \<lparr>decl_name = i, decl_datatype = type_source d\<rparr>)) (struct_members t))) r1"
    "flat (''end'' # ls) r1" by blast
  from reads_word_line [OF r1(2)] obtain r2 where r2: "reads (Lit ''end'') r1 A_none r2" "flat ls r2" by blast
  have head: "reads (Lit ''struct'') s A_none ('' '' @ struct_id t @ CHR 0x0A # r)"
    using reads_token(1) [OF r(2), of "CHR ''s''" "''truct''"] r(1) by (simp add: is_space_def)
  have "reads (Rule R_id) ('' '' @ struct_id t @ CHR 0x0A # r) (A_string (struct_id t)) (CHR 0x0A # r)"
    by (rule reads_id [OF n]) simp_all
  with head r1(1) r2(1) have "reads struct_definition_def s (A_pair (A_string (struct_id t))
      (A_list (map (\<lambda>(d, i). A_value (V_declaration \<lparr>decl_name = i, decl_datatype = type_source d\<rparr>)) (struct_members t)))) r2"
    by (simp add: struct_definition_def_def parse_Expect)
  then have "reads (Rule R_struct_definition) s (A_value (V_definition (Ast_struct_def (struct_source t)))) r2"
    by (simp add: parse_Rule struct_source_def)
  then have "reads (Rule R_user_defined_type) s (A_value (V_definition (Ast_struct_def (struct_source t)))) r2"
    by (simp add: parse_Rule [of R_user_defined_type])
  moreover have "rejects (Rule R_function) s"
    using r by (intro rejects_Rule) (simp add: function_def_def rejects_Expect rejects_Lit not_starts is_space_def)
  ultimately show ?thesis
    using r2(2) by (auto simp: parse_Rule [of R_definition] definition_def_def parse_Alt)
qed

lemma as_declarations [simp]:
  "as_all as_declaration (map (\<lambda>v. A_value (V_declaration (f v))) vs) = Some (map f vs)"
  by (induction vs) auto

lemma reads_params:
  assumes "\<forall>v \<in> set vs. readable_declaration v"
  shows "\<exists>a. reads (Opt (Sep_by (Rule R_variable_declaration) (Lit '','')))
      (comma_separated (map show_declaration vs) @ '')'' @ s) a ('')'' @ s) \<and>
    as_list as_declaration a = Some (map declaration_source vs) \<and> (\<exists>x. a = A_opt x)"
proof (cases vs)
  case Nil
  have "rejects (Rule R_id) ('')'' @ s)" by (rule rejects_id_first) (simp add: ascii_alpha_def)
  then have "rejects (Sep_by (Rule R_variable_declaration) (Lit '','')) ('')'' @ s)"
    by (intro rejects_Sep_by rejects_Rule) (simp add: variable_declaration_def_def rejects_Seq1)
  then show ?thesis by (auto simp: Nil dest: reads_Opt_stop)
next
  case (Cons v us)
  have "reads (Sep_by (Rule R_variable_declaration) (Lit '','')) ([] @ comma_separated (map show_declaration (v # us)) @ CHR '')'' # s)
      (A_list (map (\<lambda>v. A_value (V_declaration (declaration_source v))) (v # us))) (CHR '')'' # s)"
  proof (rule reads_separated)
    fix x u d t assume "x \<in> set (v # us)" and "spaces u" and "d \<in> {CHR '')'', CHR '',''}"
    with assms show "reads (Rule R_variable_declaration) (u @ show_declaration x @ d # t)
        (A_value (V_declaration (declaration_source x))) (d # t)"
      by (intro reads_declaration) (auto simp: Cons)
  qed simp_all
  from reads_Opt [OF this] show ?thesis by (auto simp: Cons)
qed

lemma reads_function:
  assumes f: "readable_function f" and ls: "good_lines ls" and s: "flat (show_function f @ ls) s"
  shows "\<exists>r. reads (Rule R_definition) s (A_value (V_definition (Ast_function_def (function_source f)))) r \<and> flat ls r"
proof -
  from f have n: "readable_name (fn_name f)" and ps: "\<forall>v \<in> set (fn_params f). readable_declaration v"
    and res: "readable_declaration (fn_result f)" and b: "readable_block (fn_body f)" by (auto simp: readable_function_def)
  let ?params = "comma_separated (map show_declaration (fn_params f))"
  let ?body = "indented (show_block (fn_body f)) @ ''end'' # ls"
  from s have "flat ((''function '' @ fn_name f @ ''('' @ ?params @ '') -> '' @ show_declaration (fn_result f)) # ?body) s"
    by (simp add: show_function_def)
  moreover have "good_lines ?body" using ls good_lines_block [OF b] by simp
  ultimately obtain w r where
    r: "s = w @ (''function '' @ fn_name f @ ''('' @ ?params @ '') -> '' @ show_declaration (fn_result f)) @ CHR 0x0A # r"
    "spaces w" "flat ?body (CHR 0x0A # r)" "first_char (CHR 0x0A # r) \<noteq> Some CHR ''{''" by (rule flat_line)
  from reads_readable_block [OF b ls r(3)] obtain r1 where
    r1: "reads (Rule R_expression_block) (CHR 0x0A # r) (A_value (V_block (block_source (fn_body f)))) r1"
    "flat (''end'' # ls) r1" by blast
  from reads_word_line [OF r1(2)] obtain r2 where r2: "reads (Lit ''end'') r1 A_none r2" "flat ls r2" by blast
  let ?result = "'' '' @ show_declaration (fn_result f) @ CHR 0x0A # r"
  have head: "reads (Lit ''function'') s A_none ('' '' @ fn_name f @ ''('' @ ?params @ '') ->'' @ ?result)"
    using reads_token(1) [OF r(2), of "CHR ''f''" "''unction''"] r(1) by (simp add: is_space_def)
  have name: "reads (Rule R_id) ('' '' @ fn_name f @ ''('' @ ?params @ '') ->'' @ ?result) (A_string (fn_name f))
      (''('' @ ?params @ '') ->'' @ ?result)"
    by (rule reads_id [OF n]) simp_all
  obtain x where params: "reads (Opt (Sep_by (Rule R_variable_declaration) (Lit '','')))
      (?params @ '')'' @ '' ->'' @ ?result) (A_opt x) ('')'' @ '' ->'' @ ?result)"
    "as_list as_declaration (A_opt x) = Some (map declaration_source (fn_params f))"
    using reads_params [OF ps] by blast
  have arrow: "reads (Seq (Lit '')'') (Lit ''->'')) ('')'' @ '' ->'' @ ?result) A_none ?result"
    using reads_token(1) [of "'' ''" "CHR ''-''" "''>''" ?result] by (simp add: parse_Seq reads_char(2))
  have result: "reads (Rule R_variable_declaration) ?result (A_value (V_declaration (declaration_source (fn_result f)))) (CHR 0x0A # r)"
    by (rule reads_declaration [OF res _ _ r(4)]) simp_all
  have "reads function_def s (A_pair (A_pair (A_pair (A_string (fn_name f)) (A_opt x))
      (A_value (V_declaration (declaration_source (fn_result f))))) (A_value (V_block (block_source (fn_body f))))) r2"
    using head name params(1) arrow result r1(1) r2(1) by (simp add: function_def_def parse_Expect reads_char(2))
  then have "reads (Rule R_function) s (A_value (V_definition (Ast_function_def (function_source f)))) r2"
    using params(2) by (simp add: parse_Rule [of R_function] function_source_def)
  with r2(2) show ?thesis by (auto simp: parse_Rule [of R_definition] definition_def_def parse_Alt)
qed

section \<open>Modules\<close>

definition reads_definition :: "string list \<times> ast_definition \<Rightarrow> bool" where
  "reads_definition d \<longleftrightarrow> good_lines (fst d) \<and> (\<forall>ls s. good_lines ls \<longrightarrow> flat (fst d @ ls) s \<longrightarrow>
     (\<exists>r. reads (Rule R_definition) s (A_value (V_definition (snd d))) r \<and> flat ls r))"

lemma struct_definition_read: "readable_struct t \<Longrightarrow> reads_definition (show_struct t, Ast_struct_def (struct_source t))"
proof -
  assume t: "readable_struct t"
  then have "good_lines (map (\<lambda>(d, i). i @ '' :: '' @ show_type d) (struct_members t))"
    by (intro good_lines_members) (simp add: readable_struct_def)
  moreover have "good_line (''struct '' @ n)" for n by (rule good_line_word) (simp_all add: ascii_alpha_def)
  ultimately have "good_lines (show_struct t)" by (simp add: show_struct_def split_def)
  with reads_struct [OF t] show ?thesis by (simp add: reads_definition_def)
qed

lemma function_definition_read: "readable_function f \<Longrightarrow> reads_definition (show_function f, Ast_function_def (function_source f))"
proof -
  assume f: "readable_function f"
  then have "good_lines (show_block (fn_body f))" by (intro good_lines_block) (simp add: readable_function_def)
  moreover have "good_line (''function '' @ n)" for n by (rule good_line_word) (simp_all add: ascii_alpha_def)
  ultimately have "good_lines (show_function f)" by (simp add: show_function_def)
  with reads_function [OF f] show ?thesis by (simp add: reads_definition_def)
qed

lemma rejects_definition_end: "spaces t \<Longrightarrow> rejects (Rule R_definition) t"
proof -
  assume "spaces t"
  then have drop: "dropWhile is_space t = []" by (simp add: spaces_def)
  have no: "\<not> starts (c # l) t" for c l unfolding starts_def drop by simp
  then have "rejects (Rule R_function) t"
    by (intro rejects_Rule) (simp add: function_def_def rejects_Expect rejects_Lit)
  moreover have "rejects (Rule R_struct_definition) t" using no
    by (intro rejects_Rule) (simp add: struct_definition_def_def rejects_Expect rejects_Lit)
  then have "rejects (Rule R_user_defined_type) t" by (intro rejects_Rule) simp
  ultimately show ?thesis by (intro rejects_Rule) (simp add: definition_def_def rejects_Alt)
qed

lemma reads_definitions:
  assumes "\<forall>d \<in> set ds. reads_definition d" and "flat (concat (map fst ds)) s"
  shows "\<exists>r. reads (Kleene (Rule R_definition)) s (A_list (map (\<lambda>d. A_value (V_definition (snd d))) ds)) r \<and> spaces r"
  using assms
proof (induction ds arbitrary: s)
  case Nil
  then have "spaces s" by simp
  from reads_Kleene_stop [OF rejects_definition_end [OF this]] this show ?case by auto
next
  case (Cons d ds)
  have "good_lines (concat (map fst ds))"
    using Cons.prems(1) by (auto simp: good_lines_def reads_definition_def)
  moreover from Cons.prems have "reads_definition d" "flat (fst d @ concat (map fst ds)) s" by simp_all
  ultimately obtain r where r: "reads (Rule R_definition) s (A_value (V_definition (snd d))) r"
    "flat (concat (map fst ds)) r" unfolding reads_definition_def by blast
  from Cons.IH [OF _ r(2)] Cons.prems(1) obtain t where
    "reads (Kleene (Rule R_definition)) r (A_list (map (\<lambda>d. A_value (V_definition (snd d))) ds)) t" "spaces t" by auto
  with reads_Kleene [OF r(1)] show ?case by auto
qed

lemma as_definitions [simp]:
  "as_all as_definition (map (\<lambda>d. A_value (V_definition (f d))) ds) = Some (map f ds)"
  by (induction ds) auto

lemma reads_module:
  assumes n: "readable_name n" and ds: "\<forall>d \<in> set ds. reads_definition d"
    and s: "flat ((''module '' @ n) # [] # concat (map fst ds)) s"
  shows "phrase_parse parse s = Inr (Some \<lparr>ast_module_id = n, ast_definitions = map snd ds\<rparr>)"
proof -
  have "good_line []" by (simp add: good_line_def good_start_def)
  then have "good_lines ([] # concat (map fst ds))" using ds by (auto simp: good_lines_def reads_definition_def)
  with s obtain w r where r: "s = w @ (''module '' @ n) @ CHR 0x0A # r" "spaces w"
    "flat ([] # concat (map fst ds)) (CHR 0x0A # r)" by (rule flat_line)
  from r(3) obtain v t where t: "CHR 0x0A # r = v @ CHR 0x0A # t" "spaces v" "flat (concat (map fst ds)) t"
    by (auto elim: flat_ConsE)
  have "flat (concat (map fst ds)) (u @ CHR 0x0A # t)" if "spaces u" for u
    using that flat_space [OF t(3)] by (induction u) (simp_all add: flat_space)
  with t(1,2) have "flat (concat (map fst ds)) (CHR 0x0A # r)" by simp
  from reads_definitions [OF ds this] obtain e where
    e: "reads (Kleene (Rule R_definition)) (CHR 0x0A # r) (A_list (map (\<lambda>d. A_value (V_definition (snd d))) ds)) e" "spaces e"
    by blast
  have "reads (Lit ''module'') s A_none ('' '' @ n @ CHR 0x0A # r)"
    using reads_token(1) [OF r(2), of "CHR ''m''" "''odule''"] r(1) by (simp add: is_space_def)
  moreover have "reads (Rule R_id) ('' '' @ n @ CHR 0x0A # r) (A_string n) (CHR 0x0A # r)"
    by (rule reads_id [OF n]) simp_all
  ultimately have "reads (Rule R_module) s (A_value (V_module \<lparr>ast_module_id = n, ast_definitions = map snd ds\<rparr>)) e"
    using e(1) by (simp add: parse_Rule [of R_module] module_def_def parse_Expect)
  moreover have "dropWhile is_space e = []" using e(2) by (simp add: spaces_def)
  ultimately show ?thesis by (simp add: phrase_parse_def del: dropWhile_eq_Nil_conv)
qed

lemma reads_shown_module:
  assumes m: "readable_module m" and orders: "iteration_order fs (function_index m)" "iteration_order ts (type_index m)"
  shows "phrase_parse parse (rendered (show_module ts fs m)) = Inr (Some (module_source ts fs m))"
proof -
  let ?ds = "map (\<lambda>t. (show_struct t, Ast_struct_def (struct_source t))) (module_types ts m) @
    map (\<lambda>f. (show_function f, Ast_function_def (function_source f))) (module_functions fs m)"
  have "\<forall>t \<in> set (module_types ts m). readable_struct t"
    using m orders by (fastforce simp: module_types_def entries_def readable_module_def iteration_order_def)
  moreover have "\<forall>f \<in> set (module_functions fs m). readable_function f"
    using m orders by (fastforce simp: module_functions_def entries_def readable_module_def iteration_order_def)
  ultimately have ds: "\<forall>d \<in> set ?ds. reads_definition d"
    using struct_definition_read function_definition_read by auto
  obtain n where n: "mod_id m = [n]" "readable_name n" using m by (auto simp: readable_module_def)
  have lines: "show_module ts fs m = (''module '' @ n) # [] # concat (map fst ?ds)"
    by (simp add: show_module_def n(1) comp_def)
  have source: "module_source ts fs m = \<lparr>ast_module_id = n, ast_definitions = map snd ?ds\<rparr>"
    by (simp add: module_source_def n(1) comp_def)
  show ?thesis unfolding lines source by (rule reads_module [OF n(2) ds flat_rendered])
qed

end

section \<open>The text is ASCII\<close>

definition ascii_text :: "string \<Rightarrow> bool" where
  "ascii_text s \<longleftrightarrow> (\<forall>c \<in> set s. is_ascii c)"

lemma ascii_text_simps [simp]:
  "ascii_text []" "ascii_text (c # s) \<longleftrightarrow> is_ascii c \<and> ascii_text s" "ascii_text (s @ t) \<longleftrightarrow> ascii_text s \<and> ascii_text t"
  by (auto simp: ascii_text_def)

lemma id_char_ascii: "id_char c \<Longrightarrow> is_ascii c"
  by (auto simp: id_char_def ascii_alnum_def ascii_alpha_def is_ascii_def Let_def)

lemma ascii_name: "readable_name n \<Longrightarrow> ascii_text n"
  using readable_nameD(3) id_char_ascii by (auto simp: ascii_text_def)

lemma ascii_number: "0 \<le> i \<Longrightarrow> ascii_text (int_to_string i)"
  using to_string_digits [of "nat i"] id_char_ascii id_char_classes(2)
  by (auto simp: ascii_text_def int_to_string_def)

lemma ascii_type: "readable_type t \<Longrightarrow> ascii_text (show_type t)"
  by (induction t rule: readable_type.induct) (simp_all add: is_ascii_def ascii_number)

lemma ascii_commas: "\<forall>s \<in> set ss. ascii_text s \<Longrightarrow> ascii_text (comma_separated ss)"
  by (induction ss rule: comma_separated.induct) (simp_all add: is_ascii_def)

lemma ascii_enclosed [simp]: "ascii_text (enclosed b s) = ascii_text s"
  by (simp add: enclosed_def is_ascii_def)

lemma ascii_operator: "readable_operator t \<or> t = Assign \<or> t = Plus_assign \<Longrightarrow> ascii_text (binary_text t)"
  by (auto simp: readable_operator_def binary_text_def is_ascii_def)

lemma ascii_expr: "readable r e \<Longrightarrow> ascii_text (show_expr p e)"
proof (induction r e arbitrary: p rule: readable.induct)
  case (4 r t a)
  then show ?case by (auto simp: unary_text_def is_ascii_def)
next
  case (6 r a es)
  then show ?case using ascii_commas [of "map (show_expr Statement) es"] by (simp add: is_ascii_def)
next
  case (8 r n es)
  then show ?case using ascii_commas [of "map (show_expr Statement) es"] by (simp add: is_ascii_def ascii_name)
qed (simp_all add: is_ascii_def ascii_name ascii_number ascii_operator)

lemma ascii_declaration: "readable_declaration v \<Longrightarrow> ascii_text (show_declaration v)"
  by (simp add: show_declaration_def readable_declaration_def ascii_name ascii_type is_ascii_def)

lemma ascii_indented [simp]: "(\<forall>l \<in> set (indented ls). ascii_text l) = (\<forall>l \<in> set ls. ascii_text l)"
  by (simp add: indented_def is_ascii_def)

lemma ascii_statement: "statement e \<Longrightarrow> \<forall>l \<in> set (show_lines e). ascii_text l"
proof (induction e rule: statement.induct)
  case (1 t a b)
  then show ?case
    using ascii_expr [of False a] ascii_expr [of True b] ascii_operator [of t] by (auto simp: is_ascii_def)
next
  case (2 order v l u i b)
  have "ascii_text (order_words order)" by (cases order) (simp_all add: is_ascii_def)
  with 2 ascii_expr [of False l] ascii_expr [of False i] ascii_expr [of False u] show ?case
    by (simp add: ball_Un ascii_declaration is_ascii_def)
next
  case (3 c t e)
  then have "\<forall>l \<in> set (case e of None \<Rightarrow> [] | Some b \<Rightarrow> ''else'' # indented (concat (map show_lines (body_of b)))). ascii_text l"
    by (cases e) (simp_all add: is_ascii_def)
  with 3 ascii_expr [of True c] show ?case by (simp add: ball_Un is_ascii_def)
next
  case (4 v i)
  then show ?case using ascii_expr [of True i] by (simp add: ascii_declaration is_ascii_def)
qed simp_all

lemma ascii_struct: "readable_struct t \<Longrightarrow> \<forall>l \<in> set (show_struct t). ascii_text l"
proof -
  assume t: "readable_struct t"
  then have "\<forall>l \<in> set (map (\<lambda>(d, i). i @ '' :: '' @ show_type d) (struct_members t)). ascii_text l"
    by (auto simp: readable_struct_def ascii_name ascii_type is_ascii_def)
  with t show ?thesis
    by (simp add: show_struct_def ball_Un readable_struct_def ascii_name is_ascii_def del: set_map)
qed

lemma ascii_function: "readable_function f \<Longrightarrow> \<forall>l \<in> set (show_function f). ascii_text l"
proof -
  assume f: "readable_function f"
  then have "ascii_text (comma_separated (map show_declaration (fn_params f)))"
    by (intro ascii_commas) (simp add: readable_function_def ascii_declaration)
  moreover from f have "\<forall>l \<in> set (show_block (fn_body f)). ascii_text l"
    using ascii_statement by (auto simp: readable_function_def readable_block_def show_block_def)
  ultimately show ?thesis
    using f by (simp add: show_function_def ball_Un readable_function_def ascii_name ascii_declaration is_ascii_def)
qed

lemma ascii_module:
  assumes m: "readable_module m" and orders: "iteration_order fs (function_index m)" "iteration_order ts (type_index m)"
  shows "\<forall>c \<in> set (rendered (show_module ts fs m)). is_ascii c"
proof -
  have "\<forall>t \<in> set (module_types ts m). readable_struct t" "\<forall>f \<in> set (module_functions fs m). readable_function f"
    using m orders by (fastforce simp: module_types_def module_functions_def entries_def readable_module_def iteration_order_def)+
  then have "\<forall>l \<in> set (concat (map show_struct (module_types ts m)) @ concat (map show_function (module_functions fs m))).
      ascii_text l"
    using ascii_struct ascii_function by fastforce
  moreover obtain n where "mod_id m = [n]" "readable_name n" using m by (auto simp: readable_module_def)
  ultimately have "\<forall>l \<in> set (show_module ts fs m). ascii_text l"
    by (simp add: show_module_def ball_Un ascii_name is_ascii_def)
  then show ?thesis by (auto simp: rendered_def ascii_text_def is_ascii_def)
qed

section \<open>Saving and loading\<close>

text \<open>Rendering a block into a plain text writes its lines one after the other.\<close>

locale carrot_form = carrot_library +
  fixes render :: "'a \<Rightarrow> string"
  assumes render_lines: "render b = rendered (lines b)"

interpretation line_form: carrot_form line_blocks "\<lambda>b. b" rendered
  by unfold_locales simp

definition save_module :: "'b carrot \<Rightarrow> ('b \<Rightarrow> string) \<Rightarrow> string list \<Rightarrow> string list \<Rightarrow> qmodule \<Rightarrow> string result" where
  "save_module C render ts fs m = rbind (pretty_print_module C ts fs m) (\<lambda>serialized_code. Inr (render serialized_code))"

interpretation qir_run: qir_reader "run read_real rule_parser rule_attribute"
  by unfold_locales

text \<open>C10. Saving and loading keep a module: for a module in the part of the language that has a text, with any order
  of its functions and types, \<open>save\<close> writes a text, and \<open>load\<close> reads from it, with the grammar of the parser and its
  analysis of names and types, a module with the same name, the same structures and, function by
  function, the same names, parameters, results and bodies; only the addresses of the variables are new.\<close>
theorem saved_module_loaded:
  assumes "carrot_form C lines render" and "qir_reader parse" and "readable_module m"
    and "iteration_order fs (function_index m)" and "iteration_order ts (type_index m)"
  shows "\<exists>code m'. save_module C render ts fs m = Inr code \<and>
    load_module (parse_qir_text parse module_address address) this code = Inr m' \<and> same_module m m'"
proof -
  have library: "carrot_library C lines" and render: "\<And>b. render b = rendered (lines b)"
    using assms(1) by (simp_all add: carrot_form_def carrot_form_axioms_def)
  from carrot_library.prints_module [OF library assms(3-5)] obtain b where
    b: "pretty_print_module C ts fs m = Inr b" "lines b = show_module ts fs m" by blast
  let ?code = "rendered (show_module ts fs m)"
  have "phrase_parse parse ?code = Inr (Some (module_source ts fs m))"
    by (rule qir_reader.reads_shown_module [OF assms(2-5)])
  from parse_qir_source [where read = "phrase_parse parse", OF assms(3-5) ascii_module [OF assms(3-5)] this] obtain m' where
    m': "parse_qir (phrase_parse parse) module_address address ?code = Inr m'" "same_module m m'" by blast
  have "save_module C render ts fs m = Inr ?code" using b render by (simp add: save_module_def)
  moreover have "load_module (parse_qir_text parse module_address address) this ?code = Inr (move_assign this m')"
    using m'(1) by (simp add: load_module_def parse_qir_text_def)
  moreover have "same_module m (move_assign this m')" using m'(2) by (simp add: same_module_def move_assign_def)
  ultimately show ?thesis by blast
qed

definition saved_example :: qmodule where
  "saved_example =
     (let n = \<lparr>var_id = 1, var_name = ''n'', var_type = Integer_t\<rparr>;
          x = \<lparr>var_id = 2, var_name = ''x'', var_type = Array_t Double_t 1\<rparr>;
          i = \<lparr>var_id = 3, var_name = ''i'', var_type = Integer_t\<rparr>;
          access = Subscription_expr (Variable_ref_expr x) [Variable_ref_expr i];
          product = Binary_operator_expr Multiplies
            (Binary_operator_expr Plus (Variable_ref_expr i) (Integer_literal_expr 1)) (Variable_ref_expr n);
          f = make_function 7 ''fill'' [n] x (Compound_expr Sequential
            [For_expr Unordered i (Integer_literal_expr 0) (Variable_ref_expr n) (Integer_literal_expr 1)
              (Compound_expr Sequential [Binary_operator_expr Assign access product])])
      in (new_module 7 [''test''])\<lparr>function_index := [''fill'' \<mapsto> f],
           type_index := [''Cell'' \<mapsto> Struct ''Cell'' [(Double_t, ''mass'')]]\<rparr>)"

lemma saved_example_readable:
  "readable_module saved_example" "iteration_order [''fill''] (function_index saved_example)"
  "iteration_order [''Cell''] (type_index saved_example)"
proof -
  have names: "readable_name ''test''" "readable_name ''fill''" "readable_name ''Cell''" "readable_name ''mass''"
    "readable_name ''n''" "readable_name ''x''" "readable_name ''i''"
    by (simp_all add: readable_name_def valid_id_def reserved_prefixes_def id_char_def ascii_alnum_def ascii_alpha_def)
  show "readable_module saved_example"
    by (auto simp: saved_example_def Let_def readable_module_def module_inv_def new_module_def make_function_def names
        readable_function_def readable_struct_def readable_block_def readable_declaration_def readable_operator_def
        operator_level_values i64_max_def function_resolved_def)
  show "iteration_order [''fill''] (function_index saved_example)" "iteration_order [''Cell''] (type_index saved_example)"
    by (auto simp: saved_example_def Let_def iteration_order_def new_module_def)
qed

theorem saved_module_loaded_witness:
  "\<exists>code m'. save_module line_blocks rendered [''Cell''] [''fill''] saved_example = Inr code \<and>
     load_module (parse_qir_text (run (\<lambda>s. None) rule_parser rule_attribute) 7 10) (new_module 9 []) code = Inr m' \<and>
     same_module saved_example m'"
  by (rule saved_module_loaded [OF line_form.carrot_form_axioms qir_run.qir_reader_axioms saved_example_readable(1,2)
      saved_example_readable(3)])

end
