(* ===== verification/QirLimits.thy ===== *)
theory QirLimits
  imports QirRoundTrip
begin

text \<open>
  Where the text of a module says something else than the module: the printer forgets how operators of one level
  are grouped, and the grammar has no reading for some names and operators.
\<close>

section \<open>The grouping of operators\<close>

context carrot_library
begin

lemma prints_grouped:
  assumes t: "readable_operator t" and e: "readable False a" "readable False b" "readable False c"
  shows "\<exists>ls. prints (print C (Binary_operator_expr t (Binary_operator_expr t a b) c) p) ls \<and>
    prints (print C (Binary_operator_expr t a (Binary_operator_expr t b c)) p) ls"
proof -
  let ?L = "operator_level t"
  let ?op = "'' '' @ binary_text t @ '' ''"
  have t': "readable_operator t \<or> t = Assign \<or> t = Plus_assign" using t by blast
  note one = prints_expr [OF e(1), of ?L] prints_expr [OF e(2), of ?L] prints_expr [OF e(3), of ?L]
  have "prints (print C (Binary_operator_expr t a b) ?L) [show_expr ?L a @ ?op @ show_expr ?L b]"
    using prints_binary [OF t' one(1,2), of ?L] by (simp add: enclosed_def del: print.simps)
  from prints_binary [OF t' this one(3), of p]
  have "prints (print C (Binary_operator_expr t (Binary_operator_expr t a b) c) p)
      [enclosed (?L < p) (show_expr ?L a @ ?op @ show_expr ?L b @ ?op @ show_expr ?L c)]"
    by (simp del: print.simps)
  moreover have "prints (print C (Binary_operator_expr t b c) ?L) [show_expr ?L b @ ?op @ show_expr ?L c]"
    using prints_binary [OF t' one(2,3), of ?L] by (simp add: enclosed_def del: print.simps)
  from prints_binary [OF t' one(1) this, of p]
  have "prints (print C (Binary_operator_expr t a (Binary_operator_expr t b c)) p)
      [enclosed (?L < p) (show_expr ?L a @ ?op @ show_expr ?L b @ ?op @ show_expr ?L c)]"
    by (simp del: print.simps)
  ultimately show ?thesis by blast
qed

end



section \<open>Names and operators without a reading\<close>

context qir_reader
begin

lemma reads_less_for_less_equal: "spaces w \<Longrightarrow> reads comparison_op (w @ ''<='' @ s) (A_string ''<'') (''='' @ s)"
proof -
  assume w: "spaces w"
  have "rejects (Str ''=='') (w @ ''<='' @ s)" "rejects (Str ''!='') (w @ ''<='' @ s)"
    using w by (auto intro!: rejects_Str not_starts)
  moreover have "reads (Str ''<'') (w @ ''<='' @ s) (A_string ''<'') (''='' @ s)"
    using reads_token(2) [OF w, of "CHR ''<''" "[]" "''='' @ s"] by simp
  ultimately show ?thesis by (simp add: comparison_op_def parse_Alt)
qed

text \<open>No comparison follows \<open>\<le>\<close>: what comes after \<open><\<close> is not the beginning of an expression.\<close>

lemma rejects_less_equal:
  assumes "reads (Rule R_additions) t a (w @ ''<='' @ s)" and "spaces w"
  shows "rejects (Rule R_comparison) t"
proof (rule rejects_Rule)
  have "no_start (''='' @ s)" by (simp add: no_start_def)
  from rejects_no_start(5) [OF this]
  have "rejects (Rule R_comparisons) (''='' @ s)" .
  with reads_less_for_less_equal [OF assms(2)] assms(1) show "rejects (rule_parser R_comparison) t"
    by (simp add: comparison_def_def parse_Seq)
qed

lemma reads_not_in_name: "spaces w \<Longrightarrow> reads unary_op (w @ ''not'' @ n) (A_string ''not'') n"
proof -
  assume w: "spaces w"
  have "rejects (Str ''+'') (w @ ''not'' @ n)" "rejects (Str ''-'') (w @ ''not'' @ n)"
    using w by (auto intro!: rejects_Str not_starts simp: is_space_def)
  with reads_token(2) [OF w, of "CHR ''n''" "''ot''" n] show ?thesis
    by (simp add: unary_op_def parse_Alt is_space_def)
qed

text \<open>A name that begins with a keyword is no name.\<close>

lemma rejects_keyword_prefix:
  assumes "spaces w" and "k \<in> {''for'', ''if'', ''else'', ''end'', ''module'', ''struct'', ''function'', ''let'',
     ''parallel'', ''unordered'', ''true'', ''false''}"
  shows "rejects (Rule R_id) (w @ k @ n)"
  using assms by (intro rejects_id_word [of k]) (auto simp: starts_def is_space_def)

end

text \<open>The operator \<open>\<le>\<close> of the grammar is never read: the alternative \<open><\<close> stands before it and matches, and no
  expression begins with the equals sign that is left.  Names that begin with a keyword are no names, and a name that
  begins with \<open>not\<close> is read as a negation.\<close>

lemma less_equal_unreadable:
  assumes "qir_reader parse" and "spaces w" and "parse (Rule R_additions) True t = Some (Match a (w @ ''<='' @ s))"
  shows "parse (Rule R_comparison) True t = Some Fail"
  by (rule qir_reader.rejects_less_equal [OF assms(1,3,2)])

lemma keyword_prefix_unreadable:
  assumes "qir_reader parse" and "spaces w"
  shows "parse (Rule R_id) True (w @ ''if'' @ n) = Some Fail"
  using qir_reader.rejects_keyword_prefix [OF assms, of "''if''" n] by simp

lemma not_in_name_is_negation:
  assumes "qir_reader parse" and "spaces w"
  shows "parse unary_op True (w @ ''not'' @ n) = Some (Match (A_string ''not'') n)"
  by (rule qir_reader.reads_not_in_name [OF assms])

end
